(* ===== verification/Prelude.thy ===== *)
theory Prelude
  imports Main "HOL-Library.Word"
begin

text \<open>
  Shared vocabulary of the development: the machine types of \<^verbatim>\<open>src/dr_compat.h\<close>, the faults the
  code can run into and the result type that carries them, counted loops over that result type
  with their two proof rules, and the decimal and hexadecimal formatting the C++ code gets from
  \<^verbatim>\<open>snprintf\<close> and \<^verbatim>\<open>operator<<\<close>.
\<close>

unbundle bit_operations_syntax

named_theorems res_simps \<open>unfolding rules of the result type and of the loops\<close>
named_theorems tag_simps \<open>rewriting of label sets\<close>

section \<open>Machine types\<close>

type_synonym UINT8 = "8 word"
type_synonym UINT16 = "16 word"
type_synonym UINT32 = "32 word"
type_synonym UINT64 = "64 word"
type_synonym ADDRINT = "64 word"

lemma unat_plus1_less: "unat i < unat bound \<Longrightarrow> unat (i + 1) = Suc (unat i)" for i bound :: "'a :: len word"
proof -
  assume "unat i < unat bound"
  then have "Suc (unat i) < 2 ^ LENGTH('a)"
    using unsigned_less[of bound, where ?'a = nat] by linarith
  then show ?thesis by (simp add: unat_word_ariths)
qed

lemma unat_ucast_up:
  "LENGTH('a) \<le> LENGTH('b) \<Longrightarrow> unat (ucast (w :: 'a :: len word) :: 'b :: len word) = unat w"
proof -
  assume "LENGTH('a) \<le> LENGTH('b)"
  then have "unat w < 2 ^ LENGTH('b)"
    using unsigned_less[of w, where ?'a = nat] by (meson less_le_trans one_le_numeral power_increasing)
  then show ?thesis by (simp add: unsigned_ucast_eq take_bit_nat_eq_self)
qed

section \<open>Faults and results\<close>

text \<open>
  \<open>NullDeref\<close> is a read through a null pointer, \<open>OutOfRange\<close> an access outside a vector or an
  array, \<open>ProcessExit\<close> a call of \<^verbatim>\<open>libdft_die\<close> (which calls \<^verbatim>\<open>dr_exit_process(1)\<close>).
\<close>

datatype fault = NullDeref | OutOfRange | ProcessExit

type_synonym 'a res = "fault + 'a"

definition rbind :: "'a res \<Rightarrow> ('a \<Rightarrow> 'b res) \<Rightarrow> 'b res" where
  "rbind r f = (case r of Inl e \<Rightarrow> Inl e | Inr x \<Rightarrow> f x)"

lemma rbind_Inl [simp, res_simps]: "rbind (Inl e) f = Inl e"
  by (simp add: rbind_def)

lemma rbind_Inr [simp, res_simps]: "rbind (Inr x) f = f x"
  by (simp add: rbind_def)

lemma rbind_eq_Inr_iff: "rbind r f = Inr y \<longleftrightarrow> (\<exists>x. r = Inr x \<and> f x = Inr y)"
  by (cases r) auto

lemma rbind_cong [fundef_cong]:
  "r = r' \<Longrightarrow> (\<And>x. r' = Inr x \<Longrightarrow> f x = g x) \<Longrightarrow> rbind r f = rbind r' g"
  by (cases r') auto

section \<open>Counted loops\<close>

text \<open>
  \<open>for_loop i k f s\<close> is \<^verbatim>\<open>for (j = i; j < i + k; j++) s = f(j, s)\<close>, stopped by the first fault;
  \<open>for_upto n\<close> starts at 0.
\<close>

fun for_loop :: "nat \<Rightarrow> nat \<Rightarrow> (nat \<Rightarrow> 's \<Rightarrow> 's res) \<Rightarrow> 's \<Rightarrow> 's res" where
  "for_loop i 0 f s = Inr s"
| "for_loop i (Suc k) f s = rbind (f i s) (for_loop (Suc i) k f)"

definition for_upto :: "nat \<Rightarrow> (nat \<Rightarrow> 's \<Rightarrow> 's res) \<Rightarrow> 's \<Rightarrow> 's res" where
  "for_upto n f s = for_loop 0 n f s"

text \<open>Total rule: an invariant that every iteration re-establishes without a fault.\<close>

lemma for_loop_total:
  assumes "P i s"
    and "\<And>j t. i \<le> j \<Longrightarrow> j < i + k \<Longrightarrow> P j t \<Longrightarrow> \<exists>t'. f j t = Inr t' \<and> P (Suc j) t'"
  shows "\<exists>t. for_loop i k f s = Inr t \<and> P (i + k) t"
  using assms
proof (induction k arbitrary: i s)
  case 0
  then show ?case by simp
next
  case (Suc k)
  from Suc.prems(2)[of i s] Suc.prems(1) obtain t where t: "f i s = Inr t" "P (Suc i) t"
    by auto
  have "\<exists>u. for_loop (Suc i) k f t = Inr u \<and> P (Suc i + k) u"
    by (rule Suc.IH[OF t(2)]) (use Suc.prems(2) in auto)
  with t(1) show ?case by simp
qed

text \<open>Partial rule: what holds of the result if the loop comes to its end.\<close>

lemma for_loop_partial:
  assumes "for_loop i k f s = Inr u" and "P i s"
    and "\<And>j t t'. i \<le> j \<Longrightarrow> j < i + k \<Longrightarrow> P j t \<Longrightarrow> f j t = Inr t' \<Longrightarrow> P (Suc j) t'"
  shows "P (i + k) u"
  using assms
proof (induction k arbitrary: i s)
  case 0
  then show ?case by simp
next
  case (Suc k)
  from Suc.prems(1) obtain t where t: "f i s = Inr t" "for_loop (Suc i) k f t = Inr u"
    by (auto simp: rbind_eq_Inr_iff)
  have "P (Suc i) t" using Suc.prems(3)[of i s t] Suc.prems(2) t(1) by auto
  then have "P (Suc i + k) u"
    by (rule Suc.IH[OF t(2)]) (use Suc.prems(3) in auto)
  then show ?case by simp
qed

lemma for_upto_total:
  assumes "P 0 s" and "\<And>j t. j < n \<Longrightarrow> P j t \<Longrightarrow> \<exists>t'. f j t = Inr t' \<and> P (Suc j) t'"
  shows "\<exists>t. for_upto n f s = Inr t \<and> P n t"
  using for_loop_total[of P 0 s n f] assms by (simp add: for_upto_def)

lemma for_upto_partial:
  assumes "for_upto n f s = Inr u" and "P 0 s"
    and "\<And>j t t'. j < n \<Longrightarrow> P j t \<Longrightarrow> f j t = Inr t' \<Longrightarrow> P (Suc j) t'"
  shows "P n u"
  using for_loop_partial[of 0 n f s u P] assms by (simp add: for_upto_def)

lemma for_loop_Suc_right:
  "for_loop i (Suc k) f s = rbind (for_loop i k f s) (f (i + k))"
proof (induction k arbitrary: i s)
  case 0
  then show ?case by (cases "f i s") auto
next
  case (Suc k)
  then show ?case by (cases "f i s") auto
qed

lemma for_upto_0 [simp, res_simps]: "for_upto 0 f s = Inr s"
  by (simp add: for_upto_def)

lemma for_upto_Suc [res_simps]: "for_upto (Suc n) f s = rbind (for_upto n f s) (f n)"
  using for_loop_Suc_right[of 0 n f s] by (simp add: for_upto_def)

lemma for_loop_cong:
  "(\<And>j t. i \<le> j \<Longrightarrow> j < i + k \<Longrightarrow> f j t = g j t) \<Longrightarrow> for_loop i k f s = for_loop i k g s"
proof (induction k arbitrary: i s)
  case (Suc k)
  have "for_loop (Suc i) k f t = for_loop (Suc i) k g t" for t
    by (rule Suc.IH) (use Suc.prems in auto)
  then show ?case using Suc.prems[of i s] by (auto intro: rbind_cong)
qed simp

section \<open>Decimal and hexadecimal formatting\<close>

definition digit_char :: "nat \<Rightarrow> char" where
  "digit_char d = char_of (if d < 10 then 48 + d else 87 + d)"

fun dec_str :: "nat \<Rightarrow> string" where
  "dec_str n = (if n < 10 then [digit_char n] else dec_str (n div 10) @ [digit_char (n mod 10)])"

fun hex_str :: "nat \<Rightarrow> string" where
  "hex_str n = (if n < 16 then [digit_char n] else hex_str (n div 16) @ [digit_char (n mod 16)])"

declare dec_str.simps [simp del] hex_str.simps [simp del]

text \<open>Reading the digits back: the inverse of the two printers.\<close>

definition digit_val :: "char \<Rightarrow> nat" where
  "digit_val c = (let n = (of_char c :: nat) in if n < 58 then n - 48 else n - 87)"

definition read_base :: "nat \<Rightarrow> string \<Rightarrow> nat" where
  "read_base b s = foldl (\<lambda>a c. b * a + digit_val c) 0 s"

lemma digit_val_digit_char: "d < 16 \<Longrightarrow> digit_val (digit_char d) = d"
  by (auto simp: digit_val_def digit_char_def of_char_of Let_def)

lemma read_base_snoc: "read_base b (s @ [c]) = b * read_base b s + digit_val c"
  by (simp add: read_base_def)

lemma read_dec_str [simp]: "read_base 10 (dec_str n) = n"
proof (induction n rule: dec_str.induct)
  case (1 n)
  show ?case
  proof (cases "n < 10")
    case True
    then show ?thesis
      by (simp add: dec_str.simps[of n] read_base_def digit_val_digit_char)
  next
    case False
    then show ?thesis
      using 1 by (simp add: dec_str.simps[of n] read_base_snoc digit_val_digit_char)
  qed
qed

lemma read_hex_str [simp]: "read_base 16 (hex_str n) = n"
proof (induction n rule: hex_str.induct)
  case (1 n)
  show ?case
  proof (cases "n < 16")
    case True
    then show ?thesis
      by (simp add: hex_str.simps[of n] read_base_def digit_val_digit_char)
  next
    case False
    then show ?thesis
      using 1 by (simp add: hex_str.simps[of n] read_base_snoc digit_val_digit_char)
  qed
qed

lemma dec_str_inject [simp]: "dec_str m = dec_str n \<longleftrightarrow> m = n"
  by (metis read_dec_str)

lemma hex_str_inject [simp]: "hex_str m = hex_str n \<longleftrightarrow> m = n"
  by (metis read_hex_str)

lemma dec_str_not_Nil [simp]: "dec_str n \<noteq> []"
  by (subst dec_str.simps) simp

lemma hex_str_not_Nil [simp]: "hex_str n \<noteq> []"
  by (subst hex_str.simps) simp

lemma of_char_digit_char: "d < 10 \<Longrightarrow> (of_char (digit_char d) :: nat) = 48 + d"
  by (simp add: digit_char_def of_char_of)

lemma dec_str_digits: "c \<in> set (dec_str n) \<Longrightarrow> 48 \<le> (of_char c :: nat) \<and> of_char c < (58 :: nat)"
proof (induction n rule: dec_str.induct)
  case (1 n)
  show ?case
  proof (cases "n < 10")
    case True
    with "1.prems" show ?thesis by (simp add: dec_str.simps[of n] of_char_digit_char)
  next
    case False
    with "1.prems" have "c \<in> set (dec_str (n div 10)) \<or> c = digit_char (n mod 10)"
      by (auto simp: dec_str.simps[of n])
    then show ?thesis using "1.IH"[OF False] by (auto simp: of_char_digit_char)
  qed
qed

lemma comma_notin_dec_str [simp]: "CHR '','' \<notin> set (dec_str n)"
  using dec_str_digits[of "CHR '',''" n] by auto

text \<open>Comma-separated lists: what the set printer writes between its braces.\<close>

fun commas :: "string list \<Rightarrow> string" where
  "commas [] = []"
| "commas [x] = x"
| "commas (x # y # xs) = x @ CHR '','' # commas (y # xs)"

lemma split_at_comma:
  assumes "CHR '','' \<notin> set x" "CHR '','' \<notin> set y" "x @ CHR '','' # s = y @ CHR '','' # t"
  shows "x = y \<and> s = t"
proof -
  have "takeWhile (\<lambda>c. c \<noteq> CHR '','') (x @ CHR '','' # s) = x"
    "takeWhile (\<lambda>c. c \<noteq> CHR '','') (y @ CHR '','' # t) = y"
    using assms(1,2) by (auto simp: takeWhile_append takeWhile_eq_all_conv)
  with assms(3) show ?thesis by auto
qed

lemma commas_inject:
  assumes "commas xs = commas ys" "xs \<noteq> []" "ys \<noteq> []"
    and "\<And>x. x \<in> set xs \<union> set ys \<Longrightarrow> CHR '','' \<notin> set x"
  shows "xs = ys"
  using assms
proof (induction xs arbitrary: ys rule: commas.induct)
  case 1
  then show ?case by simp
next
  case (2 x)
  then have x: "CHR '','' \<notin> set x" by simp
  show ?case
  proof (cases ys rule: commas.cases)
    case (3 z w zs)
    with 2(1) have "CHR '','' \<in> set x" by auto
    with x show ?thesis by simp
  qed (use 2 in auto)
next
  case (3 x y xs)
  show ?case
  proof (cases ys rule: commas.cases)
    case 1
    with "3.prems" show ?thesis by simp
  next
    case (2 z)
    with "3.prems"(1) have "CHR '','' \<in> set z" by (metis commas.simps(2,3) in_set_conv_decomp)
    with 2 "3.prems"(4) show ?thesis by simp
  next
    case (3 z w zs)
    with "3.prems" have "x = z \<and> commas (y # xs) = commas (w # zs)"
      by (intro split_at_comma) auto
    moreover from this have "y # xs = w # zs"
      by (intro "3.IH") (use "3.prems"(4) 3 in auto)
    ultimately show ?thesis using 3 by simp
  qed
qed

lemma count_comma_commas:
  assumes "xs \<noteq> []" "\<And>x. x \<in> set xs \<Longrightarrow> CHR '','' \<notin> set x"
  shows "count_list (commas xs) (CHR '','') = length xs - 1"
  using assms
proof (induction xs rule: commas.induct)
  case (3 x y xs)
  then have "count_list (commas (y # xs)) (CHR '','') = length xs" by simp
  with "3.prems" show ?case by (simp add: count_list_0_iff)
qed (simp_all add: count_list_0_iff)

end
