(* ===== verification/Shadow_Memory.thy ===== *)
theory Shadow_Memory
  imports Prelude
begin

text \<open>
  The shadow memory of \<^verbatim>\<open>src/tagmap.h\<close>: a page table of three levels whose leaves hold one
  label per application byte, and the byte operations of \<^verbatim>\<open>src/tagmap.cpp\<close> on it. A null table
  or page pointer is \<open>None\<close>, an array is a function of its index, and the value-initialised new
  table or page is the constant function. Allocation is taken to succeed.
\<close>

section \<open>Labels and the geometry of the table\<close>

text \<open>\<^verbatim>\<open>struct dft_label\<close> has the one field \<^verbatim>\<open>uint32_t id\<close>, so a label is that id.\<close>

type_synonym tag_t = UINT32

definition cleared_val :: tag_t where
  "cleared_val = 0"

definition PAGE_SIZE :: nat where "PAGE_SIZE = 4096"
definition TOP_DIR_SZ :: nat where "TOP_DIR_SZ = 0x800000"
definition PAGETABLE_SZ :: nat where "PAGETABLE_SZ = 0x1000"
definition PAGE_BITS :: nat where "PAGE_BITS = 12"
definition PAGETABLE_BITS :: nat where "PAGETABLE_BITS = 24"

definition OFFSET_MASK :: ADDRINT where "OFFSET_MASK = 0x00000FFF"
definition PAGETABLE_OFFSET_MASK :: ADDRINT where "PAGETABLE_OFFSET_MASK = 0x00FFFFFF"

definition VIRT2PAGETABLE :: "ADDRINT \<Rightarrow> ADDRINT" where
  "VIRT2PAGETABLE addr = drop_bit PAGETABLE_BITS addr"

definition VIRT2PAGETABLE_OFFSET :: "ADDRINT \<Rightarrow> ADDRINT" where
  "VIRT2PAGETABLE_OFFSET addr = drop_bit PAGE_BITS (addr AND PAGETABLE_OFFSET_MASK)"

definition VIRT2PAGE :: "ADDRINT \<Rightarrow> ADDRINT" where
  "VIRT2PAGE addr = VIRT2PAGETABLE_OFFSET addr"

definition VIRT2OFFSET :: "ADDRINT \<Rightarrow> ADDRINT" where
  "VIRT2OFFSET addr = addr AND OFFSET_MASK"

text \<open>The greatest address that has a shadow byte, the literal of the guards.\<close>

definition max_addr :: ADDRINT where
  "max_addr = 0x7fffffffffff"

section \<open>The page table\<close>

type_synonym tag_page_t = "ADDRINT \<Rightarrow> tag_t"
type_synonym tag_table_t = "ADDRINT \<Rightarrow> tag_page_t option"
type_synonym tag_dir_t = "ADDRINT \<Rightarrow> tag_table_t option"

definition new_page :: tag_page_t where "new_page = (\<lambda>_. 0)"
definition new_table :: tag_table_t where "new_table = (\<lambda>_. None)"
definition empty_dir :: tag_dir_t where "empty_dir = (\<lambda>_. None)"

definition tag_dir_setb :: "tag_dir_t \<Rightarrow> ADDRINT \<Rightarrow> tag_t \<Rightarrow> tag_dir_t" where
  "tag_dir_setb dir addr tag =
     (if addr > max_addr then dir
      else
        let table = (case dir (VIRT2PAGETABLE addr) of None \<Rightarrow> new_table | Some t \<Rightarrow> t);
            page = (case table (VIRT2PAGE addr) of None \<Rightarrow> new_page | Some p \<Rightarrow> p);
            page' = page(VIRT2OFFSET addr := tag);
            table' = table(VIRT2PAGE addr := Some page')
        in dir(VIRT2PAGETABLE addr := Some table'))"

text \<open>A pointer to a label is the label it points to; the null pointer is \<open>None\<close>.\<close>

definition tag_dir_getb_as_ptr :: "tag_dir_t \<Rightarrow> ADDRINT \<Rightarrow> tag_t option" where
  "tag_dir_getb_as_ptr dir addr =
     (if addr > max_addr then None
      else case dir (VIRT2PAGETABLE addr) of
             None \<Rightarrow> Some cleared_val
           | Some table \<Rightarrow>
               (case table (VIRT2PAGE addr) of
                  None \<Rightarrow> Some cleared_val
                | Some page \<Rightarrow> Some (page (VIRT2OFFSET addr))))"

text \<open>\<^verbatim>\<open>tag_dir_getb\<close> dereferences that pointer without a check.\<close>

definition tag_dir_getb :: "tag_dir_t \<Rightarrow> ADDRINT \<Rightarrow> tag_t res" where
  "tag_dir_getb dir addr =
     (case tag_dir_getb_as_ptr dir addr of None \<Rightarrow> Inl NullDeref | Some t \<Rightarrow> Inr t)"

definition tagmap_setb_with_tag :: "ADDRINT \<Rightarrow> tag_t \<Rightarrow> tag_dir_t \<Rightarrow> tag_dir_t" where
  "tagmap_setb_with_tag addr tag dir = tag_dir_setb dir addr tag"

definition file_tagmap_clrb :: "ADDRINT \<Rightarrow> tag_dir_t \<Rightarrow> tag_dir_t" where
  "file_tagmap_clrb addr dir = tagmap_setb_with_tag addr cleared_val dir"

text \<open>
  The loop of \<^verbatim>\<open>file_tagmap_clrn\<close> compares with \<^verbatim>\<open>addr + n\<close> in 64-bit arithmetic, where the sum
  may wrap around; \<open>clr_from\<close> is the loop from \<^verbatim>\<open>i\<close> to the wrapped bound.
\<close>

function clr_from :: "ADDRINT \<Rightarrow> ADDRINT \<Rightarrow> tag_dir_t \<Rightarrow> tag_dir_t" where
  "clr_from i bound dir =
     (if i < bound then clr_from (i + 1) bound (file_tagmap_clrb i dir) else dir)"
  by pat_completeness auto
termination
proof (relation "measure (\<lambda>(i, bound, dir). unat bound - unat i)", goal_cases)
  case (2 i bound dir)
  then show ?case by (simp add: word_less_nat_alt unat_plus1_less)
qed simp

declare clr_from.simps [simp del]

definition file_tagmap_clrn :: "ADDRINT \<Rightarrow> UINT32 \<Rightarrow> tag_dir_t \<Rightarrow> tag_dir_t" where
  "file_tagmap_clrn addr n dir = clr_from addr (addr + ucast n) dir"

definition file_tagmap_getb :: "ADDRINT \<Rightarrow> tag_dir_t \<Rightarrow> tag_t res" where
  "file_tagmap_getb addr dir = tag_dir_getb dir addr"

definition file_tag_testb :: "ADDRINT \<Rightarrow> bool" where
  "file_tag_testb addr = (if addr > max_addr then False else True)"

section \<open>Index arithmetic\<close>

lemma OFFSET_MASK_mask: "OFFSET_MASK = mask 12"
  by (simp add: OFFSET_MASK_def mask_eq_exp_minus_1)

lemma PAGETABLE_OFFSET_MASK_mask: "PAGETABLE_OFFSET_MASK = mask 24"
  by (simp add: PAGETABLE_OFFSET_MASK_def mask_eq_exp_minus_1)

lemmas geometry_defs =
  VIRT2PAGETABLE_def VIRT2PAGE_def VIRT2PAGETABLE_OFFSET_def VIRT2OFFSET_def
  PAGE_BITS_def PAGETABLE_BITS_def OFFSET_MASK_mask PAGETABLE_OFFSET_MASK_mask

lemma split_inject:
  assumes "VIRT2PAGETABLE a = VIRT2PAGETABLE b" "VIRT2PAGE a = VIRT2PAGE b"
    "VIRT2OFFSET a = VIRT2OFFSET b"
  shows "a = b"
proof (rule bit_word_eqI)
  fix n assume n: "n < LENGTH(64)"
  have eqs: "bit (VIRT2PAGETABLE a) (n - 24) = bit (VIRT2PAGETABLE b) (n - 24)"
    "bit (VIRT2PAGE a) (n - 12) = bit (VIRT2PAGE b) (n - 12)"
    "bit (VIRT2OFFSET a) n = bit (VIRT2OFFSET b) n"
    using assms by simp_all
  consider "n < 12" | "12 \<le> n" "n < 24" | "24 \<le> n" by linarith
  then show "bit a n = bit b n"
    using eqs n unfolding geometry_defs by cases (auto simp: bit_simps)
qed

lemma unat_and_mask: "unat (a AND mask k :: 'a :: len word) = unat a mod 2 ^ k"
  by (simp only: take_bit_eq_mask [symmetric] unsigned_take_bit_eq) (simp add: take_bit_eq_mod)

lemma unat_shift_right: "unat (drop_bit k a :: 'a :: len word) = unat a div 2 ^ k"
  by (simp only: unat_drop_bit_eq) (simp add: drop_bit_eq_div)

lemma unat_VIRT2PAGE: "unat (VIRT2PAGE a) = (unat a mod 2 ^ 24) div 2 ^ 12"
  by (simp only: geometry_defs unat_shift_right unat_and_mask)

lemma unat_VIRT2OFFSET: "unat (VIRT2OFFSET a) = unat a mod 2 ^ 12"
  by (simp only: geometry_defs unat_and_mask)

lemma unat_VIRT2PAGETABLE: "unat (VIRT2PAGETABLE a) = unat a div 2 ^ 24"
  by (simp only: geometry_defs unat_shift_right)


section \<open>The flat store the page table implements\<close>

text \<open>
  What a client of a byte store relies on: a read of a valid byte gives the view of the store,
  a read of any other byte faults, and a write changes the view at the one byte, or nowhere when
  the byte is not valid.
\<close>

locale shadow_store =
  fixes getb :: "'m \<Rightarrow> ADDRINT \<Rightarrow> tag_t res"
    and setb :: "ADDRINT \<Rightarrow> tag_t \<Rightarrow> 'm \<Rightarrow> 'm"
    and view :: "'m \<Rightarrow> ADDRINT \<Rightarrow> tag_t"
    and valid :: "ADDRINT \<Rightarrow> bool"
  assumes getb_view: "getb m a = (if valid a then Inr (view m a) else Inl NullDeref)"
    and view_setb: "view (setb a t m) = (if valid a then (view m)(a := t) else view m)"
begin

lemma get_set_same: "valid a \<Longrightarrow> getb (setb a t m) a = Inr t"
  by (simp add: getb_view view_setb)

lemma get_set_other: "a \<noteq> b \<Longrightarrow> getb (setb a t m) b = getb m b"
  by (simp add: getb_view view_setb)

lemma set_set_same: "view (setb a t (setb a u m)) = view (setb a t m)"
  by (simp add: view_setb)

lemma set_set_commute: "a \<noteq> b \<Longrightarrow> view (setb a t (setb b u m)) = view (setb b u (setb a t m))"
  by (simp add: view_setb fun_upd_twist)

lemma view_fold_setb:
  "view (fold (\<lambda>a. setb a t) as m) x = (if x \<in> set as \<and> valid x then t else view m x)"
  by (induction as arbitrary: m) (auto simp: view_setb)

end

definition shadow_of :: "tag_dir_t \<Rightarrow> ADDRINT \<Rightarrow> tag_t" where
  "shadow_of dir addr = (case tag_dir_getb dir addr of Inr t \<Rightarrow> t | Inl _ \<Rightarrow> cleared_val)"

lemma tag_dir_getb_view:
  "tag_dir_getb dir a = (if file_tag_testb a then Inr (shadow_of dir a) else Inl NullDeref)"
  by (auto simp: shadow_of_def tag_dir_getb_def tag_dir_getb_as_ptr_def file_tag_testb_def
      split: option.splits)

lemma shadow_of_setb:
  "shadow_of (tag_dir_setb dir a t) =
     (if file_tag_testb a then (shadow_of dir)(a := t) else shadow_of dir)"
proof (cases "file_tag_testb a")
  case True
  have "shadow_of (tag_dir_setb dir a t) b = ((shadow_of dir)(a := t)) b" for b
  proof (cases "b = a")
    case True
    with \<open>file_tag_testb a\<close> show ?thesis
      by (simp add: shadow_of_def tag_dir_getb_def tag_dir_getb_as_ptr_def tag_dir_setb_def
          file_tag_testb_def Let_def split: if_splits)
  next
    case False
    then have "VIRT2PAGETABLE a \<noteq> VIRT2PAGETABLE b \<or> VIRT2PAGE a \<noteq> VIRT2PAGE b \<or>
        VIRT2OFFSET a \<noteq> VIRT2OFFSET b"
      using split_inject by blast
    with False show ?thesis
      by (auto simp: shadow_of_def tag_dir_getb_def tag_dir_getb_as_ptr_def tag_dir_setb_def
          new_table_def new_page_def cleared_val_def Let_def split: option.splits)
  qed
  with True show ?thesis by (simp add: fun_eq_iff)
next
  case False
  then show ?thesis by (simp add: tag_dir_setb_def file_tag_testb_def split: if_splits)
qed

interpretation dirstore: shadow_store tag_dir_getb "\<lambda>a t m. tag_dir_setb m a t" shadow_of
  file_tag_testb
  by unfold_locales (rule tag_dir_getb_view, rule shadow_of_setb)

lemma shadow_of_setb_with_tag [simp]:
  "shadow_of (tagmap_setb_with_tag a t dir) =
     (if file_tag_testb a then (shadow_of dir)(a := t) else shadow_of dir)"
  by (simp add: tagmap_setb_with_tag_def dirstore.view_setb)

lemma file_tagmap_getb_view [simp]:
  "file_tagmap_getb a dir = (if file_tag_testb a then Inr (shadow_of dir a) else Inl NullDeref)"
  by (simp add: file_tagmap_getb_def dirstore.getb_view)

lemma shadow_of_empty_dir [simp]: "shadow_of empty_dir a = 0"
  by (simp add: shadow_of_def empty_dir_def tag_dir_getb_def tag_dir_getb_as_ptr_def cleared_val_def)

lemma shadow_of_clrb [simp]: "shadow_of (file_tagmap_clrb a dir) = (shadow_of dir)(a := 0)"
proof -
  have "\<not> file_tag_testb a \<Longrightarrow> shadow_of dir a = 0"
    by (simp add: shadow_of_def dirstore.getb_view cleared_val_def)
  then show ?thesis by (auto simp: file_tagmap_clrb_def cleared_val_def)
qed

lemma shadow_of_clr_from:
  "shadow_of (clr_from i bound dir) x = (if i \<le> x \<and> x < bound then 0 else shadow_of dir x)"
proof (induction i bound dir rule: clr_from.induct)
  case (1 i bound dir)
  show ?case
  proof (cases "i < bound")
    case True
    then have "unat (i + 1) = Suc (unat i)"
      by (simp add: word_less_nat_alt unat_plus1_less)
    then have "i \<le> x \<longleftrightarrow> x = i \<or> i + 1 \<le> x"
      by (auto simp: word_le_nat_alt Suc_le_eq order_le_less word_unat_eq_iff)
    with True "1.IH"[OF True] show ?thesis
      by (auto simp: clr_from.simps[of i])
  next
    case False
    then show ?thesis by (auto simp: clr_from.simps[of i])
  qed
qed

lemma getb_clrn:
  "tag_dir_getb (file_tagmap_clrn addr n dir) x =
     (if x > max_addr then Inl NullDeref
      else if unat addr \<le> unat x \<and> unat x < unat addr + unat n then Inr cleared_val
      else tag_dir_getb dir x)"
proof (cases "x > max_addr")
  case True
  then show ?thesis by (simp add: dirstore.getb_view file_tag_testb_def)
next
  case False
  have n: "unat (ucast n :: ADDRINT) = unat n" by (simp add: unat_ucast_up)
  have n32: "unat n < 2 ^ 32" using unsigned_less[of n, where ?'a = nat] by simp
  from False have x: "unat x \<le> 0x7fffffffffff"
    by (simp add: max_addr_def word_le_nat_alt not_less)
  have eq: "addr \<le> x \<and> x < addr + ucast n \<longleftrightarrow> unat addr \<le> unat x \<and> unat x < unat addr + unat n"
  proof (cases "unat addr + unat n < 2 ^ 64")
    case True
    then have "unat (addr + ucast n) = unat addr + unat n"
      by (simp add: unat_word_ariths n)
    then show ?thesis by (simp add: word_le_nat_alt word_less_nat_alt)
  next
    case False
    with x n32 have "\<not> unat addr \<le> unat x" by simp
    then show ?thesis by (simp add: word_le_nat_alt)
  qed
  from False show ?thesis
    by (simp add: file_tagmap_clrn_def dirstore.getb_view file_tag_testb_def shadow_of_clr_from eq
        cleared_val_def)
qed

section \<open>Properties\<close>

text \<open>
  C18. The page table implements a flat array of labels over the addresses up to
  0x7fffffffffff: after a store every byte reads as before, except the stored byte, which reads
  the stored label; a store above the limit changes no byte.
\<close>

theorem setb_getb:
  "tag_dir_getb (tag_dir_setb dir a t) b =
     (if b > max_addr then Inl NullDeref
      else if a = b then Inr t
      else tag_dir_getb dir b)"
  by (auto simp: dirstore.getb_view dirstore.view_setb file_tag_testb_def split: if_splits)

text \<open>
  The three array indices computed from an address stay inside their arrays for every address
  the guard lets through, and the address is determined by them.
\<close>

theorem geometry_in_bounds:
  assumes "addr \<le> max_addr"
  shows "unat (VIRT2PAGETABLE addr) < TOP_DIR_SZ
     \<and> unat (VIRT2PAGE addr) < PAGETABLE_SZ
     \<and> unat (VIRT2OFFSET addr) < PAGE_SIZE
     \<and> unat addr = (unat (VIRT2PAGETABLE addr) * PAGETABLE_SZ + unat (VIRT2PAGE addr)) * PAGE_SIZE
           + unat (VIRT2OFFSET addr)"
proof -
  from assms have a: "unat addr \<le> 0x7fffffffffff"
    by (simp add: max_addr_def word_le_nat_alt)
  have split: "x = (x div 2 ^ 24 * 0x1000 + x mod 2 ^ 24 div 2 ^ 12) * 4096 + x mod 2 ^ 12" for x :: nat
  proof -
    have "x mod (4096 * 4096) = 4096 * (x div 4096 mod 4096) + x mod 4096"
      by (rule mod_mult2_eq)
    then show ?thesis using div_mult_mod_eq[of x "4096 * 4096"] by simp
  qed
  show ?thesis
    using a split[of "unat addr"]
    by (auto simp: unat_VIRT2PAGETABLE unat_VIRT2PAGE unat_VIRT2OFFSET
        TOP_DIR_SZ_def PAGETABLE_SZ_def PAGE_SIZE_def)
qed

theorem geometry_in_bounds_witness:
  "unat (VIRT2PAGETABLE 0x7fffffffffff) < TOP_DIR_SZ
     \<and> unat (VIRT2PAGE 0x7fffffffffff) < PAGETABLE_SZ
     \<and> unat (VIRT2OFFSET 0x7fffffffffff) < PAGE_SIZE"
proof -
  have "(0x7fffffffffff :: ADDRINT) \<le> max_addr" by (simp add: max_addr_def)
  from geometry_in_bounds[OF this] show ?thesis by simp
qed

text \<open>
  C19. \<open>file_tagmap_clrn\<close> clears exactly the shadow bytes of the n addresses from addr on, for every
  address and length: where the 64-bit bound wraps around and the loop body never runs, the whole
  range lies above the addresses that have a shadow byte.
\<close>

theorem clrn_clears_range:
  "tag_dir_getb (file_tagmap_clrn addr n dir) x =
     (if x > max_addr then Inl NullDeref
      else if unat addr \<le> unat x \<and> unat x < unat addr + unat n then Inr cleared_val
      else tag_dir_getb dir x)"
  by (rule getb_clrn)

end
