(* ===== verification/Ewah.thy ===== *)
theory Ewah
  imports Prelude
begin

text \<open>
  The compressed bitmap of \<^verbatim>\<open>src/third_party/EWAHBoolArray\<close> at \<^verbatim>\<open>uword = uint32_t\<close>, as far as
  \<^verbatim>\<open>src/tagmap.cpp\<close> uses it: the running-length words, the appending operations, \<^verbatim>\<open>set\<close>,
  \<^verbatim>\<open>padWithZeroes\<close>, \<^verbatim>\<open>logicalor\<close>, \<^verbatim>\<open>numberOfOnes\<close>, the iterator over the set bits and the printer.
  Sizes and counters (\<^verbatim>\<open>size_t\<close>) are naturals. The words of storage an operation returns are not
  modelled: no caller in the program uses them.
\<close>

section \<open>Running-length words\<close>

definition getRunningBit :: "UINT32 \<Rightarrow> bool" where
  "getRunningBit data = ((data AND 1) \<noteq> 0)"

definition getRunningLength :: "UINT32 \<Rightarrow> UINT32" where
  "getRunningLength data = drop_bit 1 data AND mask 16"

definition getNumberOfLiteralWords :: "UINT32 \<Rightarrow> UINT32" where
  "getNumberOfLiteralWords data = drop_bit 17 data"

definition rlw_size :: "UINT32 \<Rightarrow> UINT32" where
  "rlw_size data = getRunningLength data + getNumberOfLiteralWords data"

definition setRunningBit :: "UINT32 \<Rightarrow> bool \<Rightarrow> UINT32" where
  "setRunningBit data b = (if b then data OR 1 else data AND NOT 1)"

definition setRunningLength :: "UINT32 \<Rightarrow> UINT32 \<Rightarrow> UINT32" where
  "setRunningLength data l =
     (data OR push_bit 1 (mask 16)) AND (push_bit 1 l OR NOT (push_bit 1 (mask 16)))"

definition setNumberOfLiteralWords :: "UINT32 \<Rightarrow> UINT32 \<Rightarrow> UINT32" where
  "setNumberOfLiteralWords data l =
     (data OR NOT (mask 17)) AND (push_bit 17 l OR mask 17)"

definition largestliteralcount :: nat where "largestliteralcount = 0x7FFF"
definition largestrunninglengthcount :: nat where "largestrunninglengthcount = 0xFFFF"

text \<open>The two counters of a running-length word as naturals.\<close>

definition rl :: "UINT32 \<Rightarrow> nat" where "rl m = unat (getRunningLength m)"
definition nl :: "UINT32 \<Rightarrow> nat" where "nl m = unat (getNumberOfLiteralWords m)"

lemma rl_bound: "rl m \<le> largestrunninglengthcount"
  by (simp add: rl_def getRunningLength_def largestrunninglengthcount_def
      take_bit_eq_mask [symmetric] unsigned_take_bit_eq)
     (simp add: take_bit_eq_mod)

lemma nl_bound: "nl m \<le> largestliteralcount"
proof -
  have "unat m < 2 ^ 32" using unsigned_less[of m, where ?'a = nat] by simp
  then have "unat m div 2 ^ 17 \<le> 0x7FFF" by simp
  then show ?thesis
    by (simp add: nl_def getNumberOfLiteralWords_def largestliteralcount_def unat_drop_bit_eq)
       (simp add: drop_bit_eq_div)
qed

lemma getRunningBit_bit: "getRunningBit m = bit m 0"
  by (simp add: getRunningBit_def and_one_eq bit_0 odd_iff_mod_2_eq_one)

lemmas rlw_defs = getRunningBit_bit getRunningLength_def getNumberOfLiteralWords_def
  setRunningBit_def setRunningLength_def setNumberOfLiteralWords_def

lemmas rlw_bits = bit_and_iff bit_or_iff bit_not_iff bit_push_bit_iff bit_drop_bit_eq
  bit_mask_iff comp_apply possible_bit_word

lemma getRunningLength_setRunningLength:
  "getRunningLength (setRunningLength m k) = k AND mask 16"
  unfolding rlw_defs by (rule bit_word_eqI, simp only: rlw_bits) (auto dest: bit_imp_le_length)

lemma getNumberOfLiteralWords_setRunningLength:
  "getNumberOfLiteralWords (setRunningLength m k) = getNumberOfLiteralWords m"
  unfolding rlw_defs by (rule bit_word_eqI, simp only: rlw_bits) (auto dest: bit_imp_le_length)

lemma getRunningBit_setRunningLength [simp]:
  "getRunningBit (setRunningLength m k) = getRunningBit m"
  unfolding rlw_defs by (simp only: rlw_bits) (auto dest: bit_imp_le_length)

lemma getRunningLength_setNumberOfLiteralWords:
  "getRunningLength (setNumberOfLiteralWords m k) = getRunningLength m"
  unfolding rlw_defs by (rule bit_word_eqI, simp only: rlw_bits) (auto dest: bit_imp_le_length)

lemma getNumberOfLiteralWords_setNumberOfLiteralWords:
  "getNumberOfLiteralWords (setNumberOfLiteralWords m k) = k AND mask 15"
  unfolding rlw_defs by (rule bit_word_eqI, simp only: rlw_bits) (auto dest: bit_imp_le_length)

lemma getRunningBit_setNumberOfLiteralWords [simp]:
  "getRunningBit (setNumberOfLiteralWords m k) = getRunningBit m"
  unfolding rlw_defs by (simp only: rlw_bits) (auto dest: bit_imp_le_length)

lemma getRunningLength_setRunningBit: "getRunningLength (setRunningBit m b) = getRunningLength m"
  unfolding rlw_defs by (rule bit_word_eqI) (auto simp: bit_simps dest: bit_imp_le_length)

lemma getNumberOfLiteralWords_setRunningBit:
  "getNumberOfLiteralWords (setRunningBit m b) = getNumberOfLiteralWords m"
  unfolding rlw_defs by (rule bit_word_eqI) (auto simp: bit_simps dest: bit_imp_le_length)

lemma getRunningBit_setRunningBit [simp]: "getRunningBit (setRunningBit m b) = b"
  unfolding rlw_defs by (auto simp: bit_simps)

lemma getRunningBit_0 [simp]: "getRunningBit 0 = False"
  by (simp add: getRunningBit_bit)

lemma unat_of_nat_and_mask:
  "j < 2 ^ k \<Longrightarrow> k \<le> 32 \<Longrightarrow> unat ((of_nat j :: UINT32) AND mask k) = j"
proof -
  assume j: "j < 2 ^ k" and k: "k \<le> 32"
  have "(2 :: nat) ^ k \<le> 2 ^ 32" using k by (intro power_increasing) auto
  with j have "unat (of_nat j :: UINT32) = j" by (simp add: unat_of_nat take_bit_nat_eq_self)
  then show ?thesis
    by (simp only: take_bit_eq_mask [symmetric] unsigned_take_bit_eq) (simp add: take_bit_nat_eq_self j)
qed

lemma rl_setters [simp]:
  "k \<le> largestrunninglengthcount \<Longrightarrow> rl (setRunningLength m (of_nat k)) = k"
  "rl (setNumberOfLiteralWords m l) = rl m"
  "rl (setRunningBit m b) = rl m"
  "rl 0 = 0"
  by (simp_all add: rl_def getRunningLength_setRunningLength getRunningLength_setNumberOfLiteralWords
      getRunningLength_setRunningBit unat_of_nat_and_mask largestrunninglengthcount_def
      del: of_nat_numeral) (simp add: getRunningLength_def)

lemma nl_setters [simp]:
  "k \<le> largestliteralcount \<Longrightarrow> nl (setNumberOfLiteralWords m (of_nat k)) = k"
  "nl (setRunningLength m l) = nl m"
  "nl (setRunningBit m b) = nl m"
  "nl 0 = 0"
  by (simp_all add: nl_def getNumberOfLiteralWords_setRunningLength
      getNumberOfLiteralWords_setNumberOfLiteralWords getNumberOfLiteralWords_setRunningBit
      unat_of_nat_and_mask largestliteralcount_def) (simp add: getNumberOfLiteralWords_def)

lemma rlw_size_0_iff: "rlw_size m = 0 \<longleftrightarrow> rl m = 0 \<and> nl m = 0"
proof -
  have "unat (rlw_size m) = rl m + nl m"
    using rl_bound[of m] nl_bound[of m]
    by (simp add: rlw_size_def unat_word_ariths rl_def nl_def largestrunninglengthcount_def
        largestliteralcount_def)
  then show ?thesis by (metis add_is_0 unat_eq_zero)
qed

section \<open>The bitmap and the appending operations\<close>

record ewah_t =
  buffer :: "UINT32 list"
  sizeinbits :: nat
  lastRLW :: nat

definition ewah_new :: ewah_t where
  "ewah_new = \<lparr>buffer = [0], sizeinbits = 0, lastRLW = 0\<rparr>"

definition wordinbits :: nat where "wordinbits = 32"

abbreviation last_rlw :: "ewah_t \<Rightarrow> UINT32" where
  "last_rlw e \<equiv> buffer e ! lastRLW e"

definition upd_last :: "(UINT32 \<Rightarrow> UINT32) \<Rightarrow> ewah_t \<Rightarrow> ewah_t" where
  "upd_last f e = e\<lparr>buffer := (buffer e)[lastRLW e := f (last_rlw e)]\<rparr>"

text \<open>\<^verbatim>\<open>buffer.push_back(0); lastRLW = buffer.size() - 1;\<close>\<close>

definition push_rlw :: "ewah_t \<Rightarrow> ewah_t" where
  "push_rlw e = e\<lparr>buffer := buffer e @ [0], lastRLW := length (buffer e)\<rparr>"

definition addLiteralWord :: "UINT32 \<Rightarrow> ewah_t \<Rightarrow> ewah_t" where
  "addLiteralWord newdata e =
     (let numbersofar = nl (last_rlw e) in
      if numbersofar \<ge> largestliteralcount then
        let e' = upd_last (\<lambda>m. setNumberOfLiteralWords m 1) (push_rlw e)
        in e'\<lparr>buffer := buffer e' @ [newdata]\<rparr>
      else
        let e' = upd_last (\<lambda>m. setNumberOfLiteralWords m (of_nat (numbersofar + 1))) e
        in e'\<lparr>buffer := buffer e' @ [newdata]\<rparr>)"

definition addEmptyWord :: "bool \<Rightarrow> ewah_t \<Rightarrow> ewah_t" where
  "addEmptyWord v e =
     (let noliteralword = (nl (last_rlw e) = 0);
          runlen = rl (last_rlw e);
          e1 = (if noliteralword \<and> runlen = 0 then upd_last (\<lambda>m. setRunningBit m v) e else e)
      in if noliteralword \<and> getRunningBit (last_rlw e1) = v \<and> runlen < largestrunninglengthcount
         then upd_last (\<lambda>m. setRunningLength m (of_nat (runlen + 1))) e1
         else upd_last (\<lambda>m. setRunningLength (setRunningBit m v) 1) (push_rlw e1))"

text \<open>The run-length part that \<open>addStreamOfEmptyWords\<close> and \<open>fastaddStreamOfEmptyWords\<close> share.\<close>

function push_runs :: "bool \<Rightarrow> nat \<Rightarrow> ewah_t \<Rightarrow> ewah_t" where
  "push_runs v number e =
     (if number \<ge> largestrunninglengthcount then
        push_runs v (number - largestrunninglengthcount)
          (upd_last (\<lambda>m. setRunningLength (if v then setRunningBit m v else m)
             (of_nat largestrunninglengthcount)) (push_rlw e))
      else if number > 0 then
        upd_last (\<lambda>m. setRunningLength (if v then setRunningBit m v else m) (of_nat number))
          (push_rlw e)
      else e)"
  by pat_completeness auto
termination
  by (relation "measure (\<lambda>(v, number, e). number)") (auto simp: largestrunninglengthcount_def)

declare push_runs.simps [simp del]

definition fastaddStreamOfEmptyWords :: "bool \<Rightarrow> nat \<Rightarrow> ewah_t \<Rightarrow> ewah_t" where
  "fastaddStreamOfEmptyWords v number e =
     (let e1 =
        (if getRunningBit (last_rlw e) \<noteq> v \<and> rlw_size (last_rlw e) = 0
         then upd_last (\<lambda>m. setRunningBit m v) e
         else if nl (last_rlw e) \<noteq> 0 \<or> getRunningBit (last_rlw e) \<noteq> v
         then upd_last (\<lambda>m. if v then setRunningBit m v else m) (push_rlw e)
         else e);
          runlen = rl (last_rlw e1);
          whatwecanadd =
            (if number < largestrunninglengthcount - runlen then number
             else largestrunninglengthcount - runlen);
          e2 = upd_last (\<lambda>m. setRunningLength m (of_nat (runlen + whatwecanadd))) e1
      in push_runs v (number - whatwecanadd) e2)"

definition addStreamOfEmptyWords :: "bool \<Rightarrow> nat \<Rightarrow> ewah_t \<Rightarrow> ewah_t" where
  "addStreamOfEmptyWords v number e =
     (if number = 0 then e
      else fastaddStreamOfEmptyWords v number
             (e\<lparr>sizeinbits := sizeinbits e + number * wordinbits\<rparr>))"

function addStreamOfDirtyWords :: "UINT32 list \<Rightarrow> ewah_t \<Rightarrow> ewah_t" where
  "addStreamOfDirtyWords v e =
     (let number = length v in
      if number = 0 then e
      else
        let numberOfLiteralWords = nl (last_rlw e);
            whatwecanadd =
              (if number < largestliteralcount - numberOfLiteralWords then number
               else largestliteralcount - numberOfLiteralWords);
            e1 = upd_last (\<lambda>m. setNumberOfLiteralWords m
                   (of_nat (numberOfLiteralWords + whatwecanadd))) e;
            e2 = e1\<lparr>buffer := buffer e1 @ take whatwecanadd v,
                    sizeinbits := sizeinbits e1 + whatwecanadd * wordinbits\<rparr>
        in if number - whatwecanadd > 0
           then addStreamOfDirtyWords (drop whatwecanadd v) (push_rlw e2)
           else e2)"
  by pat_completeness auto
termination
proof (relation "measure (\<lambda>(v, e). 2 * length v +
    (if nl (last_rlw e) \<ge> largestliteralcount then 1 else 0))", goal_cases)
  case (2 v e number nlw what e1 e2)
  have "nl (last_rlw (push_rlw e2)) = 0"
    by (simp add: push_rlw_def nth_append)
  with 2 show ?case by (auto simp: largestliteralcount_def split: if_splits)
qed simp

declare addStreamOfDirtyWords.simps [simp del]

definition ewah_add :: "UINT32 \<Rightarrow> ewah_t \<Rightarrow> ewah_t" where
  "ewah_add newdata e =
     (let e' = e\<lparr>sizeinbits := sizeinbits e + wordinbits\<rparr> in
      if newdata = 0 then addEmptyWord False e'
      else if newdata = NOT 0 then addEmptyWord True e'
      else addLiteralWord newdata e')"

section \<open>Setting a bit, padding\<close>

definition ewah_set :: "nat \<Rightarrow> ewah_t \<Rightarrow> ewah_t" where
  "ewah_set i e =
     (if i < sizeinbits e then e
      else
        let dist = (i + wordinbits) div wordinbits - (sizeinbits e + wordinbits - 1) div wordinbits;
            e0 = e\<lparr>sizeinbits := i + 1\<rparr>;
            w = push_bit (i mod wordinbits) 1
        in if dist > 0 then
             addLiteralWord w
               (if dist > 1 then fastaddStreamOfEmptyWords False (dist - 1) e0 else e0)
           else if nl (last_rlw e0) = 0 then
             addLiteralWord w
               (upd_last (\<lambda>m. setRunningLength m (of_nat (rl m - 1))) e0)
           else
             let k = length (buffer e0) - 1;
                 e1 = e0\<lparr>buffer := (buffer e0)[k := buffer e0 ! k OR w]\<rparr>
             in if buffer e1 ! k = NOT 0 then
                  addEmptyWord True
                    (upd_last (\<lambda>m. setNumberOfLiteralWords m (of_nat (nl m - 1)))
                      (e1\<lparr>buffer := butlast (buffer e1)\<rparr>))
                else e1)"

definition padWithZeroes :: "nat \<Rightarrow> ewah_t \<Rightarrow> ewah_t" where
  "padWithZeroes totalbits e =
     (if totalbits \<le> sizeinbits e then e
      else
        let missingbits = totalbits - sizeinbits e;
            remain = sizeinbits e mod wordinbits;
            avail = wordinbits - remain;
            consume = (nl (last_rlw e) > 0 \<and> remain > 0 \<and> avail > 0);
            missing' = (if consume then (if missingbits > avail then missingbits - avail else 0)
                        else missingbits);
            e1 = (if consume then e\<lparr>sizeinbits := sizeinbits e + avail\<rparr> else e);
            wordstoadd = missing' div wordinbits + (if missing' mod wordinbits \<noteq> 0 then 1 else 0);
            e2 = (if missing' > 0 then addStreamOfEmptyWords False wordstoadd e1 else e1)
        in e2\<lparr>sizeinbits := totalbits\<rparr>)"

definition makeSameSize :: "ewah_t \<Rightarrow> ewah_t \<Rightarrow> ewah_t \<times> ewah_t" where
  "makeSameSize this a =
     (if sizeinbits a < sizeinbits this then (this, padWithZeroes (sizeinbits this) a)
      else if sizeinbits this < sizeinbits a then (padWithZeroes (sizeinbits a) this, a)
      else (this, a))"

section \<open>The raw iterator and the union\<close>

text \<open>
  \<^verbatim>\<open>EWAHBoolArrayRawIterator\<close> with its buffered running-length word. The buffered counters are
  naturals: \<^verbatim>\<open>discardFirstWords\<close> is only called with at most \<^verbatim>\<open>size()\<close> words, as its assertion says,
  so its subtractions do not wrap around.
\<close>

record raw_iter =
  parent :: "UINT32 list"
  pointer :: nat
  RunningBit :: bool
  RunningLength :: nat
  NumberOfLiteralWords :: nat

definition rlw_read :: "UINT32 \<Rightarrow> raw_iter \<Rightarrow> raw_iter" where
  "rlw_read data it = it\<lparr>RunningBit := getRunningBit data, RunningLength := rl data,
     NumberOfLiteralWords := nl data\<rparr>"

definition raw_iterator :: "ewah_t \<Rightarrow> raw_iter" where
  "raw_iterator e = rlw_read (buffer e ! 0)
     \<lparr>parent = buffer e, pointer = 0, RunningBit = False, RunningLength = 0, NumberOfLiteralWords = 0\<rparr>"

definition hasNext :: "raw_iter \<Rightarrow> bool" where
  "hasNext it = (pointer it < length (parent it))"

definition raw_next :: "raw_iter \<Rightarrow> raw_iter" where
  "raw_next it =
     (let it' = rlw_read (parent it ! pointer it) it
      in it'\<lparr>pointer := pointer it' + NumberOfLiteralWords it' + 1\<rparr>)"

definition dirtyWords :: "raw_iter \<Rightarrow> UINT32 list" where
  "dirtyWords it = drop (pointer it - NumberOfLiteralWords it) (parent it)"

definition buffered_size :: "raw_iter \<Rightarrow> nat" where
  "buffered_size it = RunningLength it + NumberOfLiteralWords it"

definition discardFirstWords :: "nat \<Rightarrow> raw_iter \<Rightarrow> raw_iter" where
  "discardFirstWords x it =
     (if RunningLength it \<ge> x then it\<lparr>RunningLength := RunningLength it - x\<rparr>
      else it\<lparr>RunningLength := 0,
              NumberOfLiteralWords := NumberOfLiteralWords it - (x - RunningLength it)\<rparr>)"

text \<open>
  The body of the loop of \<^verbatim>\<open>logicalor\<close> in its three parts: the running words of the prey, the
  running words left in the predator, the literal words that are left.
\<close>

definition or_prey_run :: "raw_iter \<Rightarrow> raw_iter \<Rightarrow> ewah_t \<Rightarrow> raw_iter \<times> raw_iter \<times> ewah_t" where
  "or_prey_run prey predator container =
     (let preyrl = RunningLength prey; predatorrl = RunningLength predator in
      if \<not> RunningBit prey then
        (discardFirstWords preyrl prey, discardFirstWords preyrl predator,
         if predatorrl \<ge> preyrl then
           addStreamOfEmptyWords (RunningBit predator) preyrl container
         else
           let c = addStreamOfEmptyWords (RunningBit predator) predatorrl container in
           if preyrl - predatorrl > 0
           then addStreamOfDirtyWords (take (preyrl - predatorrl) (dirtyWords predator)) c
           else c)
      else
        (discardFirstWords preyrl prey, discardFirstWords preyrl predator,
         addStreamOfEmptyWords True preyrl container))"

definition or_predator_run :: "raw_iter \<Rightarrow> raw_iter \<Rightarrow> ewah_t \<Rightarrow> raw_iter \<times> raw_iter \<times> ewah_t" where
  "or_predator_run prey predator container =
     (let predatorrl = RunningLength predator in
      if predatorrl > 0 then
        let nbre_dirty_prey = NumberOfLiteralWords prey;
            tobediscarded = (if predatorrl \<ge> nbre_dirty_prey then nbre_dirty_prey else predatorrl)
        in if \<not> RunningBit predator then
             if tobediscarded > 0 then
               (discardFirstWords tobediscarded prey, discardFirstWords tobediscarded predator,
                addStreamOfDirtyWords (take tobediscarded (dirtyWords prey)) container)
             else (prey, predator, container)
           else
             (discardFirstWords tobediscarded prey, discardFirstWords tobediscarded predator,
              addStreamOfEmptyWords True tobediscarded container)
      else (prey, predator, container))"

definition or_dirty :: "raw_iter \<Rightarrow> raw_iter \<Rightarrow> ewah_t \<Rightarrow> raw_iter \<times> raw_iter \<times> ewah_t" where
  "or_dirty prey predator container =
     (let nbre_dirty_prey = NumberOfLiteralWords prey in
      if nbre_dirty_prey > 0 then
        (prey, discardFirstWords nbre_dirty_prey predator,
         fold (\<lambda>k. ewah_add (dirtyWords prey ! k OR dirtyWords predator ! k)) [0..<nbre_dirty_prey] container)
      else (prey, predator, container))"

definition or_body :: "raw_iter \<Rightarrow> raw_iter \<Rightarrow> ewah_t \<Rightarrow> raw_iter \<times> raw_iter \<times> ewah_t" where
  "or_body prey predator container =
     (case or_prey_run prey predator container of (p1, q1, c1) \<Rightarrow>
      case or_predator_run p1 q1 c1 of (p2, q2, c2) \<Rightarrow> or_dirty p2 q2 c2)"

lemma iter_frame [simp]:
  "parent (discardFirstWords x it) = parent it" "pointer (discardFirstWords x it) = pointer it"
  by (simp_all add: discardFirstWords_def)

lemma or_body_frame:
  "or_body p q c = (p', q', c') \<Longrightarrow>
     parent p' = parent p \<and> pointer p' = pointer p \<and> parent q' = parent q \<and> pointer q' = pointer q"
  by (auto simp: or_body_def or_prey_run_def or_predator_run_def or_dirty_def Let_def split: if_splits)

function or_loop :: "raw_iter \<Rightarrow> raw_iter \<Rightarrow> ewah_t \<Rightarrow> ewah_t" where
  "or_loop i j container =
     (if buffered_size i < buffered_size j then
        case or_body i j container of (i', j', c') \<Rightarrow>
          if \<not> hasNext i' then c' else or_loop (raw_next i') j' c'
      else
        case or_body j i container of (j', i', c') \<Rightarrow>
          if \<not> hasNext j' then c' else or_loop i' (raw_next j') c')"
  by pat_completeness auto
termination
  by (relation "measure (\<lambda>(i, j, c). (length (parent i) - pointer i) + (length (parent j) - pointer j))")
     (auto simp: hasNext_def raw_next_def rlw_read_def Let_def dest!: or_body_frame[OF sym])

declare or_loop.simps [simp del]

text \<open>
  \<^verbatim>\<open>this->logicalor(a, container)\<close>. Both operands are padded to the same size, so the result is
  the new value of \<^verbatim>\<open>this\<close>, of \<^verbatim>\<open>a\<close> and of the container.
\<close>

definition logicalor :: "ewah_t \<Rightarrow> ewah_t \<Rightarrow> ewah_t \<times> ewah_t \<times> ewah_t" where
  "logicalor this a =
     (case makeSameSize this a of (this', a') \<Rightarrow>
       let i = raw_iterator a'; j = raw_iterator this';
           c = (if hasNext i \<and> hasNext j then or_loop (raw_next i) (raw_next j) ewah_new
                else ewah_new)
       in (this', a', c\<lparr>sizeinbits := sizeinbits this'\<rparr>))"

section \<open>Counting, iterating and printing the set bits\<close>

definition countOnes :: "UINT32 \<Rightarrow> nat" where
  "countOnes w = length (filter (bit w) [0..<32])"

definition numberOfTrailingZeros :: "UINT32 \<Rightarrow> nat" where
  "numberOfTrailingZeros w = length (takeWhile (\<lambda>k. \<not> bit w k) [0..<32])"

function ones_count_from :: "UINT32 list \<Rightarrow> nat \<Rightarrow> nat \<Rightarrow> nat" where
  "ones_count_from buf p tot =
     (if p < length buf then
        let m = buf ! p;
            tot1 = (if getRunningBit m then tot + rl m * wordinbits else tot);
            lits = take (nl m) (drop (p + 1) buf)
        in ones_count_from buf (p + 1 + nl m) (tot1 + sum_list (map countOnes lits))
      else tot)"
  by pat_completeness auto
termination
  by (relation "measure (\<lambda>(buf, p, tot). length buf - p)") auto

declare ones_count_from.simps [simp del]

definition ewah_numberOfOnes :: "ewah_t \<Rightarrow> nat" where
  "ewah_numberOfOnes e = ones_count_from (buffer e) 0 0"

text \<open>
  \<^verbatim>\<open>EWAHBoolArraySetBitForwardIterator\<close>: its position is (mpointer, offsetofpreviousrun,
  currentrunoffset), and \<open>advanceToNextSetBit\<close> unrolls \<^verbatim>\<open>advanceToNextRun\<close> and the loop over the
  literal words into one recursion.
\<close>

type_synonym set_bit_iter = "nat \<times> nat \<times> nat"

function advanceToNextSetBit :: "UINT32 list \<Rightarrow> nat \<Rightarrow> nat \<Rightarrow> nat \<Rightarrow> set_bit_iter" where
  "advanceToNextSetBit buf mpointer prev cur =
     (if mpointer \<ge> length buf then (mpointer, prev, cur)
      else
        let m = buf ! mpointer; run = rl m * wordinbits in
        if cur < run \<and> getRunningBit m then (mpointer, prev, cur)
        else
          let cur1 = (if cur < run then run else cur);
              indexoflitword = (cur1 - run) div wordinbits
          in if indexoflitword \<ge> nl m then
               advanceToNextSetBit buf (mpointer + (1 + nl m)) (prev + cur1) 0
             else
               let tinwordpointer = (cur1 - run) mod wordinbits;
                   modcurrentword = drop_bit tinwordpointer (buf ! (mpointer + 1 + indexoflitword))
               in if modcurrentword \<noteq> 0
                  then (mpointer, prev, cur1 + numberOfTrailingZeros modcurrentword)
                  else advanceToNextSetBit buf mpointer prev (cur1 + (wordinbits - tinwordpointer)))"
  by pat_completeness auto
termination
proof (relation "measures [\<lambda>(buf, mp, prev, cur). length buf - mp,
    \<lambda>(buf, mp, prev, cur). (rl (buf ! mp) + nl (buf ! mp)) * 32 - cur]", goal_cases)
  case (3 buf mp prev cur m run cur1 idx t w)
  have "cur1 < (rl m + nl m) * 32" "cur \<le> cur1" "t < 32"
    using 3 by (auto simp: wordinbits_def not_le div_less_iff_less_mult split: if_splits)
  then have "(rl m + nl m) * 32 - (cur1 + (32 - t)) < (rl m + nl m) * 32 - cur" by linarith
  with 3(2) show ?case by (simp add: wordinbits_def)
qed auto

declare advanceToNextSetBit.simps [simp del]

lemma ctz_nonzero:
  assumes "w \<noteq> 0"
  shows "bit w (numberOfTrailingZeros w) \<and> (\<forall>k < numberOfTrailingZeros w. \<not> bit w k)"
proof -
  let ?tw = "takeWhile (\<lambda>k. \<not> bit w k) [0..<32]"
  have "\<exists>k<32. bit w k"
  proof (rule ccontr)
    assume "\<not> (\<exists>k<32. bit w k)"
    then have "w = 0" by (intro bit_word_eqI) auto
    with assms show False ..
  qed
  then have ex: "\<exists>k \<in> set [0..<32]. \<not> \<not> bit w k" by auto
  then have "length ?tw < length [0..<32]"
    by (metis (mono_tags, lifting) length_takeWhile_le nat_less_le takeWhile_eq_all_conv takeWhile_eq_take take_all order_refl)
  then have "\<not> \<not> bit w ([0..<32] ! length ?tw)" "length ?tw < 32"
    using nth_length_takeWhile[of "\<lambda>k. \<not> bit w k" "[0..<32]"] by simp_all
  moreover have "\<not> bit w k" if k: "k < length ?tw" for k
  proof -
    have "?tw ! k = k" using k \<open>length ?tw < 32\<close> by (simp add: takeWhile_nth)
    then show ?thesis using set_takeWhileD[of "?tw ! k" "\<lambda>k. \<not> bit w k"] nth_mem[OF k] by auto
  qed
  ultimately show ?thesis by (simp add: numberOfTrailingZeros_def)
qed

text \<open>The ways a call of \<open>advanceToNextSetBit\<close> can go, one equation each.\<close>

lemma advance_ended: "length buf \<le> mp \<Longrightarrow> advanceToNextSetBit buf mp prev cur = (mp, prev, cur)"
  by (simp add: advanceToNextSetBit.simps)

lemma advance_run:
  "mp < length buf \<Longrightarrow> cur < rl (buf ! mp) * 32 \<Longrightarrow> getRunningBit (buf ! mp) \<Longrightarrow>
     advanceToNextSetBit buf mp prev cur = (mp, prev, cur)"
  by (simp add: advanceToNextSetBit.simps wordinbits_def)

lemma advance_skip:
  "mp < length buf \<Longrightarrow> cur < rl (buf ! mp) * 32 \<Longrightarrow> \<not> getRunningBit (buf ! mp) \<Longrightarrow>
     advanceToNextSetBit buf mp prev cur = advanceToNextSetBit buf mp prev (rl (buf ! mp) * 32)"
  by (subst (1 2) advanceToNextSetBit.simps) (simp add: wordinbits_def Let_def)

lemma advance_next:
  "mp < length buf \<Longrightarrow> (rl (buf ! mp) + nl (buf ! mp)) * 32 \<le> cur \<Longrightarrow>
     advanceToNextSetBit buf mp prev cur =
       advanceToNextSetBit buf (mp + 1 + nl (buf ! mp)) (prev + cur) 0"
  by (subst advanceToNextSetBit.simps)
     (auto simp: wordinbits_def Let_def less_eq_div_iff_mult_less_eq)

lemma advance_lit:
  assumes "mp < length buf" "k < nl (buf ! mp)" "t < 32"
  shows "advanceToNextSetBit buf mp prev (rl (buf ! mp) * 32 + k * 32 + t) =
     (let w = drop_bit t (buf ! (mp + 1 + k)) in
      if w \<noteq> 0 then (mp, prev, rl (buf ! mp) * 32 + k * 32 + t + numberOfTrailingZeros w)
      else advanceToNextSetBit buf mp prev (rl (buf ! mp) * 32 + Suc k * 32))"
  using assms by (subst advanceToNextSetBit.simps) (simp add: wordinbits_def Let_def ac_simps)

lemma advance_induct [case_names ended run skip next_run found empty]:
  assumes ended: "\<And>mp prev cur. length buf \<le> mp \<Longrightarrow> P mp prev cur"
    and run: "\<And>mp prev cur. mp < length buf \<Longrightarrow> cur < rl (buf ! mp) * 32 \<Longrightarrow>
      getRunningBit (buf ! mp) \<Longrightarrow> P mp prev cur"
    and skip: "\<And>mp prev cur. mp < length buf \<Longrightarrow> cur < rl (buf ! mp) * 32 \<Longrightarrow>
      \<not> getRunningBit (buf ! mp) \<Longrightarrow> P mp prev (rl (buf ! mp) * 32) \<Longrightarrow> P mp prev cur"
    and next_run: "\<And>mp prev cur. mp < length buf \<Longrightarrow> (rl (buf ! mp) + nl (buf ! mp)) * 32 \<le> cur \<Longrightarrow>
      P (mp + 1 + nl (buf ! mp)) (prev + cur) 0 \<Longrightarrow> P mp prev cur"
    and found: "\<And>mp prev k t. mp < length buf \<Longrightarrow> k < nl (buf ! mp) \<Longrightarrow> t < 32 \<Longrightarrow>
      drop_bit t (buf ! (mp + 1 + k)) \<noteq> 0 \<Longrightarrow> P mp prev (rl (buf ! mp) * 32 + k * 32 + t)"
    and empty: "\<And>mp prev k t. mp < length buf \<Longrightarrow> k < nl (buf ! mp) \<Longrightarrow> t < 32 \<Longrightarrow>
      drop_bit t (buf ! (mp + 1 + k)) = 0 \<Longrightarrow> P mp prev (rl (buf ! mp) * 32 + Suc k * 32) \<Longrightarrow>
      P mp prev (rl (buf ! mp) * 32 + k * 32 + t)"
  shows "P mp prev cur"
proof -
  have "\<forall>mp prev cur. x = (mp, prev, cur) \<longrightarrow> P mp prev cur" for x :: "nat \<times> nat \<times> nat"
  proof (induction x rule: wf_induct_rule[OF wf_measures[of "[\<lambda>(mp, prev, cur). length buf - mp,
      \<lambda>(mp, prev, cur). (rl (buf ! mp) + nl (buf ! mp)) * 32 - cur]"]])
    case (1 x)
    show ?case
    proof (intro allI impI)
      fix mp prev cur assume x: "x = (mp, prev, cur)"
      let ?R = "rl (buf ! mp) * 32" and ?N = "(rl (buf ! mp) + nl (buf ! mp)) * 32"
      have IH1: "P mp' p' c'" if "mp < mp'" "mp < length buf" for mp' p' c'
      proof -
        have "((mp', p', c'), x) \<in> measures [\<lambda>(mp, prev, cur). length buf - mp,
            \<lambda>(mp, prev, cur). (rl (buf ! mp) + nl (buf ! mp)) * 32 - cur]"
          using that x diff_less_mono2[of mp mp' "length buf"] by simp
        then show ?thesis using "1.IH" by blast
      qed
      have IH2: "P mp p' c'" if "?N - c' < ?N - cur" for p' c'
      proof -
        have "((mp, p', c'), x) \<in> measures [\<lambda>(mp, prev, cur). length buf - mp,
            \<lambda>(mp, prev, cur). (rl (buf ! mp) + nl (buf ! mp)) * 32 - cur]"
          using that x by simp
        then show ?thesis using "1.IH" by blast
      qed
      consider "length buf \<le> mp" | "mp < length buf" "(rl (buf ! mp) + nl (buf ! mp)) * 32 \<le> cur"
        | "mp < length buf" "cur < ?R" "getRunningBit (buf ! mp)"
        | "mp < length buf" "cur < ?R" "\<not> getRunningBit (buf ! mp)"
        | "mp < length buf" "?R \<le> cur" "cur < (rl (buf ! mp) + nl (buf ! mp)) * 32"
        by linarith
      then show "P mp prev cur"
      proof cases
        case 1 then show ?thesis by (rule ended)
      next
        case 2
        then have "P (mp + 1 + nl (buf ! mp)) (prev + cur) 0" by (intro IH1) auto
        then show ?thesis by (rule next_run[OF 2])
      next
        case 3 then show ?thesis by (rule run)
      next
        case 4
        show ?thesis
        proof (cases "nl (buf ! mp) = 0")
          case True
          then have "P (mp + 1 + nl (buf ! mp)) (prev + ?R) 0" using 4 by (intro IH1) auto
          then have "P mp prev ?R" by (rule next_run[rotated 2]) (use 4 True in auto)
          then show ?thesis by (rule skip[OF 4])
        next
          case False
          then have "P mp prev ?R" using 4 by (intro IH2) auto
          then show ?thesis by (rule skip[OF 4])
        qed
      next
        case 5
        define k where "k = (cur - ?R) div 32"
        define t where "t = (cur - ?R) mod 32"
        have kt: "k < nl (buf ! mp)" "t < 32" "cur = ?R + k * 32 + t"
          using 5 by (auto simp: k_def t_def div_less_iff_less_mult)
        have "P mp prev (?R + Suc k * 32)" by (rule IH2, rule diff_less_mono2) (use 5 kt(1,2) in \<open>simp_all add: kt(3)\<close>)
        then show ?thesis using found[OF 5(1) kt(1,2)] empty[OF 5(1) kt(1,2)] kt(3) by blast
      qed
    qed
  qed
  then show ?thesis by blast
qed

text \<open>Where a call stops before the end it has not gone back and is inside its run.\<close>

lemma advance_progress:
  assumes "advanceToNextSetBit buf mp prev cur = (mp', prev', cur')" "mp' < length buf"
  shows "cur' < (rl (buf ! mp') + nl (buf ! mp')) * 32 \<and> (mp < mp' \<or> mp = mp' \<and> cur \<le> cur')"
  using assms
proof (induction mp prev cur rule: advance_induct[of buf])
  case (found mp prev k t)
  then have "bit (buf ! (mp + 1 + k)) (t + numberOfTrailingZeros (drop_bit t (buf ! (mp + 1 + k))))"
    using ctz_nonzero by (fastforce simp: bit_drop_bit_eq)
  then have "t + numberOfTrailingZeros (drop_bit t (buf ! (mp + 1 + k))) < 32"
    using bit_imp_le_length by fastforce
  with found show ?case by (auto simp: advance_lit Let_def)
qed (auto simp: advance_ended advance_run advance_skip advance_next advance_lit)

function ones_from :: "UINT32 list \<Rightarrow> set_bit_iter \<Rightarrow> nat list" where
  "ones_from buf (mpointer, prev, cur) =
     (if mpointer \<ge> length buf then []
      else (prev + cur) # ones_from buf (advanceToNextSetBit buf mpointer prev (cur + 1)))"
  by pat_completeness auto
termination
proof (relation "measures [\<lambda>(buf, (mp, prev, cur)). length buf - mp,
    \<lambda>(buf, (mp, prev, cur)). (rl (buf ! mp) + nl (buf ! mp)) * 32 - cur]", goal_cases)
  case (2 buf mp prev cur)
  obtain mp' prev' cur' where a: "advanceToNextSetBit buf mp prev (cur + 1) = (mp', prev', cur')"
    by (metis prod_cases3)
  show ?case
  proof (cases "mp' < length buf")
    case True
    from advance_progress[OF a this] 2 a True show ?thesis by auto
  next
    case False
    with 2 a show ?thesis by auto
  qed
qed simp

declare ones_from.simps [simp del]

text \<open>
  The values a loop \<^verbatim>\<open>for (it = s.begin(); it != s.end(); ++it)\<close> sees, and the printer built on it.
\<close>

definition ewah_ones :: "ewah_t \<Rightarrow> nat list" where
  "ewah_ones e = ones_from (buffer e) (advanceToNextSetBit (buffer e) 0 0 0)"

definition ewah_print :: "ewah_t \<Rightarrow> string" where
  "ewah_print e = ''{'' @ commas (map dec_str (ewah_ones e)) @ ''}''"

end
