(* ===== verification/Ewah_Semantics.thy ===== *)
theory Ewah_Semantics
  imports Ewah
begin

text \<open>
  What the compressed bitmaps of \<open>Ewah\<close> mean: the words a buffer stands for, the set of its bits,
  the representation invariant, and the proof that every operation the program calls computes on
  them what its name says. The theory ends with the interface \<open>offset_set\<close> that the label table
  relies on and its interpretation on the bitmap operations.
\<close>

section \<open>The words a buffer stands for\<close>

definition fill :: "bool \<Rightarrow> UINT32" where
  "fill v = (if v then NOT 0 else 0)"

function uncomp :: "UINT32 list \<Rightarrow> UINT32 list" where
  "uncomp [] = []"
| "uncomp (m # bs) =
     replicate (rl m) (fill (getRunningBit m)) @ take (nl m) bs @ uncomp (drop (nl m) bs)"
  by pat_completeness auto
termination by (relation "measure length") auto

function cmpl :: "UINT32 list \<Rightarrow> bool" where
  "cmpl [] = True"
| "cmpl (m # bs) = (nl m \<le> length bs \<and> cmpl (drop (nl m) bs))"
  by pat_completeness auto
termination by (relation "measure length") auto

lemma uncomp_append [simp]: "cmpl xs \<Longrightarrow> uncomp (xs @ ys) = uncomp xs @ uncomp ys"
  by (induction xs rule: cmpl.induct) auto

lemma cmpl_append [simp]: "cmpl xs \<Longrightarrow> cmpl (xs @ ys) = cmpl ys"
  by (induction xs rule: cmpl.induct) auto

definition words :: "ewah_t \<Rightarrow> UINT32 list" where
  "words e = uncomp (buffer e)"

text \<open>
  The buffer is complete and its last marker is at \<open>lastRLW\<close>; \<open>rep_split\<close> gives it in parts.
\<close>

definition rep :: "ewah_t \<Rightarrow> bool" where
  "rep e = (cmpl (take (lastRLW e) (buffer e)) \<and> lastRLW e < length (buffer e) \<and>
     nl (last_rlw e) = length (buffer e) - Suc (lastRLW e))"

lemma rep_split:
  assumes "rep e"
  obtains pre m lits where "buffer e = pre @ m # lits" "lastRLW e = length pre" "cmpl pre"
    "nl m = length lits" "words e = uncomp pre @ replicate (rl m) (fill (getRunningBit m)) @ lits"
proof
  let ?pre = "take (lastRLW e) (buffer e)" and ?lits = "drop (Suc (lastRLW e)) (buffer e)"
  show 1: "buffer e = ?pre @ last_rlw e # ?lits"
    using assms by (simp add: rep_def Cons_nth_drop_Suc)
  show "lastRLW e = length ?pre" "cmpl ?pre" "nl (last_rlw e) = length ?lits"
    using assms by (auto simp: rep_def)
  then show "words e = uncomp ?pre @ replicate (rl (last_rlw e)) (fill (getRunningBit (last_rlw e))) @ ?lits"
    unfolding words_def by (subst 1) (simp del: append_take_drop_id)
qed

lemma repI:
  assumes "buffer e = pre @ m # lits" "lastRLW e = length pre" "cmpl pre" "nl m = length lits"
  shows "rep e" "words e = uncomp pre @ replicate (rl m) (fill (getRunningBit m)) @ lits"
  using assms by (simp_all add: rep_def words_def nth_append)

lemma rep_cmpl: "rep e \<Longrightarrow> cmpl (buffer e)"
  by (erule rep_split) simp

lemma upd_last_split:
  "buffer e = pre @ m # lits \<Longrightarrow> lastRLW e = length pre \<Longrightarrow>
     buffer (upd_last f e) = pre @ f m # lits \<and> lastRLW (upd_last f e) = length pre
     \<and> sizeinbits (upd_last f e) = sizeinbits e"
  by (simp add: upd_last_def nth_append list_update_append)

lemma push_rlw_split:
  assumes "rep e"
  shows "buffer (push_rlw e) = buffer e @ 0 # []" "lastRLW (push_rlw e) = length (buffer e)"
    "cmpl (buffer e)" "sizeinbits (push_rlw e) = sizeinbits e"
  using rep_cmpl[OF assms] by (simp_all add: push_rlw_def)

lemma rep_new [simp]: "rep ewah_new" "words ewah_new = []"
  by (simp_all add: rep_def words_def ewah_new_def)

lemma rep_sizeinbits [simp]:
  "rep (e\<lparr>sizeinbits := n\<rparr>) = rep e" "words (e\<lparr>sizeinbits := n\<rparr>) = words e"
  "rep (sizeinbits_update g e) = rep e" "words (sizeinbits_update g e) = words e"
  by (simp_all add: rep_def words_def)

text \<open>\<open>appends e e' ws\<close>: e' is e with the words ws appended.\<close>

definition appends :: "ewah_t \<Rightarrow> ewah_t \<Rightarrow> UINT32 list \<Rightarrow> bool" where
  "appends e e' ws = (rep e' \<and> words e' = words e @ ws)"

lemma appends_trans: "appends e e1 ws \<Longrightarrow> appends e1 e2 vs \<Longrightarrow> appends e e2 (ws @ vs)"
  by (simp add: appends_def)

text \<open>A new marker with run length k and literals, pushed behind a complete buffer.\<close>

lemma push_marker:
  assumes "rep e" "nl (f 0) = 0"
  shows "appends e (upd_last f (push_rlw e)) (replicate (rl (f 0)) (fill (getRunningBit (f 0))))
     \<and> last_rlw (upd_last f (push_rlw e)) = f 0"
proof -
  note p = push_rlw_split[OF assms(1)]
  note u = upd_last_split[OF p(1,2), of f]
  have "rep (upd_last f (push_rlw e))"
    "words (upd_last f (push_rlw e)) =
       uncomp (buffer e) @ replicate (rl (f 0)) (fill (getRunningBit (f 0))) @ []"
    using repI[of "upd_last f (push_rlw e)" "buffer e" "f 0" "[]"] u p assms(2) by auto
  with u show ?thesis by (simp add: appends_def words_def nth_append)
qed

lemma push_rlw_appends: "rep e \<Longrightarrow> appends e (push_rlw e) []"
  using repI[of "push_rlw e" "buffer e" 0 "[]"] push_rlw_split[of e]
  by (simp add: appends_def words_def)

text \<open>A change of the last marker that keeps its literal count.\<close>

lemma upd_last_run:
  assumes "rep e" "nl (f (last_rlw e)) = nl (last_rlw e)"
    "nl (last_rlw e) = 0"
    "replicate (rl (f (last_rlw e))) (fill (getRunningBit (f (last_rlw e)))) =
     replicate (rl (last_rlw e)) (fill (getRunningBit (last_rlw e))) @ ws"
  shows "appends e (upd_last f e) ws"
proof -
  obtain pre m lits where s: "buffer e = pre @ m # lits" "lastRLW e = length pre" "cmpl pre"
    "nl m = length lits" "words e = uncomp pre @ replicate (rl m) (fill (getRunningBit m)) @ lits"
    using assms(1) by (rule rep_split)
  then have m: "last_rlw e = m" by (simp add: nth_append)
  note u = upd_last_split[OF s(1,2), of f]
  show ?thesis using repI[of "upd_last f e" pre "f m" lits] u assms s m by (simp add: appends_def)
qed

section \<open>The appending operations\<close>

lemma addLiteralWord_appends:
  assumes "rep e" shows "appends e (addLiteralWord w e) [w]"
proof (cases "nl (last_rlw e) \<ge> largestliteralcount")
  case True
  note p = push_rlw_split[OF assms]
  have one: "nl (setNumberOfLiteralWords 0 1) = 1"
    using nl_setters(1)[of 1 0] by (simp add: largestliteralcount_def)
  have "rep (addLiteralWord w e) \<and> words (addLiteralWord w e) = uncomp (buffer e) @ [w]"
    using True p upd_last_split[OF p(1,2), of "\<lambda>m. setNumberOfLiteralWords m 1"]
      repI[of "addLiteralWord w e" "buffer e" "setNumberOfLiteralWords 0 1" "[w]"] one
    by (simp add: addLiteralWord_def Let_def)
  then show ?thesis by (simp add: appends_def words_def)
next
  case False
  obtain pre m lits where s: "buffer e = pre @ m # lits" "lastRLW e = length pre" "cmpl pre"
    "nl m = length lits" "words e = uncomp pre @ replicate (rl m) (fill (getRunningBit m)) @ lits"
    using assms by (rule rep_split)
  then have m: "last_rlw e = m" by (simp add: nth_append)
  let ?f = "\<lambda>m. setNumberOfLiteralWords m (of_nat (nl (last_rlw e) + 1))"
  note u = upd_last_split[OF s(1,2), of ?f]
  have "nl (setNumberOfLiteralWords m (of_nat (nl m + 1))) = nl m + 1"
    by (rule nl_setters(1)) (use False m in simp)
  then have n: "nl (?f m) = length (lits @ [w])" using m s(4) by (simp del: of_nat_add)
  have "buffer (addLiteralWord w e) = pre @ ?f m # (lits @ [w])"
    "lastRLW (addLiteralWord w e) = length pre"
    using False u by (simp_all add: addLiteralWord_def Let_def)
  note r = repI[OF this s(3) n]
  with s show ?thesis by (simp add: appends_def)
qed

lemma replicate_snoc: "replicate (Suc n) x = replicate n x @ [x]"
  by (simp add: replicate_append_same)

lemma setRunningBit_idle:
  assumes "rep e" "nl (last_rlw e) = 0" "rl (last_rlw e) = 0"
  shows "appends e (upd_last (\<lambda>m. setRunningBit m v) e) []"
  by (rule upd_last_run) (use assms in auto)

lemma last_rlw_upd_last: "rep e \<Longrightarrow> last_rlw (upd_last f e) = f (last_rlw e)"
  by (erule rep_split) (simp add: upd_last_def)

lemma addEmptyWord_appends:
  assumes "rep e" shows "appends e (addEmptyWord v e) [fill v]"
proof -
  define idle where "idle = (nl (last_rlw e) = 0 \<and> rl (last_rlw e) = 0)"
  define e1 where "e1 = (if idle then upd_last (\<lambda>m. setRunningBit m v) e else e)"
  have a1: "appends e e1 []" using setRunningBit_idle[OF assms] assms
    by (auto simp: e1_def idle_def appends_def)
  then have r1: "rep e1" by (simp add: appends_def)
  have l1: "nl (last_rlw e1) = nl (last_rlw e)" "rl (last_rlw e1) = rl (last_rlw e)"
    using last_rlw_upd_last[OF assms, of "\<lambda>m. setRunningBit m v"] by (auto simp: e1_def)
  have unf: "addEmptyWord v e =
    (if nl (last_rlw e) = 0 \<and> getRunningBit (last_rlw e1) = v \<and> rl (last_rlw e) < largestrunninglengthcount
     then upd_last (\<lambda>m. setRunningLength m (of_nat (rl (last_rlw e) + 1))) e1
     else upd_last (\<lambda>m. setRunningLength (setRunningBit m v) 1) (push_rlw e1))"
    by (simp add: addEmptyWord_def Let_def e1_def idle_def)
  show ?thesis
  proof (cases "nl (last_rlw e) = 0 \<and> getRunningBit (last_rlw e1) = v \<and> rl (last_rlw e) < largestrunninglengthcount")
    case True
    then have "rl (setRunningLength (last_rlw e1) (of_nat (rl (last_rlw e) + 1))) = rl (last_rlw e) + 1"
      by (intro rl_setters(1)) simp
    then have "appends e1 (upd_last (\<lambda>m. setRunningLength m (of_nat (rl (last_rlw e) + 1))) e1) [fill v]"
      using True l1 r1 by (intro upd_last_run) (simp_all del: of_nat_add add: replicate_append_same)
    with True unf a1 show ?thesis by (simp add: appends_def)
  next
    case False
    have "rl (setRunningLength (setRunningBit 0 v) 1) = 1"
      using rl_setters(1)[of 1] by (simp add: largestrunninglengthcount_def)
    then have "appends e1 (upd_last (\<lambda>m. setRunningLength (setRunningBit m v) 1) (push_rlw e1)) [fill v]"
      using push_marker[OF r1, of "\<lambda>m. setRunningLength (setRunningBit m v) 1"] by simp
    then show ?thesis using a1 unfolding unf if_not_P[OF False] by (simp add: appends_def)
  qed
qed

lemma marker_run:
  assumes "k \<le> largestrunninglengthcount"
  shows "rl (setRunningLength (if v then setRunningBit 0 v else 0) (of_nat k)) = k"
    "nl (setRunningLength (if v then setRunningBit 0 v else 0) (of_nat k)) = 0"
    "getRunningBit (setRunningLength (if v then setRunningBit 0 v else 0) (of_nat k)) = v"
  using assms by (auto simp: if_distrib)

lemma push_run_appends:
  assumes "rep e" "k \<le> largestrunninglengthcount"
  shows "appends e (upd_last (\<lambda>m. setRunningLength (if v then setRunningBit m v else m) (of_nat k))
           (push_rlw e)) (replicate k (fill v))"
  using push_marker[OF assms(1), of "\<lambda>m. setRunningLength (if v then setRunningBit m v else m) (of_nat k)"]
    marker_run[OF assms(2), of v] by simp

lemma push_runs_appends: "rep e \<Longrightarrow> appends e (push_runs v n e) (replicate n (fill v))"
proof (induction v n e rule: push_runs.induct)
  case (1 v n e)
  let ?L = largestrunninglengthcount
  consider "n \<ge> ?L" | "n < ?L" "n > 0" | "n = 0" "n < ?L" by linarith
  then show ?case
  proof cases
    case 1
    let ?e1 = "upd_last (\<lambda>m. setRunningLength (if v then setRunningBit m v else m) (of_nat ?L)) (push_rlw e)"
    have a: "appends e ?e1 (replicate ?L (fill v))" by (rule push_run_appends) (use "1.prems" in auto)
    then have "appends ?e1 (push_runs v (n - ?L) ?e1) (replicate (n - ?L) (fill v))"
      using "1.IH"[OF 1] by (simp add: appends_def)
    from appends_trans[OF a this] show ?thesis
      using 1 by (subst push_runs.simps) (simp add: replicate_add [symmetric])
  next
    case 2
    then show ?thesis
      using push_run_appends[OF "1.prems", of n v] by (subst push_runs.simps) simp
  next
    case 3
    then show ?thesis using "1.prems" by (subst push_runs.simps) (simp add: appends_def)
  qed
qed

lemma fastaddStreamOfEmptyWords_appends:
  assumes "rep e" shows "appends e (fastaddStreamOfEmptyWords v n e) (replicate n (fill v))"
proof -
  let ?L = largestrunninglengthcount
  define e1 where "e1 =
        (if getRunningBit (last_rlw e) \<noteq> v \<and> rlw_size (last_rlw e) = 0
         then upd_last (\<lambda>m. setRunningBit m v) e
         else if nl (last_rlw e) \<noteq> 0 \<or> getRunningBit (last_rlw e) \<noteq> v
         then upd_last (\<lambda>m. if v then setRunningBit m v else m) (push_rlw e)
         else e)"
  have 1: "appends e e1 [] \<and> nl (last_rlw e1) = 0 \<and> getRunningBit (last_rlw e1) = v"
  proof -
    have "appends e (upd_last (\<lambda>m. setRunningBit m v) e) []" if "rlw_size (last_rlw e) = 0"
      using that by (intro setRunningBit_idle assms) (simp_all add: rlw_size_0_iff)
    moreover have "appends e (upd_last (\<lambda>m. if v then setRunningBit m v else m) (push_rlw e)) []
        \<and> last_rlw (upd_last (\<lambda>m. if v then setRunningBit m v else m) (push_rlw e)) =
          (if v then setRunningBit 0 v else 0)"
      using push_marker[OF assms, of "\<lambda>m. if v then setRunningBit m v else m"] by (cases v) simp_all
    ultimately show ?thesis
      using assms last_rlw_upd_last[OF assms, of "\<lambda>m. setRunningBit m v"]
      by (auto simp: e1_def rlw_size_0_iff appends_def)
  qed
  define run where "run = rl (last_rlw e1)"
  define can where "can = (if n < ?L - run then n else ?L - run)"
  define e2 where "e2 = upd_last (\<lambda>m. setRunningLength m (of_nat (run + can))) e1"
  have can: "run + can \<le> ?L" "can \<le> n" using rl_bound[of "last_rlw e1"] by (auto simp: run_def can_def)
  have 2: "appends e1 e2 (replicate can (fill v))"
    unfolding e2_def
    using 1 can rl_setters(1)[OF can(1), of "last_rlw e1"]
    by (intro upd_last_run) (simp_all del: of_nat_add add: appends_def replicate_add run_def)
  have 3: "appends e2 (push_runs v (n - can) e2) (replicate (n - can) (fill v))"
    using 2 by (intro push_runs_appends) (simp add: appends_def)
  have "fastaddStreamOfEmptyWords v n e = push_runs v (n - can) e2"
    unfolding fastaddStreamOfEmptyWords_def Let_def e1_def [symmetric] run_def [symmetric]
      can_def [symmetric] e2_def [symmetric] ..
  then show ?thesis
    using appends_trans[OF _ appends_trans[OF 2 3], of e "[]"] 1 can(2)
    by (simp add: replicate_add [symmetric])
qed

lemma appends_Nil: "rep e \<Longrightarrow> appends e e []"
  by (simp add: appends_def)

lemma appends_sizeinbits [simp]:
  "appends (e\<lparr>sizeinbits := n\<rparr>) e' ws = appends e e' ws"
  "appends e (e'\<lparr>sizeinbits := n\<rparr>) ws = appends e e' ws"
  by (simp_all add: appends_def)

lemma addStreamOfEmptyWords_appends:
  "rep e \<Longrightarrow> appends e (addStreamOfEmptyWords v n e) (replicate n (fill v))"
  using fastaddStreamOfEmptyWords_appends[of "e\<lparr>sizeinbits := sizeinbits e + n * wordinbits\<rparr>" v n]
  by (simp add: addStreamOfEmptyWords_def appends_Nil)

lemma ewah_add_appends: "rep e \<Longrightarrow> appends e (ewah_add w e) [w]"
  using addEmptyWord_appends[of "e\<lparr>sizeinbits := sizeinbits e + wordinbits\<rparr>" False]
    addEmptyWord_appends[of "e\<lparr>sizeinbits := sizeinbits e + wordinbits\<rparr>" True]
    addLiteralWord_appends[of "e\<lparr>sizeinbits := sizeinbits e + wordinbits\<rparr>" w]
  by (simp add: ewah_add_def Let_def fill_def)

lemma fold_ewah_add_appends:
  "rep e \<Longrightarrow> appends e (fold (\<lambda>k. ewah_add (f k)) ks e) (map f ks)"
proof (induction ks arbitrary: e)
  case (Cons k ks)
  from ewah_add_appends[OF Cons.prems] have a: "appends e (ewah_add (f k) e) [f k]" .
  then have "appends (ewah_add (f k) e) (fold (\<lambda>k. ewah_add (f k)) ks (ewah_add (f k) e)) (map f ks)"
    by (intro Cons.IH) (simp add: appends_def)
  from appends_trans[OF a this] show ?case by simp
qed (simp add: appends_Nil)

lemma append_literals:
  assumes "rep e" "nl (last_rlw e) + length ws \<le> largestliteralcount"
    and "buffer e' = buffer (upd_last (\<lambda>m. setNumberOfLiteralWords m
           (of_nat (nl (last_rlw e) + length ws))) e) @ ws" "lastRLW e' = lastRLW e"
  shows "appends e e' ws"
proof -
  obtain pre m lits where s: "buffer e = pre @ m # lits" "lastRLW e = length pre" "cmpl pre"
    "nl m = length lits" "words e = uncomp pre @ replicate (rl m) (fill (getRunningBit m)) @ lits"
    using assms(1) by (rule rep_split)
  then have m: "last_rlw e = m" by (simp add: nth_append)
  let ?f = "\<lambda>m'. setNumberOfLiteralWords m' (of_nat (nl m + length ws))"
  have "nl (?f m) = length (lits @ ws)"
    using nl_setters(1)[of "nl m + length ws" m] assms(2) m s(4) by (simp del: of_nat_add)
  with repI[of e' pre "?f m" "lits @ ws"] s assms(3,4) m upd_last_split[OF s(1,2), of ?f]
  show ?thesis by (simp add: appends_def)
qed

lemma addStreamOfDirtyWords_appends: "rep e \<Longrightarrow> appends e (addStreamOfDirtyWords v e) v"
proof (induction v e rule: addStreamOfDirtyWords.induct)
  case (1 v e)
  let ?L = largestliteralcount
  define can where "can = (if length v < ?L - nl (last_rlw e) then length v else ?L - nl (last_rlw e))"
  define e1 where "e1 = upd_last (\<lambda>m. setNumberOfLiteralWords m (of_nat (nl (last_rlw e) + can))) e"
  define e2 where "e2 = e1\<lparr>buffer := buffer e1 @ take can v,
      sizeinbits := sizeinbits e1 + can * wordinbits\<rparr>"
  have can: "nl (last_rlw e) + can \<le> ?L" "can \<le> length v"
    using nl_bound[of "last_rlw e"] by (auto simp: can_def)
  have unf: "addStreamOfDirtyWords v e =
      (if length v = 0 then e else
       if length v - can > 0 then addStreamOfDirtyWords (drop can v) (push_rlw e2) else e2)"
    by (subst addStreamOfDirtyWords.simps) (simp only: Let_def e1_def e2_def can_def)
  have a2: "appends e e2 (take can v)"
    by (rule append_literals) (use "1.prems" can in \<open>auto simp: e2_def e1_def upd_last_def\<close>)
  then have p: "appends e2 (push_rlw e2) []"
    by (intro push_rlw_appends) (simp add: appends_def)
  show ?case
  proof (cases "length v = 0")
    case True
    with "1.prems" show ?thesis by (simp add: addStreamOfDirtyWords.simps appends_Nil)
  next
    case ne: False
    show ?thesis
    proof (cases "length v - can > 0")
      case True
      have "appends (push_rlw e2) (addStreamOfDirtyWords (drop can v) (push_rlw e2)) (drop can v)"
        by (rule "1.IH"[OF refl ne refl can_def e1_def e2_def True])
           (use p in \<open>simp add: appends_def\<close>)
      from appends_trans[OF a2 appends_trans[OF p this]] show ?thesis using ne True by (simp add: unf)
    next
      case False
      with a2 ne show ?thesis by (simp add: unf)
    qed
  qed
qed

section \<open>Bits\<close>

definition bits_of :: "UINT32 list \<Rightarrow> nat set" where
  "bits_of ws = {i. i div 32 < length ws \<and> bit (ws ! (i div 32)) (i mod 32)}"

lemma bits_of_append:
  "bits_of (ws @ vs) = bits_of ws \<union> (\<lambda>i. i + 32 * length ws) ` bits_of vs"
proof (rule set_eqI)
  fix i
  show "i \<in> bits_of (ws @ vs) \<longleftrightarrow> i \<in> bits_of ws \<union> (\<lambda>i. i + 32 * length ws) ` bits_of vs"
  proof (cases "i div 32 < length ws")
    case True
    then have "i \<notin> (\<lambda>i. i + 32 * length ws) ` bits_of vs" by auto
    with True show ?thesis by (auto simp: bits_of_def nth_append)
  next
    case False
    then have le: "32 * length ws \<le> i" by (simp add: not_less less_eq_div_iff_mult_less_eq mult.commute)
    define j where "j = i - 32 * length ws"
    have j: "i = j + 32 * length ws" using le by (simp add: j_def)
    have "i \<in> (\<lambda>i. i + 32 * length ws) ` bits_of vs \<longleftrightarrow> j \<in> bits_of vs" unfolding j by auto
    moreover have "i \<in> bits_of (ws @ vs) \<longleftrightarrow> j \<in> bits_of vs"
      unfolding j bits_of_def by (auto simp: nth_append)
    ultimately show ?thesis using False by (auto simp: bits_of_def)
  qed
qed

lemma bits_of_zeroes [simp]: "bits_of (replicate n 0) = {}" "bits_of [] = {}"
  by (auto simp: bits_of_def)

lemma bits_of_single: "bits_of [w] = {j. bit w j}"
proof -
  have "j < 32" if "bit w j" for j using bit_imp_le_length[OF that] by simp
  then show ?thesis by (auto simp: bits_of_def div_eq_0_iff)
qed

lemma bits_of_bound: "i \<in> bits_of ws \<Longrightarrow> i < 32 * length ws"
  by (simp add: bits_of_def div_less_iff_less_mult mult.commute)

definition map_or :: "UINT32 list \<Rightarrow> UINT32 list \<Rightarrow> UINT32 list" where
  "map_or ws vs = map2 (OR) ws vs"

lemma bits_of_map_or:
  assumes "bits_of ws \<subseteq> {..<n}" "bits_of vs \<subseteq> {..<n}" "n \<le> 32 * length ws" "n \<le> 32 * length vs"
  shows "bits_of (map_or ws vs) = bits_of ws \<union> bits_of vs"
proof (rule set_eqI)
  fix i
  show "i \<in> bits_of (map_or ws vs) \<longleftrightarrow> i \<in> bits_of ws \<union> bits_of vs"
  proof (cases "i < n")
    case True
    with assms(3,4) have "i div 32 < length ws" "i div 32 < length vs" by auto
    then show ?thesis by (auto simp: bits_of_def map_or_def bit_or_iff)
  next
    case False
    then have no: "i \<notin> bits_of ws \<union> bits_of vs" using assms(1,2) by auto
    have "i \<notin> bits_of (map_or ws vs)"
    proof
      assume "i \<in> bits_of (map_or ws vs)"
      then have "i \<in> bits_of ws \<union> bits_of vs" by (auto simp: bits_of_def map_or_def bit_or_iff)
      with no show False ..
    qed
    with no show ?thesis by blast
  qed
qed

section \<open>The representation invariant; setting a bit; padding\<close>

text \<open>
  No set bit lies at or above \<open>sizeinbits\<close>, and the words reach at least that far. They may
  reach further: padding a bitmap that ends in a run adds whole words without using the bits the
  last word has left.
\<close>

definition ewah_inv :: "ewah_t \<Rightarrow> bool" where
  "ewah_inv e = (rep e \<and> sizeinbits e \<le> 32 * length (words e) \<and> bits_of (words e) \<subseteq> {..<sizeinbits e})"

definition offsets :: "ewah_t \<Rightarrow> nat set" where
  "offsets e = bits_of (words e)"

lemma ewah_inv_new [simp]: "ewah_inv ewah_new" "offsets ewah_new = {}"
  by (simp_all add: ewah_inv_def offsets_def ewah_new_def[THEN arg_cong[of _ _ sizeinbits]])

lemma sizeinbits_frame [simp]:
  "sizeinbits (upd_last f e) = sizeinbits e" "sizeinbits (push_rlw e) = sizeinbits e"
  "sizeinbits (addLiteralWord w e) = sizeinbits e" "sizeinbits (addEmptyWord v e) = sizeinbits e"
  by (simp_all add: upd_last_def push_rlw_def addLiteralWord_def addEmptyWord_def Let_def)

lemma sizeinbits_push_runs [simp]: "sizeinbits (push_runs v n e) = sizeinbits e"
  by (induction v n e rule: push_runs.induct) (subst push_runs.simps, simp)

lemma sizeinbits_fastadd [simp]: "sizeinbits (fastaddStreamOfEmptyWords v n e) = sizeinbits e"
  by (simp add: fastaddStreamOfEmptyWords_def Let_def)

lemma ewah_set_words:
  "appends ewah_new (ewah_set i ewah_new) (replicate (i div 32) 0 @ [push_bit (i mod 32) 1])
     \<and> sizeinbits (ewah_set i ewah_new) = i + 1"
proof -
  let ?e0 = "ewah_new\<lparr>sizeinbits := i + 1\<rparr>"
  define e1 where "e1 = (if i div 32 + 1 > 1 then fastaddStreamOfEmptyWords False (i div 32) ?e0 else ?e0)"
  have e: "ewah_set i ewah_new = addLiteralWord (push_bit (i mod 32) 1) e1"
    using div_add_self2[of 32 i] by (simp add: ewah_set_def ewah_new_def wordinbits_def Let_def e1_def)
  have "rep ?e0" by simp
  then have 1: "appends ?e0 e1 (replicate (i div 32) 0)"
    using fastaddStreamOfEmptyWords_appends[of ?e0 False "i div 32"]
    by (auto simp: e1_def fill_def appends_def)
  have 2: "appends e1 (ewah_set i ewah_new) [push_bit (i mod 32) 1]"
    unfolding e by (rule addLiteralWord_appends) (use 1 in \<open>simp add: appends_def\<close>)
  have "sizeinbits (ewah_set i ewah_new) = i + 1" by (simp add: e e1_def)
  with appends_trans[OF 1 2] show ?thesis by simp
qed

lemma ewah_set_new: "ewah_inv (ewah_set i ewah_new) \<and> offsets (ewah_set i ewah_new) = {i}"
proof -
  have "bit (push_bit (i mod 32) 1 :: UINT32) k \<longleftrightarrow> k = i mod 32" for k
    by (auto simp: bit_exp_iff)
  then have "bits_of [push_bit (i mod 32) (1 :: UINT32)] = {i mod 32}"
    by (simp add: bits_of_single)
  then have "bits_of (replicate (i div 32) 0 @ [push_bit (i mod 32) (1 :: UINT32)]) = {i}"
    by (simp add: bits_of_append)
  moreover have "i + 1 \<le> 32 * (i div 32 + 1)"
    by presburger
  ultimately show ?thesis
    using ewah_set_words[of i] by (simp add: appends_def ewah_inv_def offsets_def)
qed

lemma padWithZeroes_spec:
  assumes "ewah_inv e" "sizeinbits e \<le> n"
  shows "ewah_inv (padWithZeroes n e) \<and> offsets (padWithZeroes n e) = offsets e
     \<and> sizeinbits (padWithZeroes n e) = n"
proof (cases "n \<le> sizeinbits e")
  case True
  with assms show ?thesis by (simp add: padWithZeroes_def)
next
  case False
  define remain where "remain = sizeinbits e mod 32"
  define consume where "consume = (nl (last_rlw e) > 0 \<and> remain > 0 \<and> 32 - remain > 0)"
  define missing where "missing = (if consume then (if n - sizeinbits e > 32 - remain
      then n - sizeinbits e - (32 - remain) else 0) else n - sizeinbits e)"
  define e1 where "e1 = (if consume then e\<lparr>sizeinbits := sizeinbits e + (32 - remain)\<rparr> else e)"
  define k where "k = missing div 32 + (if missing mod 32 \<noteq> 0 then 1 else 0)"
  define e2 where "e2 = (if missing > 0 then addStreamOfEmptyWords False k e1 else e1)"
  have pad: "padWithZeroes n e = e2\<lparr>sizeinbits := n\<rparr>"
    using False unfolding padWithZeroes_def Let_def wordinbits_def e2_def k_def e1_def missing_def
      consume_def remain_def by simp
  have r1: "rep e1" "words e1 = words e" using assms(1) by (simp_all add: e1_def ewah_inv_def)
  have "k = 0" if "missing = 0" using that by (simp add: k_def)
  then have a: "appends e1 e2 (replicate k 0)"
    using addStreamOfEmptyWords_appends[OF r1(1), of False k] r1(1)
    by (auto simp: e2_def fill_def appends_Nil)
  have k: "missing mod 32 = 0 \<Longrightarrow> k = missing div 32" "missing mod 32 \<noteq> 0 \<Longrightarrow> k = missing div 32 + 1"
    by (simp_all add: k_def)
  have mk: "missing \<le> 32 * k"
    using k div_mult_mod_eq[of missing 32] mod_less_divisor[of 32 missing]
    by (cases "missing mod 32 = 0") linarith+
  have len: "n \<le> 32 * (length (words e) + k)"
  proof (cases consume)
    case True
    have "sizeinbits e + (32 - remain) \<le> 32 * length (words e)"
    proof -
      have "sizeinbits e \<le> 32 * length (words e)" using assms(1) by (simp add: ewah_inv_def)
      moreover have "sizeinbits e = 32 * (sizeinbits e div 32) + remain" by (simp add: remain_def)
      moreover have "0 < remain" "remain < 32" using True by (auto simp: consume_def remain_def)
      ultimately have "sizeinbits e div 32 < length (words e)" by linarith
      with \<open>sizeinbits e = 32 * (sizeinbits e div 32) + remain\<close> \<open>remain < 32\<close>
      show ?thesis by linarith
    qed
    with True mk show ?thesis by (auto simp: missing_def split: if_splits)
  next
    case False
    with mk assms(1) show ?thesis by (auto simp: missing_def ewah_inv_def)
  qed
  have "bits_of (words e) \<subseteq> {..<n}" using assms by (auto simp: ewah_inv_def)
  with a len r1 show ?thesis
    by (simp add: pad ewah_inv_def offsets_def appends_def bits_of_append)
qed

section \<open>The union\<close>

text \<open>The words an iterator has still to deliver, and when its position makes sense.\<close>

definition lits_left :: "raw_iter \<Rightarrow> UINT32 list" where
  "lits_left it = take (NumberOfLiteralWords it) (dirtyWords it)"

definition cur_left :: "raw_iter \<Rightarrow> UINT32 list" where
  "cur_left it = replicate (RunningLength it) (fill (RunningBit it)) @ lits_left it"

definition after_left :: "raw_iter \<Rightarrow> UINT32 list" where
  "after_left it = uncomp (drop (pointer it) (parent it))"

definition iter_ok :: "raw_iter \<Rightarrow> bool" where
  "iter_ok it = (pointer it \<le> length (parent it) \<and> NumberOfLiteralWords it \<le> pointer it
     \<and> cmpl (drop (pointer it) (parent it)))"

lemma length_lits_left: "iter_ok it \<Longrightarrow> length (lits_left it) = NumberOfLiteralWords it"
  by (auto simp: lits_left_def dirtyWords_def iter_ok_def)

lemma length_cur_left: "iter_ok it \<Longrightarrow> length (cur_left it) = buffered_size it"
  by (simp add: cur_left_def buffered_size_def length_lits_left)

lemma after_left_discard [simp]: "after_left (discardFirstWords x it) = after_left it"
  by (simp add: after_left_def)

lemma RunningBit_discard [simp]: "RunningBit (discardFirstWords x it) = RunningBit it"
  by (simp add: discardFirstWords_def)

lemma discard_ok:
  assumes "iter_ok it" "x \<le> buffered_size it"
  shows "iter_ok (discardFirstWords x it)" "cur_left (discardFirstWords x it) = drop x (cur_left it)"
    "buffered_size (discardFirstWords x it) = buffered_size it - x"
proof -
  show "iter_ok (discardFirstWords x it)"
    using assms(1) by (auto simp: iter_ok_def discardFirstWords_def)
  show "buffered_size (discardFirstWords x it) = buffered_size it - x"
    using assms(2) by (auto simp: discardFirstWords_def buffered_size_def)
  show "cur_left (discardFirstWords x it) = drop x (cur_left it)"
  proof (cases "x \<le> RunningLength it")
    case True
    then show ?thesis
      by (simp add: discardFirstWords_def cur_left_def lits_left_def dirtyWords_def)
  next
    case False
    define y where "y = x - RunningLength it"
    have y: "y \<le> NumberOfLiteralWords it" using False assms(2) by (simp add: y_def buffered_size_def)
    have "pointer it - (NumberOfLiteralWords it - y) = y + (pointer it - NumberOfLiteralWords it)"
      using y assms(1) by (simp add: iter_ok_def)
    then show ?thesis
      using False y by (simp add: discardFirstWords_def cur_left_def lits_left_def dirtyWords_def
          y_def [symmetric] drop_take)
  qed
qed

lemma next_ok:
  assumes "cmpl (drop (pointer it) (parent it))" "hasNext it"
  shows "iter_ok (raw_next it)"
    "after_left it = cur_left (raw_next it) @ after_left (raw_next it)"
proof -
  define m where "m = parent it ! pointer it"
  define rest where "rest = drop (Suc (pointer it)) (parent it)"
  have d: "drop (pointer it) (parent it) = m # rest"
    using assms(2) by (simp add: m_def rest_def hasNext_def Cons_nth_drop_Suc)
  have nlm: "nl m \<le> length rest" "cmpl (drop (nl m) rest)"
    using assms(1) d by auto
  have lenr: "length rest = length (parent it) - Suc (pointer it)" by (simp add: rest_def)
  have dr: "drop (Suc (pointer it + nl m)) (parent it) = drop (nl m) rest"
    by (simp add: rest_def add.commute)
  show "iter_ok (raw_next it)"
    using nlm lenr assms(2) dr
    by (simp add: iter_ok_def raw_next_def rlw_read_def Let_def m_def [symmetric] hasNext_def)
  show "after_left it = cur_left (raw_next it) @ after_left (raw_next it)"
    using d dr by (simp add: after_left_def cur_left_def lits_left_def dirtyWords_def raw_next_def
        rlw_read_def Let_def m_def [symmetric]) (simp add: rest_def)
qed

lemma map_or_fill:
  "length ws = k \<Longrightarrow> map_or (replicate k (fill False)) ws = ws"
  "length ws = k \<Longrightarrow> map_or (replicate k (fill True)) ws = replicate k (fill True)"
  by (rule nth_equalityI; simp add: map_or_def fill_def)+

lemma map_or_commute: "map_or ws vs = map_or vs ws"
  unfolding map_or_def by (induction ws vs rule: list_induct2') (auto simp: or.commute)

lemma map_or_append:
  "length a = length b \<Longrightarrow> map_or (a @ c) (b @ d) = map_or a b @ map_or c d"
  by (simp add: map_or_def)

lemma map_or_take_split:
  assumes "k \<le> length ws" "k \<le> length vs"
  shows "map_or ws vs = map_or (take k ws) (take k vs) @ map_or (drop k ws) (drop k vs)"
  using map_or_append[of "take k ws" "take k vs" "drop k ws" "drop k vs"] assms by simp

lemma map_or_split3:
  assumes "x + y \<le> length ws" "x + y \<le> length vs"
  shows "map_or ws vs = map_or (take x ws) (take x vs) @
     map_or (take y (drop x ws)) (take y (drop x vs)) @ map_or (drop (x + y) ws) (drop (x + y) vs)"
  using map_or_take_split[of x ws vs] map_or_take_split[of y "drop x ws" "drop x vs"] assms
  by (simp add: add.commute)

text \<open>
  One part of the loop body: from the pair of iterators it takes the same number of words on
  either side, and appends their union to the container.
\<close>

definition or_part :: "nat \<Rightarrow> raw_iter \<Rightarrow> raw_iter \<Rightarrow> ewah_t \<Rightarrow> raw_iter \<Rightarrow> raw_iter \<Rightarrow> ewah_t \<Rightarrow> bool" where
  "or_part x p q c p' q' c' =
     (appends c c' (map_or (take x (cur_left p)) (take x (cur_left q)))
      \<and> p' = discardFirstWords x p \<and> q' = discardFirstWords x q)"

lemma cur_left_take_run:
  "x \<le> RunningLength it \<Longrightarrow> take x (cur_left it) = replicate x (fill (RunningBit it))"
  by (simp add: cur_left_def)

lemma discard_0 [simp]: "discardFirstWords 0 it = it"
  by (simp add: discardFirstWords_def)

lemma or_prey_run_part:
  assumes "iter_ok p" "iter_ok q" "buffered_size p \<le> buffered_size q" "rep c"
    and "or_prey_run p q c = (p', q', c')"
  shows "or_part (RunningLength p) p q c p' q' c'"
proof -
  let ?x = "RunningLength p"
  have x: "?x \<le> buffered_size q" using assms(3) by (simp add: buffered_size_def)
  then have lq: "length (take ?x (cur_left q)) = ?x" using assms(2) by (simp add: length_cur_left)
  have tp: "take ?x (cur_left p) = replicate ?x (fill (RunningBit p))" by (simp add: cur_left_take_run)
  have pq: "p' = discardFirstWords ?x p" "q' = discardFirstWords ?x q"
    using assms(5) by (auto simp: or_prey_run_def Let_def split: if_splits)
  consider "RunningBit p" | "\<not> RunningBit p" "RunningLength q \<ge> ?x" | "\<not> RunningBit p" "RunningLength q < ?x"
    by linarith
  then have "appends c c' (map_or (take ?x (cur_left p)) (take ?x (cur_left q)))"
  proof cases
    case 1
    with assms(5) have "c' = addStreamOfEmptyWords True ?x c" by (simp add: or_prey_run_def Let_def)
    with addStreamOfEmptyWords_appends[OF assms(4), of True ?x] 1 tp lq show ?thesis
      by (simp add: map_or_fill)
  next
    case 2
    with assms(5) have "c' = addStreamOfEmptyWords (RunningBit q) ?x c"
      by (simp add: or_prey_run_def Let_def)
    with addStreamOfEmptyWords_appends[OF assms(4), of "RunningBit q" ?x] 2 tp lq show ?thesis
      by (simp add: map_or_fill cur_left_take_run)
  next
    case 3
    let ?c1 = "addStreamOfEmptyWords (RunningBit q) (RunningLength q) c"
    let ?d = "take (?x - RunningLength q) (dirtyWords q)"
    from 3 assms(5) have c': "c' = addStreamOfDirtyWords ?d ?c1" by (simp add: or_prey_run_def Let_def)
    have a1: "appends c ?c1 (replicate (RunningLength q) (fill (RunningBit q)))"
      by (rule addStreamOfEmptyWords_appends[OF assms(4)])
    then have a2: "appends ?c1 c' ?d"
      unfolding c' by (intro addStreamOfDirtyWords_appends) (simp add: appends_def)
    have "take ?x (cur_left q) = replicate (RunningLength q) (fill (RunningBit q)) @ ?d"
      using 3 x by (auto simp: cur_left_def lits_left_def buffered_size_def min_def)
    with appends_trans[OF a1 a2] 3 tp lq show ?thesis by (simp add: map_or_fill)
  qed
  with pq show ?thesis by (simp add: or_part_def)
qed

lemma or_predator_run_part:
  assumes "iter_ok p" "iter_ok q" "RunningLength p = 0" "rep c"
    and "or_predator_run p q c = (p', q', c')"
  shows "or_part (min (RunningLength q) (NumberOfLiteralWords p)) p q c p' q' c'"
proof -
  let ?x = "min (RunningLength q) (NumberOfLiteralWords p)"
  have tq: "take ?x (cur_left q) = replicate ?x (fill (RunningBit q))" by (simp add: cur_left_take_run)
  have tp: "take ?x (cur_left p) = take ?x (dirtyWords p)" "length (take ?x (cur_left p)) = ?x"
    using assms(1,3) length_cur_left[OF assms(1)]
    by (auto simp: cur_left_def lits_left_def buffered_size_def min_def)
  have x: "(if NumberOfLiteralWords p \<le> RunningLength q then NumberOfLiteralWords p else RunningLength q) = ?x"
    by (simp add: min_def)
  have mo: "map_or (take ?x (cur_left p)) (take ?x (cur_left q)) =
      (if RunningBit q then replicate ?x (fill True) else take ?x (dirtyWords p))"
    unfolding tq map_or_commute[of "take ?x (cur_left p)"]
    using map_or_fill[OF tp(2)] tp(1) by (cases "RunningBit q") simp_all
  consider "?x = 0" | "?x > 0" "RunningBit q" | "?x > 0" "\<not> RunningBit q" by blast
  then show ?thesis
  proof cases
    case 1
    then have "p' = p \<and> q' = q \<and> c' = c"
      using assms(5) unfolding or_predator_run_def Let_def x
      by (auto simp: addStreamOfEmptyWords_def split: if_splits)
    with 1 assms(4) show ?thesis by (simp add: or_part_def appends_Nil map_or_def del: min_0R)
  next
    case 2
    then have "RunningLength q > 0" by simp
    with 2 assms(5) have "p' = discardFirstWords ?x p" "q' = discardFirstWords ?x q"
      "c' = addStreamOfEmptyWords True ?x c"
      unfolding or_predator_run_def Let_def x by auto
    with addStreamOfEmptyWords_appends[OF assms(4), of True ?x] 2 show ?thesis
      unfolding or_part_def mo by simp
  next
    case 3
    then have "RunningLength q > 0" by simp
    with 3 assms(5) have "p' = discardFirstWords ?x p" "q' = discardFirstWords ?x q"
      "c' = addStreamOfDirtyWords (take ?x (dirtyWords p)) c"
      unfolding or_predator_run_def Let_def x by auto
    with addStreamOfDirtyWords_appends[OF assms(4), of "take ?x (dirtyWords p)"] 3 show ?thesis
      unfolding or_part_def mo by simp
  qed
qed

lemma or_dirty_part:
  assumes "iter_ok p" "iter_ok q" "RunningLength p = 0" "buffered_size p \<le> buffered_size q"
    "RunningLength q = 0 \<or> NumberOfLiteralWords p = 0" "rep c"
    and "or_dirty p q c = (p', q', c')"
  shows "appends c c' (map_or (cur_left p) (take (buffered_size p) (cur_left q)))
     \<and> p' = p \<and> q' = discardFirstWords (buffered_size p) q"
proof -
  let ?n = "NumberOfLiteralWords p"
  have n: "buffered_size p = ?n" using assms(3) by (simp add: buffered_size_def)
  show ?thesis
  proof (cases "?n = 0")
    case True
    then show ?thesis
      using assms n by (auto simp: or_dirty_def cur_left_def lits_left_def map_or_def appends_Nil)
  next
    case False
    with assms(5) have q0: "RunningLength q = 0" by simp
    have "cur_left p = take ?n (dirtyWords p)" "length (cur_left p) = ?n"
      using assms(1,3) length_cur_left[OF assms(1)] n by (simp_all add: cur_left_def lits_left_def)
    moreover have "take ?n (cur_left q) = take ?n (dirtyWords q)" "length (take ?n (cur_left q)) = ?n"
      using assms(4) q0 n length_cur_left[OF assms(2)]
      by (auto simp: cur_left_def lits_left_def buffered_size_def min_def split: if_splits)
    ultimately have "map_or (cur_left p) (take ?n (cur_left q)) =
        map (\<lambda>k. dirtyWords p ! k OR dirtyWords q ! k) [0..<?n]"
      by (intro nth_equalityI) (auto simp: map_or_def)
    with fold_ewah_add_appends[OF assms(6), of "\<lambda>k. dirtyWords p ! k OR dirtyWords q ! k" "[0..<?n]"]
      False assms(7) n show ?thesis by (auto simp: or_dirty_def Let_def)
  qed
qed

lemma or_part_ok:
  assumes "or_part x p q c p' q' c'" "iter_ok p" "iter_ok q" "x \<le> buffered_size p" "x \<le> buffered_size q"
  shows "iter_ok p'" "iter_ok q'" "rep c'" "buffered_size p' = buffered_size p - x"
    "buffered_size q' = buffered_size q - x" "cur_left p' = drop x (cur_left p)"
    "cur_left q' = drop x (cur_left q)" "after_left q' = after_left q"
  using assms discard_ok[of p x] discard_ok[of q x] by (auto simp: or_part_def appends_def)

text \<open>The whole body consumes the current words of the prey and as many of the predator.\<close>

lemma or_body_spec:
  assumes "iter_ok p" "iter_ok q" "buffered_size p \<le> buffered_size q" "rep c"
    and "or_body p q c = (p', q', c')"
  shows "appends c c' (map_or (cur_left p) (take (buffered_size p) (cur_left q)))
     \<and> iter_ok p' \<and> iter_ok q' \<and> cur_left q' = drop (buffered_size p) (cur_left q)
     \<and> after_left p' = after_left p \<and> after_left q' = after_left q"
proof -
  obtain p1 q1 c1 where 1: "or_prey_run p q c = (p1, q1, c1)" by (metis prod_cases3)
  obtain p2 q2 c2 where 2: "or_predator_run p1 q1 c1 = (p2, q2, c2)" by (metis prod_cases3)
  have 3: "or_dirty p2 q2 c2 = (p', q', c')" using assms(5) 1 2 by (simp add: or_body_def)
  let ?x = "RunningLength p"
  have part1: "or_part ?x p q c p1 q1 c1" by (rule or_prey_run_part[OF assms(1-4) 1])
  have x: "?x \<le> buffered_size p" "?x \<le> buffered_size q"
    using assms(3) by (auto simp: buffered_size_def)
  note ok1 = or_part_ok[OF part1 assms(1,2) x]
  have p1: "RunningLength p1 = 0" using part1 by (simp add: or_part_def discardFirstWords_def)
  let ?y = "min (RunningLength q1) (NumberOfLiteralWords p1)"
  have part2: "or_part ?y p1 q1 c1 p2 q2 c2" by (rule or_predator_run_part[OF ok1(1,2) p1 ok1(3) 2])
  have y: "?y \<le> buffered_size p1" "?y \<le> buffered_size q1" by (auto simp: buffered_size_def)
  note ok2 = or_part_ok[OF part2 ok1(1,2) y]
  have p2: "RunningLength p2 = 0" "RunningLength q2 = 0 \<or> NumberOfLiteralWords p2 = 0"
    using part2 p1 by (auto simp: or_part_def discardFirstWords_def min_def split: if_splits)
  have le1: "buffered_size p1 \<le> buffered_size q1" and le2: "buffered_size p2 \<le> buffered_size q2"
    using ok1(4,5) ok2(4,5) assms(3) diff_le_mono by simp_all
  note d = or_dirty_part[OF ok2(1,2) p2(1) le2 p2(2) ok2(3) 3]
  note q' = discard_ok[OF ok2(2) le2]
  have len: "length (cur_left p) = buffered_size p" "length (cur_left q) = buffered_size q"
    using assms(1,2) by (simp_all add: length_cur_left)
  let ?w = "cur_left p" and ?v = "take (buffered_size p) (cur_left q)"
  have sum: "buffered_size p = ?x + ?y + buffered_size p2"
    using ok1(4) ok2(4) x y by linarith
  have xy: "?x + ?y \<le> buffered_size p" using sum by linarith
  have split: "map_or ?w ?v =
      map_or (take ?x ?w) (take ?x ?v) @ map_or (take ?y (drop ?x ?w)) (take ?y (drop ?x ?v))
      @ map_or (drop (?x + ?y) ?w) (drop (?x + ?y) ?v)"
    using xy assms(3) len by (intro map_or_split3) auto
  have tv: "take ?x ?v = take ?x (cur_left q)" using x by (simp add: min_def)
  have "min ?y (buffered_size p - ?x) = ?y" using xy by linarith
  then have tv2: "take ?y (drop ?x ?v) = take ?y (cur_left q1)"
    by (simp only: drop_take take_take ok1(7))
  have tv3: "drop (?x + ?y) ?v = take (buffered_size p2) (cur_left q2)"
    using sum ok1(7) ok2(7) by (simp add: drop_take add.commute)
  have tw3: "drop (?x + ?y) ?w = cur_left p2" using ok1(6) ok2(6) by (simp add: add.commute)
  have "appends c c' (map_or ?w ?v)"
    unfolding split tv tv2 tv3 tw3
    using part1 part2 d ok1(6) by (auto simp: or_part_def intro!: appends_trans)
  moreover have "cur_left q' = drop (buffered_size p) (cur_left q)"
    using d q'(2) ok2(7) ok1(7) sum by (simp add: add.commute add.left_commute)
  moreover have "after_left p' = after_left p"
    using or_body_frame[OF assms(5)] by (simp add: after_left_def)
  moreover have "after_left q' = after_left q"
    using or_body_frame[OF assms(5)] by (simp add: after_left_def)
  ultimately show ?thesis using d ok2(1) q'(1) by simp
qed

lemma map_or_shorter:
  "length ws \<le> length vs \<Longrightarrow> map_or ws vs = map_or ws (take (length ws) vs)"
  unfolding map_or_def by (rule nth_equalityI) auto

lemma not_hasNext_after: "iter_ok it \<Longrightarrow> \<not> hasNext it \<Longrightarrow> after_left it = []"
  by (simp add: iter_ok_def hasNext_def after_left_def)

lemma or_loop_spec:
  assumes "iter_ok i" "iter_ok j" "rep c"
  shows "appends c (or_loop i j c) (map_or (cur_left i @ after_left i) (cur_left j @ after_left j))"
  using assms
proof (induction i j c rule: or_loop.induct)
  case (1 i j c)
  have len: "length (cur_left i) = buffered_size i" "length (cur_left j) = buffered_size j"
    using "1.prems" by (simp_all add: length_cur_left)
  show ?case
  proof (cases "buffered_size i < buffered_size j")
    case True
    obtain i' j' c' where b: "or_body i j c = (i', j', c')" by (metis prod_cases3)
    note s = or_body_spec[OF "1.prems"(1,2) order_less_imp_le[OF True] "1.prems"(3) b]
    have cut: "cur_left j @ after_left j =
        take (buffered_size i) (cur_left j) @ (cur_left j' @ after_left j')"
      using s by simp
    have mo: "map_or (cur_left i @ after_left i) (cur_left j @ after_left j) =
        map_or (cur_left i) (take (buffered_size i) (cur_left j)) @ map_or (after_left i') (cur_left j' @ after_left j')"
      unfolding cut using s len True by (subst map_or_append) auto
    show ?thesis
    proof (cases "hasNext i'")
      case False
      then have "after_left i' = []" using s not_hasNext_after by blast
      with False True b s show ?thesis unfolding mo
        by (subst or_loop.simps) (simp add: map_or_def)
    next
      case hn: True
      note n = next_ok[OF _ hn]
      have "appends c' (or_loop (raw_next i') j' c') (map_or (after_left i') (cur_left j' @ after_left j'))"
        using "1.IH"(1)[OF True b[symmetric] refl _ n(1)] s n hn by (auto simp: appends_def iter_ok_def)
      from appends_trans[OF conjunct1[OF s] this] show ?thesis
        unfolding mo using True b hn by (subst or_loop.simps) simp
    qed
  next
    case False
    obtain i' j' c' where b: "or_body j i c = (j', i', c')" by (metis prod_cases3)
    from False have le: "buffered_size j \<le> buffered_size i" by simp
    note s = or_body_spec[OF "1.prems"(2,1) le "1.prems"(3) b]
    have cut: "cur_left i @ after_left i =
        take (buffered_size j) (cur_left i) @ (cur_left i' @ after_left i')"
      using s by simp
    have mo: "map_or (cur_left i @ after_left i) (cur_left j @ after_left j) =
        map_or (cur_left j) (take (buffered_size j) (cur_left i)) @ map_or (cur_left i' @ after_left i') (after_left j')"
      unfolding cut map_or_commute[of "cur_left j"] using s len le by (subst map_or_append) auto
    show ?thesis
    proof (cases "hasNext j'")
      case hn: False
      then have "after_left j' = []" using s not_hasNext_after by blast
      with hn False b s show ?thesis unfolding mo
        by (subst or_loop.simps) (simp add: map_or_def)
    next
      case hn: True
      note n = next_ok[OF _ hn]
      have "appends c' (or_loop i' (raw_next j') c') (map_or (cur_left i' @ after_left i') (after_left j'))"
        using "1.IH"(2)[OF False b[symmetric] refl _ _ n(1)] s n hn by (auto simp: appends_def iter_ok_def)
      from appends_trans[OF conjunct1[OF s] this] show ?thesis
        unfolding mo using False b hn by (subst or_loop.simps) simp
    qed
  qed
qed

lemma raw_start:
  assumes "ewah_inv e"
  shows "hasNext (raw_iterator e)" "iter_ok (raw_next (raw_iterator e))"
    "words e = cur_left (raw_next (raw_iterator e)) @ after_left (raw_next (raw_iterator e))"
proof -
  let ?it = "raw_iterator e"
  have c: "cmpl (drop (pointer ?it) (parent ?it))" "lastRLW e < length (buffer e)"
    using assms rep_cmpl[of e] by (auto simp: ewah_inv_def raw_iterator_def rlw_read_def rep_def)
  then show h: "hasNext ?it" by (auto simp: hasNext_def raw_iterator_def rlw_read_def)
  show "iter_ok (raw_next ?it)" by (rule next_ok(1)[OF c(1) h])
  have "words e = after_left ?it" by (simp add: words_def after_left_def raw_iterator_def rlw_read_def)
  with next_ok(2)[OF c(1) h] show "words e = cur_left (raw_next ?it) @ after_left (raw_next ?it)" by simp
qed

lemma makeSameSize_spec:
  assumes "ewah_inv this" "ewah_inv a" "makeSameSize this a = (this', a')"
  shows "ewah_inv this' \<and> ewah_inv a' \<and> offsets this' = offsets this \<and> offsets a' = offsets a
     \<and> sizeinbits this' = sizeinbits a'"
  using assms padWithZeroes_spec[of a "sizeinbits this"] padWithZeroes_spec[of this "sizeinbits a"]
  by (auto simp: makeSameSize_def split: if_splits)

lemma logicalor_spec:
  assumes "ewah_inv this" "ewah_inv a" "logicalor this a = (this', a', r)"
  shows "ewah_inv this' \<and> ewah_inv a' \<and> ewah_inv r \<and> offsets this' = offsets this
     \<and> offsets a' = offsets a \<and> offsets r = offsets this \<union> offsets a"
proof -
  obtain t1 a1 where ms: "makeSameSize this a = (t1, a1)" by fastforce
  note m = makeSameSize_spec[OF assms(1,2) ms]
  then have i: "ewah_inv a1" "ewah_inv t1" by simp_all
  let ?i = "raw_next (raw_iterator a1)" and ?j = "raw_next (raw_iterator t1)"
  have eq: "this' = t1" "a' = a1" "r = (or_loop ?i ?j ewah_new)\<lparr>sizeinbits := sizeinbits t1\<rparr>"
    using assms(3) ms raw_start(1)[OF i(1)] raw_start(1)[OF i(2)] by (auto simp: logicalor_def)
  have "appends ewah_new r (map_or (words a1) (words t1))"
    using or_loop_spec[OF raw_start(2)[OF i(1)] raw_start(2)[OF i(2)] rep_new(1)]
    unfolding raw_start(3)[OF i(1)] raw_start(3)[OF i(2)] by (simp add: eq)
  then have r: "rep r" "words r = map_or (words a1) (words t1)" by (simp_all add: appends_def)
  have "bits_of (words r) = offsets a1 \<union> offsets t1"
    unfolding r(2) offsets_def using m
    by (intro bits_of_map_or[where n = "sizeinbits t1"]) (auto simp: ewah_inv_def)
  then show ?thesis
    using m r eq by (auto simp: ewah_inv_def offsets_def map_or_def)
qed

section \<open>The iterator over the set bits\<close>

definition cursor :: "UINT32 list \<Rightarrow> nat \<Rightarrow> nat \<Rightarrow> bool" where
  "cursor buf mp prev = (mp \<le> length buf \<and> cmpl (take mp buf) \<and> cmpl (drop mp buf)
     \<and> prev = 32 * length (uncomp (take mp buf)))"

lemma cursor_uncomp:
  assumes "cursor buf mp prev" "mp < length buf"
  shows "nl (buf ! mp) \<le> length buf - Suc mp"
    "uncomp buf = uncomp (take mp buf) @ replicate (rl (buf ! mp)) (fill (getRunningBit (buf ! mp)))
       @ take (nl (buf ! mp)) (drop (Suc mp) buf) @ uncomp (drop (Suc mp + nl (buf ! mp)) buf)"
    "cursor buf (mp + 1 + nl (buf ! mp)) (prev + 32 * (rl (buf ! mp) + nl (buf ! mp)))"
proof -
  let ?m = "buf ! mp"
  have d: "drop mp buf = ?m # drop (Suc mp) buf" using assms(2) by (simp add: Cons_nth_drop_Suc)
  have c: "cmpl (take mp buf)" "nl ?m \<le> length buf - Suc mp" "cmpl (drop (Suc mp + nl ?m) buf)"
    using assms(1) d by (auto simp: cursor_def add.commute)
  then show "nl ?m \<le> length buf - Suc mp" by simp
  have "buf = take mp buf @ ?m # drop (Suc mp) buf" using d append_take_drop_id[of mp buf] by simp
  then show "uncomp buf = uncomp (take mp buf) @ replicate (rl ?m) (fill (getRunningBit ?m))
       @ take (nl ?m) (drop (Suc mp) buf) @ uncomp (drop (Suc mp + nl ?m) buf)"
    using c(1) uncomp_append[OF c(1), of "?m # drop (Suc mp) buf"] by (simp add: add.commute)
  have t: "take (mp + 1 + nl ?m) buf = take mp buf @ ?m # take (nl ?m) (drop (Suc mp) buf)"
    using take_add[of "Suc mp" "nl ?m" buf] assms(2) by (simp add: take_Suc_conv_app_nth)
  show "cursor buf (mp + 1 + nl ?m) (prev + 32 * (rl ?m + nl ?m))"
    unfolding cursor_def t using c assms by (auto simp: cursor_def)
qed

lemma bit_at_cursor:
  assumes "cursor buf mp prev" "mp < length buf" "c < (rl (buf ! mp) + nl (buf ! mp)) * 32"
  shows "prev + c \<in> bits_of (uncomp buf) \<longleftrightarrow>
     (if c < rl (buf ! mp) * 32 then getRunningBit (buf ! mp)
      else bit (buf ! (mp + 1 + (c - rl (buf ! mp) * 32) div 32)) (c mod 32))"
proof -
  let ?m = "buf ! mp" and ?k = "length (uncomp (take mp buf))"
  define q where "q = c div 32"
  have c: "c = q * 32 + c mod 32" by (simp add: q_def)
  have prev: "prev = 32 * ?k" using assms(1) by (simp add: cursor_def)
  have q: "q < rl ?m + nl ?m" using assms(3) by (simp add: q_def div_less_iff_less_mult)
  have dm: "(prev + c) div 32 = ?k + q" "(prev + c) mod 32 = c mod 32"
    by (simp_all add: prev q_def)
  have lt: "c < rl ?m * 32 \<longleftrightarrow> q < rl ?m" by (simp add: q_def div_less_iff_less_mult)
  have ix: "(c - rl ?m * 32) div 32 = q - rl ?m"
  proof (cases "q < rl ?m")
    case False
    then have "c - rl ?m * 32 = (q - rl ?m) * 32 + c mod 32"
      by (subst c) (simp add: diff_mult_distrib)
    then show ?thesis by simp
  qed (use lt in simp)
  note u = cursor_uncomp[OF assms(1,2)]
  have "uncomp buf ! (?k + q) = (if q < rl ?m then fill (getRunningBit ?m) else buf ! (mp + 1 + (q - rl ?m)))"
    unfolding u(2) using q u(1) assms(2) by (auto simp: nth_append)
  moreover have "?k + q < length (uncomp buf)" unfolding u(2) using q u(1) by simp
  ultimately show ?thesis unfolding bits_of_def mem_Collect_eq dm lt ix by (auto simp: fill_def)
qed

lemma gap_join:
  "(\<And>i :: nat. a \<le> i \<Longrightarrow> i < b \<Longrightarrow> i \<notin> S) \<Longrightarrow> (\<forall>i. b \<le> i \<and> i < c \<longrightarrow> i \<notin> S) \<Longrightarrow>
     \<forall>i. a \<le> i \<and> i < c \<longrightarrow> i \<notin> S"
  by (meson leI)

lemma advance_spec:
  assumes "advanceToNextSetBit buf mp prev cur = (mp', prev', cur')" "cursor buf mp prev"
    and "if mp < length buf then cur \<le> (rl (buf ! mp) + nl (buf ! mp)) * 32 else cur = 0"
  shows "cursor buf mp' prev' \<and> prev + cur \<le> prev' + cur' \<and> (mp' = length buf \<longrightarrow> cur' = 0)
     \<and> (\<forall>i. prev + cur \<le> i \<and> i < prev' + cur' \<longrightarrow> i \<notin> bits_of (uncomp buf))
     \<and> (mp' < length buf \<longrightarrow> prev' + cur' \<in> bits_of (uncomp buf))"
  using assms
proof (induction mp prev cur rule: advance_induct[of buf])
  case (ended mp prev cur)
  then show ?case by (auto simp: advance_ended)
next
  case (run mp prev cur)
  then show ?case using bit_at_cursor[of buf mp prev cur] by (auto simp: advance_run cursor_def)
next
  case (skip mp prev cur)
  let ?R = "rl (buf ! mp) * 32"
  have IH: "cursor buf mp' prev' \<and> prev + ?R \<le> prev' + cur' \<and> (mp' = length buf \<longrightarrow> cur' = 0)
     \<and> (\<forall>i. prev + ?R \<le> i \<and> i < prev' + cur' \<longrightarrow> i \<notin> bits_of (uncomp buf))
     \<and> (mp' < length buf \<longrightarrow> prev' + cur' \<in> bits_of (uncomp buf))"
    by (rule skip.IH) (use skip.hyps skip.prems in \<open>auto simp: advance_skip\<close>)
  have "i \<notin> bits_of (uncomp buf)" if "prev + cur \<le> i" "i < prev + ?R" for i
    using bit_at_cursor[OF skip.prems(2) skip.hyps(1), of "i - prev"] skip.hyps that by auto
  then have "\<forall>i. prev + cur \<le> i \<and> i < prev' + cur' \<longrightarrow> i \<notin> bits_of (uncomp buf)"
    by (rule gap_join) (use IH in blast)+
  with IH skip.hyps(2) show ?case by simp
next
  case (next_run mp prev cur)
  then have cur: "cur = (rl (buf ! mp) + nl (buf ! mp)) * 32" by simp
  note cu = cursor_uncomp(3)[OF next_run.prems(2) next_run.hyps(1)]
  have "cursor buf (mp + 1 + nl (buf ! mp)) (prev + cur)" using cu cur by (simp add: mult.commute)
  then show ?case
    using next_run.IH next_run.prems(1) next_run.hyps by (auto simp: advance_next)
next
  case (found mp prev k t)
  let ?w = "buf ! (mp + 1 + k)" and ?c = "rl (buf ! mp) * 32 + k * 32"
  let ?z = "numberOfTrailingZeros (drop_bit t ?w)"
  note ctz = ctz_nonzero[OF found.hyps(4)]
  then have b: "bit ?w (t + ?z)" "\<And>z. z < ?z \<Longrightarrow> \<not> bit ?w (t + z)" by (auto simp: bit_drop_bit_eq)
  then have t: "t + ?z < 32" using bit_imp_le_length by fastforce
  have at: "prev + (?c + x) \<in> bits_of (uncomp buf) \<longleftrightarrow> bit ?w x" if "x < 32" for x
    using bit_at_cursor[OF found.prems(2) found.hyps(1), of "?c + x"] that found.hyps by (auto simp: add.assoc)
  have "i \<notin> bits_of (uncomp buf)" if "prev + (?c + t) \<le> i" "i < prev + (?c + (t + ?z))" for i
  proof -
    define z where "z = i - (prev + (?c + t))"
    have "i = prev + (?c + (t + z))" "z < ?z" using that by (auto simp: z_def)
    then show ?thesis using at[of "t + z"] b(2)[of z] t by auto
  qed
  moreover have "(mp', prev', cur') = (mp, prev, ?c + (t + ?z))"
    using found.prems(1) found.hyps(4) unfolding advance_lit[OF found.hyps(1-3)] Let_def
    by (auto simp: add.assoc)
  ultimately show ?case using found.prems(2) found.hyps(1) at[OF t] b(1) by (auto simp: add.assoc)
next
  case (empty mp prev k t)
  let ?w = "buf ! (mp + 1 + k)" and ?c = "rl (buf ! mp) * 32 + k * 32"
  have IH: "cursor buf mp' prev' \<and> prev + (rl (buf ! mp) * 32 + Suc k * 32) \<le> prev' + cur'
     \<and> (mp' = length buf \<longrightarrow> cur' = 0)
     \<and> (\<forall>i. prev + (rl (buf ! mp) * 32 + Suc k * 32) \<le> i \<and> i < prev' + cur' \<longrightarrow> i \<notin> bits_of (uncomp buf))
     \<and> (mp' < length buf \<longrightarrow> prev' + cur' \<in> bits_of (uncomp buf))"
    by (rule empty.IH) (use empty.hyps empty.prems in \<open>auto simp: advance_lit\<close>)
  have nb: "\<not> bit ?w x" if "t \<le> x" "x < 32" for x
    using bit_drop_bit_eq[of t ?w, THEN fun_cong, of "x - t"] empty.hyps(4) that by simp
  have at: "prev + (?c + x) \<in> bits_of (uncomp buf) \<longleftrightarrow> bit ?w x" if "x < 32" for x
    using bit_at_cursor[OF empty.prems(2) empty.hyps(1), of "?c + x"] that empty.hyps by (auto simp: add.assoc)
  have "i \<notin> bits_of (uncomp buf)" if "prev + (?c + t) \<le> i" "i < prev + (rl (buf ! mp) * 32 + Suc k * 32)" for i
  proof -
    define x where "x = i - (prev + ?c)"
    have "i = prev + (?c + x)" "t \<le> x" "x < 32" using that by (auto simp: x_def)
    then show ?thesis using at[of x] nb[of x] by auto
  qed
  then have "\<forall>i. prev + (?c + t) \<le> i \<and> i < prev' + cur' \<longrightarrow> i \<notin> bits_of (uncomp buf)"
    by (rule gap_join) (use IH in blast)+
  with IH empty.hyps(3) show ?case by (simp add: add.assoc)
qed

lemma filter_upt_split:
  assumes "a \<le> b" "b < n" "P b" "\<And>i. a \<le> i \<Longrightarrow> i < b \<Longrightarrow> \<not> P i"
  shows "filter P [a..<n] = b # filter P [Suc b..<n]"
proof -
  have "[a..<n] = [a..<b] @ b # [Suc b..<n]"
    using assms(1,2) by (metis le_add_diff_inverse less_imp_le upt_add_eq_append upt_conv_Cons)
  moreover have "filter P [a..<b] = []" using assms(4) by (simp add: filter_empty_conv)
  ultimately show ?thesis using assms(3) by simp
qed

lemma cursor_end: "cursor buf (length buf) prev \<Longrightarrow> prev = 32 * length (uncomp buf)"
  by (simp add: cursor_def)

lemma ones_from_advance:
  assumes "advanceToNextSetBit buf mp prev cur = it" "cursor buf mp prev"
    and "if mp < length buf then cur \<le> (rl (buf ! mp) + nl (buf ! mp)) * 32 else cur = 0"
  shows "ones_from buf it = filter (\<lambda>i. i \<in> bits_of (uncomp buf)) [prev + cur..<32 * length (uncomp buf)]"
  using assms
proof (induction buf it arbitrary: mp prev cur rule: ones_from.induct)
  case (1 buf mp' prev' cur')
  note sp = advance_spec[OF "1.prems"]
  show ?case
  proof (cases "mp' < length buf")
    case False
    with sp have "mp' = length buf" "cur' = 0" by (auto simp: cursor_def)
    with sp cursor_end have "prev' + cur' = 32 * length (uncomp buf)" by auto
    with sp have "filter (\<lambda>i. i \<in> bits_of (uncomp buf)) [prev + cur..<32 * length (uncomp buf)] = []"
      by (auto simp: filter_empty_conv)
    with False show ?thesis by (simp add: ones_from.simps)
  next
    case True
    with sp have at: "prev' + cur' \<in> bits_of (uncomp buf)" by simp
    have "ones_from buf (advanceToNextSetBit buf mp' prev' (cur' + 1)) =
        filter (\<lambda>i. i \<in> bits_of (uncomp buf)) [prev' + (cur' + 1)..<32 * length (uncomp buf)]"
      using True sp advance_progress[OF "1.prems"(1) True]
      by (intro "1.IH"[OF _ refl]) auto
    then show ?thesis
      using filter_upt_split[of "prev + cur" "prev' + cur'" "32 * length (uncomp buf)"
          "\<lambda>i. i \<in> bits_of (uncomp buf)"] sp at bits_of_bound[OF at] True
      by (simp add: ones_from.simps)
  qed
qed

lemma ewah_ones_eq:
  assumes "rep e"
  shows "ewah_ones e = filter (\<lambda>i. i \<in> offsets e) [0..<32 * length (words e)]"
  unfolding ewah_ones_def offsets_def words_def
  using ones_from_advance[of "buffer e" 0 0 0, OF refl] rep_cmpl[OF assms] by (simp add: cursor_def)

lemma ewah_ones_sorted: "rep e \<Longrightarrow> sorted_wrt (<) (ewah_ones e)"
  by (simp add: ewah_ones_eq sorted_wrt_filter)

lemma set_ewah_ones: "rep e \<Longrightarrow> set (ewah_ones e) = offsets e"
  using bits_of_bound by (auto simp: ewah_ones_eq offsets_def)

lemma sorted_lists_eq:
  "sorted_wrt (<) (xs :: nat list) \<Longrightarrow> sorted_wrt (<) ys \<Longrightarrow> set xs = set ys \<Longrightarrow> xs = ys"
  by (metis sorted_list_of_set.idem_if_sorted_distinct strict_sorted_iff)

section \<open>Counting the set bits\<close>

lemma countOnes_card: "countOnes w = card (bits_of [w])"
proof -
  have "bits_of [w] = set (filter (bit w) [0..<32])"
    unfolding bits_of_single using bit_imp_le_length[of w] by auto
  then show ?thesis using distinct_card[of "filter (bit w) [0..<32]"] by (simp add: countOnes_def)
qed

lemma finite_bits_of [simp]: "finite (bits_of ws)"
  by (rule finite_subset[of _ "{..<32 * length ws}"]) (auto dest: bits_of_bound)

lemma card_bits_of_append: "card (bits_of (ws @ vs)) = card (bits_of ws) + card (bits_of vs)"
proof -
  have "bits_of ws \<inter> (\<lambda>i. i + 32 * length ws) ` bits_of vs = {}" by (auto dest: bits_of_bound)
  moreover have "card ((\<lambda>i. i + 32 * length ws) ` bits_of vs) = card (bits_of vs)"
    by (rule card_image) (auto simp: inj_on_def)
  ultimately show ?thesis by (simp add: bits_of_append card_Un_disjoint)
qed

lemma card_bits_of_list: "card (bits_of ws) = sum_list (map countOnes ws)"
proof (induction ws)
  case (Cons w ws)
  then show ?case using card_bits_of_append[of "[w]" ws] by (simp add: countOnes_card)
qed simp

lemma countOnes_fill: "countOnes (fill v) = (if v then 32 else 0)"
proof -
  have "filter (bit (- 1 :: UINT32)) [0..<32] = [0..<32]" by (simp add: filter_id_conv bit_minus_1_iff)
  then show ?thesis by (simp add: countOnes_def fill_def)
qed

lemma ones_count_from_spec:
  "ones_count_from buf p tot = tot + card (bits_of (uncomp (drop p buf)))"
proof (induction buf p tot rule: ones_count_from.induct)
  case (1 buf p tot)
  show ?case
  proof (cases "p < length buf")
    case True
    let ?m = "buf ! p"
    have d: "drop p buf = ?m # drop (Suc p) buf" using True by (simp add: Cons_nth_drop_Suc)
    have "card (bits_of (uncomp (drop p buf))) = rl ?m * (if getRunningBit ?m then 32 else 0)
        + sum_list (map countOnes (take (nl ?m) (drop (Suc p) buf)))
        + card (bits_of (uncomp (drop (p + 1 + nl ?m) buf)))"
      unfolding d by (simp add: card_bits_of_append card_bits_of_list sum_list_replicate countOnes_fill
          add.commute)
    then show ?thesis
      using "1.IH"[OF True refl refl refl] True
      by (subst ones_count_from.simps) (simp add: Let_def wordinbits_def)
  qed (simp add: ones_count_from.simps)
qed

lemma ewah_numberOfOnes_card: "ewah_numberOfOnes e = card (offsets e)"
  by (simp add: ewah_numberOfOnes_def ones_count_from_spec offsets_def words_def)

section \<open>The interface of the bitmap\<close>

text \<open>
  What the label table relies on: the operations it calls on a bitmap, as an implementation of
  finite sets of offsets. The union hands both operands back, since it may rewrite them.
\<close>

locale offset_set =
  fixes new :: 'b
    and single :: "nat \<Rightarrow> 'b"
    and union :: "'b \<Rightarrow> 'b \<Rightarrow> 'b \<times> 'b \<times> 'b"
    and ones :: "'b \<Rightarrow> nat list"
    and count :: "'b \<Rightarrow> nat"
    and invar :: "'b \<Rightarrow> bool"
  assumes invar_new: "invar new" and ones_new: "ones new = []"
    and invar_single: "invar (single i)" and ones_single: "ones (single i) = [i]"
    and union_law: "invar a \<Longrightarrow> invar b \<Longrightarrow> union a b = (a', b', r) \<Longrightarrow>
          invar a' \<and> invar b' \<and> invar r \<and> ones a' = ones a \<and> ones b' = ones b
          \<and> set (ones r) = set (ones a) \<union> set (ones b)"
    and ones_sorted: "invar a \<Longrightarrow> sorted_wrt (<) (ones a)"
    and count_ones: "invar a \<Longrightarrow> count a = length (ones a)"
begin

lemma ones_eq_iff: "invar a \<Longrightarrow> invar b \<Longrightarrow> ones a = ones b \<longleftrightarrow> set (ones a) = set (ones b)"
  using sorted_lists_eq[OF ones_sorted[of a] ones_sorted[of b]] by auto

lemma count_0_iff: "invar a \<Longrightarrow> count a = 0 \<longleftrightarrow> set (ones a) = {}"
  by (simp add: count_ones)

lemma union_commute:
  assumes "invar a" "invar b" "union a b = (a', b', r)" "union b a = (b'', a'', r')"
  shows "ones r = ones r'"
  using union_law[OF assms(1,2,3)] union_law[OF assms(2,1,4)] ones_eq_iff[of r r'] by auto

end

lemma ewah_ones_new: "ewah_ones ewah_new = []"
  by (simp only: ewah_ones_eq[OF rep_new(1)] rep_new(2)) simp

lemma ewah_ones_single: "ewah_ones (ewah_set i ewah_new) = [i]"
proof -
  have "rep (ewah_set i ewah_new)" using ewah_set_new[of i] by (simp add: ewah_inv_def)
  then show ?thesis
    using ewah_set_new[of i] set_ewah_ones ewah_ones_sorted by (intro sorted_lists_eq) auto
qed

lemma ewah_ones_offsets: "ewah_inv a \<Longrightarrow> ewah_inv b \<Longrightarrow> ewah_ones a = ewah_ones b \<longleftrightarrow> offsets a = offsets b"
  unfolding ewah_inv_def by (metis set_ewah_ones ewah_ones_sorted sorted_lists_eq)

interpretation ewah: offset_set ewah_new "\<lambda>i. ewah_set i ewah_new" logicalor ewah_ones
  ewah_numberOfOnes ewah_inv
proof (unfold_locales, goal_cases)
  case (5 a b a' b' r)
  then show ?case
    using logicalor_spec[OF 5] set_ewah_ones ewah_ones_offsets by (simp add: ewah_inv_def)
next
  case (6 a)
  then show ?case by (simp add: ewah_inv_def ewah_ones_sorted)
next
  case (7 a)
  then have "distinct (ewah_ones a)" "set (ewah_ones a) = offsets a"
    by (auto simp: ewah_inv_def ewah_ones_sorted strict_sorted_iff set_ewah_ones
        dest: ewah_ones_sorted)
  then show ?case by (metis ewah_numberOfOnes_card distinct_card)
qed (use ewah_set_new in \<open>auto simp: ewah_ones_new ewah_ones_single\<close>)

section \<open>Properties\<close>

text \<open>
  C17. The union of two compressed bitmaps lists exactly the bits of either operand, in ascending
  order and without repetition; the padding of the operands loses and adds no bit, and all three
  bitmaps satisfy the representation invariant again.
\<close>

theorem logicalor_union:
  assumes "ewah_inv this" "ewah_inv a"
  shows "case logicalor this a of (this', a', r) \<Rightarrow>
     ewah_inv this' \<and> ewah_inv a' \<and> ewah_inv r
     \<and> ewah_ones this' = ewah_ones this \<and> ewah_ones a' = ewah_ones a
     \<and> sorted_wrt (<) (ewah_ones r)
     \<and> set (ewah_ones r) = set (ewah_ones this) \<union> set (ewah_ones a)"
  using ewah.union_law[OF assms] ewah.ones_sorted by (auto split: prod.split)

theorem logicalor_union_witness:
  "set (ewah_ones (snd (snd (logicalor (ewah_set 3 ewah_new) (ewah_set 70 ewah_new))))) = {3, 70}"
proof -
  have "ewah_inv (ewah_set 3 ewah_new)" "ewah_inv (ewah_set 70 ewah_new)"
    by (rule ewah.invar_single)+
  from logicalor_union[OF this] show ?thesis
    by (auto simp: ewah.ones_single split: prod.splits)
qed

text \<open>
  The iterator of a bitmap terminates and yields its set bits in strictly ascending order, and
  \<open>numberOfOnes\<close>, which counts on the compressed form, is the number of bits it yields.
\<close>

theorem ones_count_iter:
  assumes "ewah_inv e"
  shows "sorted_wrt (<) (ewah_ones e) \<and> set (ewah_ones e) = offsets e
     \<and> ewah_numberOfOnes e = length (ewah_ones e)"
  using assms ewah.ones_sorted ewah.count_ones set_ewah_ones by (simp add: ewah_inv_def)

theorem ones_count_iter_witness:
  "ewah_ones (ewah_set 70 ewah_new) = [70] \<and> ewah_numberOfOnes (ewah_set 70 ewah_new) = 1"
  using ones_count_iter[OF ewah.invar_single[of 70]] by (simp add: ewah.ones_single)

end
