(* ===== verification/Label_Table.thy ===== *)
theory Label_Table
  imports Shadow_Memory Ewah_Semantics
begin

text \<open>
  The interned-label table of \<^verbatim>\<open>src/tagmap.cpp\<close>: \<^verbatim>\<open>g_sets\<close> maps a label to its offset set,
  \<^verbatim>\<open>g_intern\<close> the printed form of a set to its label, \<^verbatim>\<open>g_combine\<close> memoizes unions. The theory shows
  that equal sets share a label, that \<^verbatim>\<open>tag_combine\<close> is set union and that the table only grows, and
  states the interface \<open>label_algebra\<close> that the propagation handlers rely on.
\<close>

section \<open>State and operations\<close>

record label_tables =
  g_sets :: "ewah_t list"
  g_intern :: "string \<rightharpoonup> UINT32"
  g_combine :: "UINT64 \<rightharpoonup> UINT32"

definition ewah_sprint :: "ewah_t \<Rightarrow> string" where
  "ewah_sprint s = (if ewah_numberOfOnes s \<noteq> 0 then ewah_print s else ''{}'')"

definition intern_set :: "ewah_t \<Rightarrow> label_tables \<Rightarrow> UINT32 \<times> label_tables" where
  "intern_set s T =
     (let k = ewah_sprint s in
      case g_intern T k of
        Some lid \<Rightarrow> (lid, T)
      | None \<Rightarrow>
          let lid = of_nat (length (g_sets T))
          in (lid, T\<lparr>g_sets := g_sets T @ [s], g_intern := (g_intern T)(k \<mapsto> lid)\<rparr>))"

definition dft_label_set :: "UINT32 \<Rightarrow> label_tables \<Rightarrow> tag_t \<times> label_tables" where
  "dft_label_set offset T = intern_set (ewah_set (unat offset) ewah_new) T"

definition label_numberOfOnes :: "tag_t \<Rightarrow> label_tables \<Rightarrow> UINT32" where
  "label_numberOfOnes lid T =
     (if lid = 0 \<or> unat lid \<ge> length (g_sets T) then 0
      else of_nat (ewah_numberOfOnes (g_sets T ! unat lid)))"

definition combine_key :: "tag_t \<Rightarrow> tag_t \<Rightarrow> UINT64" where
  "combine_key a b = push_bit 32 (ucast a) OR ucast b"

text \<open>
  \<^verbatim>\<open>g_sets[lid]\<close> does not check its index; an index past the end is the fault \<open>OutOfRange\<close>. The two
  operands are different elements of the table, and \<^verbatim>\<open>logicalor\<close> may rewrite both.
\<close>

definition tag_combine :: "tag_t \<Rightarrow> tag_t \<Rightarrow> label_tables \<Rightarrow> (tag_t \<times> label_tables) res" where
  "tag_combine lhs rhs T =
     (if lhs = rhs then Inr (lhs, T)
      else if lhs = 0 then Inr (rhs, T)
      else if rhs = 0 then Inr (lhs, T)
      else
        case g_combine T (combine_key lhs rhs) of
          Some lid \<Rightarrow> Inr (lid, T)
        | None \<Rightarrow>
            if unat lhs \<ge> length (g_sets T) \<or> unat rhs \<ge> length (g_sets T) then Inl OutOfRange
            else
              case logicalor (g_sets T ! unat lhs) (g_sets T ! unat rhs) of (l', r', r) \<Rightarrow>
                let T1 = T\<lparr>g_sets := (g_sets T)[unat lhs := l', unat rhs := r']\<rparr> in
                case intern_set r T1 of (lid, T2) \<Rightarrow>
                  Inr (lid, T2\<lparr>g_combine := (g_combine T2)(combine_key lhs rhs \<mapsto> lid,
                                                          combine_key rhs lhs \<mapsto> lid)\<rparr>))"

definition tag_sprint :: "tag_t \<Rightarrow> label_tables \<Rightarrow> string" where
  "tag_sprint tag T =
     (if tag = 0 \<or> unat tag \<ge> length (g_sets T) then ''{}''
      else ewah_sprint (g_sets T ! unat tag))"

definition tag_count :: "tag_t \<Rightarrow> bool" where
  "tag_count tag = (tag \<noteq> 0)"

text \<open>The visitor is a function of the offset and of the user's state.\<close>

fun visit_all :: "(UINT32 \<Rightarrow> 'u \<Rightarrow> bool \<times> 'u) \<Rightarrow> nat list \<Rightarrow> 'u \<Rightarrow> bool \<times> 'u" where
  "visit_all visit [] u = (True, u)"
| "visit_all visit (i # is) u =
     (case visit (of_nat i) u of (go, u') \<Rightarrow> if go then visit_all visit is u' else (False, u'))"

definition tag_walk :: "tag_t \<Rightarrow> (UINT32 \<Rightarrow> 'u \<Rightarrow> bool \<times> 'u) \<Rightarrow> 'u \<Rightarrow> label_tables \<Rightarrow> bool \<times> 'u" where
  "tag_walk tag visit user T =
     (if tag = 0 \<or> unat tag \<ge> length (g_sets T) then (True, user)
      else visit_all visit (ewah_ones (g_sets T ! unat tag)) user)"

definition tagmap_alloc :: label_tables where
  "tagmap_alloc = \<lparr>g_sets = [ewah_new], g_intern = [ewah_sprint ewah_new \<mapsto> 0], g_combine = Map.empty\<rparr>"

section \<open>The printed form determines the set\<close>

lemma ewah_sprint_eq: "ewah_inv s \<Longrightarrow> ewah_sprint s = ''{'' @ commas (map dec_str (ewah_ones s)) @ ''}''"
  by (auto simp: ewah_sprint_def ewah_print_def ewah.count_ones)

lemma commas_Nil_iff: "commas (map dec_str xs) = [] \<longleftrightarrow> xs = []"
  by (cases xs rule: list.exhaust; cases "tl xs") auto

lemma ewah_sprint_inject:
  assumes "ewah_inv s" "ewah_inv t"
  shows "ewah_sprint s = ewah_sprint t \<longleftrightarrow> offsets s = offsets t"
proof
  assume "ewah_sprint s = ewah_sprint t"
  then have c: "commas (map dec_str (ewah_ones s)) = commas (map dec_str (ewah_ones t))"
    using assms by (simp add: ewah_sprint_eq)
  have "ewah_ones s = ewah_ones t"
  proof (cases "ewah_ones s = [] \<or> ewah_ones t = []")
    case True
    with c show ?thesis using commas_Nil_iff[of "ewah_ones s"] commas_Nil_iff[of "ewah_ones t"] by auto
  next
    case False
    with c have "map dec_str (ewah_ones s) = map dec_str (ewah_ones t)"
      by (intro commas_inject) auto
    then show ?thesis by (simp add: inj_map_eq_map inj_def)
  qed
  then show "offsets s = offsets t" using assms ewah_ones_offsets by blast
next
  assume "offsets s = offsets t"
  then show "ewah_sprint s = ewah_sprint t"
    using assms ewah_ones_offsets[OF assms] by (simp add: ewah_sprint_eq)
qed

section \<open>The invariant of the table\<close>

definition valid_tag :: "label_tables \<Rightarrow> tag_t \<Rightarrow> bool" where
  "valid_tag T t = (unat t < length (g_sets T))"

definition label_set :: "label_tables \<Rightarrow> tag_t \<Rightarrow> nat set" where
  "label_set T t = (if valid_tag T t then offsets (g_sets T ! unat t) else {})"

definition tables_ok :: "label_tables \<Rightarrow> bool" where
  "tables_ok T \<longleftrightarrow>
     0 < length (g_sets T) \<and> length (g_sets T) \<le> 2 ^ 32
     \<and> (\<forall>s \<in> set (g_sets T). ewah_inv s \<and> offsets s \<subseteq> {..<2 ^ 32})
     \<and> offsets (g_sets T ! 0) = {}
     \<and> (\<forall>k lid. g_intern T k = Some lid \<longrightarrow> valid_tag T lid \<and> ewah_sprint (g_sets T ! unat lid) = k)
     \<and> (\<forall>i < length (g_sets T). g_intern T (ewah_sprint (g_sets T ! i)) = Some (of_nat i))
     \<and> (\<forall>a b lid. g_combine T (combine_key a b) = Some lid \<longrightarrow>
          valid_tag T a \<and> valid_tag T b \<and> valid_tag T lid \<and> label_set T lid = label_set T a \<union> label_set T b)"

text \<open>The number of labels the table can still take before the 32-bit ids run out.\<close>

definition room :: "nat \<Rightarrow> label_tables \<Rightarrow> bool" where
  "room n T = (length (g_sets T) + n \<le> 2 ^ 32)"

text \<open>\<open>extends T T'\<close>: every label of T keeps its meaning in T'.\<close>

definition extends :: "label_tables \<Rightarrow> label_tables \<Rightarrow> bool" where
  "extends T T' = (length (g_sets T) \<le> length (g_sets T')
     \<and> (\<forall>t. valid_tag T t \<longrightarrow> label_set T' t = label_set T t))"

lemma extends_refl [simp]: "extends T T" by (simp add: extends_def)

lemma extends_valid: "extends T T' \<Longrightarrow> valid_tag T t \<Longrightarrow> valid_tag T' t"
  by (simp add: extends_def valid_tag_def)

lemma extends_label: "extends T T' \<Longrightarrow> valid_tag T t \<Longrightarrow> label_set T' t = label_set T t"
  by (simp add: extends_def)

lemma extends_trans: "extends T T1 \<Longrightarrow> extends T1 T2 \<Longrightarrow> extends T T2"
  using extends_valid[of T T1] by (auto simp: extends_def)

lemma combine_key_inject: "combine_key a b = combine_key c d \<longleftrightarrow> a = c \<and> b = d"
proof
  assume eq: "combine_key a b = combine_key c d"
  have *: "bit (combine_key a b) n = (if n < 32 then bit b n else bit a (n - 32))" for a b :: tag_t and n
    by (auto simp: combine_key_def bit_or_iff bit_push_bit_iff bit_ucast_iff dest: bit_imp_le_length)
  have "bit b n = bit d n" if "n < 32" for n
    using *[of a b n] *[of c d n] eq that by simp
  moreover have "bit a n = bit c n" if "n < 32" for n
    using *[of a b "n + 32"] *[of c d "n + 32"] eq by simp
  ultimately show "a = c \<and> b = d" by (auto intro!: bit_word_eqI)
qed simp

lemma tables_ok_inv: "tables_ok T \<Longrightarrow> valid_tag T t \<Longrightarrow> ewah_inv (g_sets T ! unat t)"
  by (auto simp: tables_ok_def valid_tag_def)

lemma tables_ok_intern:
  "tables_ok T \<Longrightarrow> g_intern T k = Some i \<Longrightarrow> valid_tag T i \<and> ewah_sprint (g_sets T ! unat i) = k"
  by (simp add: tables_ok_def)

lemma label_set_0: "tables_ok T \<Longrightarrow> valid_tag T 0 \<and> label_set T 0 = {}"
  by (auto simp: tables_ok_def label_set_def valid_tag_def)

lemma valid_tag_of_nat: "i < length (g_sets T) \<Longrightarrow> tables_ok T \<Longrightarrow> unat (of_nat i :: tag_t) = i"
  by (auto simp: tables_ok_def unat_of_nat take_bit_nat_eq_self)

lemma label_set_inject:
  assumes "tables_ok T" "valid_tag T a" "valid_tag T b"
  shows "label_set T a = label_set T b \<longleftrightarrow> a = b"
proof
  assume "label_set T a = label_set T b"
  then have "ewah_sprint (g_sets T ! unat a) = ewah_sprint (g_sets T ! unat b)"
    using assms tables_ok_inv by (simp add: label_set_def ewah_sprint_inject)
  then have "Some (of_nat (unat a) :: tag_t) = Some (of_nat (unat b))"
    using assms unfolding tables_ok_def valid_tag_def by metis
  then show "a = b" by simp
qed simp

text \<open>Rewriting an element by one with the same offsets keeps the invariant.\<close>

lemma tables_ok_rewrite:
  assumes "tables_ok T" "length ss = length (g_sets T)"
    and "\<And>i. i < length ss \<Longrightarrow> ewah_inv (ss ! i) \<and> offsets (ss ! i) = offsets (g_sets T ! i)"
  shows "tables_ok (T\<lparr>g_sets := ss\<rparr>) \<and> extends T (T\<lparr>g_sets := ss\<rparr>)
     \<and> (\<forall>t. label_set (T\<lparr>g_sets := ss\<rparr>) t = label_set T t)"
proof -
  let ?T = "T\<lparr>g_sets := ss\<rparr>"
  have ls: "label_set ?T t = label_set T t" "valid_tag ?T t = valid_tag T t" for t
    using assms(2,3) by (auto simp: label_set_def valid_tag_def)
  have sp: "ewah_sprint (ss ! i) = ewah_sprint (g_sets T ! i)" if "i < length ss" for i
    using assms that by (subst ewah_sprint_inject) (auto simp: tables_ok_def)
  have inv: "ewah_inv (ss ! i) \<and> offsets (ss ! i) \<subseteq> {..<2 ^ 32}" if "i < length ss" for i
    using assms that by (auto simp: tables_ok_def)
  have "tables_ok ?T"
    using assms(1,2) assms(3)[of 0] sp inv unfolding tables_ok_def ls
    by (auto simp: all_set_conv_all_nth valid_tag_def)
  then show ?thesis using ls assms(2) by (auto simp: extends_def)
qed

lemma intern_set_spec:
  assumes "tables_ok T" "room 1 T" "ewah_inv s" "offsets s \<subseteq> {..<2 ^ 32}"
    and "intern_set s T = (lid, T')"
  shows "tables_ok T' \<and> extends T T' \<and> length (g_sets T') \<le> length (g_sets T) + 1
     \<and> valid_tag T' lid \<and> label_set T' lid = offsets s \<and> g_combine T' = g_combine T"
proof (cases "g_intern T (ewah_sprint s)")
  case (Some i)
  with assms(1,5) have "T' = T" "lid = i" "valid_tag T i" "ewah_sprint (g_sets T ! unat i) = ewah_sprint s"
    by (auto simp: intern_set_def tables_ok_def)
  with assms show ?thesis using tables_ok_inv by (auto simp: label_set_def ewah_sprint_inject)
next
  case None
  let ?n = "length (g_sets T)"
  have T': "T' = T\<lparr>g_sets := g_sets T @ [s], g_intern := (g_intern T)(ewah_sprint s \<mapsto> of_nat ?n)\<rparr>"
    and lid: "lid = of_nat ?n" using None assms(5) by (auto simp: intern_set_def Let_def)
  have n: "unat (of_nat ?n :: tag_t) = ?n"
    using assms(2) by (simp add: room_def unat_of_nat take_bit_nat_eq_self)
  have ext: "extends T T'" by (auto simp: T' extends_def label_set_def valid_tag_def nth_append)
  have old: "ewah_sprint (g_sets T ! i) \<noteq> ewah_sprint s" if "i < ?n" for i
    using assms(1) None that by (auto simp: tables_ok_def)
  have ok: "tables_ok T'" unfolding tables_ok_def
  proof (intro conjI allI impI)
    show "0 < length (g_sets T')" by (simp add: T')
    show "length (g_sets T') \<le> 2 ^ 32" using assms(2) by (simp add: T' room_def)
    show "\<forall>s \<in> set (g_sets T'). ewah_inv s \<and> offsets s \<subseteq> {..<2 ^ 32}"
      using assms(1,3,4) by (auto simp: T' tables_ok_def)
    show "offsets (g_sets T' ! 0) = {}" using assms(1) by (auto simp: T' tables_ok_def nth_append)
  next
    fix k i assume "g_intern T' k = Some i"
    then consider "k = ewah_sprint s" "i = of_nat ?n"
      | "valid_tag T i" "ewah_sprint (g_sets T ! unat i) = k"
      using tables_ok_intern[OF assms(1), of k i] by (auto simp: T' split: if_splits)
    then show "valid_tag T' i" "ewah_sprint (g_sets T' ! unat i) = k"
      by (cases; simp add: T' valid_tag_def nth_append n)+
  next
    fix i assume "i < length (g_sets T')"
    then show "g_intern T' (ewah_sprint (g_sets T' ! i)) = Some (of_nat i)"
      using assms(1) old by (auto simp: T' tables_ok_def nth_append less_Suc_eq)
  next
    fix a b i assume "g_combine T' (combine_key a b) = Some i"
    then have "valid_tag T a" "valid_tag T b" "valid_tag T i" "label_set T i = label_set T a \<union> label_set T b"
      using assms(1) by (simp_all add: T' tables_ok_def)
    then show "valid_tag T' a" "valid_tag T' b" "valid_tag T' i" "label_set T' i = label_set T' a \<union> label_set T' b"
      by (simp_all add: extends_valid[OF ext] extends_label[OF ext])
  qed
  have "valid_tag T' lid" "label_set T' lid = offsets s"
    using n by (simp_all add: lid T' valid_tag_def label_set_def)
  with ok ext show ?thesis by (simp add: T')
qed

lemma tables_ok_combine:
  assumes "tables_ok T" "valid_tag T a" "valid_tag T b" "valid_tag T lid"
    "label_set T lid = label_set T a \<union> label_set T b"
  shows "tables_ok (T\<lparr>g_combine := (g_combine T)(combine_key a b \<mapsto> lid, combine_key b a \<mapsto> lid)\<rparr>)"
proof -
  let ?T = "T\<lparr>g_combine := (g_combine T)(combine_key a b \<mapsto> lid, combine_key b a \<mapsto> lid)\<rparr>"
  have ls: "label_set ?T t = label_set T t" "valid_tag ?T t = valid_tag T t" for t
    by (simp_all add: label_set_def valid_tag_def)
  have "valid_tag T c \<and> valid_tag T d \<and> valid_tag T i \<and> label_set T i = label_set T c \<union> label_set T d"
    if "g_combine ?T (combine_key c d) = Some i" for c d i
    using that assms by (auto simp: combine_key_inject tables_ok_def split: if_splits)
  then show ?thesis using assms(1) unfolding tables_ok_def ls by simp
qed

lemma tag_combine_spec:
  assumes "tables_ok T" "room 1 T" "valid_tag T a" "valid_tag T b"
  shows "\<exists>c T'. tag_combine a b T = Inr (c, T') \<and> tables_ok T' \<and> extends T T'
     \<and> length (g_sets T') \<le> length (g_sets T) + 1
     \<and> valid_tag T' c \<and> label_set T' c = label_set T a \<union> label_set T b"
proof -
  consider "a = b \<or> a = 0 \<or> b = 0"
    | lid where "a \<noteq> b" "a \<noteq> 0" "b \<noteq> 0" "g_combine T (combine_key a b) = Some lid"
    | "a \<noteq> b" "a \<noteq> 0" "b \<noteq> 0" "g_combine T (combine_key a b) = None" by auto
  then show ?thesis
  proof cases
    case 1
    with assms label_set_0[OF assms(1)] show ?thesis by (auto simp: tag_combine_def)
  next
    case 2
    with assms have "valid_tag T lid" "label_set T lid = label_set T a \<union> label_set T b"
      by (auto simp: tables_ok_def)
    with 2 assms(1) show ?thesis by (auto simp: tag_combine_def)
  next
    case 3
    obtain l' r' r where or: "logicalor (g_sets T ! unat a) (g_sets T ! unat b) = (l', r', r)"
      by (metis prod_cases3)
    note sp = logicalor_spec[OF tables_ok_inv[OF assms(1,3)] tables_ok_inv[OF assms(1,4)] or]
    have ab: "unat a < length (g_sets T)" "unat b < length (g_sets T)" "unat a \<noteq> unat b"
      using assms(3,4) 3(1) by (auto simp: valid_tag_def word_unat_eq_iff)
    define T1 where "T1 = T\<lparr>g_sets := (g_sets T)[unat a := l', unat b := r']\<rparr>"
    have T1: "tables_ok T1 \<and> extends T T1 \<and> (\<forall>t. label_set T1 t = label_set T t)"
      unfolding T1_def using sp ab assms(1)
      by (intro tables_ok_rewrite) (auto simp: nth_list_update tables_ok_def)
    have len1: "length (g_sets T1) = length (g_sets T)" "g_combine T1 = g_combine T"
      by (simp_all add: T1_def)
    have ro: "offsets r = label_set T a \<union> label_set T b" "offsets r \<subseteq> {..<2 ^ 32}"
      using sp assms by (auto simp: label_set_def tables_ok_def valid_tag_def)
    obtain lid T2 where interned: "intern_set r T1 = (lid, T2)" by fastforce
    have "room 1 T1" using assms(2) len1 by (simp add: room_def)
    note i = intern_set_spec[OF conjunct1[OF T1] this _ ro(2) interned]
    define T3 where "T3 = T2\<lparr>g_combine := (g_combine T2)(combine_key a b \<mapsto> lid, combine_key b a \<mapsto> lid)\<rparr>"
    have ls3: "label_set T3 t = label_set T2 t" "valid_tag T3 t = valid_tag T2 t" for t
      by (simp_all add: T3_def label_set_def valid_tag_def)
    have e2: "extends T T2" using T1 i sp extends_trans[of T T1 T2] by simp
    then have v2: "valid_tag T2 a" "valid_tag T2 b" "label_set T2 a = label_set T a" "label_set T2 b = label_set T b"
      using assms(3,4) by (simp_all add: extends_valid extends_label)
    have "tables_ok T3" unfolding T3_def
      by (rule tables_ok_combine) (use i sp v2 ro in auto)
    moreover have "tag_combine a b T = Inr (lid, T3)"
      using 3 ab or interned by (simp add: tag_combine_def T1_def [symmetric] T3_def Let_def)
    moreover have "extends T T3" using e2 ls3 by (simp add: extends_def T3_def)
    moreover have "length (g_sets T3) \<le> length (g_sets T) + 1" using i sp len1 by (simp add: T3_def)
    ultimately show ?thesis using i sp ls3 ro by simp
  qed
qed

lemma tagmap_alloc_ok: "tables_ok tagmap_alloc"
  unfolding tables_ok_def tagmap_alloc_def
  by (auto simp: valid_tag_def label_set_def)

lemma dft_label_set_spec:
  assumes "tables_ok T" "room 1 T" "dft_label_set offset T = (t, T')"
  shows "tables_ok T' \<and> extends T T' \<and> length (g_sets T') \<le> length (g_sets T) + 1
     \<and> valid_tag T' t \<and> label_set T' t = {unat offset}"
proof -
  have "unat offset < 2 ^ 32" using unsigned_less[of offset, where ?'a = nat] by simp
  then show ?thesis
    using intern_set_spec[OF assms(1,2), of "ewah_set (unat offset) ewah_new" t T'] assms(3)
      ewah_set_new[of "unat offset"] by (auto simp: dft_label_set_def)
qed

section \<open>The interface of the labels\<close>

text \<open>
  What the propagation handlers rely on: labels denote sets of offsets, relative to a table that
  grows; combining two valid labels never faults, uses at most one fresh label and denotes the
  union; no label of the old table changes its meaning.
\<close>

locale label_algebra =
  fixes combine :: "'l \<Rightarrow> 'l \<Rightarrow> 't \<Rightarrow> ('l \<times> 't) res"
    and ok :: "'t \<Rightarrow> bool"
    and fresh :: "nat \<Rightarrow> 't \<Rightarrow> bool"
    and valid :: "'t \<Rightarrow> 'l \<Rightarrow> bool"
    and den :: "'t \<Rightarrow> 'l \<Rightarrow> nat set"
    and grows :: "'t \<Rightarrow> 't \<Rightarrow> bool"
  assumes combine_law: "ok T \<Longrightarrow> fresh (Suc k) T \<Longrightarrow> valid T a \<Longrightarrow> valid T b \<Longrightarrow>
          \<exists>c T'. combine a b T = Inr (c, T') \<and> ok T' \<and> fresh k T' \<and> grows T T'
            \<and> valid T' c \<and> den T' c = den T a \<union> den T b"
    and grows_refl: "grows T T"
    and grows_trans: "grows T T1 \<Longrightarrow> grows T1 T2 \<Longrightarrow> grows T T2"
    and grows_valid: "grows T T' \<Longrightarrow> valid T t \<Longrightarrow> valid T' t"
    and grows_den: "grows T T' \<Longrightarrow> valid T t \<Longrightarrow> den T' t = den T t"
begin

text \<open>Folding a list of labels into one, the way the handlers accumulate a union.\<close>

fun combine_list :: "'l \<Rightarrow> 'l list \<Rightarrow> 't \<Rightarrow> ('l \<times> 't) res" where
  "combine_list u [] T = Inr (u, T)"
| "combine_list u (x # xs) T = rbind (combine u x T) (\<lambda>(u', T'). combine_list u' xs T')"

lemma combine_list_union:
  assumes "ok T" "fresh (length xs + k) T" "valid T u" "\<forall>x \<in> set xs. valid T x"
  shows "\<exists>c T'. combine_list u xs T = Inr (c, T') \<and> ok T' \<and> fresh k T' \<and> grows T T'
    \<and> valid T' c \<and> den T' c = den T u \<union> (\<Union>x \<in> set xs. den T x)"
  using assms
proof (induction xs arbitrary: u T)
  case Nil
  then show ?case using grows_refl by auto
next
  case (Cons x xs)
  then obtain u' T' where s: "combine u x T = Inr (u', T')" "ok T'" "fresh (length xs + k) T'" "grows T T'"
    "valid T' u'" "den T' u' = den T u \<union> den T x"
    using combine_law[of T "length xs + k" u x] by auto
  have v: "\<forall>y \<in> set xs. valid T' y" using Cons.prems(4) grows_valid[OF s(4)] by auto
  from Cons.IH[OF s(2,3,5) v] obtain c T2 where r: "combine_list u' xs T' = Inr (c, T2)" "ok T2"
    "fresh k T2" "grows T' T2" "valid T2 c" "den T2 c = den T' u' \<union> (\<Union>x \<in> set xs. den T' x)" by blast
  have "(\<Union>y \<in> set xs. den T' y) = (\<Union>y \<in> set xs. den T y)"
    using Cons.prems(4) grows_den[OF s(4)] by auto
  then have "den T2 c = den T u \<union> (\<Union>y \<in> set (x # xs). den T y)" using r(6) s(6) by auto
  with r s(1) grows_trans[OF s(4) r(4)] show ?case by auto
qed

end

interpretation labels: label_algebra tag_combine tables_ok room valid_tag label_set extends
proof (unfold_locales, goal_cases)
  case (1 T k a b)
  have "room 1 T" using 1(2) by (simp add: room_def)
  from tag_combine_spec[OF 1(1) this 1(3,4)] 1(2) show ?case
    by (auto simp: room_def)
qed (auto intro: extends_trans extends_valid simp: extends_label)

section \<open>Properties\<close>

text \<open>
  C16. Two labels of a well-formed table denote the same set of offsets exactly when they are the
  same number: interning makes the equality of sets an equality of ids, and the printed form
  identifies the set.
\<close>

theorem label_eq_iff_set_eq:
  assumes "tables_ok T" "valid_tag T a" "valid_tag T b"
  shows "(label_set T a = label_set T b \<longleftrightarrow> a = b) \<and> (tag_sprint a T = tag_sprint b T \<longleftrightarrow> a = b)"
proof -
  have sp: "tag_sprint t T = ewah_sprint (g_sets T ! unat t)" if "valid_tag T t" for t
  proof (cases "t = 0")
    case True
    then have "ewah_numberOfOnes (g_sets T ! 0) = 0"
      using assms(1) by (simp add: tables_ok_def ewah_numberOfOnes_card)
    with True show ?thesis by (simp add: tag_sprint_def ewah_sprint_def)
  next
    case False
    with that show ?thesis by (simp add: tag_sprint_def valid_tag_def)
  qed
  have "tag_sprint a T = tag_sprint b T \<longleftrightarrow> label_set T a = label_set T b"
    using assms tables_ok_inv by (simp add: sp ewah_sprint_inject label_set_def)
  with label_set_inject[OF assms] show ?thesis by simp
qed

text \<open>A table with the labels of the offsets 3 and 70.\<close>

definition sample_tables :: label_tables where
  "sample_tables = snd (dft_label_set 70 (snd (dft_label_set 3 tagmap_alloc)))"

lemma sample_tables_ok:
  "tables_ok sample_tables \<and> length (g_sets sample_tables) \<le> 3 \<and> valid_tag sample_tables 0
     \<and> valid_tag sample_tables (fst (dft_label_set 70 (snd (dft_label_set 3 tagmap_alloc))))
     \<and> label_set sample_tables (fst (dft_label_set 70 (snd (dft_label_set 3 tagmap_alloc)))) = {70}
     \<and> valid_tag sample_tables (fst (dft_label_set 3 tagmap_alloc))
     \<and> label_set sample_tables (fst (dft_label_set 3 tagmap_alloc)) = {3}"
proof -
  obtain t1 T1 where 1: "dft_label_set 3 tagmap_alloc = (t1, T1)" by fastforce
  obtain t2 T2 where 2: "dft_label_set 70 T1 = (t2, T2)" by fastforce
  have l0: "length (g_sets tagmap_alloc) = 1" by (simp add: tagmap_alloc_def)
  note s1 = dft_label_set_spec[OF tagmap_alloc_ok _ 1]
  have "room 1 tagmap_alloc" by (simp add: room_def l0)
  note s1 = s1[OF this]
  then have "room 1 T1" using l0 by (simp add: room_def)
  note s2 = dft_label_set_spec[OF conjunct1[OF s1] this 2]
  have e: "extends T1 T2" using s2 by simp
  show ?thesis
    using s1 s2 l0 extends_valid[OF e, of t1] extends_label[OF e, of t1] label_set_0[of T2]
    by (simp add: sample_tables_def 1 2)
qed

theorem label_eq_iff_set_eq_witness:
  "label_set sample_tables (fst (dft_label_set 3 tagmap_alloc)) \<noteq> label_set sample_tables 0
     \<and> tag_sprint (fst (dft_label_set 3 tagmap_alloc)) sample_tables \<noteq> tag_sprint 0 sample_tables"
  using label_eq_iff_set_eq[of sample_tables "fst (dft_label_set 3 tagmap_alloc)" 0]
    sample_tables_ok label_set_0[of sample_tables] by auto

text \<open>
  C15. \<open>tag_combine\<close> on valid labels never indexes out of the table, as long as one 32-bit id is
  left: it returns a label for the union of both sets, keeps the table well-formed and changes the
  meaning of no label that existed before.
\<close>

theorem tag_combine_is_union:
  assumes "tables_ok T" "length (g_sets T) < 2 ^ 32" "valid_tag T a" "valid_tag T b"
  shows "\<exists>c T'. tag_combine a b T = Inr (c, T') \<and> tables_ok T' \<and> valid_tag T' c
     \<and> label_set T' c = label_set T a \<union> label_set T b
     \<and> length (g_sets T') \<le> length (g_sets T) + 1
     \<and> (\<forall>t. valid_tag T t \<longrightarrow> valid_tag T' t \<and> label_set T' t = label_set T t)"
proof -
  have "room 1 T" using assms(2) by (simp add: room_def)
  from tag_combine_spec[OF assms(1) this assms(3,4)] obtain c T'
    where "tag_combine a b T = Inr (c, T')" "tables_ok T'" "extends T T'"
      "length (g_sets T') \<le> length (g_sets T) + 1" "valid_tag T' c"
      "label_set T' c = label_set T a \<union> label_set T b" by blast
  then show ?thesis using extends_valid[of T T'] extends_label[of T T'] by blast
qed

theorem tag_combine_is_union_witness:
  "\<exists>c T'. tag_combine (fst (dft_label_set 3 tagmap_alloc))
       (fst (dft_label_set 70 (snd (dft_label_set 3 tagmap_alloc)))) sample_tables = Inr (c, T')
     \<and> label_set T' c = {3, 70}"
proof -
  have "length (g_sets sample_tables) < 2 ^ 32" using sample_tables_ok by simp
  from tag_combine_is_union[OF _ this, of "fst (dft_label_set 3 tagmap_alloc)"
      "fst (dft_label_set 70 (snd (dft_label_set 3 tagmap_alloc)))"] sample_tables_ok
  show ?thesis by auto
qed

text \<open>
  Combining is commutative on the labels themselves, not only on the sets: whichever order two
  labels meet in, and whether the pair was memoized or not, the same id comes out.
\<close>

theorem tag_combine_commute:
  assumes "tables_ok T" "length (g_sets T) + 1 < 2 ^ 32" "valid_tag T a" "valid_tag T b"
  shows "\<exists>c T1 T2. tag_combine a b T = Inr (c, T1) \<and> tag_combine b a T1 = Inr (c, T2)"
proof -
  have r: "room 2 T" using assms(2) by (simp add: room_def)
  then obtain c T1 where 1: "tag_combine a b T = Inr (c, T1)" "tables_ok T1" "room 1 T1" "extends T T1"
    "valid_tag T1 c" "label_set T1 c = label_set T a \<union> label_set T b"
    using labels.combine_law[of T 1 a b] assms by (auto simp: numeral_2_eq_2)
  have v: "valid_tag T1 a" "valid_tag T1 b" using 1(4) assms(3,4) extends_valid by auto
  obtain d T2 where 2: "tag_combine b a T1 = Inr (d, T2)" "tables_ok T2" "extends T1 T2" "valid_tag T2 d"
    "label_set T2 d = label_set T1 b \<union> label_set T1 a"
    using labels.combine_law[of T1 0 b a] 1(2,3) v by auto
  have "label_set T2 c = label_set T2 d" "valid_tag T2 c"
    using 1 2 assms(3,4) extends_label[OF 1(4)] extends_label[OF 2(3), of c] extends_valid[OF 2(3), of c]
    by auto
  then have "c = d" using label_set_inject[OF 2(2)] 2(4) by blast
  with 1(1) 2(1) show ?thesis by blast
qed

theorem tag_combine_commute_witness:
  "\<exists>c T1 T2. tag_combine (fst (dft_label_set 3 tagmap_alloc)) 0 sample_tables = Inr (c, T1)
     \<and> tag_combine 0 (fst (dft_label_set 3 tagmap_alloc)) T1 = Inr (c, T2)"
proof -
  have "length (g_sets sample_tables) + 1 < 2 ^ 32" using sample_tables_ok by simp
  from tag_combine_commute[OF _ this] sample_tables_ok show ?thesis by blast
qed

lemma visit_all_collect:
  "visit_all (\<lambda>i u. (True, u @ [i])) is u = (True, u @ map of_nat is)"
  by (induction "is" arbitrary: u) auto

text \<open>
  Walking a label visits exactly the offsets of its set, each once, in ascending order, when the
  visitor never stops; \<open>numberOfOnes\<close> of the label is their number (as a 32-bit word).
\<close>

theorem tag_walk_ascending:
  assumes "tables_ok T" "valid_tag T t"
  shows "\<exists>xs. tag_walk t (\<lambda>i u. (True, u @ [i])) [] T = (True, map of_nat xs)
     \<and> sorted_wrt (<) xs \<and> set xs = label_set T t \<and> label_numberOfOnes t T = of_nat (length xs)"
proof -
  let ?s = "g_sets T ! unat t"
  have inv: "ewah_inv ?s" by (rule tables_ok_inv[OF assms])
  have set: "set (ewah_ones ?s) = label_set T t"
    using assms(2) inv set_ewah_ones by (simp add: label_set_def ewah_inv_def)
  have z: "ewah_ones ?s = []" if "t = 0" using that set label_set_0[OF assms(1)] by simp
  have walk: "tag_walk t (\<lambda>i u. (True, u @ [i])) [] T = (True, map of_nat (ewah_ones ?s))"
    using assms(2) z by (simp add: tag_walk_def visit_all_collect valid_tag_def)
  have "label_numberOfOnes t T = of_nat (length (ewah_ones ?s))"
  proof (cases "t = 0")
    case True
    then show ?thesis using z by (simp add: label_numberOfOnes_def)
  next
    case False
    then show ?thesis using assms(2) ewah.count_ones[OF inv]
      by (simp add: label_numberOfOnes_def valid_tag_def)
  qed
  with walk set ewah.ones_sorted[OF inv] show ?thesis by blast
qed

theorem tag_walk_ascending_witness:
  "\<exists>xs. tag_walk (fst (dft_label_set 3 tagmap_alloc)) (\<lambda>i u. (True, u @ [i])) [] sample_tables
      = (True, map of_nat xs) \<and> sorted_wrt (<) xs \<and> set xs = {3}"
  using tag_walk_ascending[of sample_tables "fst (dft_label_set 3 tagmap_alloc)"] sample_tables_ok
  by auto

end
