(* ===== verification/Dr_Api.thy ===== *)
theory Dr_Api
  imports Prelude
begin

text \<open>
  The data of DynamoRIO's interface that the program's code handles: register names, operands and
  decoded instructions. DynamoRIO itself is not part of the repository: what its functions return is
  a parameter (\<open>dr_regs\<close> for the register tables here, \<open>dr_env\<close> for the run time in \<open>Engine\<close>), and
  what the program relies on is the predicate \<open>dr_regs_ok\<close>.
\<close>

section \<open>Registers\<close>

datatype gpr = RAX | RBX | RCX | RDX | RSI | RDI | RBP | RSP | R8 | R9 | R10 | R11 | R12 | R13 | R14 | R15

text \<open>
  The names of \<^verbatim>\<open>reg_id_t\<close>: the general-purpose registers at their four widths, the legacy high
  bytes (AH, BH, CH, DH; the other \<open>REG_8H\<close> values do not occur), and everything else by number.
\<close>

datatype reg_id =
    DR_REG_NULL
  | REG_64 gpr
  | REG_32 gpr
  | REG_16 gpr
  | REG_8L gpr
  | REG_8H gpr
  | REG_OTHER nat

definition high_bytes :: "gpr list" where
  "high_bytes = [RAX, RBX, RCX, RDX]"

text \<open>The register functions of DynamoRIO; \<open>reg_bytes\<close> is \<^verbatim>\<open>opnd_size_in_bytes(reg_get_size(r))\<close>.\<close>

record dr_regs =
  reg_is_gpr :: "reg_id \<Rightarrow> bool"
  reg_to_pointer_sized :: "reg_id \<Rightarrow> reg_id"
  reg_bytes :: "reg_id \<Rightarrow> nat"

text \<open>
  What the documentation of these functions says: which registers are general-purpose, their
  64-bit parent, and their width, which is at most 64 bytes for any register (a ZMM register).
\<close>

definition dr_regs_ok :: "dr_regs \<Rightarrow> bool" where
  "dr_regs_ok R \<longleftrightarrow>
     (\<forall>g. reg_is_gpr R (REG_64 g) \<and> reg_is_gpr R (REG_32 g) \<and> reg_is_gpr R (REG_16 g) \<and> reg_is_gpr R (REG_8L g)
        \<and> reg_is_gpr R (REG_8H g))
     \<and> \<not> reg_is_gpr R DR_REG_NULL \<and> (\<forall>k. \<not> reg_is_gpr R (REG_OTHER k))
     \<and> (\<forall>g. reg_to_pointer_sized R (REG_64 g) = REG_64 g \<and> reg_to_pointer_sized R (REG_32 g) = REG_64 g
        \<and> reg_to_pointer_sized R (REG_16 g) = REG_64 g \<and> reg_to_pointer_sized R (REG_8L g) = REG_64 g
        \<and> reg_to_pointer_sized R (REG_8H g) = REG_64 g)
     \<and> (\<forall>g. reg_bytes R (REG_64 g) = 8 \<and> reg_bytes R (REG_32 g) = 4 \<and> reg_bytes R (REG_16 g) = 2
        \<and> reg_bytes R (REG_8L g) = 1 \<and> reg_bytes R (REG_8H g) = 1)"

text \<open>An instance, the register tables of x86-64, which the witnesses use.\<close>

definition x86_regs :: dr_regs where
  "x86_regs =
     \<lparr>reg_is_gpr = (\<lambda>r. case r of REG_64 g \<Rightarrow> True | REG_32 g \<Rightarrow> True | REG_16 g \<Rightarrow> True | REG_8L g \<Rightarrow> True
        | REG_8H g \<Rightarrow> True | _ \<Rightarrow> False),
      reg_to_pointer_sized = (\<lambda>r. case r of REG_64 g \<Rightarrow> REG_64 g | REG_32 g \<Rightarrow> REG_64 g | REG_16 g \<Rightarrow> REG_64 g
        | REG_8L g \<Rightarrow> REG_64 g | REG_8H g \<Rightarrow> REG_64 g | _ \<Rightarrow> DR_REG_NULL),
      reg_bytes = (\<lambda>r. case r of REG_64 g \<Rightarrow> 8 | REG_32 g \<Rightarrow> 4 | REG_16 g \<Rightarrow> 2 | REG_8L g \<Rightarrow> 1 | REG_8H g \<Rightarrow> 1
        | DR_REG_NULL \<Rightarrow> 0 | REG_OTHER k \<Rightarrow> 16)\<rparr>"

lemma x86_regs_ok: "dr_regs_ok x86_regs"
  by (simp add: dr_regs_ok_def x86_regs_def)

section \<open>Operands and instructions\<close>

text \<open>
  \<^verbatim>\<open>opnd_t\<close>: a register, an immediate, a base-plus-displacement memory operand (base, index, scale,
  displacement, width in bytes), another memory operand (by number, with its width), or another kind.
\<close>

datatype opnd =
    OpReg reg_id
  | OpImm UINT64
  | OpBaseDisp reg_id reg_id nat int nat
  | OpMem nat nat
  | OpOther nat

fun opnd_is_reg :: "opnd \<Rightarrow> bool" where
  "opnd_is_reg (OpReg r) = True" | "opnd_is_reg _ = False"

fun opnd_is_immed :: "opnd \<Rightarrow> bool" where
  "opnd_is_immed (OpImm v) = True" | "opnd_is_immed _ = False"

fun opnd_is_base_disp :: "opnd \<Rightarrow> bool" where
  "opnd_is_base_disp (OpBaseDisp b i sc d w) = True" | "opnd_is_base_disp _ = False"

fun opnd_is_memory_reference :: "opnd \<Rightarrow> bool" where
  "opnd_is_memory_reference (OpBaseDisp b i sc d w) = True"
| "opnd_is_memory_reference (OpMem k w) = True"
| "opnd_is_memory_reference _ = False"

fun opnd_get_reg :: "opnd \<Rightarrow> reg_id" where
  "opnd_get_reg (OpReg r) = r" | "opnd_get_reg _ = DR_REG_NULL"

fun opnd_get_base :: "opnd \<Rightarrow> reg_id" where
  "opnd_get_base (OpBaseDisp b i sc d w) = b" | "opnd_get_base _ = DR_REG_NULL"

fun opnd_get_index :: "opnd \<Rightarrow> reg_id" where
  "opnd_get_index (OpBaseDisp b i sc d w) = i" | "opnd_get_index _ = DR_REG_NULL"

fun opnd_get_immed_int :: "opnd \<Rightarrow> UINT64" where
  "opnd_get_immed_int (OpImm v) = v" | "opnd_get_immed_int _ = 0"

text \<open>\<^verbatim>\<open>opnd_size_in_bytes(opnd_get_size(o))\<close>\<close>

fun opnd_bytes :: "dr_regs \<Rightarrow> opnd \<Rightarrow> nat" where
  "opnd_bytes R (OpReg r) = reg_bytes R r"
| "opnd_bytes R (OpBaseDisp b i sc d w) = w"
| "opnd_bytes R (OpMem k w) = w"
| "opnd_bytes R _ = 0"

lemma opnd_is_reg_iff: "opnd_is_reg x \<longleftrightarrow> (\<exists>r. x = OpReg r)"
  by (cases x) auto

end
