(* ===== verification/Engine.thy ===== *)
theory Engine
  imports Label_Table Dr_Api
begin

text \<open>
  The state of the engine and the taint-propagation handlers of \<^verbatim>\<open>src/libdft_core_dr.cpp\<close>, the
  functions that the instrumentation calls at run time. A handler takes the run-time environment
  (what it asks DynamoRIO for) and its arguments, and maps an engine state to an engine state or to
  a fault. The sink registry of \<^verbatim>\<open>src/src/api_sinks.cpp\<close> is here too, since the comparison handlers
  dispatch to it.
\<close>

section \<open>State\<close>

definition DFT_REG_RDI :: nat where "DFT_REG_RDI = 3"
definition DFT_REG_RSI :: nat where "DFT_REG_RSI = 4"
definition DFT_REG_RBP :: nat where "DFT_REG_RBP = 5"
definition DFT_REG_RSP :: nat where "DFT_REG_RSP = 6"
definition DFT_REG_RBX :: nat where "DFT_REG_RBX = 7"
definition DFT_REG_RDX :: nat where "DFT_REG_RDX = 8"
definition DFT_REG_RCX :: nat where "DFT_REG_RCX = 9"
definition DFT_REG_RAX :: nat where "DFT_REG_RAX = 10"
definition DFT_REG_R8 :: nat where "DFT_REG_R8 = 11"
definition DFT_REG_R9 :: nat where "DFT_REG_R9 = 12"
definition DFT_REG_R10 :: nat where "DFT_REG_R10 = 13"
definition DFT_REG_R11 :: nat where "DFT_REG_R11 = 14"
definition DFT_REG_R12 :: nat where "DFT_REG_R12 = 15"
definition DFT_REG_R13 :: nat where "DFT_REG_R13 = 16"
definition DFT_REG_R14 :: nat where "DFT_REG_R14 = 17"
definition DFT_REG_R15 :: nat where "DFT_REG_R15 = 18"
definition GRP_NUM :: nat where "GRP_NUM = 43"
definition TAGS_PER_GPR :: nat where "TAGS_PER_GPR = 16"
definition SYSCALL_ARG_NUM :: nat where "SYSCALL_ARG_NUM = 6"

lemmas reg_row_defs = DFT_REG_RDI_def DFT_REG_RSI_def DFT_REG_RBP_def DFT_REG_RSP_def
  DFT_REG_RBX_def DFT_REG_RDX_def DFT_REG_RCX_def DFT_REG_RAX_def DFT_REG_R8_def DFT_REG_R9_def
  DFT_REG_R10_def DFT_REG_R11_def DFT_REG_R12_def DFT_REG_R13_def DFT_REG_R14_def DFT_REG_R15_def

record syscall_ctx_t =
  nr :: int
  arg :: "nat \<Rightarrow> ADDRINT"
  ret :: ADDRINT

record thread_ctx_t =
  gpr_file :: "nat \<Rightarrow> nat \<Rightarrow> tag_t"
  syscall_ctx :: syscall_ctx_t
  syscall_nr :: UINT32
  gpr_mask_cached :: UINT32

text \<open>
  The registry of sinks. A callback is client code: it is a number here, and to call it is to append
  an event to the log. A missing entry of \<^verbatim>\<open>g_opcode_sinks\<close> and an empty vector are the same list.
\<close>

datatype opcode_class = CMP | LEA | MEM_LOAD | MEM_STORE | BRANCH | CALL | RET

type_synonym sink_cb = nat

record sink_payload =
  legacy_fields :: "string list"
  operand_tags :: "tag_t list"

record pc_range_entry =
  lo :: ADDRINT
  hi :: ADDRINT
  range_cb :: sink_cb

record pending_func_sink =
  func_name :: string
  module_basename :: string
  sink_pc :: ADDRINT
  func_cb :: sink_cb

datatype sink_event =
    OpcodeSink sink_cb opcode_class ADDRINT sink_payload
  | PcRangeSink sink_cb ADDRINT
  | FuncSink sink_cb ADDRINT

text \<open>
  The engine: the label tables, the shadow memory, the thread contexts (the TLS slot of every
  drcontext, a drcontext being a number; \<open>tls_idx\<close> is -1 before the slot exists), the two output
  files (\<open>None\<close> is \<^verbatim>\<open>INVALID_FILE\<close>), and the sinks with the log of their events.
\<close>

record engine =
  tables :: label_tables
  tag_dir :: tag_dir_t
  tls_idx :: int
  threads :: "nat \<Rightarrow> thread_ctx_t option"
  out_file :: "string option"
  out_lea_file :: "string option"
  limit_offset :: int
  g_opcode_sinks :: "opcode_class \<Rightarrow> sink_cb list"
  g_pc_ranges :: "pc_range_entry list"
  g_pending_func_sinks :: "pending_func_sink list"
  sink_log :: "sink_event list"

text \<open>
  What DynamoRIO supplies at run time: the current drcontext, the application's memory through
  \<^verbatim>\<open>dr_safe_read\<close> (the bytes read, as a little-endian number, or \<open>None\<close>), the saved flags of
  \<^verbatim>\<open>dr_get_mcontext\<close>, and the two kinds of clean-call arguments that are not constants: the effective
  address of a memory operand and the value of a register.
\<close>

record dr_env =
  cur_drcontext :: nat
  safe_read :: "ADDRINT \<Rightarrow> nat \<Rightarrow> UINT64 option"
  xflags :: UINT64
  ea :: "opnd \<Rightarrow> ADDRINT"
  reg_value :: "reg_id \<Rightarrow> UINT64"

definition libdft_get_thread_ctx :: "nat \<Rightarrow> 'a engine_scheme \<Rightarrow> thread_ctx_t option" where
  "libdft_get_thread_ctx dc s = (if tls_idx s = -1 then None else threads s dc)"

section \<open>Single accesses\<close>

text \<open>\<^verbatim>\<open>tc->vcpu.gpr_file[row][b]\<close>, with the bounds of the array written out.\<close>

definition gpr_rd :: "nat \<Rightarrow> nat \<Rightarrow> nat \<Rightarrow> 'a engine_scheme \<Rightarrow> tag_t res" where
  "gpr_rd dc row b s =
     (case libdft_get_thread_ctx dc s of
        None \<Rightarrow> Inl NullDeref
      | Some tc \<Rightarrow>
          if row < GRP_NUM + 1 \<and> b < TAGS_PER_GPR then Inr (gpr_file tc row b) else Inl OutOfRange)"

definition gpr_wr :: "nat \<Rightarrow> nat \<Rightarrow> nat \<Rightarrow> tag_t \<Rightarrow> 'a engine_scheme \<Rightarrow> 'a engine_scheme res" where
  "gpr_wr dc row b t s =
     (case libdft_get_thread_ctx dc s of
        None \<Rightarrow> Inl NullDeref
      | Some tc \<Rightarrow>
          if row < GRP_NUM + 1 \<and> b < TAGS_PER_GPR then
            Inr (s\<lparr>threads := (threads s)(dc \<mapsto>
              tc\<lparr>gpr_file := (gpr_file tc)(row := (gpr_file tc row)(b := t))\<rparr>)\<rparr>)
          else Inl OutOfRange)"

definition mem_rd :: "ADDRINT \<Rightarrow> 'a engine_scheme \<Rightarrow> tag_t res" where
  "mem_rd addr s = file_tagmap_getb addr (tag_dir s)"

definition mem_wr :: "ADDRINT \<Rightarrow> tag_t \<Rightarrow> 'a engine_scheme \<Rightarrow> 'a engine_scheme" where
  "mem_wr addr t s = s\<lparr>tag_dir := tagmap_setb_with_tag addr t (tag_dir s)\<rparr>"

definition combine_tags :: "tag_t \<Rightarrow> tag_t \<Rightarrow> 'a engine_scheme \<Rightarrow> (tag_t \<times> 'a engine_scheme) res" where
  "combine_tags l r s = rbind (tag_combine l r (tables s)) (\<lambda>(t, T). Inr (t, s\<lparr>tables := T\<rparr>))"

definition vec_set :: "nat \<Rightarrow> 'x \<Rightarrow> 'x list \<Rightarrow> 'x list res" where
  "vec_set i x xs = (if i < length xs then Inr (xs[i := x]) else Inl OutOfRange)"

definition vec_get :: "nat \<Rightarrow> 'x list \<Rightarrow> 'x res" where
  "vec_get i xs = (if i < length xs then Inr (xs ! i) else Inl OutOfRange)"

section \<open>The sink registry\<close>

definition has_sink :: "opcode_class \<Rightarrow> 'a engine_scheme \<Rightarrow> bool" where
  "has_sink cls s = (g_opcode_sinks s cls \<noteq> [])"

definition dispatch_sink :: "opcode_class \<Rightarrow> ADDRINT \<Rightarrow> sink_payload \<Rightarrow> 'a engine_scheme \<Rightarrow> 'a engine_scheme" where
  "dispatch_sink cls pc pl s =
     s\<lparr>sink_log := sink_log s @ map (\<lambda>cb. OpcodeSink cb cls pc pl) (g_opcode_sinks s cls)\<rparr>"

definition in_range :: "ADDRINT \<Rightarrow> pc_range_entry \<Rightarrow> bool" where
  "in_range pc e = (pc \<ge> lo e \<and> pc < hi e)"

definition has_pc_range_sink_at :: "ADDRINT \<Rightarrow> 'a engine_scheme \<Rightarrow> bool" where
  "has_pc_range_sink_at pc s = list_ex (in_range pc) (g_pc_ranges s)"

definition dispatch_pc_range_sink :: "ADDRINT \<Rightarrow> 'a engine_scheme \<Rightarrow> 'a engine_scheme" where
  "dispatch_pc_range_sink pc s =
     s\<lparr>sink_log := sink_log s @
         map (\<lambda>e. PcRangeSink (range_cb e) pc) (filter (in_range pc) (g_pc_ranges s))\<rparr>"

definition register_sink :: "opcode_class \<Rightarrow> sink_cb \<Rightarrow> 'a engine_scheme \<Rightarrow> 'a engine_scheme" where
  "register_sink cls cb s =
     s\<lparr>g_opcode_sinks := (g_opcode_sinks s)(cls := g_opcode_sinks s cls @ [cb])\<rparr>"

definition register_pc_range_sink :: "ADDRINT \<Rightarrow> ADDRINT \<Rightarrow> sink_cb \<Rightarrow> 'a engine_scheme \<Rightarrow> 'a engine_scheme" where
  "register_pc_range_sink l h cb s =
     (if l \<ge> h then s
      else s\<lparr>g_pc_ranges := g_pc_ranges s @ [\<lparr>lo = l, hi = h, range_cb = cb\<rparr>]\<rparr>)"

definition register_func_sink :: "string \<Rightarrow> string \<Rightarrow> sink_cb \<Rightarrow> 'a engine_scheme \<Rightarrow> bool \<times> 'a engine_scheme" where
  "register_func_sink name modname cb s =
     (if name = [] then (False, s)
      else (True, s\<lparr>g_pending_func_sinks := g_pending_func_sinks s @
              [\<lparr>func_name = name, module_basename = modname, sink_pc = 0, func_cb = cb\<rparr>]\<rparr>))"

definition register_func_sink_pc :: "ADDRINT \<Rightarrow> sink_cb \<Rightarrow> 'a engine_scheme \<Rightarrow> 'a engine_scheme" where
  "register_func_sink_pc entry_pc cb s =
     s\<lparr>g_pending_func_sinks := g_pending_func_sinks s @
         [\<lparr>func_name = [], module_basename = [], sink_pc = entry_pc, func_cb = cb\<rparr>]\<rparr>"

definition has_tainted_operand :: "sink_payload \<Rightarrow> bool" where
  "has_tainted_operand pl = list_ex (\<lambda>t. t \<noteq> 0) (operand_tags pl)"

fun combine_onto :: "tag_t \<Rightarrow> tag_t list \<Rightarrow> 'a engine_scheme \<Rightarrow> (tag_t \<times> 'a engine_scheme) res" where
  "combine_onto acc [] s = Inr (acc, s)"
| "combine_onto acc (t # ts) s = rbind (combine_tags acc t s) (\<lambda>(acc', s'). combine_onto acc' ts s')"

definition operand_union :: "sink_payload \<Rightarrow> 'a engine_scheme \<Rightarrow> (tag_t \<times> 'a engine_scheme) res" where
  "operand_union pl s = combine_onto 0 (operand_tags pl) s"

section \<open>Records for cmp.out and lea.out\<close>

definition hexstr_u :: "UINT64 \<Rightarrow> string" where
  "hexstr_u v = ''0x'' @ hex_str (unat v)"

definition int2str :: "int \<Rightarrow> string" where
  "int2str v = (if v < 0 then ''-'' @ dec_str (nat (- v)) else dec_str (nat v))"

definition comma_tokens :: "string \<Rightarrow> int" where
  "comma_tokens s = fold (\<lambda>c n. if c = CHR '','' then n + 1 else n) s 1"

fun field_limit_hit :: "nat list \<Rightarrow> int \<Rightarrow> string list \<Rightarrow> bool" where
  "field_limit_hit [] limit fs = False"
| "field_limit_hit (i # is) limit fs = (comma_tokens (fs ! i) > limit \<or> field_limit_hit is limit fs)"

definition record_line :: "nat \<Rightarrow> string list \<Rightarrow> string" where
  "record_line n fs = concat (map (\<lambda>i. fs ! i @ '' '') [0..<n]) @ [CHR 0x0A]"

definition legacy_write_cmp :: "string list \<Rightarrow> 'a engine_scheme \<Rightarrow> 'a engine_scheme" where
  "legacy_write_cmp fs s =
     (case out_file s of
        None \<Rightarrow> s
      | Some content \<Rightarrow>
          if field_limit_hit [3..<19] (limit_offset s) fs then s
          else s\<lparr>out_file := Some (content @ record_line 21 fs)\<rparr>)"

definition legacy_write_lea :: "string list \<Rightarrow> 'a engine_scheme \<Rightarrow> 'a engine_scheme" where
  "legacy_write_lea fs s =
     (case out_lea_file s of
        None \<Rightarrow> s
      | Some content \<Rightarrow>
          if field_limit_hit [2..<10] (limit_offset s) fs then s
          else s\<lparr>out_lea_file := Some (content @ record_line 10 fs)\<rparr>)"

definition emit_cmp :: "string list \<Rightarrow> UINT64 \<Rightarrow> tag_t list \<Rightarrow> tag_t list \<Rightarrow> 'a engine_scheme \<Rightarrow> 'a engine_scheme" where
  "emit_cmp fs ins dest_tags src_tags s =
     (if has_sink CMP s then
        dispatch_sink CMP ins \<lparr>legacy_fields = fs, operand_tags = dest_tags @ src_tags\<rparr> s
      else legacy_write_cmp fs s)"

definition emit_lea :: "string list \<Rightarrow> UINT64 \<Rightarrow> tag_t list \<Rightarrow> 'a engine_scheme \<Rightarrow> 'a engine_scheme" where
  "emit_lea fs ins optags s =
     (if has_sink LEA s then
        dispatch_sink LEA ins \<lparr>legacy_fields = fs, operand_tags = optags\<rparr> s
      else legacy_write_lea fs s)"

text \<open>\<^verbatim>\<open>std::vector<tag_t> v(size)\<close> filled by a loop over its bytes.\<close>

definition fill_tags :: "nat \<Rightarrow> (nat \<Rightarrow> tag_t res) \<Rightarrow> tag_t list res" where
  "fill_tags sz get = for_upto sz (\<lambda>i v. rbind (get i) (\<lambda>t. vec_set i t v)) (replicate sz 0)"

definition fill_reg_tags :: "nat \<Rightarrow> nat \<Rightarrow> nat \<Rightarrow> nat \<Rightarrow> 'a engine_scheme \<Rightarrow> tag_t list res" where
  "fill_reg_tags dc row start sz s = fill_tags sz (\<lambda>i. gpr_rd dc row (start + i) s)"

definition fill_mem_tags :: "ADDRINT \<Rightarrow> nat \<Rightarrow> 'a engine_scheme \<Rightarrow> tag_t list res" where
  "fill_mem_tags addr sz s = fill_tags sz (\<lambda>i. mem_rd (addr + of_nat i) s)"

definition read_mem_val :: "dr_env \<Rightarrow> ADDRINT \<Rightarrow> nat \<Rightarrow> UINT64" where
  "read_mem_val E addr sz = (case safe_read E addr sz of None \<Rightarrow> 0 | Some v \<Rightarrow> v)"

end
