(* ===== verification/Summaries.thy ===== *)
theory Summaries
  imports Engine
begin

text \<open>
  The table of function summaries of \<^verbatim>\<open>src/sdft_summaries_dr.cpp\<close>: the parser of the configuration file,
  line by line and token by token, and the lookup by symbol name with its alias patterns and its default.
  Warnings go to the standard error stream and are left out.
\<close>

section \<open>State\<close>

datatype Shape = SHAPE_INVALID | SHAPE_SOURCE | SHAPE_SOURCE_RET_PTR | SHAPE_PROP_PTR2PTR
  | SHAPE_PROP_PTR2VAL | SHAPE_PROP_SCALAR | SHAPE_CLOBBER_ONLY

datatype sdft_policy = POLICY_OPTIMISTIC | POLICY_CONSERVATIVE

datatype RefKind = REF_NONE | REF_ARG | REF_LITERAL | REF_RET | REF_STRLEN | REF_WCSLEN

record Ref =
  ref_kind :: RefKind
  ref_value :: int

definition new_Ref :: Ref where
  "new_Ref = \<lparr>ref_kind = REF_NONE, ref_value = 0\<rparr>"

record Summary =
  sum_shape :: Shape
  sum_dst :: Ref
  sum_src :: "int list"
  sum_len :: Ref
  sum_args :: "int list"
  sum_buf :: int

definition new_Summary :: Summary where
  "new_Summary = \<lparr>sum_shape = SHAPE_INVALID, sum_dst = new_Ref, sum_src = [], sum_len = new_Ref, sum_args = [], sum_buf = - 1\<rparr>"

record AliasRule =
  alias_pattern :: string
  alias_canonical :: string

record sdft_state =
  sdft_policy :: sdft_policy
  s_funcs :: "string \<Rightarrow> Summary option"
  s_aliases :: "AliasRule list"
  s_conservative_default :: Summary

definition sdft_start :: sdft_state where
  "sdft_start = \<lparr>sdft_policy = POLICY_OPTIMISTIC, s_funcs = Map.empty, s_aliases = [], s_conservative_default = new_Summary\<rparr>"

section \<open>Strings\<close>

abbreviation "TAB \<equiv> CHR 0x09"
abbreviation "LF \<equiv> CHR 0x0A"
abbreviation "CR \<equiv> CHR 0x0D"

definition is_blank :: "char \<Rightarrow> bool" where
  "is_blank c = (c = CHR '' '' \<or> c = TAB)"

definition rstrip :: "string \<Rightarrow> string" where
  "rstrip s = rev (dropWhile (\<lambda>c. c = CHR '' '' \<or> c = TAB \<or> c = CR \<or> c = LF) (rev s))"

definition lstrip :: "string \<Rightarrow> string" where
  "lstrip s = dropWhile is_blank s"

definition strip :: "string \<Rightarrow> string" where
  "strip s = lstrip (rstrip s)"

text \<open>The loop of \<^verbatim>\<open>split_ws\<close> on the rest of the string from position i on.\<close>

function split_ws :: "string \<Rightarrow> string list" where
  "split_ws s =
     (let t = dropWhile is_blank s
      in if t = [] then []
         else takeWhile (\<lambda>c. \<not> is_blank c) t # split_ws (dropWhile (\<lambda>c. \<not> is_blank c) t))"
  by pat_completeness auto
termination
proof (relation "measure length", goal_cases)
  case (2 s t)
  then obtain c cs where t: "t = c # cs" "\<not> is_blank c"
    by (metis dropWhile_eq_Cons_conv list.exhaust)
  have "length (dropWhile (\<lambda>c. \<not> is_blank c) t) < length t" using t by (simp add: le_imp_less_Suc length_dropWhile_le)
  also have "length t \<le> length s" using 2(1) by (simp add: length_dropWhile_le)
  finally show ?case by simp
qed simp

declare split_ws.simps [simp del]

definition is_digit :: "char \<Rightarrow> bool" where
  "is_digit c = (48 \<le> (of_char c :: nat) \<and> (of_char c :: nat) \<le> 57)"

definition is_space :: "char \<Rightarrow> bool" where
  "is_space c = (c = CHR '' '' \<or> 9 \<le> (of_char c :: nat) \<and> (of_char c :: nat) \<le> 13)"

text \<open>\<^verbatim>\<open>atoi\<close>: \<^verbatim>\<open>strtol\<close> in base 10, which saturates at 64 bits, converted to a 32-bit int.\<close>

definition strtol :: "string \<Rightarrow> int" where
  "strtol s =
     (let t = dropWhile is_space s;
          neg = (t \<noteq> [] \<and> hd t = CHR ''-'');
          u = (if t \<noteq> [] \<and> (hd t = CHR ''-'' \<or> hd t = CHR ''+'') then tl t else t);
          v = int (read_base 10 (takeWhile is_digit u))
      in if neg then max (- (2 ^ 63)) (- v) else min (2 ^ 63 - 1) v)"

definition atoi :: "string \<Rightarrow> int" where
  "atoi s = sint (of_int (strtol s) :: 32 word)"

text \<open>\<^verbatim>\<open>parse_csv_ints\<close>: the tokens between commas that are not empty.\<close>

function parse_csv_ints :: "string \<Rightarrow> int list" where
  "parse_csv_ints csv =
     (if csv = [] then []
      else
        let tok = takeWhile (\<lambda>c. c \<noteq> CHR '','') csv;
            rest = dropWhile (\<lambda>c. c \<noteq> CHR '','') csv;
            vs = parse_csv_ints (tl rest)
        in if tok \<noteq> [] then atoi tok # vs else vs)"
  by pat_completeness auto
termination
proof (relation "measure length", goal_cases)
  case (2 csv tok rest)
  have "length rest \<le> length csv" using 2 by (simp add: length_dropWhile_le)
  moreover have "length (tl rest) < length csv" if "rest = []" using 2 that by simp
  ultimately show ?case by (cases rest) auto
qed simp

declare parse_csv_ints.simps [simp del]

definition split_kv :: "string \<Rightarrow> (string \<times> string) option" where
  "split_kv kv =
     (if CHR ''='' \<in> set kv
      then Some (takeWhile (\<lambda>c. c \<noteq> CHR ''='') kv, tl (dropWhile (\<lambda>c. c \<noteq> CHR ''='') kv))
      else None)"

definition parse_ref :: "string \<Rightarrow> Ref" where
  "parse_ref val =
     (if val = ''ret'' then new_Ref\<lparr>ref_kind := REF_RET\<rparr>
      else if val = ''strlen'' then new_Ref\<lparr>ref_kind := REF_STRLEN\<rparr>
      else if val = ''wcslen'' then new_Ref\<lparr>ref_kind := REF_WCSLEN\<rparr>
      else if val \<noteq> [] \<and> (hd val = CHR ''-'' \<or> is_digit (hd val)) then
        let v = atoi val
        in if v \<ge> 0 \<and> v \<le> 5 then new_Ref\<lparr>ref_kind := REF_ARG, ref_value := v\<rparr>
           else new_Ref\<lparr>ref_kind := REF_LITERAL, ref_value := v\<rparr>
      else new_Ref)"

definition glob_match :: "string \<Rightarrow> string \<Rightarrow> bool" where
  "glob_match pat name =
     (if pat = [] then False
      else if last pat = CHR ''*'' then
        let prefix = butlast pat
        in if length name < length prefix then False else take (length prefix) name = prefix
      else pat = name)"

section \<open>Directives\<close>

definition parse_policy :: "string list \<Rightarrow> sdft_state \<Rightarrow> sdft_state" where
  "parse_policy toks d =
     (if length toks < 2 then d
      else if toks ! 1 = ''optimistic'' then d\<lparr>sdft_policy := POLICY_OPTIMISTIC\<rparr>
      else if toks ! 1 = ''conservative'' then d\<lparr>sdft_policy := POLICY_CONSERVATIVE\<rparr>
      else d)"

definition parse_alias :: "string list \<Rightarrow> sdft_state \<Rightarrow> sdft_state" where
  "parse_alias toks d =
     (if length toks < 3 then d
      else d\<lparr>s_aliases := s_aliases d @ [\<lparr>alias_pattern = toks ! 1, alias_canonical = toks ! 2\<rparr>]\<rparr>)"

definition parse_shape :: "string \<Rightarrow> Shape option" where
  "parse_shape name =
     (if name = ''SOURCE'' then Some SHAPE_SOURCE
      else if name = ''SOURCE_RETURN_PTR'' then Some SHAPE_SOURCE_RET_PTR
      else if name = ''PROP_PTR2PTR'' then Some SHAPE_PROP_PTR2PTR
      else if name = ''PROP_PTR2VAL'' then Some SHAPE_PROP_PTR2VAL
      else if name = ''PROP_SCALAR'' then Some SHAPE_PROP_SCALAR
      else if name = ''CLOBBER_ONLY'' then Some SHAPE_CLOBBER_ONLY
      else None)"

definition set_key :: "string \<Rightarrow> string \<Rightarrow> Summary \<Rightarrow> Summary" where
  "set_key key val s =
     (if key = ''buf'' then s\<lparr>sum_buf := atoi val\<rparr>
      else if key = ''len'' then s\<lparr>sum_len := parse_ref val\<rparr>
      else if key = ''dst'' then s\<lparr>sum_dst := parse_ref val\<rparr>
      else if key = ''src'' then s\<lparr>sum_src := parse_csv_ints val\<rparr>
      else if key = ''args'' then s\<lparr>sum_args := parse_csv_ints val\<rparr>
      else s)"

fun parse_keys :: "string list \<Rightarrow> Summary \<Rightarrow> Summary" where
  "parse_keys [] s = s"
| "parse_keys (tok # toks) s =
     (case split_kv tok of
        None \<Rightarrow> if tok \<noteq> [] \<and> hd tok = CHR ''#'' then s else parse_keys toks s
      | Some (key, val) \<Rightarrow> parse_keys toks (set_key key val s))"

definition parse_func :: "string list \<Rightarrow> sdft_state \<Rightarrow> sdft_state" where
  "parse_func toks d =
     (if length toks < 3 then d
      else
        case parse_shape (toks ! 2) of
          None \<Rightarrow> d
        | Some sh \<Rightarrow> d\<lparr>s_funcs := (s_funcs d)(toks ! 1 \<mapsto> parse_keys (drop 3 toks) (new_Summary\<lparr>sum_shape := sh\<rparr>))\<rparr>)"

definition parse_line :: "string \<Rightarrow> sdft_state \<Rightarrow> sdft_state" where
  "parse_line raw d =
     (let line = strip raw
      in if line = [] \<or> hd line = CHR ''#'' then d
         else
           let toks = split_ws line
           in if toks = [] then d
              else if hd toks = ''POLICY'' then parse_policy toks d
              else if hd toks = ''ALIAS'' then parse_alias toks d
              else if hd toks = ''FUNC'' then parse_func toks d
              else d)"

section \<open>Loading and lookup\<close>

text \<open>The lines of the content, the last one without its line feed.\<close>

fun split_lines :: "string \<Rightarrow> string list" where
  "split_lines [] = [[]]"
| "split_lines (c # cs) = (if c = LF then [] # split_lines cs else (c # hd (split_lines cs)) # tl (split_lines cs))"

definition set_default :: "sdft_state \<Rightarrow> sdft_state" where
  "set_default d =
     d\<lparr>s_conservative_default := (s_conservative_default d)\<lparr>sum_shape := SHAPE_PROP_PTR2VAL, sum_src := [0, 1, 2, 3, 4, 5]\<rparr>\<rparr>"

definition sdft_load :: "(string \<Rightarrow> string option) \<Rightarrow> string \<Rightarrow> sdft_state \<Rightarrow> bool \<times> sdft_state" where
  "sdft_load fs conf_path d =
     (case fs conf_path of
        None \<Rightarrow> (False, d)
      | Some content \<Rightarrow> (True, set_default (fold parse_line (split_lines content) d)))"

fun find_alias :: "AliasRule list \<Rightarrow> string \<Rightarrow> (string \<Rightarrow> Summary option) \<Rightarrow> Summary option" where
  "find_alias [] name funcs = None"
| "find_alias (r # rs) name funcs =
     (if glob_match (alias_pattern r) name then
        (case funcs (alias_canonical r) of
           Some s \<Rightarrow> Some s
         | None \<Rightarrow> find_alias rs name funcs)
      else find_alias rs name funcs)"

definition sdft_find :: "string \<Rightarrow> sdft_state \<Rightarrow> Summary option" where
  "sdft_find rtn_name d =
     (case s_funcs d rtn_name of
        Some s \<Rightarrow> Some s
      | None \<Rightarrow>
          (case find_alias (s_aliases d) rtn_name (s_funcs d) of
             Some s \<Rightarrow> Some s
           | None \<Rightarrow> if sdft_policy d = POLICY_CONSERVATIVE then Some (s_conservative_default d) else None))"

end
