(* ===== verification/Mnt.thy ===== *)
theory Mnt
  imports Engine "HOL-Library.Product_Lexorder"
begin

text \<open>
  The must-not-taint subsystem of \<^verbatim>\<open>src/mnt_consumer_dr.cpp\<close>: the choice of the policy, the search paths,
  the reader of the binary file that a static analyser writes for a module, the tracking of loaded modules,
  the ranges of summarised functions, and the query \<open>is_mnt\<close> with its cache. The file system, the
  environment variables and \<^verbatim>\<open>realpath\<close> are parameters; the summary printed at exit is in \<open>Telemetry\<close>.
\<close>

section \<open>Searching sorted vectors\<close>

text \<open>
  \<^verbatim>\<open>std::lower_bound\<close> and \<^verbatim>\<open>std::binary_search\<close>: bisection of the part of n elements from position f on.
\<close>

function bisect :: "'a :: linorder list \<Rightarrow> 'a \<Rightarrow> nat \<Rightarrow> nat \<Rightarrow> nat" where
  "bisect xs v f n =
     (if n = 0 then f
      else let half = n div 2 in
        if xs ! (f + half) < v then bisect xs v (f + half + 1) (n - half - 1)
        else bisect xs v f half)"
  by pat_completeness auto
termination
  by (relation "measure (\<lambda>(xs, v, f, n). n)") auto

declare bisect.simps [simp del]

definition lower_bound :: "'a :: linorder list \<Rightarrow> 'a \<Rightarrow> nat" where
  "lower_bound xs v = bisect xs v 0 (length xs)"

definition binary_search :: "'a :: linorder list \<Rightarrow> 'a \<Rightarrow> bool" where
  "binary_search xs v = (let i = lower_bound xs v in i < length xs \<and> \<not> v < xs ! i)"

section \<open>State\<close>

datatype mnt_policy = POLICY_OFF | POLICY_LEAN | POLICY_SOUND | POLICY_V2_PERPC

record ImageMnt =
  img_name :: string
  img_low :: ADDRINT
  img_high :: ADDRINT
  file_image_base :: UINT64
  mnt_sorted :: "UINT64 list"

text \<open>The pointer \<^verbatim>\<open>s_last_img\<close> into the vector of images is an index.\<close>

record mnt_state =
  s_policy :: mnt_policy
  s_inited :: bool
  s_images :: "ImageMnt list"
  s_last_img :: "nat option"
  s_ranges :: "(ADDRINT \<times> ADDRINT) list"
  s_ranges_dirty :: bool
  s_total_lookups :: UINT64
  s_total_hits :: UINT64
  s_total_misses_no_img :: UINT64
  s_total_rtn_hits :: UINT64

definition mnt_start :: mnt_state where
  "mnt_start = \<lparr>s_policy = POLICY_LEAN, s_inited = False, s_images = [], s_last_img = None, s_ranges = [], s_ranges_dirty = False,
     s_total_lookups = 0, s_total_hits = 0, s_total_misses_no_img = 0, s_total_rtn_hits = 0\<rparr>"

text \<open>What the environment answers: environment variables, resolved paths, and the contents of files.\<close>

record mnt_env =
  getenv :: "string \<Rightarrow> string option"
  realpath :: "string \<Rightarrow> string option"
  file_bytes :: "string \<Rightarrow> UINT8 list option"

text \<open>\<^verbatim>\<open>module_data_t\<close>: the path (or a null pointer) and the half-open range of addresses.\<close>

record module_data =
  full_path :: "string option"
  mod_start :: ADDRINT
  mod_end :: ADDRINT

section \<open>Policy and search paths\<close>

definition parse_policy_env :: "mnt_env \<Rightarrow> mnt_policy" where
  "parse_policy_env V =
     (case getenv V ''VUZZER_MNT_POLICY'' of
        None \<Rightarrow> POLICY_LEAN
      | Some p \<Rightarrow>
          if p = [] then POLICY_LEAN
          else if p = ''lean'' then POLICY_LEAN
          else if p = ''sound'' then POLICY_SOUND
          else if p = ''v2_perpc'' then POLICY_V2_PERPC
          else if p = ''off'' then POLICY_OFF
          else POLICY_LEAN)"

text \<open>\<^verbatim>\<open>find_last_of('/')\<close>: what comes before and after the last slash, if there is one.\<close>

fun split_last_slash :: "string \<Rightarrow> (string \<times> string) option" where
  "split_last_slash [] = None"
| "split_last_slash (c # cs) =
     (case split_last_slash cs of
        Some (d, b) \<Rightarrow> Some (c # d, b)
      | None \<Rightarrow> if c = CHR ''/'' then Some ([], cs) else None)"

definition basename_of :: "string \<Rightarrow> string" where
  "basename_of path = (case split_last_slash path of None \<Rightarrow> path | Some (d, b) \<Rightarrow> b)"

definition search_bases :: "mnt_env \<Rightarrow> string \<Rightarrow> string list" where
  "search_bases V img_path =
     (let b0 = basename_of img_path
      in case realpath V img_path of
           None \<Rightarrow> [b0]
         | Some r \<Rightarrow> let b = basename_of r in if b \<noteq> b0 then [b0, b] else [b0])"

definition build_search_paths :: "mnt_env \<Rightarrow> string \<Rightarrow> string list" where
  "build_search_paths V img_path =
     (let dir_aside = (case split_last_slash img_path of None \<Rightarrow> [] | Some (d, b) \<Rightarrow> d)
      in concat (map (\<lambda>b.
           (case getenv V ''VUZZER_MNT_DIR'' of
              None \<Rightarrow> []
            | Some env_dir \<Rightarrow> if env_dir = [] then [] else [env_dir @ ''/'' @ b @ ''.mnt.bin''])
           @ (if dir_aside = [] then [] else [dir_aside @ ''/'' @ b @ ''.mnt.bin''])
           @ [''bin/_test/'' @ b @ ''.mnt.bin'']) (search_bases V img_path)))"

section \<open>The file reader\<close>

text \<open>An open file is the list of the bytes not yet read.\<close>

definition read_exact :: "nat \<Rightarrow> UINT8 list \<Rightarrow> (UINT8 list \<times> UINT8 list) option" where
  "read_exact n f = (if length f \<ge> n then Some (take n f, drop n f) else None)"

text \<open>The bytes of an integer in memory, little end first.\<close>

fun le_nat :: "UINT8 list \<Rightarrow> nat" where
  "le_nat [] = 0"
| "le_nat (b # bs) = unat b + 256 * le_nat bs"

definition read_u32 :: "UINT8 list \<Rightarrow> (UINT32 \<times> UINT8 list) option" where
  "read_u32 f = map_option (\<lambda>(bs, rest). (of_nat (le_nat bs), rest)) (read_exact 4 f)"

definition read_u64 :: "UINT8 list \<Rightarrow> (UINT64 \<times> UINT8 list) option" where
  "read_u64 f = map_option (\<lambda>(bs, rest). (of_nat (le_nat bs), rest)) (read_exact 8 f)"

definition mnt_magic :: "UINT8 list" where
  "mnt_magic = [0x4d, 0x4e, 0x54, 0x42]"

record mnt_header =
  h_version :: UINT32
  h_default_policy :: UINT32
  h_image_base :: UINT64
  h_n_sound :: UINT32
  h_n_lean_extra :: UINT32
  h_n_v2_extra :: UINT32
  h_reserved :: UINT32

definition read_header :: "UINT8 list \<Rightarrow> (mnt_header \<times> UINT8 list) option" where
  "read_header f0 =
     Option.bind (read_u32 f0) (\<lambda>(v, f1). Option.bind (read_u32 f1) (\<lambda>(p, f2).
     Option.bind (read_u64 f2) (\<lambda>(b, f3). Option.bind (read_u32 f3) (\<lambda>(n_sound, f4).
     Option.bind (read_u32 f4) (\<lambda>(n_lean, f5). Option.bind (read_u32 f5) (\<lambda>(n_v2, f6).
     Option.bind (read_u32 f6) (\<lambda>(r, f7).
       Some (\<lparr>h_version = v, h_default_policy = p, h_image_base = b, h_n_sound = n_sound, h_n_lean_extra = n_lean,
              h_n_v2_extra = n_v2, h_reserved = r\<rparr>, f7))))))))"

text \<open>
  One of the three loops of the body: n values, appended to the vector when the policy takes this tier.
  The result is the rest of the file, or \<open>None\<close> for \<^verbatim>\<open>goto fail\<close>, and the vector as it stands.
\<close>

fun read_tier :: "nat \<Rightarrow> bool \<Rightarrow> UINT8 list \<Rightarrow> UINT64 list \<Rightarrow> UINT8 list option \<times> UINT64 list" where
  "read_tier 0 keep f acc = (Some f, acc)"
| "read_tier (Suc n) keep f acc =
     (case read_u64 f of
        None \<Rightarrow> (None, acc)
      | Some (v, f') \<Rightarrow> read_tier n keep f' (if keep then acc @ [v] else acc))"

definition read_body :: "mnt_policy \<Rightarrow> mnt_header \<Rightarrow> UINT8 list \<Rightarrow> UINT64 list \<Rightarrow> bool \<times> UINT64 list" where
  "read_body pol h f acc0 =
     (case read_tier (unat (h_n_sound h)) True f acc0 of
        (None, acc) \<Rightarrow> (False, acc)
      | (Some f1, acc1) \<Rightarrow>
          (case read_tier (unat (h_n_lean_extra h)) (pol = POLICY_LEAN) f1 acc1 of
             (None, acc) \<Rightarrow> (False, acc)
           | (Some f2, acc2) \<Rightarrow>
               (case read_tier (unat (h_n_v2_extra h)) (pol = POLICY_V2_PERPC) f2 acc2 of
                  (None, acc) \<Rightarrow> (False, acc)
                | (Some f3, acc3) \<Rightarrow> (True, acc3))))"

definition load_mnt_bin :: "mnt_env \<Rightarrow> string \<Rightarrow> ImageMnt \<Rightarrow> mnt_policy \<Rightarrow> bool \<times> ImageMnt" where
  "load_mnt_bin V path im pol =
     (case file_bytes V path of
        None \<Rightarrow> (False, im)
      | Some f \<Rightarrow>
          (case read_exact 4 f of
             None \<Rightarrow> (False, im)
           | Some (magic, f1) \<Rightarrow>
               if magic \<noteq> mnt_magic then (False, im)
               else
                 (case read_header f1 of
                    None \<Rightarrow> (False, im)
                  | Some (h, f2) \<Rightarrow>
                      if h_version h \<noteq> 2 then (False, im)
                      else
                        let im1 = im\<lparr>file_image_base := h_image_base h\<rparr>
                        in case read_body pol h f2 (mnt_sorted im1) of
                             (False, xs) \<Rightarrow> (False, im1\<lparr>mnt_sorted := xs\<rparr>)
                           | (True, xs) \<Rightarrow> (True, im1\<lparr>mnt_sorted := sort xs\<rparr>))))"

section \<open>Modules\<close>

definition mnt_init :: "mnt_env \<Rightarrow> mnt_state \<Rightarrow> mnt_state" where
  "mnt_init V m = (if s_inited m then m else m\<lparr>s_policy := parse_policy_env V, s_inited := True\<rparr>)"

fun try_candidates :: "mnt_env \<Rightarrow> string list \<Rightarrow> ImageMnt \<Rightarrow> mnt_policy \<Rightarrow> ImageMnt" where
  "try_candidates V [] im pol = im"
| "try_candidates V (c # cs) im pol =
     (case load_mnt_bin V c im pol of
        (True, im') \<Rightarrow> im'
      | (False, im') \<Rightarrow> try_candidates V cs im' pol)"

definition mnt_on_module_load :: "mnt_env \<Rightarrow> module_data \<Rightarrow> mnt_state \<Rightarrow> mnt_state" where
  "mnt_on_module_load V info m =
     (if s_policy m = POLICY_OFF then m
      else
        let path = (case full_path info of None \<Rightarrow> [] | Some p \<Rightarrow> p);
            im = \<lparr>img_name = basename_of path, img_low = mod_start info, img_high = mod_end info - 1,
                  file_image_base = 0, mnt_sorted = []\<rparr>;
            im' = try_candidates V (build_search_paths V path) im (s_policy m)
        in m\<lparr>s_images := s_images m @ [im'], s_last_img := None\<rparr>)"

fun erase_first :: "('a \<Rightarrow> bool) \<Rightarrow> 'a list \<Rightarrow> 'a list" where
  "erase_first P [] = []"
| "erase_first P (x # xs) = (if P x then xs else x # erase_first P xs)"

definition mnt_on_module_unload :: "module_data \<Rightarrow> mnt_state \<Rightarrow> mnt_state" where
  "mnt_on_module_unload info m =
     (if list_ex (\<lambda>im. img_low im = mod_start info) (s_images m)
      then m\<lparr>s_images := erase_first (\<lambda>im. img_low im = mod_start info) (s_images m), s_last_img := None\<rparr>
      else m)"

section \<open>Queries\<close>

definition rtn_range_contains :: "ADDRINT \<Rightarrow> mnt_state \<Rightarrow> bool \<times> mnt_state" where
  "rtn_range_contains pc m =
     (if s_ranges m = [] then (False, m)
      else
        let m1 = (if s_ranges_dirty m then m\<lparr>s_ranges := sort (s_ranges m), s_ranges_dirty := False\<rparr> else m);
            i = lower_bound (s_ranges m1) (pc + 1, 0)
        in if i = 0 then (False, m1)
           else let (l, h) = s_ranges m1 ! (i - 1) in (l \<le> pc \<and> pc < h, m1))"

definition add_rtn_range :: "ADDRINT \<Rightarrow> ADDRINT \<Rightarrow> mnt_state \<Rightarrow> mnt_state" where
  "add_rtn_range l h m =
     (if h \<le> l then m else m\<lparr>s_ranges := s_ranges m @ [(l, h)], s_ranges_dirty := True\<rparr>)"

definition in_image :: "ADDRINT \<Rightarrow> ImageMnt \<Rightarrow> bool" where
  "in_image pc im = (img_low im \<le> pc \<and> pc \<le> img_high im)"

text \<open>The branch for a pc that no table lists: the ranges of summarised functions decide.\<close>

definition ask_ranges :: "ADDRINT \<Rightarrow> mnt_state \<Rightarrow> bool \<times> mnt_state" where
  "ask_ranges pc m =
     (case rtn_range_contains pc m of
        (True, m1) \<Rightarrow> (True, m1\<lparr>s_total_rtn_hits := s_total_rtn_hits m1 + 1\<rparr>)
      | (False, m1) \<Rightarrow> (False, m1))"

definition ask_image :: "ADDRINT \<Rightarrow> ImageMnt \<Rightarrow> mnt_state \<Rightarrow> bool \<times> mnt_state" where
  "ask_image pc im m =
     (let rel = pc - img_low im
      in if binary_search (mnt_sorted im) rel then (True, m\<lparr>s_total_hits := s_total_hits m + 1\<rparr>)
         else ask_ranges pc m)"

fun find_index :: "('a \<Rightarrow> bool) \<Rightarrow> nat \<Rightarrow> 'a list \<Rightarrow> nat option" where
  "find_index P i [] = None"
| "find_index P i (x # xs) = (if P x then Some i else find_index P (Suc i) xs)"

text \<open>The loop over the loaded images, which remembers the image it finds.\<close>

definition scan_images :: "ADDRINT \<Rightarrow> mnt_state \<Rightarrow> bool \<times> mnt_state" where
  "scan_images pc m =
     (case find_index (in_image pc) 0 (s_images m) of
        Some i \<Rightarrow> ask_image pc (s_images m ! i) (m\<lparr>s_last_img := Some i\<rparr>)
      | None \<Rightarrow> ask_ranges pc (m\<lparr>s_total_misses_no_img := s_total_misses_no_img m + 1\<rparr>))"

definition is_mnt :: "ADDRINT \<Rightarrow> mnt_state \<Rightarrow> bool \<times> mnt_state" where
  "is_mnt pc m =
     (if s_policy m = POLICY_OFF then ask_ranges pc m
      else
        let m1 = m\<lparr>s_total_lookups := s_total_lookups m + 1\<rparr>
        in case s_last_img m1 of
             Some i \<Rightarrow> if in_image pc (s_images m1 ! i) then ask_image pc (s_images m1 ! i) m1 else scan_images pc m1
           | None \<Rightarrow> scan_images pc m1)"

end
