(* ===== verification/Syscall_Table.thy ===== *)
theory Syscall_Table
  imports Engine
begin

text \<open>
  The descriptor table of \<^verbatim>\<open>src/syscall_desc_dr.cpp\<close> with the descriptor type and the C structures of
  \<^verbatim>\<open>src/syscall_desc_dr.h\<close>. A size \<^verbatim>\<open>sizeof(T)\<close> in the table is computed for the types that the header
  declares and for the integer types of the language; for a type of the system headers it is the value of
  the parameter \<open>Z\<close>. The theory ends with the functions that install and remove hooks, and with the
  invariant of the table.
\<close>

section \<open>C types of the header\<close>

text \<open>
  The layout of the x86-64 ABI: an integer of n bytes is aligned to n, an array like its elements, a
  structure like its most aligned member, and its size is rounded up to that alignment.
\<close>

datatype ctype = CInt nat | CArr ctype nat | CStruct "ctype list"

definition round_up :: "nat \<Rightarrow> nat \<Rightarrow> nat" where
  "round_up n a = (n + a - 1) div a * a"

fun calign :: "ctype \<Rightarrow> nat" where
  "calign (CInt n) = n"
| "calign (CArr t k) = calign t"
| "calign (CStruct ts) = foldl (\<lambda>a t. max a (calign t)) 1 ts"

fun csize :: "ctype \<Rightarrow> nat" where
  "csize (CInt n) = n"
| "csize (CArr t k) = csize t * k"
| "csize (CStruct ts) = round_up (foldl (\<lambda>e t. round_up e (calign t) + csize t) 0 ts) (calign (CStruct ts))"

definition C_unsigned_char :: ctype where "C_unsigned_char = CInt 1"
definition C_unsigned_short :: ctype where "C_unsigned_short = CInt 2"
definition C_int :: ctype where "C_int = CInt 4"
definition C_unsigned :: ctype where "C_unsigned = CInt 4"
definition C_unsigned_long :: ctype where "C_unsigned_long = CInt 8"
definition C_size_t :: ctype where "C_size_t = CInt 8"

abbreviation "s8 \<equiv> CInt 1"
abbreviation "u16 \<equiv> CInt 2"
abbreviation "s32 \<equiv> CInt 4"
abbreviation "u64 \<equiv> CInt 8"

definition u32 :: ctype where "u32 = CInt 4"
definition git_t :: ctype where "git_t = CInt 8"

definition old_linux_dirent :: ctype where
  "old_linux_dirent = CStruct [C_unsigned_long, C_unsigned_long, C_unsigned_short, CArr s8 1]"

definition linux_dirent :: ctype where
  "linux_dirent = CStruct [C_unsigned_long, C_unsigned_long, C_unsigned_short, CArr s8 1]"

definition getcpu_cache :: ctype where
  "getcpu_cache = CStruct [CArr C_unsigned_long (128 div 8)]"

definition user_cap_header_struct :: ctype where
  "user_cap_header_struct = CStruct [u32, C_int]"

definition user_cap_data_struct :: ctype where
  "user_cap_data_struct = CStruct [u32, u32, u32]"

definition if_dqinfo :: ctype where
  "if_dqinfo = CStruct [u64, u64, u32, u32]"

definition if_dqblk :: ctype where
  "if_dqblk = CStruct [u64, u64, u64, u64, u64, u64, u64, u64, u32]"

definition fs_qfilestat :: ctype where
  "fs_qfilestat = CStruct [u64, u64, u32]"

definition fs_quota_stat :: ctype where
  "fs_quota_stat = CStruct [s8, u16, s8, fs_qfilestat, fs_qfilestat, u32, s32, s32, s32, u16, u16]"

definition fs_disk_quota :: ctype where
  "fs_disk_quota = CStruct [s8, s8, u16, u32, u64, u64, u64, u64, u64, u64, s32, s32, u16, u16, s32,
     u64, u64, u64, s32, u16, u16, CArr s8 8]"

definition sched_attr :: ctype where
  "sched_attr = CStruct [u32, u32, u64, s32, u32, u64, u64, u64]"

definition file_handle :: ctype where
  "file_handle = CStruct [C_unsigned, C_int, CArr C_unsigned_char 0]"

text \<open>\<^verbatim>\<open>__daddr_t\<close> is an int and \<^verbatim>\<open>__ino_t\<close> an unsigned long.\<close>

definition ustat :: ctype where
  "ustat = CStruct [C_int, C_unsigned_long, CArr s8 6, CArr s8 6]"

lemmas ctype_defs = C_unsigned_char_def C_unsigned_short_def C_int_def C_unsigned_def C_unsigned_long_def
  C_size_t_def u32_def git_t_def linux_dirent_def getcpu_cache_def sched_attr_def file_handle_def ustat_def

text \<open>The types of the system headers that the table mentions.\<close>

datatype (plugins only: code size) os_type =
  OS_stat | OS_pollfd | OS_sigaction | OS_sigset_t | OS_fd_set | OS_timeval | OS_shmid_ds |
  OS_timespec | OS_itimerval | OS_off_t | OS_sockaddr | OS_msghdr | OS_rusage | OS_utsname | OS_sembuf
  | OS_msgbuf | OS_msqid_ds | OS_timezone | OS_rlimit | OS_sysinfo | OS_gid_t | OS_uid_t |
  OS_siginfo_t | OS_stack_t | OS_statfs | OS_sched_param | OS_sysctl_args | OS_timex | OS_time_t |
  OS_aio_context_t | OS_io_event | OS_iocb | OS_sigevent | OS_timer_t | OS_itimerspec | OS_epoll_event
  | OS_mq_attr | OS_kexec_segment | OS_robust_list_head | OS_loff_t | OS_perf_event_attr | OS_mmsghdr

section \<open>Descriptors\<close>

text \<open>
  A hook is a function of the engine, by name, or a function of the client, by number; \<open>NULL\<close> is the
  null pointer.
\<close>

datatype hook =
    NULL
  | Post_read_hook | Post_open_hook | Post_openat_hook | Post_dup_hook | Post_dup2_hook | Post_dup3_hook
  | Post_close_hook | Post_pread64_hook | Post_mmap_hook | Post_munmap_hook
  | Client_hook nat

record syscall_desc_t =
  nargs :: nat
  save_args :: nat
  retval_args :: nat
  map_args :: "nat list"
  pre :: hook
  post :: hook

definition desc :: "nat \<Rightarrow> nat \<Rightarrow> nat \<Rightarrow> nat list \<Rightarrow> hook \<Rightarrow> hook \<Rightarrow> syscall_desc_t" where
  "desc n sa ra ms f g = \<lparr>nargs = n, save_args = sa, retval_args = ra, map_args = ms, pre = f, post = g\<rparr>"

definition SYSCALL_MAX :: int where
  "SYSCALL_MAX = 315 + 1"

text \<open>Entries 0 (\<^verbatim>\<open>read\<close>) to 63 (\<^verbatim>\<open>uname\<close>).\<close>

definition syscall_desc_0 :: "(os_type \<Rightarrow> nat) \<Rightarrow> syscall_desc_t list" where
  "syscall_desc_0 Z = [
    desc 3 1 1 [0, 0, 0, 0, 0, 0] NULL Post_read_hook,
    desc 3 0 0 [0, 0, 0, 0, 0, 0] NULL NULL,
    desc 3 1 0 [0, 0, 0, 0, 0, 0] NULL Post_open_hook,
    desc 1 1 0 [0, 0, 0, 0, 0, 0] NULL Post_close_hook,
    desc 2 0 1 [0, Z OS_stat, 0, 0, 0, 0] NULL NULL,
    desc 2 1 1 [0, Z OS_stat, 0, 0, 0, 0] NULL NULL,
    desc 2 0 1 [0, Z OS_stat, 0, 0, 0, 0] NULL NULL,
    desc 3 1 1 [Z OS_pollfd, 0, 0, 0, 0, 0] NULL NULL,
    desc 3 0 0 [0, 0, 0, 0, 0, 0] NULL NULL,
    desc 6 1 0 [0, 0, 0, 0, 0, 0] NULL Post_mmap_hook,
    desc 3 0 0 [0, 0, 0, 0, 0, 0] NULL NULL,
    desc 2 1 0 [0, 0, 0, 0, 0, 0] NULL Post_munmap_hook,
    desc 1 1 0 [0, 0, 0, 0, 0, 0] NULL NULL,
    desc 3 0 1 [0, 0, Z OS_sigaction, 0, 0, 0] NULL NULL,
    desc 4 0 1 [0, Z OS_sigset_t, Z OS_sigset_t, 0, 0, 0] NULL NULL,
    desc 1 0 0 [0, 0, 0, 0, 0, 0] NULL NULL,
    desc 3 1 0 [0, 0, 0, 0, 0, 0] NULL NULL,
    desc 4 1 1 [0, 0, 0, 0, 0, 0] NULL Post_pread64_hook,
    desc 4 0 0 [0, 0, 0, 0, 0, 0] NULL NULL,
    desc 3 1 0 [0, 0, 0, 0, 0, 0] NULL NULL,
    desc 3 0 0 [0, 0, 0, 0, 0, 0] NULL NULL,
    desc 2 0 0 [0, 0, 0, 0, 0, 0] NULL NULL,
    desc 1 0 1 [csize C_int, 0, 0, 0, 0, 0] NULL NULL,
    desc 5 0 1 [0, Z OS_fd_set, Z OS_fd_set, Z OS_fd_set, Z OS_timeval, 0] NULL NULL,
    desc 0 0 0 [0, 0, 0, 0, 0, 0] NULL NULL,
    desc 5 0 0 [0, 0, 0, 0, 0, 0] NULL NULL,
    desc 3 0 0 [0, 0, 0, 0, 0, 0] NULL NULL,
    desc 3 1 1 [0, 0, csize C_unsigned_char, 0, 0, 0] NULL NULL,
    desc 3 0 0 [0, 0, 0, 0, 0, 0] NULL NULL,
    desc 3 0 0 [0, 0, 0, 0, 0, 0] NULL NULL,
    desc 3 0 1 [0, 0, 0, 0, 0, 0] NULL NULL,
    desc 3 0 1 [0, 0, Z OS_shmid_ds, 0, 0, 0] NULL NULL,
    desc 1 1 0 [0, 0, 0, 0, 0, 0] NULL Post_dup_hook,
    desc 2 1 0 [0, 0, 0, 0, 0, 0] NULL Post_dup2_hook,
    desc 0 0 0 [0, 0, 0, 0, 0, 0] NULL NULL,
    desc 2 0 1 [Z OS_timespec, Z OS_timespec, 0, 0, 0, 0] NULL NULL,
    desc 2 0 1 [0, Z OS_itimerval, 0, 0, 0, 0] NULL NULL,
    desc 1 0 0 [0, 0, 0, 0, 0, 0] NULL NULL,
    desc 3 0 1 [0, Z OS_itimerval, Z OS_itimerval, 0, 0, 0] NULL NULL,
    desc 0 0 0 [0, 0, 0, 0, 0, 0] NULL NULL,
    desc 4 0 1 [0, 0, Z OS_off_t, 0, 0, 0] NULL NULL,
    desc 3 0 0 [0, 0, 0, 0, 0, 0] NULL NULL,
    desc 3 0 1 [0, Z OS_sockaddr, 0, 0, 0, 0] NULL NULL,
    desc 3 0 1 [0, Z OS_sockaddr, csize C_int, 0, 0, 0] NULL NULL,
    desc 6 0 1 [0, 0, 0, 0, Z OS_sockaddr, 0] NULL NULL,
    desc 6 0 1 [0, 0, 0, 0, Z OS_sockaddr, csize C_int] NULL NULL,
    desc 3 0 1 [0, Z OS_msghdr, 0, 0, 0, 0] NULL NULL,
    desc 3 0 1 [0, Z OS_msghdr, 0, 0, 0, 0] NULL NULL,
    desc 2 0 0 [0, 0, 0, 0, 0, 0] NULL NULL,
    desc 3 0 1 [0, Z OS_sockaddr, 0, 0, 0, 0] NULL NULL,
    desc 2 0 0 [0, 0, 0, 0, 0, 0] NULL NULL,
    desc 3 0 1 [0, Z OS_sockaddr, csize C_int, 0, 0, 0] NULL NULL,
    desc 3 0 1 [0, Z OS_sockaddr, csize C_int, 0, 0, 0] NULL NULL,
    desc 4 0 1 [0, 0, 0, csize C_int, 0, 0] NULL NULL,
    desc 5 0 1 [0, 0, 0, 0, 0, 0] NULL NULL,
    desc 5 0 1 [0, 0, 0, 0, csize C_int, 0] NULL NULL,
    desc 4 0 1 [0, 0, 0, 0, 0, 0] NULL NULL,
    desc 0 0 0 [0, 0, 0, 0, 0, 0] NULL NULL,
    desc 0 0 0 [0, 0, 0, 0, 0, 0] NULL NULL,
    desc 3 0 0 [0, 0, 0, 0, 0, 0] NULL NULL,
    desc 1 0 0 [0, 0, 0, 0, 0, 0] NULL NULL,
    desc 4 0 1 [0, csize C_int, 0, Z OS_rusage, 0, 0] NULL NULL,
    desc 2 0 0 [0, 0, 0, 0, 0, 0] NULL NULL,
    desc 1 0 1 [Z OS_utsname, 0, 0, 0, 0, 0] NULL NULL]"

text \<open>Entries 64 (\<^verbatim>\<open>semget\<close>) to 127 (\<^verbatim>\<open>rt_sigpending\<close>).\<close>

definition syscall_desc_1 :: "(os_type \<Rightarrow> nat) \<Rightarrow> syscall_desc_t list" where
  "syscall_desc_1 Z = [
    desc 3 0 0 [0, 0, 0, 0, 0, 0] NULL NULL,
    desc 3 0 1 [0, Z OS_sembuf, 0, 0, 0, 0] NULL NULL,
    desc 4 0 0 [0, 0, 0, 0, 0, 0] NULL NULL,
    desc 1 0 1 [0, 0, 0, 0, 0, 0] NULL NULL,
    desc 2 0 0 [0, 0, 0, 0, 0, 0] NULL NULL,
    desc 4 0 1 [0, Z OS_msgbuf, 0, 0, 0, 0] NULL NULL,
    desc 5 0 1 [0, Z OS_msgbuf, 0, 0, 0, 0] NULL NULL,
    desc 3 0 1 [0, 0, Z OS_msqid_ds, 0, 0, 0] NULL NULL,
    desc 3 1 0 [0, 0, 0, 0, 0, 0] NULL NULL,
    desc 2 0 0 [0, 0, 0, 0, 0, 0] NULL NULL,
    desc 1 0 0 [0, 0, 0, 0, 0, 0] NULL NULL,
    desc 1 0 0 [0, 0, 0, 0, 0, 0] NULL NULL,
    desc 2 0 0 [0, 0, 0, 0, 0, 0] NULL NULL,
    desc 2 0 0 [0, 0, 0, 0, 0, 0] NULL NULL,
    desc 3 0 1 [0, csize linux_dirent, 0, 0, 0, 0] NULL NULL,
    desc 2 1 1 [0, 0, 0, 0, 0, 0] NULL NULL,
    desc 1 0 0 [0, 0, 0, 0, 0, 0] NULL NULL,
    desc 1 0 0 [0, 0, 0, 0, 0, 0] NULL NULL,
    desc 2 0 0 [0, 0, 0, 0, 0, 0] NULL NULL,
    desc 2 0 0 [0, 0, 0, 0, 0, 0] NULL NULL,
    desc 1 0 0 [0, 0, 0, 0, 0, 0] NULL NULL,
    desc 2 0 0 [0, 0, 0, 0, 0, 0] NULL NULL,
    desc 2 0 0 [0, 0, 0, 0, 0, 0] NULL NULL,
    desc 1 0 0 [0, 0, 0, 0, 0, 0] NULL NULL,
    desc 2 0 0 [0, 0, 0, 0, 0, 0] NULL NULL,
    desc 3 0 1 [0, 0, 0, 0, 0, 0] NULL NULL,
    desc 2 0 0 [0, 0, 0, 0, 0, 0] NULL NULL,
    desc 2 0 0 [0, 0, 0, 0, 0, 0] NULL NULL,
    desc 3 0 0 [0, 0, 0, 0, 0, 0] NULL NULL,
    desc 3 0 0 [0, 0, 0, 0, 0, 0] NULL NULL,
    desc 3 0 0 [0, 0, 0, 0, 0, 0] NULL NULL,
    desc 1 0 0 [0, 0, 0, 0, 0, 0] NULL NULL,
    desc 2 0 1 [Z OS_timeval, Z OS_timezone, 0, 0, 0, 0] NULL NULL,
    desc 2 0 1 [0, Z OS_rlimit, 0, 0, 0, 0] NULL NULL,
    desc 2 0 1 [0, Z OS_rusage, 0, 0, 0, 0] NULL NULL,
    desc 1 0 1 [Z OS_sysinfo, 0, 0, 0, 0, 0] NULL NULL,
    desc 1 0 1 [Z OS_sysinfo, 0, 0, 0, 0, 0] NULL NULL,
    desc 4 0 0 [0, 0, 0, 0, 0, 0] NULL NULL,
    desc 0 0 0 [0, 0, 0, 0, 0, 0] NULL NULL,
    desc 3 1 1 [0, 0, 0, 0, 0, 0] NULL NULL,
    desc 0 0 0 [0, 0, 0, 0, 0, 0] NULL NULL,
    desc 1 0 0 [0, 0, 0, 0, 0, 0] NULL NULL,
    desc 1 0 0 [0, 0, 0, 0, 0, 0] NULL NULL,
    desc 0 0 0 [0, 0, 0, 0, 0, 0] NULL NULL,
    desc 0 0 0 [0, 0, 0, 0, 0, 0] NULL NULL,
    desc 2 0 0 [0, 0, 0, 0, 0, 0] NULL NULL,
    desc 0 0 0 [0, 0, 0, 0, 0, 0] NULL NULL,
    desc 0 0 0 [0, 0, 0, 0, 0, 0] NULL NULL,
    desc 0 0 0 [0, 0, 0, 0, 0, 0] NULL NULL,
    desc 2 0 0 [0, 0, 0, 0, 0, 0] NULL NULL,
    desc 2 0 0 [0, 0, 0, 0, 0, 0] NULL NULL,
    desc 2 1 1 [0, Z OS_gid_t, 0, 0, 0, 0] NULL NULL,
    desc 2 0 1 [0, Z OS_gid_t, 0, 0, 0, 0] NULL NULL,
    desc 3 0 1 [Z OS_uid_t, Z OS_uid_t, Z OS_uid_t, 0, 0, 0] NULL NULL,
    desc 3 0 1 [Z OS_uid_t, Z OS_uid_t, Z OS_uid_t, 0, 0, 0] NULL NULL,
    desc 3 0 0 [0, 0, 0, 0, 0, 0] NULL NULL,
    desc 3 0 1 [csize git_t, csize git_t, csize git_t, 0, 0, 0] NULL NULL,
    desc 1 0 0 [0, 0, 0, 0, 0, 0] NULL NULL,
    desc 1 0 0 [0, 0, 0, 0, 0, 0] NULL NULL,
    desc 1 0 0 [0, 0, 0, 0, 0, 0] NULL NULL,
    desc 1 0 0 [0, 0, 0, 0, 0, 0] NULL NULL,
    desc 2 0 0 [0, 0, 0, 0, 0, 0] NULL NULL,
    desc 2 0 0 [0, 0, 0, 0, 0, 0] NULL NULL,
    desc 2 1 1 [Z OS_sigset_t, 0, 0, 0, 0, 0] NULL NULL]"

text \<open>Entries 128 (\<^verbatim>\<open>rt_sigtimedwait\<close>) to 191 (\<^verbatim>\<open>getxattr\<close>).\<close>

definition syscall_desc_2 :: "(os_type \<Rightarrow> nat) \<Rightarrow> syscall_desc_t list" where
  "syscall_desc_2 Z = [
    desc 4 0 1 [0, Z OS_siginfo_t, 0, 0, 0, 0] NULL NULL,
    desc 3 0 1 [0, 0, Z OS_siginfo_t, 0, 0, 0] NULL NULL,
    desc 2 0 1 [Z OS_sigset_t, 0, 0, 0, 0, 0] NULL NULL,
    desc 2 0 1 [0, Z OS_stack_t, 0, 0, 0, 0] NULL NULL,
    desc 2 0 0 [0, 0, 0, 0, 0, 0] NULL NULL,
    desc 3 0 0 [0, 0, 0, 0, 0, 0] NULL NULL,
    desc 1 0 0 [0, 0, 0, 0, 0, 0] NULL NULL,
    desc 1 0 0 [0, 0, 0, 0, 0, 0] NULL NULL,
    desc 2 0 1 [0, csize ustat, 0, 0, 0, 0] NULL NULL,
    desc 2 0 1 [0, Z OS_statfs, 0, 0, 0, 0] NULL NULL,
    desc 2 0 1 [0, Z OS_statfs, 0, 0, 0, 0] NULL NULL,
    desc 3 0 0 [0, 0, 0, 0, 0, 0] NULL NULL,
    desc 2 0 0 [0, 0, 0, 0, 0, 0] NULL NULL,
    desc 3 0 0 [0, 0, 0, 0, 0, 0] NULL NULL,
    desc 2 0 1 [0, Z OS_sched_param, 0, 0, 0, 0] NULL NULL,
    desc 2 0 1 [0, Z OS_sched_param, 0, 0, 0, 0] NULL NULL,
    desc 3 0 1 [0, 0, Z OS_sched_param, 0, 0, 0] NULL NULL,
    desc 1 0 0 [0, 0, 0, 0, 0, 0] NULL NULL,
    desc 1 0 0 [0, 0, 0, 0, 0, 0] NULL NULL,
    desc 1 0 0 [0, 0, 0, 0, 0, 0] NULL NULL,
    desc 2 0 1 [0, Z OS_timespec, 0, 0, 0, 0] NULL NULL,
    desc 2 0 0 [0, 0, 0, 0, 0, 0] NULL NULL,
    desc 2 0 0 [0, 0, 0, 0, 0, 0] NULL NULL,
    desc 1 0 0 [0, 0, 0, 0, 0, 0] NULL NULL,
    desc 0 0 0 [0, 0, 0, 0, 0, 0] NULL NULL,
    desc 0 0 0 [0, 0, 0, 0, 0, 0] NULL NULL,
    desc 3 0 1 [0, 0, 0, 0, 0, 0] NULL NULL,
    desc 2 0 0 [0, 0, 0, 0, 0, 0] NULL NULL,
    desc 1 1 1 [Z OS_sysctl_args, 0, 0, 0, 0, 0] NULL NULL,
    desc 5 0 0 [0, 0, 0, 0, 0, 0] NULL NULL,
    desc 2 0 1 [0, 0, 0, 0, 0, 0] NULL NULL,
    desc 1 0 1 [Z OS_timex, 0, 0, 0, 0, 0] NULL NULL,
    desc 2 0 1 [0, Z OS_rlimit, 0, 0, 0, 0] NULL NULL,
    desc 1 0 0 [0, 0, 0, 0, 0, 0] NULL NULL,
    desc 0 0 0 [0, 0, 0, 0, 0, 0] NULL NULL,
    desc 1 0 0 [0, 0, 0, 0, 0, 0] NULL NULL,
    desc 2 0 1 [Z OS_timeval, Z OS_timezone, 0, 0, 0, 0] NULL NULL,
    desc 5 0 1 [0, 0, 0, 0, 0, 0] NULL NULL,
    desc 2 0 0 [0, 0, 0, 0, 0, 0] NULL NULL,
    desc 2 0 0 [0, 0, 0, 0, 0, 0] NULL NULL,
    desc 1 0 0 [0, 0, 0, 0, 0, 0] NULL NULL,
    desc 4 0 1 [0, 0, 0, 0, 0, 0] NULL NULL,
    desc 2 0 1 [0, 0, 0, 0, 0, 0] NULL NULL,
    desc 2 0 1 [0, 0, 0, 0, 0, 0] NULL NULL,
    desc 1 0 1 [0, 0, 0, 0, 0, 0] NULL NULL,
    desc 3 0 0 [0, 0, 0, 0, 0, 0] NULL NULL,
    desc 1 0 0 [0, 0, 0, 0, 0, 0] NULL NULL,
    desc 3 0 1 [0, 0, 0, 0, 0, 0] NULL NULL,
    desc 2 0 0 [0, 0, 0, 0, 0, 0] NULL NULL,
    desc 1 0 0 [0, 0, 0, 0, 0, 0] NULL NULL,
    desc 1 0 0 [0, 0, 0, 0, 0, 0] NULL NULL,
    desc 4 1 1 [0, 0, 0, 0, 0, 0] NULL NULL,
    desc 1 0 0 [0, 0, 0, 0, 0, 0] NULL NULL,
    desc 1 0 0 [0, 0, 0, 0, 0, 0] NULL NULL,
    desc 1 0 0 [0, 0, 0, 0, 0, 0] NULL NULL,
    desc 1 0 0 [0, 0, 0, 0, 0, 0] NULL NULL,
    desc 1 0 0 [0, 0, 0, 0, 0, 0] NULL NULL,
    desc 1 0 0 [0, 0, 0, 0, 0, 0] NULL NULL,
    desc 0 0 0 [0, 0, 0, 0, 0, 0] NULL NULL,
    desc 3 0 0 [0, 0, 0, 0, 0, 0] NULL NULL,
    desc 5 0 0 [0, 0, 0, 0, 0, 0] NULL NULL,
    desc 5 0 0 [0, 0, 0, 0, 0, 0] NULL NULL,
    desc 5 0 0 [0, 0, 0, 0, 0, 0] NULL NULL,
    desc 4 1 1 [0, 0, 0, 0, 0, 0] NULL NULL]"

text \<open>Entries 192 (\<^verbatim>\<open>lgetxattr\<close>) to 255 (\<^verbatim>\<open>inotify_rm_watch\<close>).\<close>

definition syscall_desc_3 :: "(os_type \<Rightarrow> nat) \<Rightarrow> syscall_desc_t list" where
  "syscall_desc_3 Z = [
    desc 4 0 1 [0, 0, 0, 0, 0, 0] NULL NULL,
    desc 4 0 1 [0, 0, 0, 0, 0, 0] NULL NULL,
    desc 3 1 1 [0, 0, 0, 0, 0, 0] NULL NULL,
    desc 3 0 1 [0, 0, 0, 0, 0, 0] NULL NULL,
    desc 3 0 1 [0, 0, 0, 0, 0, 0] NULL NULL,
    desc 2 0 0 [0, 0, 0, 0, 0, 0] NULL NULL,
    desc 2 0 0 [0, 0, 0, 0, 0, 0] NULL NULL,
    desc 2 0 0 [0, 0, 0, 0, 0, 0] NULL NULL,
    desc 2 0 0 [0, 0, 0, 0, 0, 0] NULL NULL,
    desc 1 0 1 [Z OS_time_t, 0, 0, 0, 0, 0] NULL NULL,
    desc 6 0 1 [csize u32, 0, 0, Z OS_timespec, csize u32, 0] NULL NULL,
    desc 3 0 1 [0, 0, csize C_unsigned_long, 0, 0, 0] NULL NULL,
    desc 3 0 1 [0, 0, csize C_unsigned_long, 0, 0, 0] NULL NULL,
    desc 1 0 0 [0, 0, 0, 0, 0, 0] NULL NULL,
    desc 2 0 1 [0, Z OS_aio_context_t, 0, 0, 0, 0] NULL NULL,
    desc 1 0 0 [0, 0, 0, 0, 0, 0] NULL NULL,
    desc 4 1 1 [0, 0, 0, Z OS_io_event, 0, 0] NULL NULL,
    desc 3 0 1 [0, 0, Z OS_iocb, 0, 0, 0] NULL NULL,
    desc 3 0 1 [0, Z OS_iocb, Z OS_io_event, 0, 0, 0] NULL NULL,
    desc 1 0 0 [0, 0, 0, 0, 0, 0] NULL NULL,
    desc 3 1 0 [0, 0, 0, 0, 0, 0] NULL NULL,
    desc 1 0 0 [0, 0, 0, 0, 0, 0] NULL NULL,
    desc 1 0 0 [0, 0, 0, 0, 0, 0] NULL NULL,
    desc 1 0 0 [0, 0, 0, 0, 0, 0] NULL NULL,
    desc 5 0 0 [0, 0, 0, 0, 0, 0] NULL NULL,
    desc 3 1 1 [0, csize linux_dirent, 0, 0, 0, 0] NULL NULL,
    desc 1 0 1 [csize C_int, 0, 0, 0, 0, 0] NULL NULL,
    desc 0 0 0 [0, 0, 0, 0, 0, 0] NULL NULL,
    desc 4 0 1 [0, Z OS_sembuf, 0, 0, 0, 0] NULL NULL,
    desc 4 0 0 [0, 0, 0, 0, 0, 0] NULL NULL,
    desc 3 0 1 [0, Z OS_sigevent, Z OS_timer_t, 0, 0, 0] NULL NULL,
    desc 4 0 1 [0, 0, 0, Z OS_itimerspec, 0, 0] NULL NULL,
    desc 2 0 1 [0, Z OS_itimerspec, 0, 0, 0, 0] NULL NULL,
    desc 1 0 0 [0, 0, 0, 0, 0, 0] NULL NULL,
    desc 1 0 0 [0, 0, 0, 0, 0, 0] NULL NULL,
    desc 2 0 0 [0, 0, 0, 0, 0, 0] NULL NULL,
    desc 2 0 1 [0, Z OS_timespec, 0, 0, 0, 0] NULL NULL,
    desc 2 0 1 [0, Z OS_timespec, 0, 0, 0, 0] NULL NULL,
    desc 4 0 1 [0, 0, 0, Z OS_timespec, 0, 0] NULL NULL,
    desc 1 0 0 [0, 0, 0, 0, 0, 0] NULL NULL,
    desc 4 1 1 [0, Z OS_epoll_event, 0, 0, 0, 0] NULL NULL,
    desc 4 0 1 [0, 0, 0, Z OS_epoll_event, 0, 0] NULL NULL,
    desc 3 0 0 [0, 0, 0, 0, 0, 0] NULL NULL,
    desc 2 0 1 [0, Z OS_timeval, 0, 0, 0, 0] NULL NULL,
    desc 1 0 0 [0, 0, 0, 0, 0, 0] NULL NULL,
    desc 6 0 1 [0, 0, 0, csize C_unsigned_long, 0, 0] NULL NULL,
    desc 3 0 1 [0, csize C_unsigned_long, 0, 0, 0, 0] NULL NULL,
    desc 5 1 1 [csize C_int, csize C_unsigned_long, 0, 0, 0, 0] NULL NULL,
    desc 4 0 1 [0, 0, 0, Z OS_mq_attr, 0, 0] NULL NULL,
    desc 1 0 0 [0, 0, 0, 0, 0, 0] NULL NULL,
    desc 5 0 0 [0, 0, 0, 0, 0, 0] NULL NULL,
    desc 5 1 1 [0, 0, 0, csize C_unsigned, 0, 0] NULL NULL,
    desc 2 0 0 [0, 0, 0, 0, 0, 0] NULL NULL,
    desc 3 0 1 [0, 0, Z OS_mq_attr, 0, 0, 0] NULL NULL,
    desc 4 0 1 [0, 0, Z OS_kexec_segment, 0, 0, 0] NULL NULL,
    desc 5 0 1 [0, 0, Z OS_siginfo_t, 0, Z OS_rusage, 0] NULL NULL,
    desc 4 0 0 [0, 0, 0, 0, 0, 0] NULL NULL,
    desc 4 0 0 [0, 0, 0, 0, 0, 0] NULL NULL,
    desc 5 0 0 [0, 0, 0, 0, 0, 0] NULL NULL,
    desc 3 0 0 [0, 0, 0, 0, 0, 0] NULL NULL,
    desc 2 0 0 [0, 0, 0, 0, 0, 0] NULL NULL,
    desc 0 0 0 [0, 0, 0, 0, 0, 0] NULL NULL,
    desc 3 0 0 [0, 0, 0, 0, 0, 0] NULL NULL,
    desc 2 0 0 [0, 0, 0, 0, 0, 0] NULL NULL]"

text \<open>Entries 256 (\<^verbatim>\<open>migrate_pages\<close>) to 315 (\<^verbatim>\<open>sched_getattr\<close>).\<close>

definition syscall_desc_4 :: "(os_type \<Rightarrow> nat) \<Rightarrow> syscall_desc_t list" where
  "syscall_desc_4 Z = [
    desc 4 0 0 [0, 0, 0, 0, 0, 0] NULL NULL,
    desc 4 1 0 [0, 0, 0, 0, 0, 0] NULL Post_openat_hook,
    desc 3 0 0 [0, 0, 0, 0, 0, 0] NULL NULL,
    desc 4 0 0 [0, 0, 0, 0, 0, 0] NULL NULL,
    desc 5 0 0 [0, 0, 0, 0, 0, 0] NULL NULL,
    desc 3 0 1 [0, 0, Z OS_timeval, 0, 0, 0] NULL NULL,
    desc 4 0 1 [0, 0, Z OS_stat, 0, 0, 0] NULL NULL,
    desc 3 0 0 [0, 0, 0, 0, 0, 0] NULL NULL,
    desc 4 0 0 [0, 0, 0, 0, 0, 0] NULL NULL,
    desc 5 0 0 [0, 0, 0, 0, 0, 0] NULL NULL,
    desc 3 0 0 [0, 0, 0, 0, 0, 0] NULL NULL,
    desc 4 1 1 [0, 0, 0, 0, 0, 0] NULL NULL,
    desc 3 0 0 [0, 0, 0, 0, 0, 0] NULL NULL,
    desc 3 0 0 [0, 0, 0, 0, 0, 0] NULL NULL,
    desc 6 0 1 [0, Z OS_fd_set, Z OS_fd_set, Z OS_fd_set, Z OS_timespec, 0] NULL NULL,
    desc 5 0 1 [Z OS_pollfd, 0, Z OS_timespec, 0, 0, 0] NULL NULL,
    desc 1 0 0 [0, 0, 0, 0, 0, 0] NULL NULL,
    desc 2 0 1 [Z OS_robust_list_head, 0, 0, 0, 0, 0] NULL NULL,
    desc 3 0 1 [0, Z OS_robust_list_head, csize C_size_t, 0, 0, 0] NULL NULL,
    desc 6 0 1 [0, Z OS_loff_t, 0, Z OS_loff_t, 0, 0] NULL NULL,
    desc 4 0 0 [0, 0, 0, 0, 0, 0] NULL NULL,
    desc 4 0 0 [0, 0, 0, 0, 0, 0] NULL NULL,
    desc 4 0 0 [0, 0, 0, 0, 0, 0] NULL NULL,
    desc 6 0 1 [0, 0, 0, 0, csize C_int, 0] NULL NULL,
    desc 4 0 1 [0, 0, Z OS_timespec, 0, 0, 0] NULL NULL,
    desc 6 0 1 [0, Z OS_epoll_event, 0, 0, 0, 0] NULL NULL,
    desc 3 0 1 [0, Z OS_sigset_t, 0, 0, 0, 0] NULL NULL,
    desc 2 0 0 [0, 0, 0, 0, 0, 0] NULL NULL,
    desc 1 0 0 [0, 0, 0, 0, 0, 0] NULL NULL,
    desc 4 0 0 [0, 0, 0, 0, 0, 0] NULL NULL,
    desc 4 0 1 [0, 0, 0, Z OS_itimerspec, 0, 0] NULL NULL,
    desc 2 0 1 [0, Z OS_itimerspec, 0, 0, 0, 0] NULL NULL,
    desc 4 0 1 [0, Z OS_sockaddr, csize C_int, 0, 0, 0] NULL NULL,
    desc 4 0 1 [0, Z OS_sigset_t, 0, 0, 0, 0] NULL NULL,
    desc 2 0 0 [0, 0, 0, 0, 0, 0] NULL NULL,
    desc 1 0 0 [0, 0, 0, 0, 0, 0] NULL NULL,
    desc 3 1 0 [0, 0, 0, 0, 0, 0] NULL Post_dup3_hook,
    desc 2 0 1 [csize C_int, 0, 0, 0, 0, 0] NULL NULL,
    desc 1 0 0 [0, 0, 0, 0, 0, 0] NULL NULL,
    desc 5 0 0 [0, 0, 0, 0, 0, 0] NULL NULL,
    desc 5 0 0 [0, 0, 0, 0, 0, 0] NULL NULL,
    desc 4 0 1 [0, 0, 0, Z OS_siginfo_t, 0, 0] NULL NULL,
    desc 5 0 1 [Z OS_perf_event_attr, 0, 0, 0, 0, 0] NULL NULL,
    desc 5 0 1 [0, Z OS_msghdr, 0, 0, Z OS_timespec, 0] NULL NULL,
    desc 2 0 0 [0, 0, 0, 0, 0, 0] NULL NULL,
    desc 5 0 0 [0, 0, 0, 0, 0, 0] NULL NULL,
    desc 4 0 1 [0, 0, 0, Z OS_rlimit, 0, 0] NULL NULL,
    desc 5 0 1 [0, 0, csize file_handle, csize C_int, 0, 0] NULL NULL,
    desc 5 0 1 [0, 0, csize file_handle, csize C_int, 0, 0] NULL NULL,
    desc 2 0 1 [0, Z OS_timex, 0, 0, 0, 0] NULL NULL,
    desc 1 0 0 [0, 0, 0, 0, 0, 0] NULL NULL,
    desc 4 0 1 [0, Z OS_mmsghdr, 0, 0, 0, 0] NULL NULL,
    desc 2 0 0 [0, 0, 0, 0, 0, 0] NULL NULL,
    desc 3 0 1 [csize C_unsigned, csize C_unsigned, csize getcpu_cache, 0, 0, 0] NULL NULL,
    desc 6 0 0 [0, 0, 0, 0, 0, 0] NULL NULL,
    desc 6 0 0 [0, 0, 0, 0, 0, 0] NULL NULL,
    desc 5 0 0 [0, 0, 0, 0, 0, 0] NULL NULL,
    desc 3 0 0 [0, 0, 0, 0, 0, 0] NULL NULL,
    desc 3 0 1 [0, csize sched_attr, 0, 0, 0, 0] NULL NULL,
    desc 4 0 1 [0, csize sched_attr, 0, 0, 0, 0] NULL NULL]"

definition syscall_desc_table :: "(os_type \<Rightarrow> nat) \<Rightarrow> syscall_desc_t list" where
  "syscall_desc_table Z =
     syscall_desc_0 Z @ syscall_desc_1 Z @ syscall_desc_2 Z @ syscall_desc_3 Z @ syscall_desc_4 Z"

section \<open>Installing and removing hooks\<close>

text \<open>A descriptor pointer is the descriptor it points to, \<open>None\<close> when it is null; the result is the return value and the descriptor afterwards.\<close>

definition syscall_set_pre :: "syscall_desc_t option \<Rightarrow> hook \<Rightarrow> int \<times> syscall_desc_t option" where
  "syscall_set_pre dp f =
     (case dp of
        None \<Rightarrow> (1, None)
      | Some d \<Rightarrow> if f = NULL then (1, Some d) else (0, Some (d\<lparr>pre := f, save_args := 1\<rparr>)))"

definition syscall_set_post :: "syscall_desc_t option \<Rightarrow> hook \<Rightarrow> int \<times> syscall_desc_t option" where
  "syscall_set_post dp f =
     (case dp of
        None \<Rightarrow> (1, None)
      | Some d \<Rightarrow> if f = NULL then (1, Some d) else (0, Some (d\<lparr>post := f, save_args := 1\<rparr>)))"

definition syscall_clr_pre :: "syscall_desc_t option \<Rightarrow> int \<times> syscall_desc_t option" where
  "syscall_clr_pre dp =
     (case dp of
        None \<Rightarrow> (1, None)
      | Some d \<Rightarrow>
          let d1 = d\<lparr>pre := NULL\<rparr>
          in (0, Some (if post d1 = NULL then d1\<lparr>save_args := 0\<rparr> else d1)))"

definition syscall_clr_post :: "syscall_desc_t option \<Rightarrow> int \<times> syscall_desc_t option" where
  "syscall_clr_post dp =
     (case dp of
        None \<Rightarrow> (1, None)
      | Some d \<Rightarrow>
          let d1 = d\<lparr>post := NULL\<rparr>
          in (0, Some (if pre d1 = NULL then d1\<lparr>save_args := 0\<rparr> else d1)))"

section \<open>The invariant of a descriptor\<close>

text \<open>
  At most six arguments, a map of six widths, a width only for an argument that exists and in a
  descriptor that returns values in arguments, every width small enough for the 32-bit length of the
  clearing loop, and saved arguments wherever a hook will read them.
\<close>

definition desc_ok :: "syscall_desc_t \<Rightarrow> bool" where
  "desc_ok d \<longleftrightarrow> nargs d \<le> SYSCALL_ARG_NUM \<and> length (map_args d) = SYSCALL_ARG_NUM
     \<and> (\<forall>i < SYSCALL_ARG_NUM. map_args d ! i > 0 \<longrightarrow> i < nargs d \<and> retval_args d \<noteq> 0)
     \<and> (\<forall>i < SYSCALL_ARG_NUM. map_args d ! i < 2 ^ 32)
     \<and> (pre d \<noteq> NULL \<or> post d \<noteq> NULL \<longrightarrow> save_args d \<noteq> 0)"

lemma all_less_6: "(\<forall>i < 6. P i) \<longleftrightarrow> P 0 \<and> P 1 \<and> P 2 \<and> P 3 \<and> P 4 \<and> P (5 :: nat)"
  by (simp add: eval_nat_numeral All_less_Suc2)

lemma csizes:
  "csize C_unsigned_char = 1" "csize C_int = 4" "csize C_unsigned = 4" "csize C_unsigned_long = 8"
  "csize C_size_t = 8" "csize u32 = 4" "csize git_t = 8" "csize linux_dirent = 24" "csize getcpu_cache = 128"
  "csize sched_attr = 48" "csize file_handle = 8" "csize ustat = 32"
  by (simp_all add: ctype_defs round_up_def)

lemma desc_ok_desc:
  "desc_ok (desc n sa ra [a0, a1, a2, a3, a4, a5] f g) \<longleftrightarrow> n \<le> 6
     \<and> (a0 > 0 \<longrightarrow> 0 < n \<and> ra \<noteq> 0) \<and> (a1 > 0 \<longrightarrow> 1 < n \<and> ra \<noteq> 0) \<and> (a2 > 0 \<longrightarrow> 2 < n \<and> ra \<noteq> 0)
     \<and> (a3 > 0 \<longrightarrow> 3 < n \<and> ra \<noteq> 0) \<and> (a4 > 0 \<longrightarrow> 4 < n \<and> ra \<noteq> 0) \<and> (a5 > 0 \<longrightarrow> 5 < n \<and> ra \<noteq> 0)
     \<and> a0 < 2 ^ 32 \<and> a1 < 2 ^ 32 \<and> a2 < 2 ^ 32 \<and> a3 < 2 ^ 32 \<and> a4 < 2 ^ 32 \<and> a5 < 2 ^ 32
     \<and> (f \<noteq> NULL \<or> g \<noteq> NULL \<longrightarrow> sa \<noteq> 0)"
  by (simp add: desc_ok_def desc_def SYSCALL_ARG_NUM_def all_less_6)

lemma table_part_ok:
  assumes "\<And>t. Z t < 2 ^ 32"
  shows "list_all desc_ok (syscall_desc_0 Z)" "list_all desc_ok (syscall_desc_1 Z)"
    "list_all desc_ok (syscall_desc_2 Z)" "list_all desc_ok (syscall_desc_3 Z)" "list_all desc_ok (syscall_desc_4 Z)"
proof -
  have z: "Z t < 4294967296" for t using assms[of t] by simp
  show "list_all desc_ok (syscall_desc_0 Z)" by (simp add: syscall_desc_0_def desc_ok_desc csizes z)
  show "list_all desc_ok (syscall_desc_1 Z)" by (simp add: syscall_desc_1_def desc_ok_desc csizes z)
  show "list_all desc_ok (syscall_desc_2 Z)" by (simp add: syscall_desc_2_def desc_ok_desc csizes z)
  show "list_all desc_ok (syscall_desc_3 Z)" by (simp add: syscall_desc_3_def desc_ok_desc csizes z)
  show "list_all desc_ok (syscall_desc_4 Z)" by (simp add: syscall_desc_4_def desc_ok_desc csizes z)
qed

lemma table_length: "length (syscall_desc_table Z) = 316"
proof -
  have "length (syscall_desc_0 Z) = 64" "length (syscall_desc_1 Z) = 64" "length (syscall_desc_2 Z) = 64"
    "length (syscall_desc_3 Z) = 64" "length (syscall_desc_4 Z) = 60"
    by (simp_all only: syscall_desc_0_def syscall_desc_1_def syscall_desc_2_def syscall_desc_3_def
        syscall_desc_4_def list.size)
  then show ?thesis by (simp add: syscall_desc_table_def)
qed

end
