(* ===== verification/Syscalls.thy ===== *)
theory Syscalls
  imports Syscall_Table
begin

text \<open>
  The taint sources: the file helpers of \<^verbatim>\<open>src/osutils_dr.cpp\<close>, the hooks of
  \<^verbatim>\<open>src/syscall_desc_dr.cpp\<close> that paint and clear shadow bytes after a system call, and the events of
  \<^verbatim>\<open>src/libdft_api_dr.cpp\<close> that start and end threads and dispatch the hooks. What the kernel and
  DynamoRIO answer is the parameter \<open>os_env\<close>. The trace macro \<^verbatim>\<open>LOG\<close> expands to nothing.
\<close>

section \<open>State and environment\<close>

text \<open>
  The globals of the source layer. The one call that changes the kernel's state, \<^verbatim>\<open>lseek\<close> to the end
  of a file, is an event of \<open>os_log\<close>.
\<close>

datatype os_event = Lseek_end int

record sys_state = engine +
  fdset :: "int set"
  filename :: string
  flag :: int
  mmap_type :: bool
  g_src_events :: UINT64
  g_src_bytes :: UINT64
  syscall_desc :: "syscall_desc_t list"
  os_log :: "os_event list"

text \<open>
  The answers of the environment during one event: the arguments and the result of the system call, the
  position and the length of a descriptor's file, the link \<^verbatim>\<open>/proc/self/fd/n\<close> (or the error number), the
  message of an error, \<^verbatim>\<open>stat\<close> (directory or not, and the size), the first four bytes of a file through
  \<^verbatim>\<open>pread64\<close>, and the bytes of the application's memory.
\<close>

record os_env =
  syscall_get_param :: "nat \<Rightarrow> ADDRINT"
  syscall_get_result :: ADDRINT
  lseek_cur :: "int \<Rightarrow> UINT64"
  lseek_end :: "int \<Rightarrow> UINT64"
  readlink :: "string \<Rightarrow> int + string"
  strerror :: "int \<Rightarrow> string"
  os_stat :: "string \<Rightarrow> (bool \<times> UINT64) option"
  pread4 :: "int \<Rightarrow> string"
  app_byte :: "ADDRINT \<Rightarrow> char option"

text \<open>The conversions \<^verbatim>\<open>(int)x\<close> and \<^verbatim>\<open>(ssize_t)x\<close> of a 64-bit value.\<close>

definition to_int :: "UINT64 \<Rightarrow> int" where
  "to_int x = sint (ucast x :: 32 word)"

definition to_ssize :: "UINT64 \<Rightarrow> int" where
  "to_ssize x = sint x"

section \<open>File helpers\<close>

definition PATH_MAX :: nat where "PATH_MAX = 4096"

definition c_str :: "string \<Rightarrow> string" where
  "c_str s = takeWhile (\<lambda>c. c \<noteq> CHR 0x00) s"

definition fdname :: "os_env \<Rightarrow> int \<Rightarrow> string" where
  "fdname K fd =
     (case readlink K (''/proc/self/fd'' @ ''/'' @ int2str fd) of
        Inl e \<Rightarrow> strerror K e
      | Inr fpath \<Rightarrow>
          if length fpath \<ge> PATH_MAX then c_str (take (PATH_MAX - 1) fpath) @ ''...''
          else c_str fpath)"

text \<open>\<^verbatim>\<open>s.find(pat) != npos\<close>\<close>

fun starts_with :: "string \<Rightarrow> string \<Rightarrow> bool" where
  "starts_with [] s = True"
| "starts_with (p # ps) [] = False"
| "starts_with (p # ps) (c # cs) = (p = c \<and> starts_with ps cs)"

fun str_contains :: "string \<Rightarrow> string \<Rightarrow> bool" where
  "str_contains pat [] = starts_with pat []"
| "str_contains pat (c # cs) = (starts_with pat (c # cs) \<or> str_contains pat cs)"

definition in_dtracker_whitelist :: "string \<Rightarrow> 'a sys_state_scheme \<Rightarrow> bool" where
  "in_dtracker_whitelist fname s = (\<not> str_contains (filename s) fname)"

definition path_isdir :: "os_env \<Rightarrow> string \<Rightarrow> bool" where
  "path_isdir K path = (case os_stat K path of None \<Rightarrow> False | Some (d, sz) \<Rightarrow> d)"

section \<open>The two loops of the hooks\<close>

text \<open>
  \<^verbatim>\<open>while (i < n)\<close> with the previous label read first (a read above the shadowed addresses faults) and the
  new label interned from the low 32 bits of the file offset.
\<close>

definition paint_byte :: "ADDRINT \<Rightarrow> UINT64 \<Rightarrow> 'a sys_state_scheme \<Rightarrow> 'a sys_state_scheme res" where
  "paint_byte addr off s =
     rbind (mem_rd addr s) (\<lambda>ts_prev.
       let (t, T) = dft_label_set (ucast off) (tables s)
       in Inr (mem_wr addr t (s\<lparr>tables := T\<rparr>)))"

definition paint_loop :: "ADDRINT \<Rightarrow> UINT64 \<Rightarrow> nat \<Rightarrow> 'a sys_state_scheme \<Rightarrow> 'a sys_state_scheme res" where
  "paint_loop buf off n = for_upto n (\<lambda>i. paint_byte (buf + of_nat i) (off + of_nat i))"

definition clear_byte :: "ADDRINT \<Rightarrow> 'a engine_scheme \<Rightarrow> 'a engine_scheme" where
  "clear_byte addr s = s\<lparr>tag_dir := file_tagmap_clrb addr (tag_dir s)\<rparr>"

definition clear_loop :: "ADDRINT \<Rightarrow> nat \<Rightarrow> 'a engine_scheme \<Rightarrow> 'a engine_scheme res" where
  "clear_loop buf n = for_upto n (\<lambda>i s. Inr (clear_byte (buf + of_nat i) s))"

definition count_source :: "UINT64 \<Rightarrow> 'a sys_state_scheme \<Rightarrow> 'a sys_state_scheme" where
  "count_source n s = s\<lparr>g_src_events := g_src_events s + 1, g_src_bytes := g_src_bytes s + n\<rparr>"

section \<open>The hooks\<close>

definition post_read_hook :: "os_env \<Rightarrow> syscall_ctx_t \<Rightarrow> 'a sys_state_scheme \<Rightarrow> 'a sys_state_scheme res" where
  "post_read_hook K ctx s =
     (if to_ssize (ret ctx) \<le> 0 then Inr s
      else
        let buf = arg ctx 1;
            nbytes = (ucast (ret ctx) :: UINT32);
            fd = to_int (arg ctx 0)
        in if fd \<in> fdset s then
             let s1 = count_source (ucast nbytes) s;
                 read_offset_start = lseek_cur K fd - ucast nbytes
             in paint_loop buf read_offset_start (unat nbytes) s1
           else clear_loop buf (unat nbytes) s)"

definition post_open_hook :: "os_env \<Rightarrow> syscall_ctx_t \<Rightarrow> 'a sys_state_scheme \<Rightarrow> 'a sys_state_scheme" where
  "post_open_hook K ctx s =
     (let fd = to_int (ret ctx); fdn = fdname K fd
      in if \<not> in_dtracker_whitelist fdn s \<and> \<not> path_isdir K fdn
         then s\<lparr>fdset := insert fd (fdset s), flag := 1\<rparr> else s)"

definition post_openat_hook :: "os_env \<Rightarrow> syscall_ctx_t \<Rightarrow> 'a sys_state_scheme \<Rightarrow> 'a sys_state_scheme" where
  "post_openat_hook K ctx s = post_open_hook K ctx s"

definition post_dup3_hook :: "syscall_ctx_t \<Rightarrow> 'a sys_state_scheme \<Rightarrow> 'a sys_state_scheme" where
  "post_dup3_hook ctx s =
     (let oldfd = to_int (arg ctx 0); newfd = to_int (arg ctx 1)
      in if oldfd \<in> fdset s then s\<lparr>fdset := insert newfd (fdset s)\<rparr> else s)"

definition post_dup2_hook :: "syscall_ctx_t \<Rightarrow> 'a sys_state_scheme \<Rightarrow> 'a sys_state_scheme" where
  "post_dup2_hook ctx s =
     (let oldfd = to_int (arg ctx 0); newfd = to_int (arg ctx 1)
      in if oldfd \<in> fdset s then s\<lparr>fdset := insert newfd (fdset s)\<rparr> else s)"

definition post_dup_hook :: "syscall_ctx_t \<Rightarrow> 'a sys_state_scheme \<Rightarrow> 'a sys_state_scheme" where
  "post_dup_hook ctx s =
     (let oldfd = to_int (arg ctx 0); newfd = to_int (ret ctx)
      in if oldfd \<in> fdset s \<and> newfd \<noteq> -1 then s\<lparr>fdset := insert newfd (fdset s)\<rparr> else s)"

definition post_close_hook :: "syscall_ctx_t \<Rightarrow> 'a sys_state_scheme \<Rightarrow> 'a sys_state_scheme" where
  "post_close_hook ctx s =
     (if to_int (ret ctx) < 0 then s
      else
        let fd = to_int (arg ctx 0)
        in if fd \<notin> fdset s then s else s\<lparr>fdset := fdset s - {fd}\<rparr>)"

definition post_pread64_hook :: "syscall_ctx_t \<Rightarrow> 'a sys_state_scheme \<Rightarrow> 'a sys_state_scheme res" where
  "post_pread64_hook ctx s =
     (if to_ssize (ret ctx) < 0 then Inr s
      else
        let n = (ucast (ret ctx) :: UINT32);
            fd = to_int (arg ctx 0);
            buf = arg ctx 1;
            read_offset_start = arg ctx 3
        in if fd \<in> fdset s then
             let s1 = count_source (ucast n) s
             in paint_loop buf read_offset_start (unat n) s1
           else clear_loop buf (unat n) s)"

definition PAGE_SZ :: UINT64 where "PAGE_SZ = 4096"
definition MAP_GROWSDOWN :: "32 word" where "MAP_GROWSDOWN = 0x100"
definition MAP_FAILED :: UINT64 where "MAP_FAILED = - 1"

text \<open>\<^verbatim>\<open>strcmp(b, a) == 0\<close> for an array b of the engine and an address of the application.\<close>

fun strcmp_eq :: "os_env \<Rightarrow> string \<Rightarrow> ADDRINT \<Rightarrow> bool res" where
  "strcmp_eq K [] a = Inl OutOfRange"
| "strcmp_eq K (c # cs) a =
     (case app_byte K a of
        None \<Rightarrow> Inl OutOfRange
      | Some d \<Rightarrow>
          if c \<noteq> d then Inr False
          else if c = CHR 0x00 then Inr True
          else strcmp_eq K cs (a + 1))"

definition libdft_die :: "'x res" where
  "libdft_die = Inl ProcessExit"

text \<open>The file offset of the first mapped byte under \<^verbatim>\<open>mmap_type == 1\<close>.\<close>

definition mmap_offset :: "os_env \<Rightarrow> int \<Rightarrow> ADDRINT \<Rightarrow> UINT64 \<Rightarrow> UINT64 res" where
  "mmap_offset K fd buf fd_offset =
     (let fsize = lseek_end K fd;
          fname = fdname K fd;
          fsize = (case os_stat K fname of None \<Rightarrow> fsize | Some (d, st_size) \<Rightarrow> st_size);
          offset_start = fd_offset
      in if (ucast offset_start :: UINT32) > ucast fsize then
           let buf2 = pread4 K fd
           in if length buf2 = 4 then
                rbind (strcmp_eq K buf2 buf) (\<lambda>eq. if eq then Inr 0 else libdft_die)
              else libdft_die
         else Inr offset_start)"

text \<open>The size of the mapping rounded to pages, from which the start of a stack-like mapping is estimated.\<close>

definition mmap_extent :: "UINT64 \<Rightarrow> UINT64" where
  "mmap_extent len = (if len < PAGE_SZ then PAGE_SZ else len + PAGE_SZ - len mod PAGE_SZ)"

definition post_mmap_hook ::
  "os_env \<Rightarrow> syscall_ctx_t \<Rightarrow> 'a sys_state_scheme \<Rightarrow> (syscall_ctx_t \<times> 'a sys_state_scheme) res" where
  "post_mmap_hook K ctx s =
     (if ret ctx = MAP_FAILED then Inr (ctx, s)
      else
        let offset = mmap_extent (arg ctx 1);
            ctx = (if (ucast (arg ctx 3) AND MAP_GROWSDOWN) \<noteq> 0 then ctx\<lparr>ret := ret ctx + offset - 1\<rparr> else ctx);
            buf = ret ctx;
            fd = to_int (arg ctx 4);
            n = arg ctx 1;
            fd_offset = arg ctx 5
        in if fd \<ge> 0 \<and> fd \<in> fdset s then
             (if \<not> mmap_type s then
                rbind (paint_loop buf (lseek_cur K fd) (unat n) (count_source n s)) (\<lambda>s'. Inr (ctx, s'))
              else
                let s1 = s\<lparr>os_log := os_log s @ [Lseek_end fd]\<rparr>
                in rbind (mmap_offset K fd buf fd_offset) (\<lambda>offset_start.
                   rbind (paint_loop buf offset_start (unat n) (count_source n s1)) (\<lambda>s'. Inr (ctx, s'))))
           else rbind (clear_loop buf (unat n) s) (\<lambda>s'. Inr (ctx, s')))"

definition post_munmap_hook :: "syscall_ctx_t \<Rightarrow> 'a engine_scheme \<Rightarrow> 'a engine_scheme res" where
  "post_munmap_hook ctx s =
     (if to_ssize (ret ctx) < 0 then Inr s
      else clear_loop (arg ctx 0) (unat (arg ctx 1)) s)"

section \<open>Threads and dispatch\<close>

text \<open>\<^verbatim>\<open>new thread_ctx_t()\<close> sets every field to zero; the allocation is taken to succeed.\<close>

definition new_thread_ctx :: thread_ctx_t where
  "new_thread_ctx =
     \<lparr>gpr_file = (\<lambda>row b. 0), syscall_ctx = \<lparr>nr = 0, arg = (\<lambda>_. 0), ret = 0\<rparr>, syscall_nr = 0, gpr_mask_cached = 0\<rparr>"

definition cur_thread_ctx :: "nat \<Rightarrow> 'a engine_scheme \<Rightarrow> thread_ctx_t option" where
  "cur_thread_ctx dc s = threads s dc"

definition event_thread_init :: "nat \<Rightarrow> 'a engine_scheme \<Rightarrow> 'a engine_scheme" where
  "event_thread_init dc s = s\<lparr>threads := (threads s)(dc \<mapsto> new_thread_ctx)\<rparr>"

definition event_thread_exit :: "nat \<Rightarrow> 'a engine_scheme \<Rightarrow> 'a engine_scheme" where
  "event_thread_exit dc s = s\<lparr>threads := (threads s)(dc := None)\<rparr>"

definition wants_args :: "syscall_desc_t \<Rightarrow> bool" where
  "wants_args d = ((save_args d OR retval_args d) \<noteq> 0)"

definition event_filter_syscall :: "int \<Rightarrow> 'a sys_state_scheme \<Rightarrow> bool" where
  "event_filter_syscall sysnum s =
     (if sysnum < 0 \<or> sysnum \<ge> SYSCALL_MAX then False else wants_args (syscall_desc s ! nat sysnum))"

definition set_syscall_ctx :: "nat \<Rightarrow> syscall_ctx_t \<Rightarrow> 'a engine_scheme \<Rightarrow> 'a engine_scheme" where
  "set_syscall_ctx dc ctx s =
     s\<lparr>threads := (threads s)(dc := map_option (\<lambda>tc. tc\<lparr>syscall_ctx := ctx\<rparr>) (threads s dc))\<rparr>"

text \<open>
  The call through a hook pointer; \<open>client\<close> is the code of the client's hooks. A hook gets the thread's
  context by reference: the result is the context and the state afterwards.
\<close>

type_synonym 'a client_hooks =
  "nat \<Rightarrow> os_env \<Rightarrow> syscall_ctx_t \<Rightarrow> 'a sys_state_scheme \<Rightarrow> (syscall_ctx_t \<times> 'a sys_state_scheme) res"

fun call_hook :: "'a client_hooks \<Rightarrow> hook \<Rightarrow> os_env \<Rightarrow> syscall_ctx_t \<Rightarrow> 'a sys_state_scheme \<Rightarrow>
    (syscall_ctx_t \<times> 'a sys_state_scheme) res" where
  "call_hook client NULL K ctx s = Inl NullDeref"
| "call_hook client Post_read_hook K ctx s = rbind (post_read_hook K ctx s) (\<lambda>s'. Inr (ctx, s'))"
| "call_hook client Post_open_hook K ctx s = Inr (ctx, post_open_hook K ctx s)"
| "call_hook client Post_openat_hook K ctx s = Inr (ctx, post_openat_hook K ctx s)"
| "call_hook client Post_dup_hook K ctx s = Inr (ctx, post_dup_hook ctx s)"
| "call_hook client Post_dup2_hook K ctx s = Inr (ctx, post_dup2_hook ctx s)"
| "call_hook client Post_dup3_hook K ctx s = Inr (ctx, post_dup3_hook ctx s)"
| "call_hook client Post_close_hook K ctx s = Inr (ctx, post_close_hook ctx s)"
| "call_hook client Post_pread64_hook K ctx s = rbind (post_pread64_hook ctx s) (\<lambda>s'. Inr (ctx, s'))"
| "call_hook client Post_mmap_hook K ctx s = post_mmap_hook K ctx s"
| "call_hook client Post_munmap_hook K ctx s = rbind (post_munmap_hook ctx s) (\<lambda>s'. Inr (ctx, s'))"
| "call_hook client (Client_hook k) K ctx s = client k K ctx s"

definition save_arg :: "os_env \<Rightarrow> nat \<Rightarrow> syscall_ctx_t \<Rightarrow> syscall_ctx_t res" where
  "save_arg K i ctx =
     (if i < SYSCALL_ARG_NUM then Inr (ctx\<lparr>arg := (arg ctx)(i := syscall_get_param K i)\<rparr>) else Inl OutOfRange)"

definition event_pre_syscall ::
  "'a client_hooks \<Rightarrow> os_env \<Rightarrow> nat \<Rightarrow> int \<Rightarrow> 'a sys_state_scheme \<Rightarrow> (bool \<times> 'a sys_state_scheme) res" where
  "event_pre_syscall client K dc sysnum s =
     (case cur_thread_ctx dc s of
        None \<Rightarrow> Inl NullDeref
      | Some tctx \<Rightarrow>
          if sysnum < 0 \<or> sysnum \<ge> SYSCALL_MAX then
            Inr (True, set_syscall_ctx dc ((syscall_ctx tctx)\<lparr>nr := -1\<rparr>) s)
          else
            let ctx = (syscall_ctx tctx)\<lparr>nr := sysnum\<rparr>; d = syscall_desc s ! nat sysnum
            in if wants_args d then
                 rbind (for_upto (nargs d) (save_arg K) ctx) (\<lambda>ctx'.
                   if pre d \<noteq> NULL then
                     rbind (call_hook client (pre d) K ctx' (set_syscall_ctx dc ctx' s)) (\<lambda>(ctx'', s').
                       Inr (True, set_syscall_ctx dc ctx'' s'))
                   else Inr (True, set_syscall_ctx dc ctx' s))
               else Inr (True, set_syscall_ctx dc ctx s))"

text \<open>
  The default cleanup after a system call: clear the buffers the call wrote, with the width converted to
  the 32-bit parameter of \<open>file_tagmap_clrn\<close>.
\<close>

definition clear_arg :: "syscall_desc_t \<Rightarrow> syscall_ctx_t \<Rightarrow> nat \<Rightarrow> 'a engine_scheme \<Rightarrow> 'a engine_scheme res" where
  "clear_arg d ctx i s =
     (if i < SYSCALL_ARG_NUM then
        (if map_args d ! i > 0 \<and> arg ctx i \<noteq> 0 then
           Inr (s\<lparr>tag_dir := file_tagmap_clrn (arg ctx i) (of_nat (map_args d ! i)) (tag_dir s)\<rparr>)
         else Inr s)
      else Inl OutOfRange)"

definition clear_args :: "syscall_desc_t \<Rightarrow> syscall_ctx_t \<Rightarrow> 'a engine_scheme \<Rightarrow> 'a engine_scheme res" where
  "clear_args d ctx s =
     (if to_ssize (ret ctx) < 0 then Inr s else for_upto (nargs d) (clear_arg d ctx) s)"

definition event_post_syscall ::
  "'a client_hooks \<Rightarrow> os_env \<Rightarrow> nat \<Rightarrow> int \<Rightarrow> 'a sys_state_scheme \<Rightarrow> 'a sys_state_scheme res" where
  "event_post_syscall client K dc sysnum s =
     (case cur_thread_ctx dc s of
        None \<Rightarrow> Inl NullDeref
      | Some tctx \<Rightarrow>
          let n = nr (syscall_ctx tctx)
          in if n < 0 \<or> n \<ge> SYSCALL_MAX then Inr s
             else
               let d = syscall_desc s ! nat n
               in if wants_args d then
                    let ctx = (syscall_ctx tctx)\<lparr>ret := syscall_get_result K\<rparr>;
                        s1 = set_syscall_ctx dc ctx s
                    in if post d \<noteq> NULL then
                         rbind (call_hook client (post d) K ctx s1) (\<lambda>(ctx', s'). Inr (set_syscall_ctx dc ctx' s'))
                       else clear_args d ctx s1
                  else Inr s)"

text \<open>
  One system call as the engine sees it: DynamoRIO asks the filter, runs the enter event, the kernel
  executes the call, and the exit event runs. \<open>K\<close> answers the enter event and \<open>K'\<close> the exit event.
\<close>

definition run_syscall ::
  "'a client_hooks \<Rightarrow> os_env \<Rightarrow> os_env \<Rightarrow> nat \<Rightarrow> int \<Rightarrow> 'a sys_state_scheme \<Rightarrow> 'a sys_state_scheme res" where
  "run_syscall client K K' dc sysnum s =
     (if event_filter_syscall sysnum s then
        rbind (event_pre_syscall client K dc sysnum s) (\<lambda>(go, s1). event_post_syscall client K' dc sysnum s1)
      else Inr s)"

section \<open>The mask of tainted registers\<close>

definition row_tainted :: "thread_ctx_t \<Rightarrow> nat \<Rightarrow> bool" where
  "row_tainted tc row = list_ex (\<lambda>b. gpr_file tc row b \<noteq> 0) [0..<8]"

definition libdft_compute_gpr_mask :: "thread_ctx_t \<Rightarrow> UINT32" where
  "libdft_compute_gpr_mask tc =
     fold (\<lambda>row m. if row_tainted tc row then m OR push_bit row 1 else m) [DFT_REG_RDI..<Suc DFT_REG_R15] 0"

end
