(* ===== verification/Sdft_Hook.thy ===== *)
theory Sdft_Hook
  imports Summaries Mnt Syscalls
begin

text \<open>
  The function summaries of \<^verbatim>\<open>src/sdft_hook_dr.cpp\<close>: the shape handlers that run at the entry of a
  summarised function instead of per-instruction propagation through its body, their dispatch, and the
  enumeration of a module's symbols that wraps the functions and registers their bodies as ranges to skip.
\<close>

section \<open>State\<close>

text \<open>
  \<open>dr_wraps\<close> lists the requests made to DynamoRIO to call \<open>sdft_pre\<close> at an address, with the summary that is
  passed along. The counter of calls per shape is indexed by the shape.
\<close>

record dft_state = sys_state +
  mnt :: mnt_state
  sdft :: sdft_state
  s_active :: bool
  s_wrapped :: "ADDRINT set"
  dr_wraps :: "(ADDRINT \<times> Summary) list"
  s_intercepted_rtns :: UINT64
  s_calls_per_shape :: "Shape \<Rightarrow> UINT64"
  s_ifunc_resolved :: UINT64

section \<open>Helpers\<close>

definition arg_to_reg :: "int \<Rightarrow> int" where
  "arg_to_reg arg_idx =
     (if arg_idx = 0 then int DFT_REG_RDI
      else if arg_idx = 1 then int DFT_REG_RSI
      else if arg_idx = 2 then int DFT_REG_RDX
      else if arg_idx = 3 then int DFT_REG_RCX
      else if arg_idx = 4 then int DFT_REG_R8
      else if arg_idx = 5 then int DFT_REG_R9
      else - 1)"

text \<open>\<^verbatim>\<open>struct ArgVals\<close> is the list of the six argument values; \<open>arg_at\<close> is the unchecked access \<^verbatim>\<open>av.a[i]\<close>.\<close>

definition arg_at :: "ADDRINT list \<Rightarrow> int \<Rightarrow> ADDRINT res" where
  "arg_at av i = (if 0 \<le> i \<and> i < 6 then Inr (av ! nat i) else Inl OutOfRange)"

definition MAX_PROP_BYTES :: UINT64 where "MAX_PROP_BYTES = 256 * 1024"

text \<open>The bounded scans for a terminator: elements of w bytes from p on, n of them passed.\<close>

function scan_len :: "dr_env \<Rightarrow> nat \<Rightarrow> ADDRINT \<Rightarrow> nat \<Rightarrow> nat \<Rightarrow> nat" where
  "scan_len E w p bound n =
     (if n < bound then
        case safe_read E (p + of_nat (n * w)) w of
          None \<Rightarrow> n
        | Some c \<Rightarrow> if c = 0 then n else scan_len E w p bound (n + 1)
      else n)"
  by pat_completeness auto

termination by (relation "measure (\<lambda>(E, w, p, bound, n). bound - n)") auto

declare scan_len.simps [simp del]

definition safe_strlen :: "dr_env \<Rightarrow> ADDRINT \<Rightarrow> UINT64" where
  "safe_strlen E p = (if p = 0 then 0 else of_nat (scan_len E 1 p (unat MAX_PROP_BYTES) 0))"

definition safe_wcslen_bytes :: "dr_env \<Rightarrow> ADDRINT \<Rightarrow> UINT64" where
  "safe_wcslen_bytes E p = (if p = 0 then 0 else of_nat (scan_len E 4 p (unat (MAX_PROP_BYTES div 4)) 0 * 4))"

definition resolve_len :: "dr_env \<Rightarrow> Ref \<Rightarrow> ADDRINT list \<Rightarrow> ADDRINT \<Rightarrow> UINT64" where
  "resolve_len E lenref av src_ptr =
     (case ref_kind lenref of
        REF_ARG \<Rightarrow> if ref_value lenref \<ge> 0 \<and> ref_value lenref \<le> 5 then av ! nat (ref_value lenref) else 0
      | REF_LITERAL \<Rightarrow> of_int (ref_value lenref)
      | REF_STRLEN \<Rightarrow> safe_strlen E src_ptr
      | REF_WCSLEN \<Rightarrow> safe_wcslen_bytes E src_ptr
      | REF_RET \<Rightarrow> 0
      | REF_NONE \<Rightarrow> 0)"

definition resolve_ptr :: "Ref \<Rightarrow> ADDRINT list \<Rightarrow> ADDRINT" where
  "resolve_ptr r av =
     (if ref_kind r = REF_ARG \<and> ref_value r \<ge> 0 \<and> ref_value r \<le> 5 then av ! nat (ref_value r) else 0)"

definition capped_len :: "dr_env \<Rightarrow> Ref \<Rightarrow> ADDRINT list \<Rightarrow> ADDRINT \<Rightarrow> UINT64" where
  "capped_len E lenref av p =
     (let n = resolve_len E lenref av p in if n > MAX_PROP_BYTES then MAX_PROP_BYTES else n)"

definition caller_saved :: "nat list" where
  "caller_saved = [DFT_REG_RAX, DFT_REG_RCX, DFT_REG_RDX, DFT_REG_RSI, DFT_REG_RDI,
     DFT_REG_R8, DFT_REG_R9, DFT_REG_R10, DFT_REG_R11]"

definition clobber_caller_saved :: "nat \<Rightarrow> 'a engine_scheme \<Rightarrow> 'a engine_scheme res" where
  "clobber_caller_saved dc =
     for_upto (length caller_saved) (\<lambda>i. for_upto TAGS_PER_GPR (\<lambda>b. gpr_wr dc (caller_saved ! i) b cleared_val))"

definition rax_set_all :: "nat \<Rightarrow> tag_t \<Rightarrow> 'a engine_scheme \<Rightarrow> 'a engine_scheme res" where
  "rax_set_all dc t = for_upto 8 (\<lambda>b. gpr_wr dc DFT_REG_RAX b t)"

section \<open>The shape handlers\<close>

definition handle_clobber :: "nat \<Rightarrow> 'a engine_scheme \<Rightarrow> 'a engine_scheme res" where
  "handle_clobber dc s = clobber_caller_saved dc s"

definition copy_bytes :: "ADDRINT \<Rightarrow> ADDRINT \<Rightarrow> nat \<Rightarrow> 'a engine_scheme \<Rightarrow> 'a engine_scheme res" where
  "copy_bytes dst src n =
     for_upto n (\<lambda>i s. rbind (mem_rd (src + of_nat i) s) (\<lambda>t. Inr (mem_wr (dst + of_nat i) t s)))"

definition rax_from_mem :: "nat \<Rightarrow> ADDRINT \<Rightarrow> 'a engine_scheme \<Rightarrow> 'a engine_scheme res" where
  "rax_from_mem dc dst s = rbind (mem_rd dst s) (\<lambda>t. rax_set_all dc t s)"

definition handle_prop_ptr2ptr :: "dr_env \<Rightarrow> nat \<Rightarrow> ADDRINT list \<Rightarrow> Summary \<Rightarrow> 'a engine_scheme \<Rightarrow> 'a engine_scheme res" where
  "handle_prop_ptr2ptr E dc av sm s =
     (case sum_src sm of
        [] \<Rightarrow> clobber_caller_saved dc s
      | i # is \<Rightarrow>
          rbind (arg_at av i) (\<lambda>src.
            let dst = (if ref_kind (sum_dst sm) = REF_RET then 0 else resolve_ptr (sum_dst sm) av);
                n = capped_len E (sum_len sm) av src
            in rbind (if dst \<noteq> 0 \<and> src \<noteq> 0 then
                        rbind (copy_bytes dst src (unat n) s) (\<lambda>s1. if n > 0 then rax_from_mem dc dst s1 else Inr s1)
                      else Inr s) (\<lambda>s2.
               rbind (clobber_caller_saved dc s2) (\<lambda>s3.
               if dst \<noteq> 0 \<and> n > 0 then rax_from_mem dc dst s3 else Inr s3))))"

definition union_bytes :: "ADDRINT \<Rightarrow> nat \<Rightarrow> tag_t \<times> 'a engine_scheme \<Rightarrow> (tag_t \<times> 'a engine_scheme) res" where
  "union_bytes p n =
     for_upto n (\<lambda>i (accum, s). rbind (mem_rd (p + of_nat i) s) (\<lambda>t. combine_tags accum t s))"

fun union_srcs :: "dr_env \<Rightarrow> ADDRINT list \<Rightarrow> Ref \<Rightarrow> int list \<Rightarrow> tag_t \<times> 'a engine_scheme \<Rightarrow> (tag_t \<times> 'a engine_scheme) res" where
  "union_srcs E av lenref [] st = Inr st"
| "union_srcs E av lenref (i # is) st =
     (if i < 0 \<or> i > 5 then union_srcs E av lenref is st
      else
        let p = av ! nat i
        in if p = 0 then union_srcs E av lenref is st
           else rbind (union_bytes p (unat (capped_len E lenref av p)) st) (union_srcs E av lenref is))"

definition handle_prop_ptr2val :: "dr_env \<Rightarrow> nat \<Rightarrow> ADDRINT list \<Rightarrow> Summary \<Rightarrow> 'a engine_scheme \<Rightarrow> 'a engine_scheme res" where
  "handle_prop_ptr2val E dc av sm s =
     rbind (union_srcs E av (sum_len sm) (sum_src sm) (cleared_val, s)) (\<lambda>(accum, s1).
     rbind (clobber_caller_saved dc s1) (rax_set_all dc accum))"

definition union_row :: "nat \<Rightarrow> nat \<Rightarrow> tag_t \<times> 'a engine_scheme \<Rightarrow> (tag_t \<times> 'a engine_scheme) res" where
  "union_row dc row =
     for_upto 8 (\<lambda>b (accum, s). rbind (gpr_rd dc row b s) (\<lambda>t. combine_tags accum t s))"

fun union_args :: "nat \<Rightarrow> int list \<Rightarrow> tag_t \<times> 'a engine_scheme \<Rightarrow> (tag_t \<times> 'a engine_scheme) res" where
  "union_args dc [] st = Inr st"
| "union_args dc (a # as) st =
     (let reg = arg_to_reg a
      in if reg < 0 then union_args dc as st else rbind (union_row dc (nat reg) st) (union_args dc as))"

definition handle_prop_scalar :: "nat \<Rightarrow> Summary \<Rightarrow> 'a engine_scheme \<Rightarrow> 'a engine_scheme res" where
  "handle_prop_scalar dc sm s =
     rbind (union_args dc (sum_args sm) (cleared_val, s)) (\<lambda>(accum, s1).
     rbind (clobber_caller_saved dc s1) (rax_set_all dc accum))"

section \<open>Dispatch\<close>

definition sdft_dispatch :: "dr_env \<Rightarrow> nat \<Rightarrow> ADDRINT list \<Rightarrow> Summary \<Rightarrow> 'a engine_scheme \<Rightarrow> 'a engine_scheme res" where
  "sdft_dispatch E dc av sm s =
     (case sum_shape sm of
        SHAPE_SOURCE \<Rightarrow> handle_clobber dc s
      | SHAPE_SOURCE_RET_PTR \<Rightarrow> handle_clobber dc s
      | SHAPE_CLOBBER_ONLY \<Rightarrow> handle_clobber dc s
      | SHAPE_PROP_PTR2PTR \<Rightarrow> handle_prop_ptr2ptr E dc av sm s
      | SHAPE_PROP_PTR2VAL \<Rightarrow> handle_prop_ptr2val E dc av sm s
      | SHAPE_PROP_SCALAR \<Rightarrow> handle_prop_scalar dc sm s
      | SHAPE_INVALID \<Rightarrow> Inr s)"

definition count_call :: "Summary \<Rightarrow> 'a dft_state_scheme \<Rightarrow> 'a dft_state_scheme" where
  "count_call sm s =
     s\<lparr>s_calls_per_shape := (s_calls_per_shape s)(sum_shape sm := s_calls_per_shape s (sum_shape sm) + 1)\<rparr>"

text \<open>The callback at the entry of a wrapped function; \<open>args\<close> is \<^verbatim>\<open>drwrap_get_arg\<close>, \<open>user_data\<close> the summary.\<close>

definition sdft_pre :: "dr_env \<Rightarrow> (nat \<Rightarrow> ADDRINT) \<Rightarrow> Summary option \<Rightarrow> 'a dft_state_scheme \<Rightarrow> 'a dft_state_scheme res" where
  "sdft_pre E args user_data s =
     (case user_data of
        None \<Rightarrow> Inr s
      | Some sm \<Rightarrow>
          (case libdft_get_thread_ctx (cur_drcontext E) s of
             None \<Rightarrow> Inr s
           | Some tc \<Rightarrow> sdft_dispatch E (cur_drcontext E) (map args [0..<6]) sm (count_call sm s)))"

section \<open>Symbols of a module\<close>

record sym_info =
  sym_ok :: bool
  sym_name :: string
  start_offs :: UINT64
  end_offs :: UINT64

text \<open>\<open>proc_address\<close> is \<^verbatim>\<open>dr_get_proc_address\<close> for the module that is enumerated.\<close>

definition enum_sym_cb :: "ADDRINT \<Rightarrow> (string \<Rightarrow> ADDRINT option) \<Rightarrow> sym_info \<Rightarrow> 'a dft_state_scheme \<Rightarrow> 'a dft_state_scheme" where
  "enum_sym_cb base proc_address info s =
     (if \<not> sym_ok info then s
      else if sym_name info = [] then s
      else
        case sdft_find (sym_name info) (sdft s) of
          None \<Rightarrow> s
        | Some sm \<Rightarrow>
            let symtab_pc = base + start_offs info;
                func_pc = (case proc_address (sym_name info) of None \<Rightarrow> symtab_pc | Some r \<Rightarrow> r)
            in if func_pc \<in> s_wrapped s then s
               else
                 let s1 = s\<lparr>s_wrapped := insert func_pc (s_wrapped s), s_intercepted_rtns := s_intercepted_rtns s + 1\<rparr>;
                     s2 = (if func_pc = symtab_pc then
                             (if end_offs info > start_offs info
                              then s1\<lparr>mnt := add_rtn_range func_pc (base + end_offs info) (mnt s1)\<rparr>
                              else s1)
                           else s1\<lparr>s_ifunc_resolved := s_ifunc_resolved s1 + 1\<rparr>)
                 in s2\<lparr>dr_wraps := dr_wraps s2 @ [(func_pc, sm)]\<rparr>)"

text \<open>\<open>internal\<close> says whether an address belongs to DynamoRIO or to the client itself.\<close>

definition sdft_event_module_load ::
  "(ADDRINT \<Rightarrow> bool) \<Rightarrow> (string \<Rightarrow> ADDRINT option) \<Rightarrow> (string \<Rightarrow> sym_info list) \<Rightarrow> module_data \<Rightarrow> 'a dft_state_scheme \<Rightarrow> 'a dft_state_scheme" where
  "sdft_event_module_load internal proc_address symbols info s =
     (case full_path info of
        None \<Rightarrow> s
      | Some path \<Rightarrow>
          if path = [] \<or> internal (mod_start info) then s
          else fold (enum_sym_cb (mod_start info) proc_address) (symbols path) s)"

text \<open>\<open>drsym_ok\<close> says whether \<^verbatim>\<open>drsym_init\<close> succeeds. The result is 0 for success.\<close>

definition sdft_init :: "bool \<Rightarrow> (string \<Rightarrow> string option) \<Rightarrow> string \<Rightarrow> 'a dft_state_scheme \<Rightarrow> int \<times> 'a dft_state_scheme" where
  "sdft_init drsym_ok fs conf_path s =
     (if \<not> drsym_ok then (1, s)
      else
        case sdft_load fs conf_path (sdft s) of
          (False, d) \<Rightarrow> (1, s\<lparr>sdft := d\<rparr>)
        | (True, d) \<Rightarrow> (0, s\<lparr>sdft := d, s_active := True\<rparr>))"

definition sdft_shutdown :: "'a dft_state_scheme \<Rightarrow> 'a dft_state_scheme" where
  "sdft_shutdown s = (if \<not> s_active s then s else s\<lparr>s_active := False\<rparr>)"

end
