(* ===== verification/Handlers.thy ===== *)
theory Handlers
  imports Engine
begin

text \<open>
  The propagation handlers of \<^verbatim>\<open>src/libdft_core_dr.cpp\<close> (the targets of the clean calls), in the
  order of the source. Rows, starts and lengths are naturals; addresses are 64-bit words and wrap
  around. A handler of a thread without a context does nothing, as in the source; \<open>with_tc\<close> is that
  early return.
\<close>

section \<open>Moves\<close>

definition with_tc :: "dr_env \<Rightarrow> (nat \<Rightarrow> 'a engine_scheme \<Rightarrow> 'a engine_scheme res) \<Rightarrow> 'a engine_scheme \<Rightarrow> 'a engine_scheme res" where
  "with_tc E f s =
     (case libdft_get_thread_ctx (cur_drcontext E) s of
        None \<Rightarrow> Inr s
      | Some tc \<Rightarrow> f (cur_drcontext E) s)"

definition r2r_xfer :: "dr_env \<Rightarrow> nat \<Rightarrow> nat \<Rightarrow> nat \<Rightarrow> nat \<Rightarrow> nat \<Rightarrow> 'a engine_scheme \<Rightarrow> 'a engine_scheme res" where
  "r2r_xfer E dst_row dst_start src_row src_start n =
     with_tc E (\<lambda>dc. for_upto n (\<lambda>i s.
       rbind (gpr_rd dc src_row (src_start + i) s) (\<lambda>t. gpr_wr dc dst_row (dst_start + i) t s)))"

definition r_clr :: "dr_env \<Rightarrow> nat \<Rightarrow> nat \<Rightarrow> nat \<Rightarrow> 'a engine_scheme \<Rightarrow> 'a engine_scheme res" where
  "r_clr E row start n =
     with_tc E (\<lambda>dc. for_upto n (\<lambda>i. gpr_wr dc row (start + i) cleared_val))"

definition mov_m2r :: "dr_env \<Rightarrow> nat \<Rightarrow> nat \<Rightarrow> ADDRINT \<Rightarrow> nat \<Rightarrow> 'a engine_scheme \<Rightarrow> 'a engine_scheme res" where
  "mov_m2r E row start addr n =
     with_tc E (\<lambda>dc. for_upto n (\<lambda>i s.
       rbind (mem_rd (addr + of_nat i) s) (\<lambda>t. gpr_wr dc row (start + i) t s)))"

definition mov_r2m :: "dr_env \<Rightarrow> ADDRINT \<Rightarrow> nat \<Rightarrow> nat \<Rightarrow> nat \<Rightarrow> 'a engine_scheme \<Rightarrow> 'a engine_scheme res" where
  "mov_r2m E addr row start n =
     with_tc E (\<lambda>dc. for_upto n (\<lambda>i s.
       rbind (gpr_rd dc row (start + i) s) (\<lambda>t. Inr (mem_wr (addr + of_nat i) t s))))"

definition mov_clr_mem :: "ADDRINT \<Rightarrow> UINT32 \<Rightarrow> 'a engine_scheme \<Rightarrow> 'a engine_scheme res" where
  "mov_clr_mem addr n s = Inr (s\<lparr>tag_dir := file_tagmap_clrn addr n (tag_dir s)\<rparr>)"

definition m2m_xfer :: "ADDRINT \<Rightarrow> ADDRINT \<Rightarrow> nat \<Rightarrow> 'a engine_scheme \<Rightarrow> 'a engine_scheme res" where
  "m2m_xfer dst_addr src_addr n =
     for_upto n (\<lambda>i s.
       rbind (mem_rd (src_addr + of_nat i) s) (\<lambda>t. Inr (mem_wr (dst_addr + of_nat i) t s)))"

section \<open>One-operand multiply and divide\<close>

text \<open>One byte: combine the tag t into the cell (row, b).\<close>

definition combine_into :: "nat \<Rightarrow> nat \<Rightarrow> nat \<Rightarrow> tag_t \<Rightarrow> 'a engine_scheme \<Rightarrow> 'a engine_scheme res" where
  "combine_into dc row b t s =
     rbind (gpr_rd dc row b s) (\<lambda>cur.
     rbind (combine_tags cur t s) (\<lambda>(u, s1). gpr_wr dc row b u s1))"

definition ternary_combine :: "nat \<Rightarrow> tag_t list \<Rightarrow> nat \<Rightarrow> 'a engine_scheme \<Rightarrow> 'a engine_scheme res" where
  "ternary_combine dc src n s =
     (if n = 1 then
        rbind (vec_get 0 src) (\<lambda>t.
        rbind (combine_into dc DFT_REG_RAX 0 t s) (combine_into dc DFT_REG_RAX 1 t))
      else
        for_upto n (\<lambda>i s.
          rbind (vec_get i src) (\<lambda>t.
          rbind (combine_into dc DFT_REG_RDX i t s) (combine_into dc DFT_REG_RAX i t))) s)"

text \<open>\<^verbatim>\<open>tag_t src[8]\<close> filled by a loop that stops at n or 8, whichever is first.\<close>

definition ternary_r2r :: "dr_env \<Rightarrow> nat \<Rightarrow> nat \<Rightarrow> nat \<Rightarrow> 'a engine_scheme \<Rightarrow> 'a engine_scheme res" where
  "ternary_r2r E s_row s_start n =
     with_tc E (\<lambda>dc s.
       rbind (fill_tags (min n 8) (\<lambda>i. gpr_rd dc s_row (s_start + i) s)) (\<lambda>src. ternary_combine dc src n s))"

definition ternary_m2r :: "dr_env \<Rightarrow> ADDRINT \<Rightarrow> nat \<Rightarrow> 'a engine_scheme \<Rightarrow> 'a engine_scheme res" where
  "ternary_m2r E addr n =
     with_tc E (\<lambda>dc s.
       rbind (fill_tags (min n 8) (\<lambda>i. mem_rd (addr + of_nat i) s)) (\<lambda>src. ternary_combine dc src n s))"

section \<open>Exchange\<close>

definition xchg_r2r :: "dr_env \<Rightarrow> nat \<Rightarrow> nat \<Rightarrow> nat \<Rightarrow> nat \<Rightarrow> nat \<Rightarrow> 'a engine_scheme \<Rightarrow> 'a engine_scheme res" where
  "xchg_r2r E a_row a_start b_row b_start n =
     with_tc E (\<lambda>dc. for_upto n (\<lambda>i s.
       rbind (gpr_rd dc a_row (a_start + i) s) (\<lambda>t.
       rbind (gpr_rd dc b_row (b_start + i) s) (\<lambda>u.
       rbind (gpr_wr dc a_row (a_start + i) u s) (gpr_wr dc b_row (b_start + i) t)))))"

definition xchg_m2r :: "dr_env \<Rightarrow> ADDRINT \<Rightarrow> nat \<Rightarrow> nat \<Rightarrow> nat \<Rightarrow> 'a engine_scheme \<Rightarrow> 'a engine_scheme res" where
  "xchg_m2r E addr row start n =
     with_tc E (\<lambda>dc. for_upto n (\<lambda>i s.
       rbind (gpr_rd dc row (start + i) s) (\<lambda>r.
       rbind (mem_rd (addr + of_nat i) s) (\<lambda>t.
       rbind (gpr_wr dc row (start + i) t s) (\<lambda>s1. Inr (mem_wr (addr + of_nat i) r s1))))))"

section \<open>Conditional moves\<close>

text \<open>The predicates of DynamoRIO that the switch names; \<open>PRED_OTHER\<close> is its default case.\<close>

datatype dr_pred_type =
    DR_PRED_O | DR_PRED_NO | DR_PRED_B | DR_PRED_NB | DR_PRED_Z | DR_PRED_NZ | DR_PRED_BE
  | DR_PRED_NBE | DR_PRED_S | DR_PRED_NS | DR_PRED_P | DR_PRED_NP | DR_PRED_L | DR_PRED_NL
  | DR_PRED_LE | DR_PRED_NLE | PRED_OTHER

definition cond_triggered :: "dr_pred_type \<Rightarrow> UINT64 \<Rightarrow> bool" where
  "cond_triggered pred flags =
     (let cf = bit flags 0; pf = bit flags 2; zf = bit flags 6; sf = bit flags 7; ovf = bit flags 11 in
      case pred of
        DR_PRED_O \<Rightarrow> ovf
      | DR_PRED_NO \<Rightarrow> \<not> ovf
      | DR_PRED_B \<Rightarrow> cf
      | DR_PRED_NB \<Rightarrow> \<not> cf
      | DR_PRED_Z \<Rightarrow> zf
      | DR_PRED_NZ \<Rightarrow> \<not> zf
      | DR_PRED_BE \<Rightarrow> cf \<or> zf
      | DR_PRED_NBE \<Rightarrow> \<not> cf \<and> \<not> zf
      | DR_PRED_S \<Rightarrow> sf
      | DR_PRED_NS \<Rightarrow> \<not> sf
      | DR_PRED_P \<Rightarrow> pf
      | DR_PRED_NP \<Rightarrow> \<not> pf
      | DR_PRED_L \<Rightarrow> sf \<noteq> ovf
      | DR_PRED_NL \<Rightarrow> sf = ovf
      | DR_PRED_LE \<Rightarrow> zf \<or> sf \<noteq> ovf
      | DR_PRED_NLE \<Rightarrow> \<not> zf \<and> sf = ovf
      | PRED_OTHER \<Rightarrow> False)"

definition cmov_taken :: "dr_env \<Rightarrow> dr_pred_type \<Rightarrow> bool" where
  "cmov_taken E pred = cond_triggered pred (xflags E)"

definition cmov_r2r :: "dr_env \<Rightarrow> dr_pred_type \<Rightarrow> nat \<Rightarrow> nat \<Rightarrow> nat \<Rightarrow> nat \<Rightarrow> nat \<Rightarrow> 'a engine_scheme \<Rightarrow> 'a engine_scheme res" where
  "cmov_r2r E pred d_row d_start s_row s_start n s =
     (if \<not> cmov_taken E pred then Inr s
      else with_tc E (\<lambda>dc. for_upto n (\<lambda>i s.
        rbind (gpr_rd dc s_row (s_start + i) s) (\<lambda>t. gpr_wr dc d_row (d_start + i) t s))) s)"

definition cmov_m2r :: "dr_env \<Rightarrow> dr_pred_type \<Rightarrow> nat \<Rightarrow> nat \<Rightarrow> ADDRINT \<Rightarrow> nat \<Rightarrow> 'a engine_scheme \<Rightarrow> 'a engine_scheme res" where
  "cmov_m2r E pred d_row d_start addr n s =
     (if \<not> cmov_taken E pred then Inr s
      else with_tc E (\<lambda>dc. for_upto n (\<lambda>i s.
        rbind (mem_rd (addr + of_nat i) s) (\<lambda>t. gpr_wr dc d_row (d_start + i) t s))) s)"

section \<open>Binary operations\<close>

definition binary_r2r :: "dr_env \<Rightarrow> nat \<Rightarrow> nat \<Rightarrow> nat \<Rightarrow> nat \<Rightarrow> nat \<Rightarrow> 'a engine_scheme \<Rightarrow> 'a engine_scheme res" where
  "binary_r2r E d_row d_start s_row s_start n =
     with_tc E (\<lambda>dc. for_upto n (\<lambda>i s.
       rbind (gpr_rd dc s_row (s_start + i) s) (\<lambda>t. combine_into dc d_row (d_start + i) t s)))"

definition binary_m2r :: "dr_env \<Rightarrow> nat \<Rightarrow> nat \<Rightarrow> ADDRINT \<Rightarrow> nat \<Rightarrow> 'a engine_scheme \<Rightarrow> 'a engine_scheme res" where
  "binary_m2r E d_row d_start addr n =
     with_tc E (\<lambda>dc. for_upto n (\<lambda>i s.
       rbind (mem_rd (addr + of_nat i) s) (\<lambda>t. combine_into dc d_row (d_start + i) t s)))"

definition binary_r2m :: "dr_env \<Rightarrow> ADDRINT \<Rightarrow> nat \<Rightarrow> nat \<Rightarrow> nat \<Rightarrow> 'a engine_scheme \<Rightarrow> 'a engine_scheme res" where
  "binary_r2m E addr s_row s_start n =
     with_tc E (\<lambda>dc. for_upto n (\<lambda>i s.
       rbind (mem_rd (addr + of_nat i) s) (\<lambda>cur.
       rbind (gpr_rd dc s_row (s_start + i) s) (\<lambda>t.
       rbind (combine_tags cur t s) (\<lambda>(u, s1). Inr (mem_wr (addr + of_nat i) u s1))))))"

section \<open>Extensions\<close>

definition movzx_r2r :: "dr_env \<Rightarrow> nat \<Rightarrow> nat \<Rightarrow> nat \<Rightarrow> nat \<Rightarrow> nat \<Rightarrow> 'a engine_scheme \<Rightarrow> 'a engine_scheme res" where
  "movzx_r2r E d_row s_row s_start srcn dstn =
     with_tc E (\<lambda>dc s.
       rbind (for_upto srcn (\<lambda>i s. rbind (gpr_rd dc s_row (s_start + i) s) (\<lambda>t. gpr_wr dc d_row i t s)) s)
         (for_loop srcn (dstn - srcn) (\<lambda>i. gpr_wr dc d_row i cleared_val)))"

definition movzx_m2r :: "dr_env \<Rightarrow> nat \<Rightarrow> ADDRINT \<Rightarrow> nat \<Rightarrow> nat \<Rightarrow> 'a engine_scheme \<Rightarrow> 'a engine_scheme res" where
  "movzx_m2r E d_row addr srcn dstn =
     with_tc E (\<lambda>dc s.
       rbind (for_upto srcn (\<lambda>i s. rbind (mem_rd (addr + of_nat i) s) (\<lambda>t. gpr_wr dc d_row i t s)) s)
         (for_loop srcn (dstn - srcn) (\<lambda>i. gpr_wr dc d_row i cleared_val)))"

definition movsx_r2r :: "dr_env \<Rightarrow> nat \<Rightarrow> nat \<Rightarrow> nat \<Rightarrow> nat \<Rightarrow> nat \<Rightarrow> 'a engine_scheme \<Rightarrow> 'a engine_scheme res" where
  "movsx_r2r E d_row s_row s_start srcn dstn =
     with_tc E (\<lambda>dc s.
       if srcn = 0 then Inr s
       else
         rbind (for_upto srcn (\<lambda>i s. rbind (gpr_rd dc s_row (s_start + i) s) (\<lambda>t. gpr_wr dc d_row i t s)) s)
           (\<lambda>s1. rbind (gpr_rd dc s_row (s_start + srcn - 1) s1) (\<lambda>sign.
              for_loop srcn (dstn - srcn) (\<lambda>i. gpr_wr dc d_row i sign) s1)))"

definition movsx_m2r :: "dr_env \<Rightarrow> nat \<Rightarrow> ADDRINT \<Rightarrow> nat \<Rightarrow> nat \<Rightarrow> 'a engine_scheme \<Rightarrow> 'a engine_scheme res" where
  "movsx_m2r E d_row addr srcn dstn =
     with_tc E (\<lambda>dc s.
       if srcn = 0 then Inr s
       else
         rbind (for_upto srcn (\<lambda>i s. rbind (mem_rd (addr + of_nat i) s) (\<lambda>t. gpr_wr dc d_row i t s)) s)
           (\<lambda>s1. rbind (mem_rd (addr + of_nat srcn - 1) s1) (\<lambda>sign.
              for_loop srcn (dstn - srcn) (\<lambda>i. gpr_wr dc d_row i sign) s1)))"

section \<open>Load effective address\<close>

definition lea_fields :: "nat \<Rightarrow> tag_t list \<Rightarrow> 'a engine_scheme \<Rightarrow> string list res" where
  "lea_fields sz idx_tags s =
     for_upto sz (\<lambda>i fs. rbind (vec_get i idx_tags) (\<lambda>t. vec_set (i + 2) (tag_sprint t (tables s)) fs))
       ((replicate 10 ''{}'')[0 := int2str (int sz * 8), 1 := ''baseidx''])"

definition lea_prop :: "dr_env \<Rightarrow> UINT64 \<Rightarrow> nat \<Rightarrow> nat \<Rightarrow> nat \<Rightarrow> nat \<Rightarrow> nat \<Rightarrow> nat \<Rightarrow> 'a engine_scheme \<Rightarrow> 'a engine_scheme res" where
  "lea_prop E ins dst_row base_row base_start idx_row idx_start sz =
     with_tc E (\<lambda>dc s.
       rbind (fill_reg_tags dc idx_row idx_start sz s) (\<lambda>idx_tags.
       rbind (lea_fields sz idx_tags s) (\<lambda>fs.
         for_upto sz (\<lambda>i s.
           rbind (gpr_rd dc base_row (base_start + i) s) (\<lambda>b.
           rbind (gpr_rd dc idx_row (idx_start + i) s) (\<lambda>x.
           rbind (combine_tags b x s) (\<lambda>(u, s1). gpr_wr dc dst_row i u s1))))
           (if list_ex tag_count idx_tags then emit_lea fs ins idx_tags s else s))))"

section \<open>Comparisons\<close>

text \<open>
  The loop that fills the tag fields of a record: field 2 is the instruction address, set when the
  first tainted byte is met; \<open>fl\<close> remembers it. The source sets field 2 once in some places and at
  every tainted byte in others, to the same value.
\<close>

definition mark_once :: "UINT64 \<Rightarrow> bool \<Rightarrow> bool \<times> string list \<Rightarrow> (bool \<times> string list) res" where
  "mark_once ins tainted st =
     (case st of (fl, fs) \<Rightarrow>
        if tainted \<and> \<not> fl then rbind (vec_set 2 (hexstr_u ins) fs) (\<lambda>fs'. Inr (True, fs')) else Inr (fl, fs))"

definition mark_always :: "UINT64 \<Rightarrow> bool \<Rightarrow> bool \<times> string list \<Rightarrow> (bool \<times> string list) res" where
  "mark_always ins tainted st =
     (case st of (fl, fs) \<Rightarrow>
        if tainted then rbind (vec_set 2 (hexstr_u ins) fs) (\<lambda>fs'. Inr (True, fs')) else Inr (fl, fs))"

definition put_field :: "nat \<Rightarrow> string \<Rightarrow> bool \<times> string list \<Rightarrow> (bool \<times> string list) res" where
  "put_field i v st = rbind (vec_set i v (snd st)) (\<lambda>fs'. Inr (fst st, fs'))"

definition no_fields :: "string list" where
  "no_fields = replicate 21 ''{}''"

text \<open>
  The two operands: \<open>mark\<close> is the marking of the source operand, \<open>interesting\<close> the test of a byte.
\<close>

definition cmp_fields2 ::
  "UINT64 \<Rightarrow> (UINT64 \<Rightarrow> bool \<Rightarrow> bool \<times> string list \<Rightarrow> (bool \<times> string list) res) \<Rightarrow> (tag_t \<Rightarrow> bool) \<Rightarrow>
   nat \<Rightarrow> tag_t list \<Rightarrow> tag_t list \<Rightarrow> 'a engine_scheme \<Rightarrow> (bool \<times> string list) res" where
  "cmp_fields2 ins mark interesting sz dest src s =
     for_upto sz (\<lambda>i st.
       rbind (vec_get i dest) (\<lambda>d.
       rbind (mark_once ins (interesting d) st) (\<lambda>st1.
       rbind (put_field (i + 3) (tag_sprint d (tables s)) st1) (\<lambda>st2.
       rbind (vec_get i src) (\<lambda>t.
       rbind (mark ins (interesting t) st2) (\<lambda>st3.
         put_field (i + 11) (tag_sprint t (tables s)) st3)))))) (False, no_fields)"

definition cmp_fields1 :: "UINT64 \<Rightarrow> nat \<Rightarrow> tag_t list \<Rightarrow> 'a engine_scheme \<Rightarrow> (bool \<times> string list) res" where
  "cmp_fields1 ins sz dest s =
     for_upto sz (\<lambda>i st.
       rbind (vec_get i dest) (\<lambda>d.
       rbind (mark_once ins (tag_count d) st) (put_field (i + 3) (tag_sprint d (tables s)))))
       (False, no_fields)"

text \<open>The switch on the size that prints the two values at the width of the operands.\<close>

definition val_fields :: "nat \<Rightarrow> UINT64 \<Rightarrow> UINT64 \<Rightarrow> string list \<Rightarrow> string list" where
  "val_fields sz dval sval fs =
     (if sz = 8 then fs[19 := hexstr_u dval, 20 := hexstr_u sval]
      else if sz = 4 then fs[19 := hexstr_u (take_bit 32 dval), 20 := hexstr_u (take_bit 32 sval)]
      else if sz = 2 then fs[19 := hexstr_u (take_bit 16 dval), 20 := hexstr_u (take_bit 16 sval)]
      else if sz = 1 then fs[19 := hexstr_u (take_bit 8 dval), 20 := hexstr_u (take_bit 8 sval)]
      else fs)"

text \<open>The switches where the 8-byte case prints 32 bits.\<close>

definition val_fields32 :: "nat \<Rightarrow> UINT64 \<Rightarrow> UINT64 \<Rightarrow> string list \<Rightarrow> string list" where
  "val_fields32 sz dval sval fs = val_fields (if sz = 8 then 4 else sz) dval sval fs"

definition cmp_r2r :: "dr_env \<Rightarrow> UINT64 \<Rightarrow> nat \<Rightarrow> nat \<Rightarrow> UINT64 \<Rightarrow> nat \<Rightarrow> nat \<Rightarrow> UINT64 \<Rightarrow> nat \<Rightarrow> 'a engine_scheme \<Rightarrow> 'a engine_scheme res" where
  "cmp_r2r E ins d_row d_start dval s_row s_start sval sz =
     with_tc E (\<lambda>dc s.
       rbind (fill_reg_tags dc d_row d_start sz s) (\<lambda>dest.
       rbind (fill_reg_tags dc s_row s_start sz s) (\<lambda>src.
       rbind (cmp_fields2 ins mark_always tag_count sz dest src s) (\<lambda>(fl, fs).
         if fl then
           Inr (emit_cmp ((val_fields sz dval sval fs)[0 := int2str (int sz * 8), 1 := ''reg reg''])
                  ins dest src s)
         else Inr s))))"

definition cmp_m2r :: "dr_env \<Rightarrow> UINT64 \<Rightarrow> nat \<Rightarrow> nat \<Rightarrow> UINT64 \<Rightarrow> ADDRINT \<Rightarrow> nat \<Rightarrow> 'a engine_scheme \<Rightarrow> 'a engine_scheme res" where
  "cmp_m2r E ins d_row d_start dval src_addr sz =
     with_tc E (\<lambda>dc s.
       rbind (fill_reg_tags dc d_row d_start sz s) (\<lambda>dest.
       if \<not> file_tag_testb src_addr then Inr s
       else
         rbind (fill_mem_tags src_addr sz s) (\<lambda>src.
         rbind (cmp_fields2 ins mark_always tag_count sz dest src s) (\<lambda>(fl, fs).
           if fl then
             Inr (emit_cmp ((val_fields sz dval (read_mem_val E src_addr sz) fs)
                    [0 := int2str (int sz * 8), 1 := ''reg mem'']) ins dest src s)
           else Inr s))))"

definition cmp_i2r :: "dr_env \<Rightarrow> UINT64 \<Rightarrow> nat \<Rightarrow> nat \<Rightarrow> UINT64 \<Rightarrow> UINT32 \<Rightarrow> nat \<Rightarrow> 'a engine_scheme \<Rightarrow> 'a engine_scheme res" where
  "cmp_i2r E ins d_row d_start dval imm sz =
     with_tc E (\<lambda>dc s.
       rbind (fill_reg_tags dc d_row d_start sz s) (\<lambda>dest.
       rbind (cmp_fields1 ins sz dest s) (\<lambda>(fl, fs).
         if fl then
           Inr (emit_cmp ((val_fields32 sz dval (ucast imm) fs)
                  [0 := int2str (int sz * 8), 1 := ''reg imm'']) ins dest [] s)
         else Inr s)))"

definition cmp_r2m :: "dr_env \<Rightarrow> UINT64 \<Rightarrow> ADDRINT \<Rightarrow> nat \<Rightarrow> nat \<Rightarrow> UINT64 \<Rightarrow> nat \<Rightarrow> 'a engine_scheme \<Rightarrow> 'a engine_scheme res" where
  "cmp_r2m E ins dest_addr s_row s_start sval sz =
     with_tc E (\<lambda>dc s.
       if \<not> file_tag_testb dest_addr then Inr s
       else
         rbind (fill_mem_tags dest_addr sz s) (\<lambda>dest.
         rbind (fill_reg_tags dc s_row s_start sz s) (\<lambda>src.
         rbind (cmp_fields2 ins mark_once tag_count sz dest src s) (\<lambda>(fl, fs).
           if fl then
             Inr (emit_cmp ((val_fields sz (read_mem_val E dest_addr sz) sval fs)
                    [0 := int2str (int sz * 8), 1 := ''mem reg'']) ins dest src s)
           else Inr s))))"

text \<open>Here the immediate is printed whatever the size is; only the memory value is switched on it.\<close>

definition cmp_i2m :: "dr_env \<Rightarrow> UINT64 \<Rightarrow> ADDRINT \<Rightarrow> UINT32 \<Rightarrow> nat \<Rightarrow> 'a engine_scheme \<Rightarrow> 'a engine_scheme res" where
  "cmp_i2m E ins dest_addr imm sz s =
     (if \<not> file_tag_testb dest_addr then Inr s
      else
        rbind (fill_mem_tags dest_addr sz s) (\<lambda>dest.
        rbind (cmp_fields1 ins sz dest s) (\<lambda>(fl, fs).
          if fl then
            let fs1 = (if sz = 8 \<or> sz = 4 then fs[19 := hexstr_u (take_bit 32 (read_mem_val E dest_addr 4))]
                       else if sz = 2 then fs[19 := hexstr_u (take_bit 16 (read_mem_val E dest_addr 2))]
                       else if sz = 1 then fs[19 := hexstr_u (take_bit 8 (read_mem_val E dest_addr 1))]
                       else fs)
            in Inr (emit_cmp (fs1[20 := hexstr_u (ucast imm), 0 := int2str (int sz * 8), 1 := ''mem imm''])
                 ins dest [] s)
          else Inr s)))"

definition cmp_m2m :: "dr_env \<Rightarrow> UINT64 \<Rightarrow> ADDRINT \<Rightarrow> ADDRINT \<Rightarrow> nat \<Rightarrow> 'a engine_scheme \<Rightarrow> 'a engine_scheme res" where
  "cmp_m2m E ins dest_addr src_addr sz s =
     (if \<not> file_tag_testb dest_addr \<or> \<not> file_tag_testb src_addr then Inr s
      else
        rbind (fill_mem_tags dest_addr sz s) (\<lambda>dest.
        rbind (fill_mem_tags src_addr sz s) (\<lambda>src.
        rbind (cmp_fields2 ins mark_once
                 (\<lambda>t. let k = label_numberOfOnes t (tables s)
                      in k > 0 \<and> ucast k \<le> (of_int (limit_offset s) :: UINT64)) sz dest src s) (\<lambda>(fl, fs).
          if fl then
            let w = (if sz = 8 then 4 else sz) in
            Inr (emit_cmp ((val_fields32 sz (read_mem_val E dest_addr w) (read_mem_val E src_addr w) fs)
                   [0 := int2str (int sz * 8), 1 := ''mem mem'']) ins dest src s)
          else Inr s))))"

section \<open>Shifts\<close>

text \<open>\<^verbatim>\<open>for (i = 1; i < n; i++) u = tag_combine(u, cell(i))\<close>\<close>

definition union_loop :: "nat \<Rightarrow> nat \<Rightarrow> (nat \<Rightarrow> 'a engine_scheme \<Rightarrow> tag_t res) \<Rightarrow> tag_t \<times> 'a engine_scheme \<Rightarrow> (tag_t \<times> 'a engine_scheme) res" where
  "union_loop i k cell st =
     for_loop i k (\<lambda>j (u, s). rbind (cell j s) (\<lambda>t. combine_tags u t s)) st"

definition shift_r :: "dr_env \<Rightarrow> nat \<Rightarrow> nat \<Rightarrow> nat \<Rightarrow> 'a engine_scheme \<Rightarrow> 'a engine_scheme res" where
  "shift_r E d_row d_start n =
     with_tc E (\<lambda>dc s.
       if n = 0 then Inr s
       else
         rbind (gpr_rd dc d_row d_start s) (\<lambda>u0.
         rbind (union_loop 1 (n - 1) (\<lambda>i. gpr_rd dc d_row (d_start + i)) (u0, s)) (\<lambda>(u, s1).
           for_upto n (\<lambda>i. gpr_wr dc d_row (d_start + i) u) s1)))"

definition shift_m :: "ADDRINT \<Rightarrow> nat \<Rightarrow> 'a engine_scheme \<Rightarrow> 'a engine_scheme res" where
  "shift_m addr n s =
     (if n = 0 then Inr s
      else
        rbind (mem_rd addr s) (\<lambda>u0.
        rbind (union_loop 1 (n - 1) (\<lambda>i. mem_rd (addr + of_nat i)) (u0, s)) (\<lambda>(u, s1).
          for_upto n (\<lambda>i s. Inr (mem_wr (addr + of_nat i) u s)) s1)))"

definition shld_r2r :: "dr_env \<Rightarrow> nat \<Rightarrow> nat \<Rightarrow> nat \<Rightarrow> nat \<Rightarrow> nat \<Rightarrow> 'a engine_scheme \<Rightarrow> 'a engine_scheme res" where
  "shld_r2r E d_row d_start s_row s_start n =
     with_tc E (\<lambda>dc s.
       if n = 0 then Inr s
       else
         rbind (gpr_rd dc d_row d_start s) (\<lambda>u0.
         rbind (union_loop 1 (n - 1) (\<lambda>i. gpr_rd dc d_row (d_start + i)) (u0, s)) (\<lambda>st.
         rbind (union_loop 0 n (\<lambda>i. gpr_rd dc s_row (s_start + i)) st) (\<lambda>(u, s1).
           for_upto n (\<lambda>i. gpr_wr dc d_row (d_start + i) u) s1))))"

section \<open>Byte order\<close>

definition bswap_reg :: "dr_env \<Rightarrow> nat \<Rightarrow> nat \<Rightarrow> nat \<Rightarrow> 'a engine_scheme \<Rightarrow> 'a engine_scheme res" where
  "bswap_reg E d_row d_start n =
     with_tc E (\<lambda>dc s.
       if n < 2 then Inr s
       else for_upto (n div 2) (\<lambda>i s.
         rbind (gpr_rd dc d_row (d_start + i) s) (\<lambda>tmp.
         rbind (gpr_rd dc d_row (d_start + n - 1 - i) s) (\<lambda>t.
         rbind (gpr_wr dc d_row (d_start + i) t s) (gpr_wr dc d_row (d_start + n - 1 - i) tmp)))) s)"

definition movbe_m2r :: "dr_env \<Rightarrow> nat \<Rightarrow> nat \<Rightarrow> ADDRINT \<Rightarrow> nat \<Rightarrow> 'a engine_scheme \<Rightarrow> 'a engine_scheme res" where
  "movbe_m2r E d_row d_start addr n =
     with_tc E (\<lambda>dc. for_upto n (\<lambda>i s.
       rbind (mem_rd (addr + of_nat n - 1 - of_nat i) s) (\<lambda>t. gpr_wr dc d_row (d_start + i) t s)))"

definition movbe_r2m :: "dr_env \<Rightarrow> ADDRINT \<Rightarrow> nat \<Rightarrow> nat \<Rightarrow> nat \<Rightarrow> 'a engine_scheme \<Rightarrow> 'a engine_scheme res" where
  "movbe_r2m E addr s_row s_start n =
     with_tc E (\<lambda>dc. for_upto n (\<lambda>i s.
       rbind (gpr_rd dc s_row (s_start + n - 1 - i) s) (\<lambda>t. Inr (mem_wr (addr + of_nat i) t s))))"

section \<open>Compare-and-exchange, exchange-and-add\<close>

definition cmpxchg_mem :: "dr_env \<Rightarrow> ADDRINT \<Rightarrow> nat \<Rightarrow> nat \<Rightarrow> nat \<Rightarrow> nat \<Rightarrow> nat \<Rightarrow> 'a engine_scheme \<Rightarrow> 'a engine_scheme res" where
  "cmpxchg_mem E addr src_row src_start accum_row accum_start n =
     with_tc E (\<lambda>dc. for_upto n (\<lambda>i s.
       rbind (mem_rd (addr + of_nat i) s) (\<lambda>m.
       rbind (gpr_rd dc src_row (src_start + i) s) (\<lambda>t.
       rbind (gpr_rd dc accum_row (accum_start + i) s) (\<lambda>a.
       rbind (combine_tags m t s) (\<lambda>(u, s1).
       rbind (combine_tags u a s1) (\<lambda>(u', s2).
         gpr_wr dc accum_row (accum_start + i) u' (mem_wr (addr + of_nat i) u' s2))))))))"

definition cmpxchg_reg :: "dr_env \<Rightarrow> nat \<Rightarrow> nat \<Rightarrow> nat \<Rightarrow> nat \<Rightarrow> nat \<Rightarrow> nat \<Rightarrow> nat \<Rightarrow> 'a engine_scheme \<Rightarrow> 'a engine_scheme res" where
  "cmpxchg_reg E d_row d_start src_row src_start accum_row accum_start n =
     with_tc E (\<lambda>dc. for_upto n (\<lambda>i s.
       rbind (gpr_rd dc d_row (d_start + i) s) (\<lambda>d.
       rbind (gpr_rd dc src_row (src_start + i) s) (\<lambda>t.
       rbind (gpr_rd dc accum_row (accum_start + i) s) (\<lambda>a.
       rbind (combine_tags d t s) (\<lambda>(u, s1).
       rbind (combine_tags u a s1) (\<lambda>(u', s2).
       rbind (gpr_wr dc d_row (d_start + i) u' s2) (gpr_wr dc accum_row (accum_start + i) u'))))))))"

definition xadd_r2r :: "dr_env \<Rightarrow> nat \<Rightarrow> nat \<Rightarrow> nat \<Rightarrow> nat \<Rightarrow> nat \<Rightarrow> 'a engine_scheme \<Rightarrow> 'a engine_scheme res" where
  "xadd_r2r E d_row d_start s_row s_start n =
     with_tc E (\<lambda>dc. for_upto n (\<lambda>i s.
       rbind (gpr_rd dc d_row (d_start + i) s) (\<lambda>d.
       rbind (gpr_rd dc s_row (s_start + i) s) (\<lambda>t.
       rbind (combine_tags d t s) (\<lambda>(u, s1).
       rbind (gpr_wr dc d_row (d_start + i) u s1) (gpr_wr dc s_row (s_start + i) u))))))"

definition xadd_m2r :: "dr_env \<Rightarrow> ADDRINT \<Rightarrow> nat \<Rightarrow> nat \<Rightarrow> nat \<Rightarrow> 'a engine_scheme \<Rightarrow> 'a engine_scheme res" where
  "xadd_m2r E addr s_row s_start n =
     with_tc E (\<lambda>dc. for_upto n (\<lambda>i s.
       rbind (mem_rd (addr + of_nat i) s) (\<lambda>m.
       rbind (gpr_rd dc s_row (s_start + i) s) (\<lambda>t.
       rbind (combine_tags m t s) (\<lambda>(u, s1).
         gpr_wr dc s_row (s_start + i) u (mem_wr (addr + of_nat i) u s1))))))"

end
