(* ===== verification/Taint.thy ===== *)
theory Taint
  imports Handlers
begin

text \<open>
  The abstract specification of the engine: a set of offsets for every register byte of every
  thread and for every memory byte. The theory gives the abstraction of an engine state, the
  invariant of the engine, and a small calculus that shows, handler by handler, that the loops over
  labels implement parallel assignments of offset sets.
\<close>

section \<open>Abstract taint\<close>

datatype cell = CReg nat nat | CMem ADDRINT

record taint =
  treg :: "nat \<Rightarrow> nat \<Rightarrow> nat \<Rightarrow> nat set"
  tmem :: "ADDRINT \<Rightarrow> nat set"

fun tget :: "nat \<Rightarrow> cell \<Rightarrow> taint \<Rightarrow> nat set" where
  "tget dc (CReg row b) T = treg T dc row b"
| "tget dc (CMem a) T = tmem T a"

text \<open>A byte above the shadowed range has no cell: writing it changes nothing.\<close>

fun tset :: "nat \<Rightarrow> cell \<Rightarrow> nat set \<Rightarrow> taint \<Rightarrow> taint" where
  "tset dc (CReg row b) X T =
     T\<lparr>treg := (treg T)(dc := (treg T dc)(row := (treg T dc row)(b := X)))\<rparr>"
| "tset dc (CMem a) X T = (if file_tag_testb a then T\<lparr>tmem := (tmem T)(a := X)\<rparr> else T)"

text \<open>\<open>assign dc n y v T\<close>: the cells y 0 ... y (n - 1) get the sets v 0 ... v (n - 1).\<close>

definition assign :: "nat \<Rightarrow> nat \<Rightarrow> (nat \<Rightarrow> cell) \<Rightarrow> (nat \<Rightarrow> nat set) \<Rightarrow> taint \<Rightarrow> taint" where
  "assign dc n y v T = fold (\<lambda>i. tset dc (y i) (v i)) [0..<n] T"

fun has_cell :: "cell \<Rightarrow> bool" where
  "has_cell (CReg row b) = True"
| "has_cell (CMem a) = file_tag_testb a"

lemma tget_tset: "tget dc c (tset dc d X T) = (if c = d \<and> has_cell d then X else tget dc c T)"
  by (cases c; cases d) auto

lemma treg_tset_other: "dc' \<noteq> dc \<Longrightarrow> treg (tset dc d X T) dc' = treg T dc'"
  by (cases d) auto

lemma assign_Suc: "assign dc (Suc n) y v T = tset dc (y n) (v n) (assign dc n y v T)"
  by (simp add: assign_def)

lemma assign_0 [simp]: "assign dc 0 y v T = T"
  by (simp add: assign_def)

lemma tget_assign_other: "(\<And>i. i < n \<Longrightarrow> c \<noteq> y i) \<Longrightarrow> tget dc c (assign dc n y v T) = tget dc c T"
  by (induction n) (auto simp: assign_Suc tget_tset)

lemma tget_assign:
  assumes "i < n" "has_cell (y i)" "\<And>j. i < j \<Longrightarrow> j < n \<Longrightarrow> y j \<noteq> y i"
  shows "tget dc (y i) (assign dc n y v T) = v i"
  using assms
proof (induction n)
  case (Suc n)
  show ?case
  proof (cases "i = n")
    case True
    with Suc.prems show ?thesis by (simp add: assign_Suc tget_tset)
  next
    case False
    then have "i < n" using Suc.prems(1) by simp
    moreover have "y i \<noteq> y n" using Suc.prems(3)[of n] \<open>i < n\<close> by auto
    ultimately show ?thesis using Suc by (simp add: assign_Suc tget_tset)
  qed
qed simp

lemma treg_assign_other_thread: "dc' \<noteq> dc \<Longrightarrow> treg (assign dc n y v T) dc' = treg T dc'"
  by (induction n) (auto simp: assign_Suc treg_tset_other)

lemma assign_cong: "(\<And>i. i < n \<Longrightarrow> v i = w i) \<Longrightarrow> assign dc n y v T = assign dc n y w T"
  by (induction n) (auto simp: assign_Suc)

text \<open>
  A loop that writes cell after cell, each value computed from the state so far, is a parallel
  assignment when no iteration reads what an earlier one wrote.
\<close>

lemma fold_tset_assign:
  assumes "\<And>i U. i < n \<Longrightarrow> (\<And>c. (\<And>j. j < i \<Longrightarrow> c \<noteq> y j) \<Longrightarrow> tget dc c U = tget dc c T) \<Longrightarrow> g i U = g i T"
  shows "fold (\<lambda>i U. tset dc (y i) (g i U) U) [0..<n] T = assign dc n y (\<lambda>i. g i T) T"
  using assms
proof (induction n)
  case (Suc n)
  let ?U = "fold (\<lambda>i U. tset dc (y i) (g i U) U) [0..<n] T"
  have IH: "?U = assign dc n y (\<lambda>i. g i T) T" by (rule Suc.IH) (rule Suc.prems, simp_all)
  have eq: "tget dc c ?U = tget dc c T" if "\<And>j. j < n \<Longrightarrow> c \<noteq> y j" for c
    unfolding IH by (rule tget_assign_other) (rule that)
  have "g n ?U = g n T" by (rule Suc.prems) (simp_all add: eq)
  with IH show ?case by (simp add: assign_Suc)
qed simp

section \<open>Abstraction and invariant of an engine state\<close>

definition taint_of :: "'a engine_scheme \<Rightarrow> taint" where
  "taint_of s =
     \<lparr>treg = (\<lambda>dc row b. case libdft_get_thread_ctx dc s of
                None \<Rightarrow> {} | Some tc \<Rightarrow> label_set (tables s) (gpr_file tc row b)),
      tmem = (\<lambda>a. label_set (tables s) (shadow_of (tag_dir s) a))\<rparr>"

text \<open>
  Every label in a register file or in the shadow memory is one of the table, and the spare row
  \<^verbatim>\<open>GRP_NUM\<close>, which stands for a missing base or index register, is clear.
\<close>

definition engine_ok :: "'a engine_scheme \<Rightarrow> bool" where
  "engine_ok s \<longleftrightarrow> tables_ok (tables s)
     \<and> (\<forall>dc tc row b. libdft_get_thread_ctx dc s = Some tc \<longrightarrow>
          valid_tag (tables s) (gpr_file tc row b) \<and> gpr_file tc GRP_NUM b = cleared_val)
     \<and> (\<forall>a. valid_tag (tables s) (shadow_of (tag_dir s) a))"

definition live :: "nat \<Rightarrow> 'a engine_scheme \<Rightarrow> bool" where
  "live dc s = (libdft_get_thread_ctx dc s \<noteq> None)"

text \<open>Everything that a propagation step leaves alone.\<close>

definition side :: "'a engine_scheme \<Rightarrow> _" where
  "side s = (tls_idx s, dom (threads s), out_file s, out_lea_file s, limit_offset s, g_opcode_sinks s, g_pc_ranges s,
     g_pending_func_sinks s, sink_log s, engine.more s)"

text \<open>What leaves the engine: the two files with their limit, and the log of the sinks.\<close>

definition outputs :: "'a engine_scheme \<Rightarrow> _" where
  "outputs s = (out_file s, out_lea_file s, limit_offset s, sink_log s)"

lemma outputs_engine [simp]:
  "outputs (s\<lparr>tables := T\<rparr>) = outputs s" "outputs (s\<lparr>tag_dir := d\<rparr>) = outputs s"
  "outputs (s\<lparr>threads := t\<rparr>) = outputs s" "outputs (s\<lparr>tls_idx := i\<rparr>) = outputs s"
  by (simp_all add: outputs_def)

lemma side_outputs: "side s' = side s \<Longrightarrow> outputs s' = outputs s"
  by (simp add: side_def outputs_def)

section \<open>Cells of the engine\<close>

fun cell_rd :: "nat \<Rightarrow> cell \<Rightarrow> 'a engine_scheme \<Rightarrow> tag_t res" where
  "cell_rd dc (CReg row b) s = gpr_rd dc row b s"
| "cell_rd dc (CMem a) s = mem_rd a s"

fun cell_wr :: "nat \<Rightarrow> cell \<Rightarrow> tag_t \<Rightarrow> 'a engine_scheme \<Rightarrow> 'a engine_scheme res" where
  "cell_wr dc (CReg row b) t s = gpr_wr dc row b t s"
| "cell_wr dc (CMem a) t s = Inr (mem_wr a t s)"

fun readable :: "cell \<Rightarrow> bool" where
  "readable (CReg row b) = (row \<le> GRP_NUM \<and> b < TAGS_PER_GPR)"
| "readable (CMem a) = file_tag_testb a"

fun writable :: "cell \<Rightarrow> bool" where
  "writable (CReg row b) = (row < GRP_NUM \<and> b < TAGS_PER_GPR)"
| "writable (CMem a) = True"

lemma thread_ctx_upd [simp]:
  "libdft_get_thread_ctx dc (s\<lparr>tag_dir := d\<rparr>) = libdft_get_thread_ctx dc s"
  "libdft_get_thread_ctx dc (s\<lparr>tables := T\<rparr>) = libdft_get_thread_ctx dc s"
  by (simp_all add: libdft_get_thread_ctx_def)

lemma cell_rd_ok:
  assumes "engine_ok s" "live dc s" "readable c"
  obtains t where "cell_rd dc c s = Inr t" "valid_tag (tables s) t"
    "label_set (tables s) t = tget dc c (taint_of s)"
proof (cases c)
  case (CReg row b)
  then show ?thesis
    using assms that[of "gpr_file (the (libdft_get_thread_ctx dc s)) row b"]
    by (auto simp: gpr_rd_def live_def engine_ok_def taint_of_def)
next
  case (CMem a)
  then show ?thesis
    using assms that[of "shadow_of (tag_dir s) a"]
    by (auto simp: mem_rd_def engine_ok_def taint_of_def)
qed

lemma gpr_wr_ok:
  assumes "engine_ok s" "live dc s" "row < GRP_NUM" "b < TAGS_PER_GPR" "valid_tag (tables s) t"
  obtains s' where "gpr_wr dc row b t s = Inr s'" "engine_ok s'" "live dc s'" "tables s' = tables s"
    "side s' = side s" "taint_of s' = tset dc (CReg row b) (label_set (tables s) t) (taint_of s)"
proof -
  obtain tc where tc: "libdft_get_thread_ctx dc s = Some tc" using assms(2) by (auto simp: live_def)
  define tc' where "tc' = tc\<lparr>gpr_file := (gpr_file tc)(row := (gpr_file tc row)(b := t))\<rparr>"
  define s' where "s' = s\<lparr>threads := (threads s)(dc \<mapsto> tc')\<rparr>"
  have get: "libdft_get_thread_ctx dc' s' = (if dc' = dc then Some tc' else libdft_get_thread_ctx dc' s)" for dc'
    using tc by (auto simp: s'_def libdft_get_thread_ctx_def split: if_splits)
  have same: "tables s' = tables s" "tag_dir s' = tag_dir s" by (simp_all add: s'_def)
  have tcok: "valid_tag (tables s) (gpr_file tc r x)" "gpr_file tc GRP_NUM x = cleared_val" for r x
    using assms(1) tc by (auto simp: engine_ok_def)
  have "engine_ok s'"
    using assms tcok unfolding engine_ok_def same get by (auto simp: tc'_def)
  moreover have "gpr_wr dc row b t s = Inr s'"
    using tc assms(3,4) by (simp add: gpr_wr_def s'_def tc'_def)
  moreover have "dc \<in> dom (threads s)" using tc by (auto simp: libdft_get_thread_ctx_def split: if_splits)
  then have "side s' = side s" by (simp add: side_def s'_def insert_absorb)
  moreover have "taint_of s' = tset dc (CReg row b) (label_set (tables s) t) (taint_of s)"
    unfolding taint_of_def same get by (auto simp: tc'_def tc fun_eq_iff)
  ultimately show ?thesis using that[of s'] get same by (simp add: live_def)
qed

lemma mem_wr_ok:
  assumes "engine_ok s" "valid_tag (tables s) t"
  shows "engine_ok (mem_wr a t s)" "live dc (mem_wr a t s) = live dc s"
    "tables (mem_wr a t s) = tables s" "side (mem_wr a t s) = side s"
    "taint_of (mem_wr a t s) = tset dc' (CMem a) (label_set (tables s) t) (taint_of s)"
proof -
  show "engine_ok (mem_wr a t s)" using assms by (simp add: engine_ok_def mem_wr_def)
  show "live dc (mem_wr a t s) = live dc s" by (simp add: live_def mem_wr_def)
  show "tables (mem_wr a t s) = tables s" "side (mem_wr a t s) = side s"
    by (simp_all add: mem_wr_def side_def)
  show "taint_of (mem_wr a t s) = tset dc' (CMem a) (label_set (tables s) t) (taint_of s)"
    by (auto simp: taint_of_def mem_wr_def fun_eq_iff split: option.splits)
qed

lemma cell_wr_ok:
  assumes "engine_ok s" "live dc s" "writable c" "valid_tag (tables s) t"
  obtains s' where "cell_wr dc c t s = Inr s'" "engine_ok s'" "live dc s'" "tables s' = tables s"
    "side s' = side s" "taint_of s' = tset dc c (label_set (tables s) t) (taint_of s)"
proof (cases c)
  case (CReg row b)
  with assms gpr_wr_ok[OF assms(1,2), of row b t] that show ?thesis by auto
next
  case (CMem a)
  with assms mem_wr_ok[OF assms(1,4)] that[of "mem_wr a t s"] show ?thesis by auto
qed

text \<open>A table that grows changes no taint.\<close>

lemma engine_ok_grow:
  assumes "engine_ok s" "tables_ok T'" "extends (tables s) T'"
  shows "engine_ok (s\<lparr>tables := T'\<rparr>)" "taint_of (s\<lparr>tables := T'\<rparr>) = taint_of s"
proof -
  have v: "valid_tag T' t" "label_set T' t = label_set (tables s) t" if "valid_tag (tables s) t" for t
    using that assms(3) labels.grows_valid labels.grows_den by blast+
  show "engine_ok (s\<lparr>tables := T'\<rparr>)" using assms(1,2) v by (auto simp: engine_ok_def)
  have "label_set T' (gpr_file tc row b) = label_set (tables s) (gpr_file tc row b)"
    if "libdft_get_thread_ctx dc s = Some tc" for dc tc row b
    using assms(1) that v by (auto simp: engine_ok_def)
  moreover have "label_set T' (shadow_of (tag_dir s) a) = label_set (tables s) (shadow_of (tag_dir s) a)" for a
    using assms(1) v by (auto simp: engine_ok_def)
  ultimately show "taint_of (s\<lparr>tables := T'\<rparr>) = taint_of s"
    by (auto simp: taint_of_def fun_eq_iff split: option.splits)
qed

lemma combine_tags_ok:
  assumes "engine_ok s" "live dc s" "room (Suc k) (tables s)" "valid_tag (tables s) l" "valid_tag (tables s) r"
  obtains u s' where "combine_tags l r s = Inr (u, s')" "engine_ok s'" "live dc s'" "room k (tables s')"
    "side s' = side s" "taint_of s' = taint_of s" "extends (tables s) (tables s')"
    "valid_tag (tables s') u" "label_set (tables s') u = label_set (tables s) l \<union> label_set (tables s) r"
proof -
  have "tables_ok (tables s)" using assms(1) by (simp add: engine_ok_def)
  from labels.combine_law[OF this assms(3-5)] obtain c T'
    where T: "tag_combine l r (tables s) = Inr (c, T')" "tables_ok T'" "room k T'" "extends (tables s) T'"
      "valid_tag T' c" "label_set T' c = label_set (tables s) l \<union> label_set (tables s) r" by blast
  show ?thesis
    using that[of c "s\<lparr>tables := T'\<rparr>"] T engine_ok_grow[OF assms(1) T(2,4)] assms(2)
    by (simp add: combine_tags_def live_def side_def)
qed

section \<open>Refinement of steps and loops\<close>

text \<open>
  \<open>refines dc f c g\<close>: from a well-formed state with c fresh labels left, the step f of thread dc
  does not fault, keeps the invariant and everything beside the taint, uses at most c fresh labels,
  and changes the taint as g says.
\<close>

definition refines :: "nat \<Rightarrow> ('a engine_scheme \<Rightarrow> 'a engine_scheme res) \<Rightarrow> nat \<Rightarrow> (taint \<Rightarrow> taint) \<Rightarrow> bool" where
  "refines dc f c g \<longleftrightarrow>
     (\<forall>s k. engine_ok s \<and> live dc s \<and> room (c + k) (tables s) \<longrightarrow>
        (\<exists>s'. f s = Inr s' \<and> engine_ok s' \<and> live dc s' \<and> room k (tables s') \<and> side s' = side s
              \<and> taint_of s' = g (taint_of s) \<and> extends (tables s) (tables s')))"

lemma refinesI:
  assumes "\<And>s k. engine_ok s \<Longrightarrow> live dc s \<Longrightarrow> room (c + k) (tables s) \<Longrightarrow>
     \<exists>s'. f s = Inr s' \<and> engine_ok s' \<and> live dc s' \<and> room k (tables s') \<and> side s' = side s
        \<and> taint_of s' = g (taint_of s) \<and> extends (tables s) (tables s')"
  shows "refines dc f c g"
  using assms by (simp add: refines_def)

lemma refinesD:
  assumes "refines dc f c g" "engine_ok s" "live dc s" "room (c + k) (tables s)"
  obtains s' where "f s = Inr s'" "engine_ok s'" "live dc s'" "room k (tables s')" "side s' = side s"
    "taint_of s' = g (taint_of s)" "extends (tables s) (tables s')"
  using assms unfolding refines_def by blast

lemma refines_skip: "refines dc Inr 0 (\<lambda>T. T)"
  by (rule refinesI) auto

lemma refines_seq:
  assumes "refines dc f c g" "refines dc f' c' g'"
  shows "refines dc (\<lambda>s. rbind (f s) f') (c + c') (\<lambda>T. g' (g T))"
proof (rule refinesI)
  fix s :: "'a engine_scheme" and k
  assume "engine_ok s" "live dc s" "room (c + c' + k) (tables s)"
  then obtain s1 where 1: "f s = Inr s1" "engine_ok s1" "live dc s1" "room (c' + k) (tables s1)"
    "side s1 = side s" "taint_of s1 = g (taint_of s)" "extends (tables s) (tables s1)"
    using refinesD[OF assms(1), of s "c' + k"] by (auto simp: add.assoc)
  then obtain s2 where "f' s1 = Inr s2" "engine_ok s2" "live dc s2" "room k (tables s2)"
    "side s2 = side s1" "taint_of s2 = g' (taint_of s1)" "extends (tables s1) (tables s2)"
    using refinesD[OF assms(2), of s1 k] by auto
  with 1 extends_trans[OF 1(7)] show "\<exists>s'. rbind (f s) f' = Inr s' \<and> engine_ok s' \<and> live dc s' \<and> room k (tables s')
     \<and> side s' = side s \<and> taint_of s' = g' (g (taint_of s)) \<and> extends (tables s) (tables s')" by auto
qed

lemma refines_cost: "refines dc f c g \<Longrightarrow> c \<le> c' \<Longrightarrow> refines dc f c' g"
  unfolding refines_def room_def by (meson add_le_mono le_refl le_trans add_left_mono)

lemma refines_loop:
  assumes "\<And>i. i0 \<le> i \<Longrightarrow> i < i0 + n \<Longrightarrow> refines dc (f i) c (g i)"
  shows "refines dc (for_loop i0 n f) (n * c) (fold g [i0..<i0 + n])"
  using assms
proof (induction n)
  case 0
  then show ?case using refines_skip by (simp add: refines_def)
next
  case (Suc n)
  have "refines dc (\<lambda>s. rbind (for_loop i0 n f s) (f (i0 + n))) (n * c + c) (\<lambda>T. g (i0 + n) (fold g [i0..<i0 + n] T))"
    using Suc by (intro refines_seq) auto
  moreover have "for_loop i0 (Suc n) f = (\<lambda>s. rbind (for_loop i0 n f s) (f (i0 + n)))"
    by (rule ext) (rule for_loop_Suc_right)
  moreover have "fold g [i0..<i0 + Suc n] = (\<lambda>T. g (i0 + n) (fold g [i0..<i0 + n] T))"
    by (rule ext) simp
  ultimately show ?case by (simp add: add.commute)
qed

lemma refines_upto:
  assumes "\<And>i. i < n \<Longrightarrow> refines dc (f i) c (g i)"
  shows "refines dc (for_upto n f) (n * c) (fold g [0..<n])"
proof -
  have "for_upto n f = for_loop 0 n f" by (rule ext) (simp add: for_upto_def)
  then show ?thesis using refines_loop[of 0 n dc f c g] assms by simp
qed

text \<open>The bodies of the loops: single cells copied, set, exchanged, combined.\<close>

lemma refines_copy:
  assumes "readable x" "writable y"
  shows "refines dc (\<lambda>s. rbind (cell_rd dc x s) (\<lambda>t. cell_wr dc y t s)) 0 (\<lambda>T. tset dc y (tget dc x T) T)"
proof (rule refinesI)
  fix s :: "'a engine_scheme" and k
  assume s: "engine_ok s" "live dc s" "room (0 + k) (tables s)"
  obtain t where t: "cell_rd dc x s = Inr t" "valid_tag (tables s) t"
    "label_set (tables s) t = tget dc x (taint_of s)" using cell_rd_ok[OF s(1,2) assms(1)] .
  obtain s' where "cell_wr dc y t s = Inr s'" "engine_ok s'" "live dc s'" "tables s' = tables s"
    "side s' = side s" "taint_of s' = tset dc y (label_set (tables s) t) (taint_of s)"
    using cell_wr_ok[OF s(1,2) assms(2) t(2)] .
  with s t show "\<exists>s'. rbind (cell_rd dc x s) (\<lambda>t. cell_wr dc y t s) = Inr s' \<and> engine_ok s' \<and> live dc s'
     \<and> room k (tables s') \<and> side s' = side s \<and> taint_of s' = tset dc y (tget dc x (taint_of s)) (taint_of s) \<and> extends (tables s) (tables s')"
    by auto
qed

lemma refines_clear:
  assumes "writable y"
  shows "refines dc (cell_wr dc y cleared_val) 0 (tset dc y {})"
proof (rule refinesI)
  fix s :: "'a engine_scheme" and k
  assume s: "engine_ok s" "live dc s" "room (0 + k) (tables s)"
  have v: "valid_tag (tables s) cleared_val" "label_set (tables s) cleared_val = {}"
    using s(1) label_set_0 by (simp_all add: engine_ok_def cleared_val_def)
  obtain s' where "cell_wr dc y cleared_val s = Inr s'" "engine_ok s'" "live dc s'" "tables s' = tables s"
    "side s' = side s" "taint_of s' = tset dc y (label_set (tables s) cleared_val) (taint_of s)"
    using cell_wr_ok[OF s(1,2) assms v(1)] .
  with s(3) v(2) show "\<exists>s'. cell_wr dc y cleared_val s = Inr s' \<and> engine_ok s' \<and> live dc s' \<and> room k (tables s')
     \<and> side s' = side s \<and> taint_of s' = tset dc y {} (taint_of s) \<and> extends (tables s) (tables s')" by auto
qed

lemma refines_swap:
  assumes "readable x" "writable x" "readable y" "writable y"
  shows "refines dc (\<lambda>s. rbind (cell_rd dc x s) (\<lambda>t. rbind (cell_rd dc y s) (\<lambda>u.
       rbind (cell_wr dc x u s) (cell_wr dc y t)))) 0
     (\<lambda>T. tset dc y (tget dc x T) (tset dc x (tget dc y T) T))"
proof (rule refinesI)
  fix s :: "'a engine_scheme" and k
  assume s: "engine_ok s" "live dc s" "room (0 + k) (tables s)"
  obtain t where t: "cell_rd dc x s = Inr t" "valid_tag (tables s) t"
    "label_set (tables s) t = tget dc x (taint_of s)" using cell_rd_ok[OF s(1,2) assms(1)] .
  obtain u where u: "cell_rd dc y s = Inr u" "valid_tag (tables s) u"
    "label_set (tables s) u = tget dc y (taint_of s)" using cell_rd_ok[OF s(1,2) assms(3)] .
  obtain s1 where 1: "cell_wr dc x u s = Inr s1" "engine_ok s1" "live dc s1" "tables s1 = tables s"
    "side s1 = side s" "taint_of s1 = tset dc x (label_set (tables s) u) (taint_of s)"
    using cell_wr_ok[OF s(1,2) assms(2) u(2)] .
  obtain s2 where "cell_wr dc y t s1 = Inr s2" "engine_ok s2" "live dc s2" "tables s2 = tables s1"
    "side s2 = side s1" "taint_of s2 = tset dc y (label_set (tables s1) t) (taint_of s1)"
    using cell_wr_ok[OF 1(2,3) assms(4), of t] t(2) 1(4) by auto
  with s t u 1 show "\<exists>s'. rbind (cell_rd dc x s) (\<lambda>t. rbind (cell_rd dc y s) (\<lambda>u.
       rbind (cell_wr dc x u s) (cell_wr dc y t))) = Inr s' \<and> engine_ok s' \<and> live dc s'
     \<and> room k (tables s') \<and> side s' = side s
     \<and> taint_of s' = tset dc y (tget dc x (taint_of s)) (tset dc x (tget dc y (taint_of s)) (taint_of s)) \<and> extends (tables s) (tables s')"
    by auto
qed

text \<open>Union of two cells into a third, and of three cells into two.\<close>

lemma refines_combine:
  assumes "readable x" "readable y" "writable z"
  shows "refines dc (\<lambda>s. rbind (cell_rd dc x s) (\<lambda>l. rbind (cell_rd dc y s) (\<lambda>r.
       rbind (combine_tags l r s) (\<lambda>(u, s1). cell_wr dc z u s1)))) 1
     (\<lambda>T. tset dc z (tget dc x T \<union> tget dc y T) T)"
proof (rule refinesI)
  fix s :: "'a engine_scheme" and k
  assume s: "engine_ok s" "live dc s" "room (1 + k) (tables s)"
  obtain l where l: "cell_rd dc x s = Inr l" "valid_tag (tables s) l"
    "label_set (tables s) l = tget dc x (taint_of s)" using cell_rd_ok[OF s(1,2) assms(1)] .
  obtain r where r: "cell_rd dc y s = Inr r" "valid_tag (tables s) r"
    "label_set (tables s) r = tget dc y (taint_of s)" using cell_rd_ok[OF s(1,2) assms(2)] .
  have "room (Suc k) (tables s)" using s(3) by simp
  then obtain u s1 where 1: "combine_tags l r s = Inr (u, s1)" "engine_ok s1" "live dc s1" "room k (tables s1)"
    "side s1 = side s" "taint_of s1 = taint_of s" "valid_tag (tables s1) u"
    "label_set (tables s1) u = label_set (tables s) l \<union> label_set (tables s) r" "extends (tables s) (tables s1)"
    using combine_tags_ok[OF s(1,2) _ l(2) r(2)] by metis
  obtain s2 where "cell_wr dc z u s1 = Inr s2" "engine_ok s2" "live dc s2" "tables s2 = tables s1"
    "side s2 = side s1" "taint_of s2 = tset dc z (label_set (tables s1) u) (taint_of s1)"
    using cell_wr_ok[OF 1(2,3) assms(3) 1(7)] .
  with s l r 1 show "\<exists>s'. rbind (cell_rd dc x s) (\<lambda>l. rbind (cell_rd dc y s) (\<lambda>r.
       rbind (combine_tags l r s) (\<lambda>(u, s1). cell_wr dc z u s1))) = Inr s' \<and> engine_ok s' \<and> live dc s'
     \<and> room k (tables s') \<and> side s' = side s
     \<and> taint_of s' = tset dc z (tget dc x (taint_of s) \<union> tget dc y (taint_of s)) (taint_of s) \<and> extends (tables s) (tables s')"
    by auto
qed

lemma combine_wr2:
  assumes s: "engine_ok s" "live dc s" "room (1 + k) (tables s)"
    and v: "valid_tag (tables s) l" "valid_tag (tables s) r" and w: "writable y" "writable z"
  obtains s' where "rbind (combine_tags l r s) (\<lambda>(u, s1). rbind (cell_wr dc y u s1) (cell_wr dc z u)) = Inr s'"
    "engine_ok s'" "live dc s'" "room k (tables s')" "side s' = side s"
    "taint_of s' = (let X = label_set (tables s) l \<union> label_set (tables s) r
       in tset dc z X (tset dc y X (taint_of s)))" "extends (tables s) (tables s')"
proof -
  have "room (Suc k) (tables s)" using s(3) by simp
  then obtain u s1 where 1: "combine_tags l r s = Inr (u, s1)" "engine_ok s1" "live dc s1" "room k (tables s1)"
    "side s1 = side s" "taint_of s1 = taint_of s" "valid_tag (tables s1) u"
    "label_set (tables s1) u = label_set (tables s) l \<union> label_set (tables s) r" "extends (tables s) (tables s1)"
    using combine_tags_ok[OF s(1,2) _ v] by metis
  obtain s2 where 2: "cell_wr dc y u s1 = Inr s2" "engine_ok s2" "live dc s2" "tables s2 = tables s1"
    "side s2 = side s1" "taint_of s2 = tset dc y (label_set (tables s1) u) (taint_of s1)"
    using cell_wr_ok[OF 1(2,3) w(1) 1(7)] .
  obtain s3 where "cell_wr dc z u s2 = Inr s3" "engine_ok s3" "live dc s3" "tables s3 = tables s2"
    "side s3 = side s2" "taint_of s3 = tset dc z (label_set (tables s2) u) (taint_of s2)"
    using cell_wr_ok[OF 2(2,3) w(2), of u] 1(7) 2(4) by auto
  with 1 2 that[of s3] show ?thesis by (simp add: Let_def)
qed

lemma refines_combine2:
  assumes "readable x" "readable y" "writable x" "writable y"
  shows "refines dc (\<lambda>s. rbind (cell_rd dc x s) (\<lambda>l. rbind (cell_rd dc y s) (\<lambda>r.
       rbind (combine_tags l r s) (\<lambda>(u, s1). rbind (cell_wr dc x u s1) (cell_wr dc y u))))) 1
     (\<lambda>T. let X = tget dc x T \<union> tget dc y T in tset dc y X (tset dc x X T))"
proof (rule refinesI)
  fix s :: "'a engine_scheme" and k
  assume s: "engine_ok s" "live dc s" "room (1 + k) (tables s)"
  obtain l where l: "cell_rd dc x s = Inr l" "valid_tag (tables s) l"
    "label_set (tables s) l = tget dc x (taint_of s)" using cell_rd_ok[OF s(1,2) assms(1)] .
  obtain r where r: "cell_rd dc y s = Inr r" "valid_tag (tables s) r"
    "label_set (tables s) r = tget dc y (taint_of s)" using cell_rd_ok[OF s(1,2) assms(2)] .
  obtain s' where c: "rbind (combine_tags l r s) (\<lambda>(u, s1). rbind (cell_wr dc x u s1) (cell_wr dc y u)) = Inr s'"
    "engine_ok s'" "live dc s'" "room k (tables s')" "side s' = side s"
    "taint_of s' = (let X = label_set (tables s) l \<union> label_set (tables s) r
       in tset dc y X (tset dc x X (taint_of s)))" "extends (tables s) (tables s')"
    using combine_wr2[OF s l(2) r(2) assms(3,4)] .
  show "\<exists>s'. rbind (cell_rd dc x s) (\<lambda>l. rbind (cell_rd dc y s) (\<lambda>r.
       rbind (combine_tags l r s) (\<lambda>(u, s1). rbind (cell_wr dc x u s1) (cell_wr dc y u)))) = Inr s'
     \<and> engine_ok s' \<and> live dc s' \<and> room k (tables s') \<and> side s' = side s
     \<and> taint_of s' = (let X = tget dc x (taint_of s) \<union> tget dc y (taint_of s)
         in tset dc y X (tset dc x X (taint_of s))) \<and> extends (tables s) (tables s')"
    using c l r by (intro exI[of _ s']) simp
qed

lemma refines_combine3:
  assumes "readable x" "readable y" "readable z" "writable x" "writable z"
  shows "refines dc (\<lambda>s. rbind (cell_rd dc x s) (\<lambda>l. rbind (cell_rd dc y s) (\<lambda>r. rbind (cell_rd dc z s) (\<lambda>a.
       rbind (combine_tags l r s) (\<lambda>(u, s1). rbind (combine_tags u a s1) (\<lambda>(u', s2).
         rbind (cell_wr dc x u' s2) (cell_wr dc z u'))))))) 2
     (\<lambda>T. let X = tget dc x T \<union> tget dc y T \<union> tget dc z T in tset dc z X (tset dc x X T))"
proof (rule refinesI)
  fix s :: "'a engine_scheme" and k
  assume s: "engine_ok s" "live dc s" "room (2 + k) (tables s)"
  obtain l where l: "cell_rd dc x s = Inr l" "valid_tag (tables s) l"
    "label_set (tables s) l = tget dc x (taint_of s)" using cell_rd_ok[OF s(1,2) assms(1)] .
  obtain r where r: "cell_rd dc y s = Inr r" "valid_tag (tables s) r"
    "label_set (tables s) r = tget dc y (taint_of s)" using cell_rd_ok[OF s(1,2) assms(2)] .
  obtain a where a: "cell_rd dc z s = Inr a" "valid_tag (tables s) a"
    "label_set (tables s) a = tget dc z (taint_of s)" using cell_rd_ok[OF s(1,2) assms(3)] .
  have "room (Suc (1 + k)) (tables s)" using s(3) by simp
  then obtain u s1 where 1: "combine_tags l r s = Inr (u, s1)" "engine_ok s1" "live dc s1" "room (1 + k) (tables s1)"
    "side s1 = side s" "taint_of s1 = taint_of s" "extends (tables s) (tables s1)" "valid_tag (tables s1) u"
    "label_set (tables s1) u = label_set (tables s) l \<union> label_set (tables s) r"
    using combine_tags_ok[OF s(1,2) _ l(2) r(2)] by metis
  have a1: "valid_tag (tables s1) a" "label_set (tables s1) a = label_set (tables s) a"
    using 1(7) a(2) labels.grows_valid labels.grows_den by blast+
  obtain s' where 2: "rbind (combine_tags u a s1) (\<lambda>(u', s2). rbind (cell_wr dc x u' s2) (cell_wr dc z u')) = Inr s'"
    "engine_ok s'" "live dc s'" "room k (tables s')" "side s' = side s1"
    "taint_of s' = (let X = label_set (tables s1) u \<union> label_set (tables s1) a
       in tset dc z X (tset dc x X (taint_of s1)))" "extends (tables s1) (tables s')"
    using combine_wr2[OF 1(2,3,4,8) a1(1) assms(4,5)] .
  show "\<exists>s'. rbind (cell_rd dc x s) (\<lambda>l. rbind (cell_rd dc y s) (\<lambda>r. rbind (cell_rd dc z s) (\<lambda>a.
       rbind (combine_tags l r s) (\<lambda>(u, s1). rbind (combine_tags u a s1) (\<lambda>(u', s2).
         rbind (cell_wr dc x u' s2) (cell_wr dc z u')))))) = Inr s'
     \<and> engine_ok s' \<and> live dc s' \<and> room k (tables s') \<and> side s' = side s
     \<and> taint_of s' = (let X = tget dc x (taint_of s) \<union> tget dc y (taint_of s) \<union> tget dc z (taint_of s)
         in tset dc z X (tset dc x X (taint_of s))) \<and> extends (tables s) (tables s')"
    using 1 2 l r a a1 extends_trans[OF 1(7) 2(7)] by (intro exI[of _ s']) (simp add: Let_def)
qed

text \<open>The accumulated union of the shift handlers, and the loop that writes it back.\<close>

lemma union_loop_ok:
  assumes "engine_ok s" "live dc s" "room (n + k) (tables s)" "valid_tag (tables s) u"
    and "\<And>i. i0 \<le> i \<Longrightarrow> i < i0 + n \<Longrightarrow> readable (x i)"
  obtains u' s' where "union_loop i0 n (\<lambda>i. cell_rd dc (x i)) (u, s) = Inr (u', s')" "engine_ok s'" "live dc s'"
    "room k (tables s')" "side s' = side s" "taint_of s' = taint_of s" "valid_tag (tables s') u'"
    "label_set (tables s') u' = label_set (tables s) u \<union> (\<Union>i \<in> {i0..<i0 + n}. tget dc (x i) (taint_of s))"
    "extends (tables s) (tables s')"
proof -
  have "\<exists>u' s'. union_loop i0 n (\<lambda>i. cell_rd dc (x i)) (u, s) = Inr (u', s') \<and> engine_ok s' \<and> live dc s'
     \<and> room k (tables s') \<and> side s' = side s \<and> taint_of s' = taint_of s \<and> valid_tag (tables s') u'
     \<and> label_set (tables s') u' = label_set (tables s) u \<union> (\<Union>i \<in> {i0..<i0 + n}. tget dc (x i) (taint_of s))
     \<and> extends (tables s) (tables s')"
    using assms
  proof (induction n arbitrary: i0 u s)
    case 0
    then show ?case by (auto simp: union_loop_def)
  next
    case (Suc n)
    obtain t where t: "cell_rd dc (x i0) s = Inr t" "valid_tag (tables s) t"
      "label_set (tables s) t = tget dc (x i0) (taint_of s)"
      using cell_rd_ok[OF Suc.prems(1,2)] Suc.prems(5)[of i0] by auto
    have "room (Suc (n + k)) (tables s)" using Suc.prems(3) by simp
    then obtain u1 s1 where 1: "combine_tags u t s = Inr (u1, s1)" "engine_ok s1" "live dc s1" "room (n + k) (tables s1)"
      "side s1 = side s" "taint_of s1 = taint_of s" "valid_tag (tables s1) u1"
      "label_set (tables s1) u1 = label_set (tables s) u \<union> label_set (tables s) t" "extends (tables s) (tables s1)"
      using combine_tags_ok[OF Suc.prems(1,2) _ Suc.prems(4) t(2)] by metis
    have "\<exists>u' s'. union_loop (Suc i0) n (\<lambda>i. cell_rd dc (x i)) (u1, s1) = Inr (u', s') \<and> engine_ok s' \<and> live dc s'
     \<and> room k (tables s') \<and> side s' = side s1 \<and> taint_of s' = taint_of s1 \<and> valid_tag (tables s') u'
     \<and> label_set (tables s') u' = label_set (tables s1) u1 \<union> (\<Union>i \<in> {Suc i0..<Suc i0 + n}. tget dc (x i) (taint_of s1))
     \<and> extends (tables s1) (tables s')"
      by (rule Suc.IH) (use 1 Suc.prems(5) in auto)
    moreover have "{i0..<i0 + Suc n} = insert i0 {Suc i0..<Suc i0 + n}" by auto
    ultimately show ?case using t 1 extends_trans[OF 1(9)] by (auto simp: union_loop_def)
  qed
  then show ?thesis using that by blast
qed

lemma refines_fill:
  assumes "n \<noteq> 0" "\<And>i. i < n \<Longrightarrow> readable (x i)" "\<And>i. i < n \<Longrightarrow> writable (x i)"
    "\<And>i. i < m \<Longrightarrow> readable (y i)"
  shows "refines dc (\<lambda>s. rbind (cell_rd dc (x 0) s) (\<lambda>u0.
       rbind (union_loop 1 (n - 1) (\<lambda>i. cell_rd dc (x i)) (u0, s)) (\<lambda>st.
       rbind (union_loop 0 m (\<lambda>i. cell_rd dc (y i)) st) (\<lambda>(u, s1).
         for_upto n (\<lambda>i. cell_wr dc (x i) u) s1)))) (n + m)
     (\<lambda>T. assign dc n x (\<lambda>_. (\<Union>i < n. tget dc (x i) T) \<union> (\<Union>i < m. tget dc (y i) T)) T)"
proof (rule refinesI)
  fix s :: "'a engine_scheme" and k
  assume s: "engine_ok s" "live dc s" "room (n + m + k) (tables s)"
  obtain u0 where u0: "cell_rd dc (x 0) s = Inr u0" "valid_tag (tables s) u0"
    "label_set (tables s) u0 = tget dc (x 0) (taint_of s)" using cell_rd_ok[OF s(1,2) assms(2)] assms(1) by auto
  have r1: "room (n - 1 + (m + k)) (tables s)" using s(3) by (simp add: room_def)
  obtain u1 s1 where 1: "union_loop 1 (n - 1) (\<lambda>i. cell_rd dc (x i)) (u0, s) = Inr (u1, s1)" "engine_ok s1"
    "live dc s1" "room (m + k) (tables s1)" "side s1 = side s" "taint_of s1 = taint_of s" "valid_tag (tables s1) u1"
    "label_set (tables s1) u1 = label_set (tables s) u0 \<union> (\<Union>i \<in> {1..<1 + (n - 1)}. tget dc (x i) (taint_of s))"
    "extends (tables s) (tables s1)"
    using union_loop_ok[OF s(1,2) r1 u0(2), of 1 x] assms(2) by auto
  obtain u2 s2 where 2: "union_loop 0 m (\<lambda>i. cell_rd dc (y i)) (u1, s1) = Inr (u2, s2)" "engine_ok s2"
    "live dc s2" "room k (tables s2)" "side s2 = side s1" "taint_of s2 = taint_of s1" "valid_tag (tables s2) u2"
    "label_set (tables s2) u2 = label_set (tables s1) u1 \<union> (\<Union>i \<in> {0..<0 + m}. tget dc (y i) (taint_of s1))"
    "extends (tables s1) (tables s2)"
    using union_loop_ok[OF 1(2,3,4,7), of 0 y] assms(4) by auto
  let ?X = "(\<Union>i < n. tget dc (x i) (taint_of s)) \<union> (\<Union>i < m. tget dc (y i) (taint_of s))"
  have "{..<n} = insert 0 {1..<1 + (n - 1)}" using assms(1) by auto
  then have X: "label_set (tables s2) u2 = ?X" using 1(6,8) 2(8) u0(3) by (auto simp: atLeast0LessThan)
  have "\<exists>t. for_upto n (\<lambda>i. cell_wr dc (x i) u2) s2 = Inr t \<and> engine_ok t \<and> live dc t \<and> tables t = tables s2
     \<and> side t = side s2 \<and> taint_of t = assign dc n x (\<lambda>_. ?X) (taint_of s2)"
  proof (rule for_upto_total[where P = "\<lambda>j t. engine_ok t \<and> live dc t \<and> tables t = tables s2
     \<and> side t = side s2 \<and> taint_of t = assign dc j x (\<lambda>_. ?X) (taint_of s2)"])
    fix j t assume j: "j < n" and t: "engine_ok t \<and> live dc t \<and> tables t = tables s2
     \<and> side t = side s2 \<and> taint_of t = assign dc j x (\<lambda>_. ?X) (taint_of s2)"
    then have v: "valid_tag (tables t) u2" using 2(7) by simp
    obtain t' where "cell_wr dc (x j) u2 t = Inr t'" "engine_ok t'" "live dc t'" "tables t' = tables t"
      "side t' = side t" "taint_of t' = tset dc (x j) (label_set (tables t) u2) (taint_of t)"
      using cell_wr_ok[OF _ _ assms(3)[OF j] v] t by auto
    with t X show "\<exists>t'. cell_wr dc (x j) u2 t = Inr t' \<and> engine_ok t' \<and> live dc t' \<and> tables t' = tables s2
     \<and> side t' = side s2 \<and> taint_of t' = assign dc (Suc j) x (\<lambda>_. ?X) (taint_of s2)"
      by (auto simp: assign_Suc)
  qed (use 2 in auto)
  with u0 1 2 extends_trans[OF 1(9) 2(9)] show "\<exists>s'. rbind (cell_rd dc (x 0) s) (\<lambda>u0.
       rbind (union_loop 1 (n - 1) (\<lambda>i. cell_rd dc (x i)) (u0, s)) (\<lambda>st.
       rbind (union_loop 0 m (\<lambda>i. cell_rd dc (y i)) st) (\<lambda>(u, s1).
         for_upto n (\<lambda>i. cell_wr dc (x i) u) s1))) = Inr s' \<and> engine_ok s' \<and> live dc s'
     \<and> room k (tables s') \<and> side s' = side s \<and> taint_of s' = assign dc n x (\<lambda>_. ?X) (taint_of s)
     \<and> extends (tables s) (tables s')"
    by auto
qed

end
