(* ===== verification/Propagation.thy ===== *)
theory Propagation
  imports Taint
begin

text \<open>
  Every propagation handler, as the target of a clean call, against its specification: \<open>clean_call\<close>
  names the handlers with their arguments, \<open>run_call\<close> runs the handler, \<open>spec_call\<close> says what it must
  do to the offset sets, and \<open>call_ok\<close> which arguments are allowed.
\<close>

section \<open>Clean calls\<close>

text \<open>
  A clean call as the instrumentation inserts it. A memory operand stands for its effective address
  and a register for its value; \<open>run_call\<close> takes both from the environment.
\<close>

datatype (plugins only: code size) clean_call =
    Call_r2r_xfer nat nat nat nat nat
  | Call_r_clr nat nat nat
  | Call_mov_m2r nat nat opnd nat
  | Call_mov_r2m opnd nat nat nat
  | Call_mov_clr_mem opnd nat
  | Call_m2m_xfer opnd opnd nat
  | Call_ternary_r2r nat nat nat
  | Call_ternary_m2r opnd nat
  | Call_xchg_r2r nat nat nat nat nat
  | Call_xchg_m2r opnd nat nat nat
  | Call_cmov_r2r dr_pred_type nat nat nat nat nat
  | Call_cmov_m2r dr_pred_type nat nat opnd nat
  | Call_binary_r2r nat nat nat nat nat
  | Call_binary_m2r nat nat opnd nat
  | Call_binary_r2m opnd nat nat nat
  | Call_movzx_r2r nat nat nat nat nat
  | Call_movzx_m2r nat opnd nat nat
  | Call_movsx_r2r nat nat nat nat nat
  | Call_movsx_m2r nat opnd nat nat
  | Call_lea_prop UINT64 nat nat nat nat nat nat
  | Call_cmp_r2r UINT64 nat nat reg_id nat nat reg_id nat
  | Call_cmp_m2r UINT64 nat nat reg_id opnd nat
  | Call_cmp_i2r UINT64 nat nat reg_id UINT32 nat
  | Call_cmp_r2m UINT64 opnd nat nat reg_id nat
  | Call_cmp_i2m UINT64 opnd UINT32 nat
  | Call_cmp_m2m UINT64 opnd opnd nat
  | Call_shift_r nat nat nat
  | Call_shift_m opnd nat
  | Call_shld_r2r nat nat nat nat nat
  | Call_bswap_reg nat nat nat
  | Call_movbe_m2r nat nat opnd nat
  | Call_movbe_r2m opnd nat nat nat
  | Call_cmpxchg_mem opnd nat nat nat nat nat
  | Call_cmpxchg_reg nat nat nat nat nat nat nat
  | Call_xadd_r2r nat nat nat nat nat
  | Call_xadd_m2r opnd nat nat nat
  | Call_pc_range_sink ADDRINT

primrec run_call :: "dr_env \<Rightarrow> clean_call \<Rightarrow> 'a engine_scheme \<Rightarrow> 'a engine_scheme res" where
  "run_call E (Call_r2r_xfer dr ds sr ss n) = r2r_xfer E dr ds sr ss n"
| "run_call E (Call_r_clr r st n) = r_clr E r st n"
| "run_call E (Call_mov_m2r r st a n) = mov_m2r E r st (ea E a) n"
| "run_call E (Call_mov_r2m a r st n) = mov_r2m E (ea E a) r st n"
| "run_call E (Call_mov_clr_mem a n) = mov_clr_mem (ea E a) (of_nat n)"
| "run_call E (Call_m2m_xfer d a n) = m2m_xfer (ea E d) (ea E a) n"
| "run_call E (Call_ternary_r2r r st n) = ternary_r2r E r st n"
| "run_call E (Call_ternary_m2r a n) = ternary_m2r E (ea E a) n"
| "run_call E (Call_xchg_r2r ar as br bs n) = xchg_r2r E ar as br bs n"
| "run_call E (Call_xchg_m2r a r st n) = xchg_m2r E (ea E a) r st n"
| "run_call E (Call_cmov_r2r p dr ds sr ss n) = cmov_r2r E p dr ds sr ss n"
| "run_call E (Call_cmov_m2r p r st a n) = cmov_m2r E p r st (ea E a) n"
| "run_call E (Call_binary_r2r dr ds sr ss n) = binary_r2r E dr ds sr ss n"
| "run_call E (Call_binary_m2r r st a n) = binary_m2r E r st (ea E a) n"
| "run_call E (Call_binary_r2m a r st n) = binary_r2m E (ea E a) r st n"
| "run_call E (Call_movzx_r2r dr sr ss sn dn) = movzx_r2r E dr sr ss sn dn"
| "run_call E (Call_movzx_m2r dr a sn dn) = movzx_m2r E dr (ea E a) sn dn"
| "run_call E (Call_movsx_r2r dr sr ss sn dn) = movsx_r2r E dr sr ss sn dn"
| "run_call E (Call_movsx_m2r dr a sn dn) = movsx_m2r E dr (ea E a) sn dn"
| "run_call E (Call_lea_prop ins dr br bs ir is n) = lea_prop E ins dr br bs ir is n"
| "run_call E (Call_cmp_r2r ins dr ds dv sr ss sv n) = cmp_r2r E ins dr ds (reg_value E dv) sr ss (reg_value E sv) n"
| "run_call E (Call_cmp_m2r ins dr ds dv a n) = cmp_m2r E ins dr ds (reg_value E dv) (ea E a) n"
| "run_call E (Call_cmp_i2r ins dr ds dv imm n) = cmp_i2r E ins dr ds (reg_value E dv) imm n"
| "run_call E (Call_cmp_r2m ins a sr ss sv n) = cmp_r2m E ins (ea E a) sr ss (reg_value E sv) n"
| "run_call E (Call_cmp_i2m ins a imm n) = cmp_i2m E ins (ea E a) imm n"
| "run_call E (Call_cmp_m2m ins d a n) = cmp_m2m E ins (ea E d) (ea E a) n"
| "run_call E (Call_shift_r r st n) = shift_r E r st n"
| "run_call E (Call_shift_m a n) = shift_m (ea E a) n"
| "run_call E (Call_shld_r2r dr ds sr ss n) = shld_r2r E dr ds sr ss n"
| "run_call E (Call_bswap_reg r st n) = bswap_reg E r st n"
| "run_call E (Call_movbe_m2r r st a n) = movbe_m2r E r st (ea E a) n"
| "run_call E (Call_movbe_r2m a r st n) = movbe_r2m E (ea E a) r st n"
| "run_call E (Call_cmpxchg_mem a sr ss ar as n) = cmpxchg_mem E (ea E a) sr ss ar as n"
| "run_call E (Call_cmpxchg_reg dr ds sr ss ar as n) = cmpxchg_reg E dr ds sr ss ar as n"
| "run_call E (Call_xadd_r2r dr ds sr ss n) = xadd_r2r E dr ds sr ss n"
| "run_call E (Call_xadd_m2r a r st n) = xadd_m2r E (ea E a) r st n"
| "run_call E (Call_pc_range_sink pc) = (\<lambda>s. Inr (dispatch_pc_range_sink pc s))"

section \<open>Specification\<close>

abbreviation reg_cells :: "nat \<Rightarrow> nat \<Rightarrow> nat \<Rightarrow> cell" where
  "reg_cells row start \<equiv> (\<lambda>i. CReg row (start + i))"

abbreviation mem_cells :: "ADDRINT \<Rightarrow> nat \<Rightarrow> cell" where
  "mem_cells a \<equiv> (\<lambda>i. CMem (a + of_nat i))"

text \<open>Two parallel assignments, to y and to z; of the cells in both, z wins.\<close>

definition assign2 :: "nat \<Rightarrow> nat \<Rightarrow> (nat \<Rightarrow> cell) \<Rightarrow> (nat \<Rightarrow> nat set) \<Rightarrow> (nat \<Rightarrow> cell) \<Rightarrow> (nat \<Rightarrow> nat set) \<Rightarrow> taint \<Rightarrow> taint" where
  "assign2 dc n y v z w T = fold (\<lambda>i U. tset dc (z i) (w i) (tset dc (y i) (v i) U)) [0..<n] T"

definition copy_spec :: "nat \<Rightarrow> nat \<Rightarrow> (nat \<Rightarrow> cell) \<Rightarrow> (nat \<Rightarrow> cell) \<Rightarrow> taint \<Rightarrow> taint" where
  "copy_spec dc n y x T = assign dc n y (\<lambda>i. tget dc (x i) T) T"

definition union_spec :: "nat \<Rightarrow> nat \<Rightarrow> (nat \<Rightarrow> cell) \<Rightarrow> (nat \<Rightarrow> cell) \<Rightarrow> (nat \<Rightarrow> cell) \<Rightarrow> taint \<Rightarrow> taint" where
  "union_spec dc n z x y T = assign dc n z (\<lambda>i. tget dc (x i) T \<union> tget dc (y i) T) T"

text \<open>Both cells of a pair get the same union of the listed cells.\<close>

definition both_spec :: "nat \<Rightarrow> nat \<Rightarrow> (nat \<Rightarrow> cell) \<Rightarrow> (nat \<Rightarrow> cell) \<Rightarrow> (nat \<Rightarrow> taint \<Rightarrow> nat set) \<Rightarrow> taint \<Rightarrow> taint" where
  "both_spec dc n y z v T = assign2 dc n y (\<lambda>i. v i T) z (\<lambda>i. v i T) T"

definition swap_spec :: "nat \<Rightarrow> nat \<Rightarrow> (nat \<Rightarrow> cell) \<Rightarrow> (nat \<Rightarrow> cell) \<Rightarrow> taint \<Rightarrow> taint" where
  "swap_spec dc n x y T = assign2 dc n x (\<lambda>i. tget dc (y i) T) y (\<lambda>i. tget dc (x i) T) T"

definition smear_spec :: "nat \<Rightarrow> nat \<Rightarrow> (nat \<Rightarrow> cell) \<Rightarrow> nat \<Rightarrow> (nat \<Rightarrow> cell) \<Rightarrow> taint \<Rightarrow> taint" where
  "smear_spec dc n x m y T =
     assign dc n x (\<lambda>_. (\<Union>i < n. tget dc (x i) T) \<union> (\<Union>i < m. tget dc (y i) T)) T"

definition extend_spec :: "nat \<Rightarrow> nat \<Rightarrow> nat \<Rightarrow> (nat \<Rightarrow> cell) \<Rightarrow> (nat \<Rightarrow> cell) \<Rightarrow> (taint \<Rightarrow> nat set) \<Rightarrow> taint \<Rightarrow> taint" where
  "extend_spec dc sn dn y x ext T = assign dc dn y (\<lambda>i. if i < sn then tget dc (x i) T else ext T) T"

text \<open>One-operand multiply and divide with the operand bytes v.\<close>

definition ternary_spec :: "nat \<Rightarrow> nat \<Rightarrow> (nat \<Rightarrow> nat set) \<Rightarrow> taint \<Rightarrow> taint" where
  "ternary_spec dc n v T =
     (if n = 1 then
        assign dc 2 (reg_cells DFT_REG_RAX 0) (\<lambda>i. tget dc (CReg DFT_REG_RAX i) T \<union> v 0) T
      else
        assign2 dc n (reg_cells DFT_REG_RDX 0) (\<lambda>i. tget dc (CReg DFT_REG_RDX i) T \<union> v i)
          (reg_cells DFT_REG_RAX 0) (\<lambda>i. tget dc (CReg DFT_REG_RAX i) T \<union> v i) T)"

primrec spec_call :: "dr_env \<Rightarrow> nat \<Rightarrow> clean_call \<Rightarrow> taint \<Rightarrow> taint" where
  "spec_call E dc (Call_r2r_xfer dr ds sr ss n) = copy_spec dc n (reg_cells dr ds) (reg_cells sr ss)"
| "spec_call E dc (Call_r_clr r st n) = assign dc n (reg_cells r st) (\<lambda>_. {})"
| "spec_call E dc (Call_mov_m2r r st a n) = copy_spec dc n (reg_cells r st) (mem_cells (ea E a))"
| "spec_call E dc (Call_mov_r2m a r st n) = copy_spec dc n (mem_cells (ea E a)) (reg_cells r st)"
| "spec_call E dc (Call_mov_clr_mem a n) = assign dc n (mem_cells (ea E a)) (\<lambda>_. {})"
| "spec_call E dc (Call_m2m_xfer d a n) = copy_spec dc n (mem_cells (ea E d)) (mem_cells (ea E a))"
| "spec_call E dc (Call_ternary_r2r r st n) = (\<lambda>T. ternary_spec dc n (\<lambda>i. tget dc (reg_cells r st i) T) T)"
| "spec_call E dc (Call_ternary_m2r a n) = (\<lambda>T. ternary_spec dc n (\<lambda>i. tget dc (mem_cells (ea E a) i) T) T)"
| "spec_call E dc (Call_xchg_r2r ar as br bs n) = swap_spec dc n (reg_cells ar as) (reg_cells br bs)"
| "spec_call E dc (Call_xchg_m2r a r st n) = swap_spec dc n (reg_cells r st) (mem_cells (ea E a))"
| "spec_call E dc (Call_cmov_r2r p dr ds sr ss n) =
     (if cmov_taken E p then copy_spec dc n (reg_cells dr ds) (reg_cells sr ss) else (\<lambda>T. T))"
| "spec_call E dc (Call_cmov_m2r p r st a n) =
     (if cmov_taken E p then copy_spec dc n (reg_cells r st) (mem_cells (ea E a)) else (\<lambda>T. T))"
| "spec_call E dc (Call_binary_r2r dr ds sr ss n) = union_spec dc n (reg_cells dr ds) (reg_cells dr ds) (reg_cells sr ss)"
| "spec_call E dc (Call_binary_m2r r st a n) = union_spec dc n (reg_cells r st) (reg_cells r st) (mem_cells (ea E a))"
| "spec_call E dc (Call_binary_r2m a r st n) = union_spec dc n (mem_cells (ea E a)) (mem_cells (ea E a)) (reg_cells r st)"
| "spec_call E dc (Call_movzx_r2r dr sr ss sn dn) = extend_spec dc sn dn (reg_cells dr 0) (reg_cells sr ss) (\<lambda>_. {})"
| "spec_call E dc (Call_movzx_m2r dr a sn dn) = extend_spec dc sn dn (reg_cells dr 0) (mem_cells (ea E a)) (\<lambda>_. {})"
| "spec_call E dc (Call_movsx_r2r dr sr ss sn dn) =
     (if sn = 0 then (\<lambda>T. T)
      else extend_spec dc sn dn (reg_cells dr 0) (reg_cells sr ss) (tget dc (reg_cells sr ss (sn - 1))))"
| "spec_call E dc (Call_movsx_m2r dr a sn dn) =
     (if sn = 0 then (\<lambda>T. T)
      else extend_spec dc sn dn (reg_cells dr 0) (mem_cells (ea E a)) (tget dc (mem_cells (ea E a) (sn - 1))))"
| "spec_call E dc (Call_lea_prop ins dr br bs ir is n) = union_spec dc n (reg_cells dr 0) (reg_cells br bs) (reg_cells ir is)"
| "spec_call E dc (Call_shift_r r st n) = smear_spec dc n (reg_cells r st) 0 (\<lambda>_. CReg 0 0)"
| "spec_call E dc (Call_shift_m a n) = smear_spec dc n (mem_cells (ea E a)) 0 (\<lambda>_. CReg 0 0)"
| "spec_call E dc (Call_shld_r2r dr ds sr ss n) = smear_spec dc n (reg_cells dr ds) n (reg_cells sr ss)"
| "spec_call E dc (Call_bswap_reg r st n) = copy_spec dc n (reg_cells r st) (\<lambda>i. CReg r (st + (n - 1 - i)))"
| "spec_call E dc (Call_movbe_m2r r st a n) = copy_spec dc n (reg_cells r st) (\<lambda>i. mem_cells (ea E a) (n - 1 - i))"
| "spec_call E dc (Call_movbe_r2m a r st n) = copy_spec dc n (mem_cells (ea E a)) (\<lambda>i. reg_cells r st (n - 1 - i))"
| "spec_call E dc (Call_cmpxchg_mem a sr ss ar as n) =
     both_spec dc n (mem_cells (ea E a)) (reg_cells ar as)
       (\<lambda>i T. tget dc (mem_cells (ea E a) i) T \<union> tget dc (reg_cells sr ss i) T \<union> tget dc (reg_cells ar as i) T)"
| "spec_call E dc (Call_cmpxchg_reg dr ds sr ss ar as n) =
     both_spec dc n (reg_cells dr ds) (reg_cells ar as)
       (\<lambda>i T. tget dc (reg_cells dr ds i) T \<union> tget dc (reg_cells sr ss i) T \<union> tget dc (reg_cells ar as i) T)"
| "spec_call E dc (Call_xadd_r2r dr ds sr ss n) =
     both_spec dc n (reg_cells dr ds) (reg_cells sr ss)
       (\<lambda>i T. tget dc (reg_cells dr ds i) T \<union> tget dc (reg_cells sr ss i) T)"
| "spec_call E dc (Call_xadd_m2r a r st n) =
     both_spec dc n (mem_cells (ea E a)) (reg_cells r st)
       (\<lambda>i T. tget dc (mem_cells (ea E a) i) T \<union> tget dc (reg_cells r st i) T)"
| "spec_call E dc (Call_cmp_r2r ins dr ds dv sr ss sv n) = (\<lambda>T. T)"
| "spec_call E dc (Call_cmp_m2r ins dr ds dv a n) = (\<lambda>T. T)"
| "spec_call E dc (Call_cmp_i2r ins dr ds dv imm n) = (\<lambda>T. T)"
| "spec_call E dc (Call_cmp_r2m ins a sr ss sv n) = (\<lambda>T. T)"
| "spec_call E dc (Call_cmp_i2m ins a imm n) = (\<lambda>T. T)"
| "spec_call E dc (Call_cmp_m2m ins d a n) = (\<lambda>T. T)"
| "spec_call E dc (Call_pc_range_sink pc) = (\<lambda>T. T)"

text \<open>Allowed arguments.\<close>

definition src_ok :: "nat \<Rightarrow> nat \<Rightarrow> nat \<Rightarrow> bool" where
  "src_ok row start n = (row \<le> GRP_NUM \<and> start + n \<le> TAGS_PER_GPR)"

definition dst_ok :: "nat \<Rightarrow> nat \<Rightarrow> nat \<Rightarrow> bool" where
  "dst_ok row start n = (row < GRP_NUM \<and> start + n \<le> TAGS_PER_GPR)"

text \<open>The whole memory range has shadow bytes: its last address is not above the limit.\<close>

definition mem_ok :: "ADDRINT \<Rightarrow> nat \<Rightarrow> bool" where
  "mem_ok a n = (unat a + n \<le> 0x800000000000)"

text \<open>No iteration of an ascending copy reads a byte that an earlier one wrote.\<close>

definition forward_ok :: "nat \<Rightarrow> nat \<Rightarrow> nat \<Rightarrow> nat \<Rightarrow> nat \<Rightarrow> bool" where
  "forward_ok dr ds sr ss n = (dr \<noteq> sr \<or> ds \<le> ss \<or> ss + n \<le> ds)"

definition aligned :: "nat \<Rightarrow> nat \<Rightarrow> nat \<Rightarrow> nat \<Rightarrow> nat \<Rightarrow> bool" where
  "aligned r1 s1 r2 s2 n = (r1 \<noteq> r2 \<or> s1 = s2 \<or> n \<le> 1)"

primrec call_ok :: "dr_env \<Rightarrow> clean_call \<Rightarrow> bool" where
  "call_ok E (Call_r2r_xfer dr ds sr ss n) = (dst_ok dr ds n \<and> src_ok sr ss n \<and> forward_ok dr ds sr ss n)"
| "call_ok E (Call_r_clr r st n) = dst_ok r st n"
| "call_ok E (Call_mov_m2r r st a n) = (dst_ok r st n \<and> mem_ok (ea E a) n)"
| "call_ok E (Call_mov_r2m a r st n) = (src_ok r st n \<and> mem_ok (ea E a) n)"
| "call_ok E (Call_mov_clr_mem a n) = (mem_ok (ea E a) n \<and> n < 2 ^ 32)"
| "call_ok E (Call_m2m_xfer d a n) = (mem_ok (ea E d) n \<and> mem_ok (ea E a) n \<and> (unat (ea E d) \<le> unat (ea E a) \<or> unat (ea E a) + n \<le> unat (ea E d)))"
| "call_ok E (Call_ternary_r2r r st n) = (src_ok r st n \<and> n \<le> 8)"
| "call_ok E (Call_ternary_m2r a n) = (mem_ok (ea E a) n \<and> n \<le> 8)"
| "call_ok E (Call_xchg_r2r ar as br bs n) = (dst_ok ar as n \<and> dst_ok br bs n \<and> aligned ar as br bs n)"
| "call_ok E (Call_xchg_m2r a r st n) = (dst_ok r st n \<and> mem_ok (ea E a) n)"
| "call_ok E (Call_cmov_r2r p dr ds sr ss n) = (dst_ok dr ds n \<and> src_ok sr ss n \<and> forward_ok dr ds sr ss n)"
| "call_ok E (Call_cmov_m2r p r st a n) = (dst_ok r st n \<and> mem_ok (ea E a) n)"
| "call_ok E (Call_binary_r2r dr ds sr ss n) = (dst_ok dr ds n \<and> src_ok sr ss n \<and> aligned dr ds sr ss n)"
| "call_ok E (Call_binary_m2r r st a n) = (dst_ok r st n \<and> mem_ok (ea E a) n)"
| "call_ok E (Call_binary_r2m a r st n) = (src_ok r st n \<and> mem_ok (ea E a) n)"
| "call_ok E (Call_movzx_r2r dr sr ss sn dn) = (dst_ok dr 0 dn \<and> src_ok sr ss sn \<and> sn \<le> dn)"
| "call_ok E (Call_movzx_m2r dr a sn dn) = (dst_ok dr 0 dn \<and> mem_ok (ea E a) sn \<and> sn \<le> dn)"
| "call_ok E (Call_movsx_r2r dr sr ss sn dn) = (dst_ok dr 0 dn \<and> src_ok sr ss sn \<and> sn \<le> dn)"
| "call_ok E (Call_movsx_m2r dr a sn dn) = (dst_ok dr 0 dn \<and> mem_ok (ea E a) sn \<and> sn \<le> dn)"
| "call_ok E (Call_lea_prop ins dr br bs ir is n) = (dst_ok dr 0 n \<and> src_ok br bs n \<and> src_ok ir is n \<and> n \<le> 8)"
| "call_ok E (Call_cmp_r2r ins dr ds dv sr ss sv n) = (src_ok dr ds n \<and> src_ok sr ss n \<and> n \<le> 8)"
| "call_ok E (Call_cmp_m2r ins dr ds dv a n) = (src_ok dr ds n \<and> n \<le> 8 \<and> (file_tag_testb (ea E a) \<longrightarrow> mem_ok (ea E a) n))"
| "call_ok E (Call_cmp_i2r ins dr ds dv imm n) = (src_ok dr ds n \<and> n \<le> 8)"
| "call_ok E (Call_cmp_r2m ins a sr ss sv n) = (src_ok sr ss n \<and> n \<le> 8 \<and> (file_tag_testb (ea E a) \<longrightarrow> mem_ok (ea E a) n))"
| "call_ok E (Call_cmp_i2m ins a imm n) = (n \<le> 8 \<and> (file_tag_testb (ea E a) \<longrightarrow> mem_ok (ea E a) n))"
| "call_ok E (Call_cmp_m2m ins d a n) = (n \<le> 8 \<and> (file_tag_testb (ea E d) \<and> file_tag_testb (ea E a) \<longrightarrow> mem_ok (ea E d) n \<and> mem_ok (ea E a) n))"
| "call_ok E (Call_shift_r r st n) = dst_ok r st n"
| "call_ok E (Call_shift_m a n) = mem_ok (ea E a) n"
| "call_ok E (Call_shld_r2r dr ds sr ss n) = (dst_ok dr ds n \<and> src_ok sr ss n)"
| "call_ok E (Call_bswap_reg r st n) = dst_ok r st n"
| "call_ok E (Call_movbe_m2r r st a n) = (dst_ok r st n \<and> mem_ok (ea E a) n)"
| "call_ok E (Call_movbe_r2m a r st n) = (src_ok r st n \<and> mem_ok (ea E a) n)"
| "call_ok E (Call_cmpxchg_mem a sr ss ar as n) = (src_ok sr ss n \<and> dst_ok ar as n \<and> mem_ok (ea E a) n \<and> aligned sr ss ar as n)"
| "call_ok E (Call_cmpxchg_reg dr ds sr ss ar as n) =
     (dst_ok dr ds n \<and> src_ok sr ss n \<and> dst_ok ar as n \<and> aligned dr ds sr ss n \<and> aligned dr ds ar as n
      \<and> aligned sr ss ar as n)"
| "call_ok E (Call_xadd_r2r dr ds sr ss n) = (dst_ok dr ds n \<and> dst_ok sr ss n \<and> aligned dr ds sr ss n)"
| "call_ok E (Call_xadd_m2r a r st n) = (dst_ok r st n \<and> mem_ok (ea E a) n)"
| "call_ok E (Call_pc_range_sink pc) = True"

end
