(* ===== verification/Instrumentation.thy ===== *)
theory Instrumentation
  imports Propagation
begin

text \<open>
  The instrumentation of \<^verbatim>\<open>src/libdft_core_dr.cpp\<close>: the map from registers to shadow rows, the
  reservation of scratch registers, one inserter per instruction family and the opcode router. An
  inserter appends to the block what it inserts there: reservations, address computations and clean
  calls. What DynamoRIO decides (whether a reservation succeeds, which register it gives) is a
  parameter.
\<close>

section \<open>Decoded instructions\<close>

datatype (plugins only: code size) opcode =
    OP_mov_ld | OP_mov_st | OP_mov_imm | OP_cmp | OP_add | OP_and | OP_or | OP_xor | OP_sub | OP_sbb
  | OP_movzx | OP_movsx | OP_movsxd | OP_lea | OP_push | OP_pop | OP_cmps | OP_leave | OP_bsf | OP_bsr
  | OP_cwde | OP_cdq | OP_mul | OP_div | OP_idiv | OP_imul | OP_xchg | OP_cmovcc
  | OP_shl | OP_shr | OP_sar | OP_rol | OP_ror | OP_rcl | OP_rcr | OP_shld | OP_shrd | OP_bswap | OP_movbe
  | OP_cmpxchg | OP_xadd | OP_movs | OP_stos | OP_lods | OP_OTHER nat

text \<open>
  An instruction as the decoder gives it. The sixteen opcodes from \<^verbatim>\<open>OP_cmovo\<close> to
  \<^verbatim>\<open>OP_cmovnle\<close> are one here, \<open>OP_cmovcc\<close>; the router treats them alike and the condition is the
  \<open>predicate\<close>. \<open>app_pc\<close> is 0 for \<^verbatim>\<open>NULL\<close>.
\<close>

record instr =
  instr_opcode :: opcode
  dsts :: "opnd list"
  srcs :: "opnd list"
  app_pc :: UINT64
  predicate :: dr_pred_type
  is_app :: bool

section \<open>What is inserted\<close>

datatype bb_event =
    ReserveAflags
  | ReserveRegister reg_id
  | UnreserveRegister reg_id
  | UnreserveAflags
  | GetMemAddr opnd reg_id
  | CleanCall clean_call

type_synonym bb = "bb_event list"

text \<open>
  DynamoRIO while a block is instrumented: its register tables, and the outcome of a reservation or
  an address computation, which may depend on everything inserted so far.
\<close>

record dr_insert =
  regs :: dr_regs
  reserve_aflags :: "bb \<Rightarrow> bool"
  reserve_register :: "bb \<Rightarrow> reg_id option"
  get_mem_addr :: "bb \<Rightarrow> opnd \<Rightarrow> bool"

definition dr_insert_clean_call :: "clean_call \<Rightarrow> bb \<Rightarrow> bb" where
  "dr_insert_clean_call c b = b @ [CleanCall c]"

section \<open>Shadow spans of registers\<close>

fun row_of :: "gpr \<Rightarrow> nat" where
  "row_of RDI = DFT_REG_RDI" | "row_of RSI = DFT_REG_RSI" | "row_of RBP = DFT_REG_RBP" | "row_of RSP = DFT_REG_RSP"
| "row_of RAX = DFT_REG_RAX" | "row_of RBX = DFT_REG_RBX" | "row_of RCX = DFT_REG_RCX" | "row_of RDX = DFT_REG_RDX"
| "row_of R8 = DFT_REG_R8" | "row_of R9 = DFT_REG_R9" | "row_of R10 = DFT_REG_R10" | "row_of R11 = DFT_REG_R11"
| "row_of R12 = DFT_REG_R12" | "row_of R13 = DFT_REG_R13" | "row_of R14 = DFT_REG_R14" | "row_of R15 = DFT_REG_R15"

definition reg_indx_dr :: "dr_regs \<Rightarrow> reg_id \<Rightarrow> nat" where
  "reg_indx_dr R reg =
     (case (if reg_is_gpr R reg then reg_to_pointer_sized R reg else reg) of
        REG_64 g \<Rightarrow> row_of g
      | _ \<Rightarrow> GRP_NUM)"

definition is_high_byte :: "reg_id \<Rightarrow> bool" where
  "is_high_byte reg = (reg \<in> {REG_8H RAX, REG_8H RBX, REG_8H RCX, REG_8H RDX})"

definition reg_shadow_span :: "dr_regs \<Rightarrow> reg_id \<Rightarrow> (nat \<times> nat \<times> nat) option" where
  "reg_shadow_span R reg =
     (if \<not> reg_is_gpr R reg then None
      else let idx = reg_indx_dr R reg in
        if idx = GRP_NUM then None
        else if is_high_byte reg then Some (idx, 1, 1)
        else Some (idx, 0, reg_bytes R reg))"

definition reg_val_opnd :: "dr_regs \<Rightarrow> reg_id \<Rightarrow> reg_id" where
  "reg_val_opnd R reg = (if reg_is_gpr R reg then reg_to_pointer_sized R reg else reg)"

section \<open>Scratch registers\<close>

record mem_ea =
  addr :: reg_id
  scratch :: reg_id

definition acquire_mem_addr :: "dr_insert \<Rightarrow> opnd \<Rightarrow> bb \<Rightarrow> mem_ea option \<times> bb" where
  "acquire_mem_addr D mem b =
     (if \<not> reserve_aflags D b then (None, b)
      else let b1 = b @ [ReserveAflags] in
        case reserve_register D b1 of
          None \<Rightarrow> (None, b1 @ [UnreserveAflags])
        | Some a \<Rightarrow>
            let b2 = b1 @ [ReserveRegister a] in
            case reserve_register D b2 of
              None \<Rightarrow> (None, b2 @ [UnreserveRegister a, UnreserveAflags])
            | Some t \<Rightarrow>
                let b3 = b2 @ [ReserveRegister t] in
                if get_mem_addr D b3 mem then (Some \<lparr>addr = a, scratch = t\<rparr>, b3 @ [GetMemAddr mem a])
                else (None, b3 @ [UnreserveRegister t, UnreserveRegister a, UnreserveAflags]))"

definition release_mem_addr :: "mem_ea \<Rightarrow> bb \<Rightarrow> bb" where
  "release_mem_addr e b = b @ [UnreserveRegister (scratch e), UnreserveRegister (addr e), UnreserveAflags]"

text \<open>
  The pattern of every inserter with one memory operand: acquire the address, insert the call, release;
  the address register of the call is written as the operand whose address it holds.
\<close>

definition with_mem_addr :: "dr_insert \<Rightarrow> opnd \<Rightarrow> clean_call \<Rightarrow> bb \<Rightarrow> bb" where
  "with_mem_addr D mem c b =
     (case acquire_mem_addr D mem b of
        (None, b1) \<Rightarrow> b1
      | (Some e, b1) \<Rightarrow> release_mem_addr e (dr_insert_clean_call c b1))"

record mem_ea2 =
  addr1 :: reg_id
  addr2 :: reg_id
  scratch2 :: reg_id

text \<open>The chain of five calls joined by \<^verbatim>\<open>&&\<close>: the first failure ends it; a register not reserved stays \<^verbatim>\<open>DR_REG_NULL\<close>.\<close>

definition try_addr2 :: "dr_insert \<Rightarrow> opnd \<Rightarrow> opnd \<Rightarrow> bb \<Rightarrow> bool \<times> mem_ea2 \<times> bb" where
  "try_addr2 D m1 m2 b =
     (case reserve_register D b of
        None \<Rightarrow> (False, \<lparr>addr1 = DR_REG_NULL, addr2 = DR_REG_NULL, scratch2 = DR_REG_NULL\<rparr>, b)
      | Some r1 \<Rightarrow>
          let b1 = b @ [ReserveRegister r1] in
          case reserve_register D b1 of
            None \<Rightarrow> (False, \<lparr>addr1 = r1, addr2 = DR_REG_NULL, scratch2 = DR_REG_NULL\<rparr>, b1)
          | Some r2 \<Rightarrow>
              let b2 = b1 @ [ReserveRegister r2] in
              case reserve_register D b2 of
                None \<Rightarrow> (False, \<lparr>addr1 = r1, addr2 = r2, scratch2 = DR_REG_NULL\<rparr>, b2)
              | Some t \<Rightarrow>
                  let b3 = b2 @ [ReserveRegister t]; o' = \<lparr>addr1 = r1, addr2 = r2, scratch2 = t\<rparr> in
                  if \<not> get_mem_addr D b3 m1 then (False, o', b3)
                  else let b4 = b3 @ [GetMemAddr m1 r1] in
                    if \<not> get_mem_addr D b4 m2 then (False, o', b4)
                    else (True, o', b4 @ [GetMemAddr m2 r2]))"

definition unreserve_if :: "reg_id \<Rightarrow> bb \<Rightarrow> bb" where
  "unreserve_if r b = (if r \<noteq> DR_REG_NULL then b @ [UnreserveRegister r] else b)"

definition acquire_mem_addr2 :: "dr_insert \<Rightarrow> opnd \<Rightarrow> opnd \<Rightarrow> bb \<Rightarrow> mem_ea2 option \<times> bb" where
  "acquire_mem_addr2 D m1 m2 b =
     (if \<not> reserve_aflags D b then (None, b)
      else case try_addr2 D m1 m2 (b @ [ReserveAflags]) of
        (ok, o', b1) \<Rightarrow>
          if ok then (Some o', b1)
          else (None, unreserve_if (addr1 o') (unreserve_if (addr2 o') (unreserve_if (scratch2 o') b1)) @ [UnreserveAflags]))"

definition release_mem_addr2 :: "mem_ea2 \<Rightarrow> bb \<Rightarrow> bb" where
  "release_mem_addr2 e b =
     b @ [UnreserveRegister (scratch2 e), UnreserveRegister (addr2 e), UnreserveRegister (addr1 e), UnreserveAflags]"

definition with_mem_addr2 :: "dr_insert \<Rightarrow> opnd \<Rightarrow> opnd \<Rightarrow> clean_call \<Rightarrow> bb \<Rightarrow> bb" where
  "with_mem_addr2 D m1 m2 c b =
     (case acquire_mem_addr2 D m1 m2 b of
        (None, b1) \<Rightarrow> b1
      | (Some e, b1) \<Rightarrow> release_mem_addr2 e (dr_insert_clean_call c b1))"

section \<open>Inserters\<close>

definition insert_r2r_xfer :: "dr_insert \<Rightarrow> reg_id \<Rightarrow> reg_id \<Rightarrow> bb \<Rightarrow> bb" where
  "insert_r2r_xfer D dst src b =
     (case reg_shadow_span (regs D) dst of None \<Rightarrow> b | Some (dr_row, dr_start, dr_n) \<Rightarrow>
      case reg_shadow_span (regs D) src of None \<Rightarrow> b | Some (sr_row, sr_start, sr_n) \<Rightarrow>
        dr_insert_clean_call (Call_r2r_xfer dr_row dr_start sr_row sr_start (min dr_n sr_n)) b)"

definition insert_r_clr :: "dr_insert \<Rightarrow> reg_id \<Rightarrow> bb \<Rightarrow> bb" where
  "insert_r_clr D dst b =
     (case reg_shadow_span (regs D) dst of None \<Rightarrow> b | Some (row, start, n) \<Rightarrow>
        dr_insert_clean_call (Call_r_clr row start n) b)"

definition insert_mov_m2r :: "dr_insert \<Rightarrow> reg_id \<Rightarrow> opnd \<Rightarrow> bb \<Rightarrow> bb" where
  "insert_mov_m2r D dst mem b =
     (case reg_shadow_span (regs D) dst of None \<Rightarrow> b | Some (row, start, n) \<Rightarrow>
        with_mem_addr D mem (Call_mov_m2r row start mem n) b)"

definition insert_mov_r2m :: "dr_insert \<Rightarrow> opnd \<Rightarrow> reg_id \<Rightarrow> bb \<Rightarrow> bb" where
  "insert_mov_r2m D mem src b =
     (case reg_shadow_span (regs D) src of None \<Rightarrow> b | Some (row, start, n) \<Rightarrow>
        with_mem_addr D mem (Call_mov_r2m mem row start n) b)"

definition insert_mov_clr_mem :: "dr_insert \<Rightarrow> opnd \<Rightarrow> bb \<Rightarrow> bb" where
  "insert_mov_clr_mem D mem b =
     (let n = opnd_bytes (regs D) mem in
      if n = 0 then b else with_mem_addr D mem (Call_mov_clr_mem mem n) b)"

definition gpr_opnd :: "dr_insert \<Rightarrow> opnd \<Rightarrow> bool" where
  "gpr_opnd D x = (opnd_is_reg x \<and> reg_is_gpr (regs D) (opnd_get_reg x))"

definition find_data_dst :: "dr_insert \<Rightarrow> instr \<Rightarrow> opnd option" where
  "find_data_dst D i = List.find (\<lambda>x. opnd_is_memory_reference x \<or> gpr_opnd D x) (dsts i)"

definition same_data_opnd :: "opnd \<Rightarrow> opnd \<Rightarrow> bool" where
  "same_data_opnd a b =
     (if opnd_is_reg a \<and> opnd_is_reg b then opnd_get_reg a = opnd_get_reg b
      else opnd_is_memory_reference a \<and> opnd_is_memory_reference b)"

definition binary_src :: "opnd \<Rightarrow> instr \<Rightarrow> opnd" where
  "binary_src op0 i =
     (case List.find (\<lambda>s. opnd_is_immed s \<or> \<not> same_data_opnd s op0) (srcs i) of
        None \<Rightarrow> op0 | Some s \<Rightarrow> s)"

definition insert_binary :: "dr_insert \<Rightarrow> instr \<Rightarrow> opcode \<Rightarrow> bb \<Rightarrow> bb" where
  "insert_binary D i op b =
     (case find_data_dst D i of None \<Rightarrow> b | Some op0 \<Rightarrow>
      let op1 = binary_src op0 i in
      if opnd_is_immed op1 then b
      else if op \<in> {OP_xor, OP_sub, OP_sbb} \<and> opnd_is_reg op0 \<and> opnd_is_reg op1 \<and> opnd_get_reg op0 = opnd_get_reg op1
      then insert_r_clr D (opnd_get_reg op0) b
      else if opnd_is_reg op0 then
        (case reg_shadow_span (regs D) (opnd_get_reg op0) of None \<Rightarrow> b | Some (d_row, d_start, d_n) \<Rightarrow>
         if opnd_is_reg op1 then
           (case reg_shadow_span (regs D) (opnd_get_reg op1) of None \<Rightarrow> b | Some (s_row, s_start, s_n) \<Rightarrow>
              dr_insert_clean_call (Call_binary_r2r d_row d_start s_row s_start (min d_n s_n)) b)
         else if opnd_is_memory_reference op1 then
           with_mem_addr D op1 (Call_binary_m2r d_row d_start op1 d_n) b
         else b)
      else if opnd_is_memory_reference op0 then
        (if \<not> opnd_is_reg op1 then b
         else case reg_shadow_span (regs D) (opnd_get_reg op1) of None \<Rightarrow> b | Some (s_row, s_start, s_n) \<Rightarrow>
           with_mem_addr D op0 (Call_binary_r2m op0 s_row s_start s_n) b)
      else b)"

definition insert_extend :: "dr_insert \<Rightarrow> instr \<Rightarrow> bool \<Rightarrow> bb \<Rightarrow> bb" where
  "insert_extend D i sign b =
     (if dsts i = [] \<or> srcs i = [] then b
      else let d = hd (dsts i); s = hd (srcs i) in
        if \<not> opnd_is_reg d then b
        else case reg_shadow_span (regs D) (opnd_get_reg d) of None \<Rightarrow> b | Some (d_row, d_start, d_n) \<Rightarrow>
          if opnd_is_reg s then
            (case reg_shadow_span (regs D) (opnd_get_reg s) of None \<Rightarrow> b | Some (s_row, s_start, s_n) \<Rightarrow>
               dr_insert_clean_call
                 (if sign then Call_movsx_r2r d_row s_row s_start s_n d_n else Call_movzx_r2r d_row s_row s_start s_n d_n) b)
          else if opnd_is_memory_reference s then
            (let srcn = opnd_bytes (regs D) s in
             if srcn = 0 then b
             else with_mem_addr D s (if sign then Call_movsx_m2r d_row s srcn d_n else Call_movzx_m2r d_row s srcn d_n) b)
          else b)"

definition is_stack_ptr_reg :: "reg_id \<Rightarrow> bool" where
  "is_stack_ptr_reg r = (r = REG_64 RSP \<or> r = REG_32 RSP \<or> r = REG_16 RSP)"

definition insert_m2m_xfer :: "dr_insert \<Rightarrow> opnd \<Rightarrow> opnd \<Rightarrow> nat \<Rightarrow> bb \<Rightarrow> bb" where
  "insert_m2m_xfer D dst_mem src_mem n b =
     (if n = 0 then b else with_mem_addr2 D dst_mem src_mem (Call_m2m_xfer dst_mem src_mem n) b)"

fun push_from :: "dr_insert \<Rightarrow> opnd \<Rightarrow> opnd list \<Rightarrow> bb \<Rightarrow> bb" where
  "push_from D mem [] b = b"
| "push_from D mem (s # ss) b =
     (if opnd_is_reg s then
        (if is_stack_ptr_reg (opnd_get_reg s) then push_from D mem ss b
         else insert_mov_r2m D mem (opnd_get_reg s) b)
      else if opnd_is_immed s then insert_mov_clr_mem D mem b
      else if opnd_is_memory_reference s then insert_m2m_xfer D mem s (opnd_bytes (regs D) mem) b
      else push_from D mem ss b)"

definition insert_push :: "dr_insert \<Rightarrow> instr \<Rightarrow> bb \<Rightarrow> bb" where
  "insert_push D i b =
     (case List.find opnd_is_memory_reference (dsts i) of None \<Rightarrow> b | Some mem \<Rightarrow> push_from D mem (srcs i) b)"

fun pop_to :: "dr_insert \<Rightarrow> opnd \<Rightarrow> opnd list \<Rightarrow> bb \<Rightarrow> bb" where
  "pop_to D mem [] b = b"
| "pop_to D mem (x # xs) b =
     (if gpr_opnd D x \<and> \<not> is_stack_ptr_reg (opnd_get_reg x) then insert_mov_m2r D (opnd_get_reg x) mem b
      else if opnd_is_memory_reference x then insert_m2m_xfer D x mem (opnd_bytes (regs D) x) b
      else pop_to D mem xs b)"

definition insert_pop :: "dr_insert \<Rightarrow> instr \<Rightarrow> bb \<Rightarrow> bb" where
  "insert_pop D i b =
     (case List.find opnd_is_memory_reference (srcs i) of None \<Rightarrow> b | Some mem \<Rightarrow> pop_to D mem (dsts i) b)"

definition insert_cmps :: "dr_insert \<Rightarrow> instr \<Rightarrow> bb \<Rightarrow> bb" where
  "insert_cmps D i b =
     (case take 2 (filter opnd_is_memory_reference (srcs i)) of
        [m0, m1] \<Rightarrow>
          (let swap = (opnd_get_base m0 = REG_64 RSI \<or> opnd_get_base m0 = REG_32 RSI);
               dst_mem = (if swap then m1 else m0); src_mem = (if swap then m0 else m1);
               n = opnd_bytes (regs D) dst_mem in
           if n = 0 then b
           else with_mem_addr2 D dst_mem src_mem (Call_cmp_m2m (app_pc i) dst_mem src_mem n) b)
      | _ \<Rightarrow> b)"

definition insert_leave :: "dr_insert \<Rightarrow> instr \<Rightarrow> bb \<Rightarrow> bb" where
  "insert_leave D i b =
     (let b1 = insert_r2r_xfer D (REG_64 RSP) (REG_64 RBP) b in
      case List.find opnd_is_memory_reference (srcs i) of
        None \<Rightarrow> b1 | Some s \<Rightarrow> insert_mov_m2r D (REG_64 RBP) s b1)"

definition insert_xfer :: "dr_insert \<Rightarrow> instr \<Rightarrow> bb \<Rightarrow> bb" where
  "insert_xfer D i b =
     (if dsts i = [] \<or> srcs i = [] then b
      else let d = hd (dsts i); s = hd (srcs i) in
        if \<not> opnd_is_reg d then b
        else if opnd_is_reg s then insert_r2r_xfer D (opnd_get_reg d) (opnd_get_reg s) b
        else if opnd_is_memory_reference s then insert_mov_m2r D (opnd_get_reg d) s b
        else b)"

definition insert_fixed_xfer :: "nat \<Rightarrow> nat \<Rightarrow> nat \<Rightarrow> nat \<Rightarrow> nat \<Rightarrow> bb \<Rightarrow> bb" where
  "insert_fixed_xfer d_row d_start s_row s_start n b =
     dr_insert_clean_call (Call_r2r_xfer d_row d_start s_row s_start n) b"

definition insert_cwde_family :: "dr_insert \<Rightarrow> instr \<Rightarrow> bb \<Rightarrow> bb" where
  "insert_cwde_family D i b =
     (if dsts i = [] \<or> \<not> opnd_is_reg (hd (dsts i)) then b
      else let n = opnd_bytes (regs D) (hd (dsts i)) in
        if n < 2 then b
        else insert_fixed_xfer DFT_REG_RAX (n div 2) DFT_REG_RAX 0 (n div 2) b)"

definition insert_cdq_family :: "dr_insert \<Rightarrow> instr \<Rightarrow> bb \<Rightarrow> bb" where
  "insert_cdq_family D i b =
     (if dsts i = [] \<or> \<not> opnd_is_reg (hd (dsts i)) then b
      else let n = opnd_bytes (regs D) (hd (dsts i)) in
        if n = 0 then b
        else insert_fixed_xfer DFT_REG_RDX 0 DFT_REG_RAX 0 n b)"

definition find_explicit_operand :: "dr_insert \<Rightarrow> instr \<Rightarrow> opnd option" where
  "find_explicit_operand D i =
     List.find (\<lambda>x. opnd_is_memory_reference x
       \<or> opnd_is_reg x \<and> reg_to_pointer_sized (regs D) (opnd_get_reg x) \<noteq> REG_64 RAX
          \<and> reg_to_pointer_sized (regs D) (opnd_get_reg x) \<noteq> REG_64 RDX) (srcs i)"

definition insert_muldiv :: "dr_insert \<Rightarrow> instr \<Rightarrow> bb \<Rightarrow> bb" where
  "insert_muldiv D i b =
     (case find_explicit_operand D i of None \<Rightarrow> b | Some e \<Rightarrow>
      if opnd_is_reg e then
        (case reg_shadow_span (regs D) (opnd_get_reg e) of None \<Rightarrow> b | Some (row, start, n) \<Rightarrow>
           dr_insert_clean_call (Call_ternary_r2r row start n) b)
      else if opnd_is_memory_reference e then
        (let n = opnd_bytes (regs D) e in
         if n = 0 then b else with_mem_addr D e (Call_ternary_m2r e n) b)
      else b)"

definition dst_in_family :: "dr_insert \<Rightarrow> gpr \<Rightarrow> opnd \<Rightarrow> bool" where
  "dst_in_family D g x = (gpr_opnd D x \<and> reg_to_pointer_sized (regs D) (opnd_get_reg x) = REG_64 g)"

definition insert_imul :: "dr_insert \<Rightarrow> instr \<Rightarrow> bb \<Rightarrow> bb" where
  "insert_imul D i b =
     (if list_ex (dst_in_family D RAX) (dsts i) \<and> list_ex (dst_in_family D RDX) (dsts i)
      then insert_muldiv D i b
      else insert_binary D i OP_imul b)"

text \<open>
  The collecting loop: r0 is the first register, r1 the last of the others, mem the last memory operand,
  with the number of each.
\<close>

fun xchg_opnds :: "dr_insert \<Rightarrow> opnd list \<Rightarrow> opnd \<times> opnd \<times> opnd \<times> nat \<times> nat \<Rightarrow> opnd \<times> opnd \<times> opnd \<times> nat \<times> nat" where
  "xchg_opnds D [] st = st"
| "xchg_opnds D (x # xs) (r0, r1, mem, nreg, nmem) =
     (if gpr_opnd D x then
        xchg_opnds D xs (if nreg = 0 then (x, r1, mem, 1, nmem) else (r0, x, mem, nreg + 1, nmem))
      else if opnd_is_memory_reference x then xchg_opnds D xs (r0, r1, x, nreg, nmem + 1)
      else xchg_opnds D xs (r0, r1, mem, nreg, nmem))"

definition insert_xchg :: "dr_insert \<Rightarrow> instr \<Rightarrow> bb \<Rightarrow> bb" where
  "insert_xchg D i b =
     (case xchg_opnds D (dsts i) (OpOther 0, OpOther 0, OpOther 0, 0, 0) of (r0, r1, mem, nreg, nmem) \<Rightarrow>
      if nmem = 0 \<and> nreg \<ge> 2 then
        (case reg_shadow_span (regs D) (opnd_get_reg r0) of None \<Rightarrow> b | Some (a_row, a_start, a_n) \<Rightarrow>
         case reg_shadow_span (regs D) (opnd_get_reg r1) of None \<Rightarrow> b | Some (b_row, b_start, b_n) \<Rightarrow>
           dr_insert_clean_call (Call_xchg_r2r a_row a_start b_row b_start (min a_n b_n)) b)
      else if nmem = 1 \<and> nreg \<ge> 1 then
        (case reg_shadow_span (regs D) (opnd_get_reg r0) of None \<Rightarrow> b | Some (row, start, n) \<Rightarrow>
           with_mem_addr D mem (Call_xchg_m2r mem row start n) b)
      else b)"

definition addr_reg_span :: "dr_insert \<Rightarrow> reg_id \<Rightarrow> nat \<times> nat" where
  "addr_reg_span D reg =
     (if reg \<noteq> DR_REG_NULL then
        (case reg_shadow_span (regs D) reg of None \<Rightarrow> (GRP_NUM, 0) | Some (r, s, n) \<Rightarrow> (r, s))
      else (GRP_NUM, 0))"

definition insert_lea :: "dr_insert \<Rightarrow> instr \<Rightarrow> bb \<Rightarrow> bb" where
  "insert_lea D i b =
     (if dsts i = [] \<or> srcs i = [] then b
      else let d = hd (dsts i); mem = hd (srcs i) in
        if \<not> opnd_is_reg d then b
        else case reg_shadow_span (regs D) (opnd_get_reg d) of None \<Rightarrow> b | Some (d_row, d_start, d_n) \<Rightarrow>
          if \<not> opnd_is_base_disp mem then b
          else case addr_reg_span D (opnd_get_base mem) of (b_row, b_start) \<Rightarrow>
            case addr_reg_span D (opnd_get_index mem) of (i_row, i_start) \<Rightarrow>
              dr_insert_clean_call (Call_lea_prop (app_pc i) d_row b_row b_start i_row i_start d_n) b)"

fun cmov_from :: "dr_insert \<Rightarrow> dr_pred_type \<Rightarrow> reg_id \<Rightarrow> nat \<times> nat \<times> nat \<Rightarrow> opnd list \<Rightarrow> bb \<Rightarrow> bb" where
  "cmov_from D pred dst span [] b = b"
| "cmov_from D pred dst (d_row, d_start, d_n) (s # ss) b =
     (if opnd_is_memory_reference s then with_mem_addr D s (Call_cmov_m2r pred d_row d_start s d_n) b
      else if gpr_opnd D s \<and> opnd_get_reg s \<noteq> dst then
        (case reg_shadow_span (regs D) (opnd_get_reg s) of None \<Rightarrow> b | Some (s_row, s_start, s_n) \<Rightarrow>
           dr_insert_clean_call (Call_cmov_r2r pred d_row d_start s_row s_start (min d_n s_n)) b)
      else cmov_from D pred dst (d_row, d_start, d_n) ss b)"

definition insert_cmov :: "dr_insert \<Rightarrow> instr \<Rightarrow> bb \<Rightarrow> bb" where
  "insert_cmov D i b =
     (if dsts i = [] then b
      else let d = hd (dsts i) in
        if \<not> opnd_is_reg d then b
        else case reg_shadow_span (regs D) (opnd_get_reg d) of None \<Rightarrow> b | Some span \<Rightarrow>
          cmov_from D (predicate i) (opnd_get_reg d) span (srcs i) b)"

definition insert_cmp :: "dr_insert \<Rightarrow> instr \<Rightarrow> bb \<Rightarrow> bb" where
  "insert_cmp D i b =
     (if length (srcs i) < 2 then b
      else let op0 = srcs i ! 0; op1 = srcs i ! 1; pc = app_pc i in
        if opnd_is_reg op0 then
          (let r0 = opnd_get_reg op0 in
           case reg_shadow_span (regs D) r0 of None \<Rightarrow> b | Some (row, start, n) \<Rightarrow>
           let sz = reg_bytes (regs D) r0; v0 = reg_val_opnd (regs D) r0 in
           if opnd_is_reg op1 then
             (let r1 = opnd_get_reg op1 in
              case reg_shadow_span (regs D) r1 of None \<Rightarrow> b | Some (s_row, s_start, s_n) \<Rightarrow>
                dr_insert_clean_call (Call_cmp_r2r pc row start v0 s_row s_start (reg_val_opnd (regs D) r1) sz) b)
           else if opnd_is_memory_reference op1 then
             with_mem_addr D op1 (Call_cmp_m2r pc row start v0 op1 sz) b
           else if opnd_is_immed op1 then
             dr_insert_clean_call (Call_cmp_i2r pc row start v0 (ucast (opnd_get_immed_int op1)) sz) b
           else b)
        else if opnd_is_memory_reference op0 then
          (let sz = opnd_bytes (regs D) op0 in
           if sz = 0 then b
           else if opnd_is_reg op1 then
             (let r1 = opnd_get_reg op1 in
              case reg_shadow_span (regs D) r1 of None \<Rightarrow> b | Some (s_row, s_start, s_n) \<Rightarrow>
                with_mem_addr D op0 (Call_cmp_r2m pc op0 s_row s_start (reg_val_opnd (regs D) r1) sz) b)
           else if opnd_is_immed op1 then
             with_mem_addr D op0 (Call_cmp_i2m pc op0 (ucast (opnd_get_immed_int op1)) sz) b
           else b)
        else b)"

definition insert_shift :: "dr_insert \<Rightarrow> instr \<Rightarrow> bb \<Rightarrow> bb" where
  "insert_shift D i b =
     (if dsts i = [] then b
      else let d = hd (dsts i) in
        if opnd_is_reg d then
          (if \<not> reg_is_gpr (regs D) (opnd_get_reg d) then b
           else case reg_shadow_span (regs D) (opnd_get_reg d) of None \<Rightarrow> b | Some (row, start, n) \<Rightarrow>
             dr_insert_clean_call (Call_shift_r row start n) b)
        else if opnd_is_memory_reference d then
          with_mem_addr D d (Call_shift_m d (opnd_bytes (regs D) d)) b
        else b)"

definition insert_shld_shrd :: "dr_insert \<Rightarrow> instr \<Rightarrow> bb \<Rightarrow> bb" where
  "insert_shld_shrd D i b =
     (if dsts i = [] \<or> length (srcs i) < 2 then b
      else let d = hd (dsts i) in
        if \<not> gpr_opnd D d then b
        else case reg_shadow_span (regs D) (opnd_get_reg d) of None \<Rightarrow> b | Some (d_row, d_start, d_n) \<Rightarrow>
          case List.find (\<lambda>s. gpr_opnd D s \<and> opnd_get_reg s \<noteq> opnd_get_reg d
                 \<and> reg_shadow_span (regs D) (opnd_get_reg s) \<noteq> None) (srcs i) of
            None \<Rightarrow> dr_insert_clean_call (Call_shift_r d_row d_start d_n) b
          | Some s \<Rightarrow>
              (case reg_shadow_span (regs D) (opnd_get_reg s) of None \<Rightarrow> b | Some (s_row, s_start, s_n) \<Rightarrow>
                 dr_insert_clean_call (Call_shld_r2r d_row d_start s_row s_start (min d_n s_n)) b))"

definition insert_bswap :: "dr_insert \<Rightarrow> instr \<Rightarrow> bb \<Rightarrow> bb" where
  "insert_bswap D i b =
     (if dsts i = [] then b
      else let d = hd (dsts i) in
        if \<not> gpr_opnd D d then b
        else case reg_shadow_span (regs D) (opnd_get_reg d) of None \<Rightarrow> b | Some (row, start, n) \<Rightarrow>
          if n < 2 then b else dr_insert_clean_call (Call_bswap_reg row start n) b)"

definition insert_movbe :: "dr_insert \<Rightarrow> instr \<Rightarrow> bb \<Rightarrow> bb" where
  "insert_movbe D i b =
     (if dsts i = [] \<or> srcs i = [] then b
      else let d = hd (dsts i); s = hd (srcs i) in
        if opnd_is_reg d \<and> opnd_is_memory_reference s then
          (if \<not> reg_is_gpr (regs D) (opnd_get_reg d) then b
           else case reg_shadow_span (regs D) (opnd_get_reg d) of None \<Rightarrow> b | Some (d_row, d_start, d_n) \<Rightarrow>
             with_mem_addr D s (Call_movbe_m2r d_row d_start s d_n) b)
        else if opnd_is_memory_reference d \<and> opnd_is_reg s then
          (if \<not> reg_is_gpr (regs D) (opnd_get_reg s) then b
           else case reg_shadow_span (regs D) (opnd_get_reg s) of None \<Rightarrow> b | Some (s_row, s_start, s_n) \<Rightarrow>
             with_mem_addr D d (Call_movbe_r2m d s_row s_start s_n) b)
        else b)"

text \<open>The loop over the sources: the first accumulator and the first other register that is not the destination.\<close>

fun cmpxchg_regs :: "dr_insert \<Rightarrow> reg_id \<Rightarrow> opnd list \<Rightarrow> reg_id \<times> reg_id \<Rightarrow> reg_id \<times> reg_id" where
  "cmpxchg_regs D dst_reg [] st = st"
| "cmpxchg_regs D dst_reg (s # ss) (src_reg, accum_reg) =
     (if \<not> gpr_opnd D s then cmpxchg_regs D dst_reg ss (src_reg, accum_reg)
      else let r = opnd_get_reg s in
        if reg_to_pointer_sized (regs D) r = REG_64 RAX then
          cmpxchg_regs D dst_reg ss (src_reg, if accum_reg = DR_REG_NULL then r else accum_reg)
        else if r \<noteq> dst_reg then
          cmpxchg_regs D dst_reg ss (if src_reg = DR_REG_NULL then r else src_reg, accum_reg)
        else cmpxchg_regs D dst_reg ss (src_reg, accum_reg))"

definition insert_cmpxchg :: "dr_insert \<Rightarrow> instr \<Rightarrow> bb \<Rightarrow> bb" where
  "insert_cmpxchg D i b =
     (if dsts i = [] \<or> srcs i = [] then b
      else let d = hd (dsts i); dst_reg = (if opnd_is_reg d then opnd_get_reg d else DR_REG_NULL) in
        case cmpxchg_regs D dst_reg (srcs i) (DR_REG_NULL, DR_REG_NULL) of (src_reg, accum_reg) \<Rightarrow>
        if src_reg = DR_REG_NULL \<or> accum_reg = DR_REG_NULL then b
        else case reg_shadow_span (regs D) src_reg of None \<Rightarrow> b | Some (s_row, s_start, s_n) \<Rightarrow>
          case reg_shadow_span (regs D) accum_reg of None \<Rightarrow> b | Some (a_row, a_start, a_n) \<Rightarrow>
            let n = (if opnd_bytes (regs D) d = 0 then s_n else opnd_bytes (regs D) d) in
            if opnd_is_memory_reference d then
              with_mem_addr D d (Call_cmpxchg_mem d s_row s_start a_row a_start n) b
            else if gpr_opnd D d then
              (case reg_shadow_span (regs D) (opnd_get_reg d) of None \<Rightarrow> b | Some (d_row, d_start, d_n) \<Rightarrow>
                 dr_insert_clean_call (Call_cmpxchg_reg d_row d_start s_row s_start a_row a_start n) b)
            else b)"

definition insert_xadd :: "dr_insert \<Rightarrow> instr \<Rightarrow> bb \<Rightarrow> bb" where
  "insert_xadd D i b =
     (if length (dsts i) < 2 then b
      else let d = dsts i ! 0; s = dsts i ! 1 in
        if \<not> gpr_opnd D s then b
        else case reg_shadow_span (regs D) (opnd_get_reg s) of None \<Rightarrow> b | Some (s_row, s_start, s_n) \<Rightarrow>
          if gpr_opnd D d then
            (case reg_shadow_span (regs D) (opnd_get_reg d) of None \<Rightarrow> b | Some (d_row, d_start, d_n) \<Rightarrow>
               dr_insert_clean_call (Call_xadd_r2r d_row d_start s_row s_start (min d_n s_n)) b)
          else if opnd_is_memory_reference d then
            with_mem_addr D d (Call_xadd_m2r d s_row s_start s_n) b
          else b)"

definition insert_movs :: "dr_insert \<Rightarrow> instr \<Rightarrow> bb \<Rightarrow> bb" where
  "insert_movs D i b =
     (if dsts i = [] \<or> srcs i = [] then b
      else let d = hd (dsts i); s = hd (srcs i) in
        if \<not> opnd_is_memory_reference d \<or> \<not> opnd_is_memory_reference s then b
        else if opnd_bytes (regs D) d = 0 then b
        else insert_m2m_xfer D d s (opnd_bytes (regs D) d) b)"

definition insert_stos :: "dr_insert \<Rightarrow> instr \<Rightarrow> bb \<Rightarrow> bb" where
  "insert_stos D i b =
     (if dsts i = [] then b
      else let d = hd (dsts i) in
        if \<not> opnd_is_memory_reference d then b
        else case List.find (dst_in_family D RAX) (srcs i) of
          None \<Rightarrow> b | Some s \<Rightarrow> insert_mov_r2m D d (opnd_get_reg s) b)"

definition insert_lods :: "dr_insert \<Rightarrow> instr \<Rightarrow> bb \<Rightarrow> bb" where
  "insert_lods D i b =
     (if srcs i = [] then b
      else let s = hd (srcs i) in
        if \<not> opnd_is_memory_reference s then b
        else case List.find (dst_in_family D RAX) (dsts i) of
          None \<Rightarrow> b | Some d \<Rightarrow> insert_mov_m2r D (opnd_get_reg d) s b)"

section \<open>The opcode router\<close>

definition insert_mov_ld :: "dr_insert \<Rightarrow> instr \<Rightarrow> bb \<Rightarrow> bb" where
  "insert_mov_ld D i b = insert_xfer D i b"

definition insert_mov_st :: "dr_insert \<Rightarrow> instr \<Rightarrow> bb \<Rightarrow> bb" where
  "insert_mov_st D i b =
     (if dsts i = [] \<or> srcs i = [] then b
      else let d = hd (dsts i); s = hd (srcs i) in
        if opnd_is_memory_reference d then
          (if opnd_is_reg s then insert_mov_r2m D d (opnd_get_reg s) b
           else if opnd_is_immed s then insert_mov_clr_mem D d b
           else b)
        else if opnd_is_reg d then
          (if opnd_is_reg s then insert_r2r_xfer D (opnd_get_reg d) (opnd_get_reg s) b
           else if opnd_is_immed s then insert_r_clr D (opnd_get_reg d) b
           else b)
        else b)"

definition insert_mov_imm :: "dr_insert \<Rightarrow> instr \<Rightarrow> bb \<Rightarrow> bb" where
  "insert_mov_imm D i b =
     (if dsts i = [] then b
      else if opnd_is_reg (hd (dsts i)) then insert_r_clr D (opnd_get_reg (hd (dsts i))) b
      else b)"

primrec inserter :: "opcode \<Rightarrow> dr_insert \<Rightarrow> instr \<Rightarrow> bb \<Rightarrow> bb" where
  "inserter OP_mov_ld = insert_mov_ld"
| "inserter OP_mov_st = insert_mov_st"
| "inserter OP_mov_imm = insert_mov_imm"
| "inserter OP_cmp = insert_cmp"
| "inserter OP_add = (\<lambda>D i. insert_binary D i OP_add)"
| "inserter OP_and = (\<lambda>D i. insert_binary D i OP_and)"
| "inserter OP_or = (\<lambda>D i. insert_binary D i OP_or)"
| "inserter OP_xor = (\<lambda>D i. insert_binary D i OP_xor)"
| "inserter OP_sub = (\<lambda>D i. insert_binary D i OP_sub)"
| "inserter OP_sbb = (\<lambda>D i. insert_binary D i OP_sbb)"
| "inserter OP_movzx = (\<lambda>D i. insert_extend D i False)"
| "inserter OP_movsx = (\<lambda>D i. insert_extend D i True)"
| "inserter OP_movsxd = (\<lambda>D i. insert_extend D i True)"
| "inserter OP_lea = insert_lea"
| "inserter OP_push = insert_push"
| "inserter OP_pop = insert_pop"
| "inserter OP_cmps = insert_cmps"
| "inserter OP_leave = insert_leave"
| "inserter OP_bsf = insert_xfer"
| "inserter OP_bsr = insert_xfer"
| "inserter OP_cwde = insert_cwde_family"
| "inserter OP_cdq = insert_cdq_family"
| "inserter OP_mul = insert_muldiv"
| "inserter OP_div = insert_muldiv"
| "inserter OP_idiv = insert_muldiv"
| "inserter OP_imul = insert_imul"
| "inserter OP_xchg = insert_xchg"
| "inserter OP_cmovcc = insert_cmov"
| "inserter OP_shl = insert_shift"
| "inserter OP_shr = insert_shift"
| "inserter OP_sar = insert_shift"
| "inserter OP_rol = insert_shift"
| "inserter OP_ror = insert_shift"
| "inserter OP_rcl = insert_shift"
| "inserter OP_rcr = insert_shift"
| "inserter OP_shld = insert_shld_shrd"
| "inserter OP_shrd = insert_shld_shrd"
| "inserter OP_bswap = insert_bswap"
| "inserter OP_movbe = insert_movbe"
| "inserter OP_cmpxchg = insert_cmpxchg"
| "inserter OP_xadd = insert_xadd"
| "inserter OP_movs = insert_movs"
| "inserter OP_stos = insert_stos"
| "inserter OP_lods = insert_lods"
| "inserter (OP_OTHER k) = (\<lambda>D i b. b)"

definition ins_inspect_dr :: "dr_insert \<Rightarrow> instr \<Rightarrow> bb \<Rightarrow> bb" where
  "ins_inspect_dr D i b = inserter (instr_opcode i) D i b"

end
