(* ===== verification/Lifecycle.thy ===== *)
theory Lifecycle
  imports Sdft_Hook Instrumentation
begin

text \<open>
  The library from start to exit: \<^verbatim>\<open>init\<close> and \<^verbatim>\<open>shutdown\<close> of \<^verbatim>\<open>src/src/api_lifecycle.cpp\<close>, \<^verbatim>\<open>libdft_setup\<close> and
  the exit event of \<^verbatim>\<open>src/libdft_api_dr.cpp\<close>, and from \<^verbatim>\<open>src/libdft_core_dr.cpp\<close> the event for every
  instruction that DynamoRIO translates and the sinks at function entries. Messages to the standard error
  stream are left out.
\<close>

section \<open>State\<close>

text \<open>
  The callbacks registered with \<^verbatim>\<open>drmgr\<close> for loaded modules, in the order of registration, the number of
  registrations of the other events, and the addresses with \<open>func_sink_pre\<close> wrapped around them.
  \<open>environ\<close> holds the environment variables of the process.
\<close>

datatype module_cb = On_module_load | Event_module_load | Func_sink_on_module_load

record lib_state = dft_state +
  g_initialized :: bool
  environ :: "string \<Rightarrow> string option"
  load_events :: "module_cb list"
  unload_events :: nat
  engine_events :: nat
  bb_events :: nat
  exit_events :: nat
  func_wraps :: "ADDRINT set"

text \<open>
  What DynamoRIO, its extensions and the file system answer: a TLS slot (-1 when none is left), whether
  \<^verbatim>\<open>drsym\<close> starts, files, symbols of modules, and whether a wrap is accepted, given those in place.
\<close>

record lib_env =
  tls_slot :: int
  drsym_starts :: bool
  mnt_files :: mnt_env
  conf_files :: "string \<Rightarrow> string option"
  dr_internal :: "ADDRINT \<Rightarrow> bool"
  proc_addr :: "module_data \<Rightarrow> string \<Rightarrow> ADDRINT option"
  symbols_of :: "string \<Rightarrow> sym_info list"
  lookup_symbol :: "string \<Rightarrow> string \<Rightarrow> UINT64 option"
  drwrap_wrap :: "ADDRINT set \<Rightarrow> ADDRINT \<Rightarrow> bool"

record init_options_t =
  single_threaded :: bool
  opaque_modules :: "string list"
  reg_file_size :: nat
  mmap_paint_method :: int
  max_offset_per_byte :: int

text \<open>The initial values of the globals; \<open>Z\<close> gives the sizes of the kernel's types, \<open>env\<close> the environment.\<close>

definition lib_start :: "(os_type \<Rightarrow> nat) \<Rightarrow> (string \<Rightarrow> string option) \<Rightarrow> lib_state" where
  "lib_start Z env =
     \<lparr>tables = \<lparr>g_sets = [], g_intern = Map.empty, g_combine = Map.empty\<rparr>, tag_dir = empty_dir, tls_idx = - 1,
      threads = (\<lambda>_. None), out_file = None, out_lea_file = None, limit_offset = 0, g_opcode_sinks = (\<lambda>_. []),
      g_pc_ranges = [], g_pending_func_sinks = [], sink_log = [], fdset = {}, filename = [], flag = 0, mmap_type = False,
      g_src_events = 0, g_src_bytes = 0, syscall_desc = syscall_desc_table Z, os_log = [],
      mnt = mnt_start, sdft = sdft_start, s_active = False, s_wrapped = {}, dr_wraps = [], s_intercepted_rtns = 0,
      s_calls_per_shape = (\<lambda>_. 0), s_ifunc_resolved = 0, g_initialized = False, environ = env, load_events = [],
      unload_events = 0, engine_events = 0, bb_events = 0, exit_events = 0, func_wraps = {}\<rparr>"

section \<open>Translated instructions\<close>

text \<open>The event for one instruction of a block: what is inserted is appended to b.\<close>

definition event_bb_insn :: "dr_insert \<Rightarrow> instr \<Rightarrow> bb \<Rightarrow> 'a dft_state_scheme \<Rightarrow> bb \<times> 'a dft_state_scheme" where
  "event_bb_insn D i b s =
     (if \<not> is_app i then (b, s)
      else
        let pc = app_pc i;
            (skip, s1) = (if pc \<noteq> 0 then (case is_mnt pc (mnt s) of (r, m) \<Rightarrow> (r, s\<lparr>mnt := m\<rparr>)) else (False, s))
        in if skip then (b, s1)
           else
             let b1 = ins_inspect_dr D i b
             in (if pc \<noteq> 0 \<and> has_pc_range_sink_at pc s1 then dr_insert_clean_call (Call_pc_range_sink pc) b1 else b1, s1))"

section \<open>Sinks at function entries\<close>

definition func_sink_pre :: "ADDRINT \<Rightarrow> 'a engine_scheme \<Rightarrow> 'a engine_scheme" where
  "func_sink_pre pc s =
     s\<lparr>sink_log := sink_log s @
         map (\<lambda>e. FuncSink (func_cb e) pc) (filter (\<lambda>e. sink_pc e \<noteq> 0 \<and> sink_pc e = pc) (g_pending_func_sinks s))\<rparr>"

text \<open>One pending entry when a module is loaded: its entry and the wrapped addresses afterwards.\<close>

definition resolve_sink :: "lib_env \<Rightarrow> string \<Rightarrow> ADDRINT \<Rightarrow> pending_func_sink \<Rightarrow> ADDRINT set \<Rightarrow> pending_func_sink \<times> ADDRINT set" where
  "resolve_sink L path start e W =
     (if func_name e \<noteq> [] \<and> sink_pc e = 0 \<and> (module_basename e = [] \<or> module_basename e = basename_of path) then
        (case lookup_symbol L path (func_name e) of
           None \<Rightarrow> (e, W)
         | Some modoffs \<Rightarrow>
             let wrap_pc = start + modoffs
             in if modoffs \<noteq> 0 \<and> drwrap_wrap L W wrap_pc then (e\<lparr>sink_pc := wrap_pc\<rparr>, insert wrap_pc W) else (e, W))
      else (e, W))"

fun resolve_sinks :: "lib_env \<Rightarrow> string \<Rightarrow> ADDRINT \<Rightarrow> pending_func_sink list \<Rightarrow> ADDRINT set \<Rightarrow> pending_func_sink list \<times> ADDRINT set" where
  "resolve_sinks L path start [] W = ([], W)"
| "resolve_sinks L path start (e # es) W =
     (let (e', W1) = resolve_sink L path start e W; (es', W2) = resolve_sinks L path start es W1 in (e' # es', W2))"

definition func_sink_on_module_load :: "lib_env \<Rightarrow> module_data \<Rightarrow> 'a lib_state_scheme \<Rightarrow> 'a lib_state_scheme" where
  "func_sink_on_module_load L info s =
     (let path = (case full_path info of None \<Rightarrow> [] | Some p \<Rightarrow> p);
          (es, W) = resolve_sinks L path (mod_start info) (g_pending_func_sinks s) (func_wraps s)
      in s\<lparr>g_pending_func_sinks := es, func_wraps := W\<rparr>)"

definition wrap_pc_sink :: "lib_env \<Rightarrow> pending_func_sink \<Rightarrow> ADDRINT set \<Rightarrow> ADDRINT set" where
  "wrap_pc_sink L e W =
     (if sink_pc e \<noteq> 0 \<and> func_name e = [] \<and> drwrap_wrap L W (sink_pc e) then insert (sink_pc e) W else W)"

definition libdft_core_init :: "lib_env \<Rightarrow> 'a lib_state_scheme \<Rightarrow> 'a lib_state_scheme" where
  "libdft_core_init L s =
     (let s1 = s\<lparr>bb_events := bb_events s + 1\<rparr>
      in if g_pending_func_sinks s1 = [] then s1
         else s1\<lparr>load_events := load_events s1 @ [Func_sink_on_module_load],
                 func_wraps := fold (wrap_pc_sink L) (g_pending_func_sinks s1) (func_wraps s1)\<rparr>)"

section \<open>Setup and exit\<close>

text \<open>\<^verbatim>\<open>mnt::init\<close> with its registrations, which happen at the first call and unless the policy is off.\<close>

definition setup_mnt :: "lib_env \<Rightarrow> 'a lib_state_scheme \<Rightarrow> 'a lib_state_scheme" where
  "setup_mnt L s =
     (let m = mnt_init ((mnt_files L)\<lparr>getenv := environ s\<rparr>) (mnt s)
      in if s_inited (mnt s) \<or> s_policy m = POLICY_OFF then s\<lparr>mnt := m\<rparr>
         else s\<lparr>mnt := m, load_events := load_events s @ [On_module_load], unload_events := unload_events s + 1\<rparr>)"

definition sdft_conf :: "(string \<Rightarrow> string option) \<Rightarrow> string" where
  "sdft_conf env =
     (case env ''VUZZER_SDFT_CONF'' of
        None \<Rightarrow> ''../fuzzer-code/libc_summaries.conf''
      | Some c \<Rightarrow> if c \<noteq> [] then c else ''../fuzzer-code/libc_summaries.conf'')"

definition setup_sdft :: "lib_env \<Rightarrow> 'a lib_state_scheme \<Rightarrow> 'a lib_state_scheme" where
  "setup_sdft L s =
     (if environ s ''VUZZER_SDFT'' = Some ''off'' then s
      else
        case sdft_init (drsym_starts L) (conf_files L) (sdft_conf (environ s)) s of
          (rc, s1) \<Rightarrow> if rc = 0 then s1\<lparr>load_events := load_events s1 @ [Event_module_load]\<rparr> else s1)"

text \<open>A TLS field that was just registered is null in every thread.\<close>

definition libdft_setup :: "lib_env \<Rightarrow> 'a lib_state_scheme \<Rightarrow> 'a lib_state_scheme res" where
  "libdft_setup L s =
     (let s1 = s\<lparr>tls_idx := tls_slot L, threads := (\<lambda>_. None)\<rparr>
      in if tls_idx s1 = - 1 then libdft_die
         else
           let s2 = s1\<lparr>tables := tagmap_alloc, engine_events := engine_events s1 + 1\<rparr>;
               s3 = libdft_core_init L (setup_sdft L (setup_mnt L s2))
           in Inr (s3\<lparr>exit_events := exit_events s3 + 1\<rparr>))"

definition event_exit :: "'a lib_state_scheme \<Rightarrow> 'a lib_state_scheme" where
  "event_exit s =
     (let s1 = (if s_active s then s\<lparr>load_events := remove1 Event_module_load (load_events s)\<rparr> else s);
          s2 = sdft_shutdown s1
      in s2\<lparr>threads := (\<lambda>_. None), engine_events := engine_events s2 - 1\<rparr>)"

section \<open>The public functions\<close>

fun join_commas :: "string list \<Rightarrow> string" where
  "join_commas [] = []"
| "join_commas [m] = m"
| "join_commas (m # ms) = m @ '','' @ join_commas ms"

text \<open>\<^verbatim>\<open>setenv(name, value, 0)\<close> keeps a variable that is set, also one set to the empty string.\<close>

definition setenv_keep :: "string \<Rightarrow> string \<Rightarrow> (string \<Rightarrow> string option) \<Rightarrow> string \<Rightarrow> string option" where
  "setenv_keep name value env = (if env name = None then env(name \<mapsto> value) else env)"

definition set_opaque :: "string list \<Rightarrow> (string \<Rightarrow> string option) \<Rightarrow> string \<Rightarrow> string option" where
  "set_opaque mods env =
     (if mods \<noteq> [] then
        (if (case env ''VUZZER_MNT_POLICY'' of None \<Rightarrow> True | Some v \<Rightarrow> v = [])
         then setenv_keep ''VUZZER_MNT_POLICY'' (''on:'' @ join_commas mods) env
         else env)
      else env)"

definition lib_init :: "lib_env \<Rightarrow> init_options_t \<Rightarrow> 'a lib_state_scheme \<Rightarrow> (bool \<times> 'a lib_state_scheme) res" where
  "lib_init L opts s =
     (if g_initialized s then Inr (True, s)
      else
        let s1 = s\<lparr>environ := set_opaque (opaque_modules opts) (environ s),
                   mmap_type := (mmap_paint_method opts \<noteq> 0), limit_offset := max_offset_per_byte opts\<rparr>
        in rbind (libdft_setup L s1) (\<lambda>s2. Inr (True, s2\<lparr>g_initialized := True\<rparr>)))"

definition lib_shutdown :: "'a lib_state_scheme \<Rightarrow> 'a lib_state_scheme" where
  "lib_shutdown s = s\<lparr>g_initialized := False\<rparr>"

section \<open>Module events\<close>

fun run_module_cb :: "lib_env \<Rightarrow> module_data \<Rightarrow> module_cb \<Rightarrow> 'a lib_state_scheme \<Rightarrow> 'a lib_state_scheme" where
  "run_module_cb L info On_module_load s =
     s\<lparr>mnt := mnt_on_module_load ((mnt_files L)\<lparr>getenv := environ s\<rparr>) info (mnt s)\<rparr>"
| "run_module_cb L info Event_module_load s =
     sdft_event_module_load (dr_internal L) (proc_addr L info) (symbols_of L) info s"
| "run_module_cb L info Func_sink_on_module_load s = func_sink_on_module_load L info s"

definition module_loaded :: "lib_env \<Rightarrow> module_data \<Rightarrow> 'a lib_state_scheme \<Rightarrow> 'a lib_state_scheme" where
  "module_loaded L info s = fold (run_module_cb L info) (load_events s) s"

definition module_unloaded :: "module_data \<Rightarrow> 'a lib_state_scheme \<Rightarrow> 'a lib_state_scheme" where
  "module_unloaded info s = (if unload_events s = 0 then s else s\<lparr>mnt := mnt_on_module_unload info (mnt s)\<rparr>)"

end
