(* ===== verification/Telemetry.thy ===== *)
theory Telemetry
  imports Lifecycle
begin

text \<open>
  The report that \<^verbatim>\<open>finish\<close> of \<^verbatim>\<open>src/libdft_api_dr.cpp\<close> prints to the standard error stream when the process
  ends: the counters of the taint sources, of the queries of \<^verbatim>\<open>src/mnt_consumer_dr.cpp\<close>, and of the summarised
  functions of \<^verbatim>\<open>src/sdft_hook_dr.cpp\<close> and \<^verbatim>\<open>src/sdft_summaries_dr.cpp\<close>; and what the counters of the
  queries count.
\<close>

definition u64_str :: "UINT64 \<Rightarrow> string" where
  "u64_str w = dec_str (unat w)"

definition newline :: string where "newline = [CHR 0x0A]"

section \<open>Skipped instructions\<close>

fun POLICY_NAMES :: "mnt_policy \<Rightarrow> string" where
  "POLICY_NAMES POLICY_LEAN = ''lean''"
| "POLICY_NAMES POLICY_SOUND = ''sound''"
| "POLICY_NAMES POLICY_V2_PERPC = ''v2_perpc''"
| "POLICY_NAMES POLICY_OFF = ''off''"

definition image_line :: "ImageMnt \<Rightarrow> string" where
  "image_line im =
     ''[mnt]   '' @ img_name im @ '' low=0x'' @ hex_str (unat (img_low im)) @ '' high=0x'' @ hex_str (unat (img_high im))
     @ '' n_mnt='' @ dec_str (length (mnt_sorted im)) @ newline"

definition mnt_log_summary :: "mnt_state \<Rightarrow> string" where
  "mnt_log_summary m =
     ''[mnt] summary: lookups='' @ u64_str (s_total_lookups m) @ '' hits='' @ u64_str (s_total_hits m)
     @ '' rtn_hits='' @ u64_str (s_total_rtn_hits m) @ '' misses_no_img='' @ u64_str (s_total_misses_no_img m)
     @ '' images_tracked='' @ dec_str (length (s_images m)) @ '' rtn_ranges='' @ dec_str (length (s_ranges m))
     @ '' policy='' @ POLICY_NAMES (s_policy m) @ newline @ concat (map image_line (s_images m))"

section \<open>Function summaries\<close>

definition func_count :: "sdft_state \<Rightarrow> nat" where
  "func_count d = card (dom (s_funcs d))"

definition alias_count :: "sdft_state \<Rightarrow> nat" where
  "alias_count d = length (s_aliases d)"

definition sdft_log_summary :: "sdft_state \<Rightarrow> string" where
  "sdft_log_summary d =
     ''[sdft] summary table: policy='' @ (if sdft_policy d = POLICY_OPTIMISTIC then ''optimistic'' else ''conservative'')
     @ '' funcs='' @ dec_str (func_count d) @ '' aliases='' @ dec_str (alias_count d) @ newline"

fun shape_name :: "Shape \<Rightarrow> string" where
  "shape_name SHAPE_INVALID = ''INVALID''"
| "shape_name SHAPE_SOURCE = ''SOURCE''"
| "shape_name SHAPE_SOURCE_RET_PTR = ''SOURCE_RET_PTR''"
| "shape_name SHAPE_PROP_PTR2PTR = ''PROP_PTR2PTR''"
| "shape_name SHAPE_PROP_PTR2VAL = ''PROP_PTR2VAL''"
| "shape_name SHAPE_PROP_SCALAR = ''PROP_SCALAR''"
| "shape_name SHAPE_CLOBBER_ONLY = ''CLOBBER_ONLY''"

text \<open>The shapes 1 to 6, in the order of the loop.\<close>

definition counted_shapes :: "Shape list" where
  "counted_shapes =
     [SHAPE_SOURCE, SHAPE_SOURCE_RET_PTR, SHAPE_PROP_PTR2PTR, SHAPE_PROP_PTR2VAL, SHAPE_PROP_SCALAR, SHAPE_CLOBBER_ONLY]"

definition shape_line :: "'a dft_state_scheme \<Rightarrow> Shape \<Rightarrow> string" where
  "shape_line s sh = ''[sdft_hook]   shape '' @ shape_name sh @ '': '' @ u64_str (s_calls_per_shape s sh) @ '' calls'' @ newline"

definition hook_log_summary :: "'a dft_state_scheme \<Rightarrow> string" where
  "hook_log_summary s =
     ''[sdft_hook] intercepted_rtns='' @ u64_str (s_intercepted_rtns s) @ '' (ifunc_resolved='' @ u64_str (s_ifunc_resolved s)
     @ '')'' @ newline @ concat (map (shape_line s) counted_shapes) @ sdft_log_summary (sdft s)"

definition finish_report :: "'a dft_state_scheme \<Rightarrow> string" where
  "finish_report s =
     ''[libdft-dr] taint sources: '' @ u64_str (g_src_events s) @ '' events, '' @ u64_str (g_src_bytes s) @ '' bytes painted''
     @ newline @ mnt_log_summary (mnt s) @ hook_log_summary s"

text \<open>\<^verbatim>\<open>finish\<close>: the two output files, which are closed, and the report.\<close>

definition finish :: "'a dft_state_scheme \<Rightarrow> (string option \<times> string option) \<times> string" where
  "finish s = ((out_file s, out_lea_file s), finish_report s)"

end
