(* ===== verification/Refine_Moves.thy ===== *)
theory Refine_Moves
  imports Propagation
begin

text \<open>
  The handlers that move, clear, exchange and combine bytes implement their specification: the loops
  over cells first, on top of the calculus of \<open>Taint\<close>, then one lemma per handler.
\<close>

section \<open>Loops over cells\<close>

lemma refines_cong: "refines dc f c g \<Longrightarrow> (\<And>T. g T = g' T) \<Longrightarrow> refines dc f c g'"
  by (simp add: refines_def)

lemma refines_step_cong:
  assumes "refines dc f c g" "\<And>s. engine_ok s \<Longrightarrow> live dc s \<Longrightarrow> f' s = f s"
  shows "refines dc f' c g"
  using assms by (auto simp: refines_def)

lemma refines_copy_loop:
  assumes "\<And>i. i < n \<Longrightarrow> readable (x i)" "\<And>i. i < n \<Longrightarrow> writable (y i)"
    "\<And>i j. i < n \<Longrightarrow> j < i \<Longrightarrow> x i \<noteq> y j"
  shows "refines dc (for_upto n (\<lambda>i s. rbind (cell_rd dc (x i) s) (\<lambda>t. cell_wr dc (y i) t s))) 0
     (copy_spec dc n y x)"
proof -
  have "refines dc (for_upto n (\<lambda>i s. rbind (cell_rd dc (x i) s) (\<lambda>t. cell_wr dc (y i) t s))) (n * 0)
     (fold (\<lambda>i U. tset dc (y i) (tget dc (x i) U) U) [0..<n])"
    by (rule refines_upto, rule refines_copy) (use assms in auto)
  then show ?thesis unfolding copy_spec_def mult_0_right
    by (rule refines_cong) (rule fold_tset_assign, use assms(3) in auto)
qed

lemma refines_clear_loop:
  assumes "\<And>i. i < n \<Longrightarrow> writable (y i)"
  shows "refines dc (for_upto n (\<lambda>i. cell_wr dc (y i) cleared_val)) 0 (assign dc n y (\<lambda>_. {}))"
proof -
  have "refines dc (for_upto n (\<lambda>i. cell_wr dc (y i) cleared_val)) (n * 0) (fold (\<lambda>i. tset dc (y i) {}) [0..<n])"
    by (rule refines_upto, rule refines_clear) (use assms in auto)
  then show ?thesis by (simp add: assign_def[abs_def] fun_eq_iff)
qed

lemma refines_union_loop:
  assumes "\<And>i. i < n \<Longrightarrow> readable (x i)" "\<And>i. i < n \<Longrightarrow> readable (y i)" "\<And>i. i < n \<Longrightarrow> writable (z i)"
    "\<And>i j. i < n \<Longrightarrow> j < i \<Longrightarrow> x i \<noteq> z j" "\<And>i j. i < n \<Longrightarrow> j < i \<Longrightarrow> y i \<noteq> z j"
  shows "refines dc (for_upto n (\<lambda>i s. rbind (cell_rd dc (x i) s) (\<lambda>l. rbind (cell_rd dc (y i) s) (\<lambda>r.
       rbind (combine_tags l r s) (\<lambda>(u, s1). cell_wr dc (z i) u s1))))) n (union_spec dc n z x y)"
proof -
  have "refines dc (for_upto n (\<lambda>i s. rbind (cell_rd dc (x i) s) (\<lambda>l. rbind (cell_rd dc (y i) s) (\<lambda>r.
       rbind (combine_tags l r s) (\<lambda>(u, s1). cell_wr dc (z i) u s1))))) (n * 1)
     (fold (\<lambda>i U. tset dc (z i) (tget dc (x i) U \<union> tget dc (y i) U) U) [0..<n])"
    by (rule refines_upto, rule refines_combine) (use assms in auto)
  then show ?thesis unfolding union_spec_def mult_1_right
    by (rule refines_cong) (rule fold_tset_assign, use assms(4,5) in auto)
qed

text \<open>The counterpart of \<open>fold_tset_assign\<close> for loops that write two cells in each iteration.\<close>

lemma assign2_Suc: "assign2 dc (Suc n) y v z w T = tset dc (z n) (w n) (tset dc (y n) (v n) (assign2 dc n y v z w T))"
  by (simp add: assign2_def)

lemma tget_assign2_other:
  "(\<And>i. i < n \<Longrightarrow> c \<noteq> y i \<and> c \<noteq> z i) \<Longrightarrow> tget dc c (assign2 dc n y v z w T) = tget dc c T"
proof (induction n)
  case (Suc n)
  from Suc.prems[of n] Suc show ?case by (simp add: assign2_Suc tget_tset)
qed (simp add: assign2_def)

lemma fold_tset_assign2:
  assumes "\<And>i U. i < n \<Longrightarrow> (\<And>c. (\<And>j. j < i \<Longrightarrow> c \<noteq> y j \<and> c \<noteq> z j) \<Longrightarrow> tget dc c U = tget dc c T) \<Longrightarrow>
      g i U = g i T \<and> h i U = h i T"
  shows "fold (\<lambda>i U. tset dc (z i) (h i U) (tset dc (y i) (g i U) U)) [0..<n] T
     = assign2 dc n y (\<lambda>i. g i T) z (\<lambda>i. h i T) T"
  using assms
proof (induction n)
  case (Suc n)
  let ?U = "fold (\<lambda>i U. tset dc (z i) (h i U) (tset dc (y i) (g i U) U)) [0..<n] T"
  have IH: "?U = assign2 dc n y (\<lambda>i. g i T) z (\<lambda>i. h i T) T" by (rule Suc.IH) (rule Suc.prems, simp_all)
  have eq: "tget dc c ?U = tget dc c T" if "\<And>j. j < n \<Longrightarrow> c \<noteq> y j \<and> c \<noteq> z j" for c
    unfolding IH by (rule tget_assign2_other) (rule that)
  have "g n ?U = g n T \<and> h n ?U = h n T" by (rule Suc.prems) (simp_all add: eq)
  with IH show ?case by (simp add: assign2_Suc)
qed (simp add: assign2_def)

lemma refines_swap_loop:
  assumes "\<And>i. i < n \<Longrightarrow> readable (x i) \<and> writable (x i)" "\<And>i. i < n \<Longrightarrow> readable (y i) \<and> writable (y i)"
    "\<And>i j. i < n \<Longrightarrow> j < i \<Longrightarrow> x i \<noteq> x j \<and> x i \<noteq> y j \<and> y i \<noteq> x j \<and> y i \<noteq> y j"
  shows "refines dc (for_upto n (\<lambda>i s. rbind (cell_rd dc (x i) s) (\<lambda>t. rbind (cell_rd dc (y i) s) (\<lambda>u.
       rbind (cell_wr dc (x i) u s) (cell_wr dc (y i) t))))) 0 (swap_spec dc n x y)"
proof -
  have "refines dc (for_upto n (\<lambda>i s. rbind (cell_rd dc (x i) s) (\<lambda>t. rbind (cell_rd dc (y i) s) (\<lambda>u.
       rbind (cell_wr dc (x i) u s) (cell_wr dc (y i) t))))) (n * 0)
     (fold (\<lambda>i U. tset dc (y i) (tget dc (x i) U) (tset dc (x i) (tget dc (y i) U) U)) [0..<n])"
    by (rule refines_upto, rule refines_swap) (use assms(1,2) in auto)
  then show ?thesis unfolding swap_spec_def mult_0_right
    by (rule refines_cong) (rule fold_tset_assign2, use assms(3) in auto)
qed

lemma refines_both_loop:
  assumes "\<And>i. i < n \<Longrightarrow> readable (x i) \<and> writable (x i)" "\<And>i. i < n \<Longrightarrow> readable (y i) \<and> writable (y i)"
    "\<And>i j. i < n \<Longrightarrow> j < i \<Longrightarrow> x i \<noteq> x j \<and> x i \<noteq> y j \<and> y i \<noteq> x j \<and> y i \<noteq> y j"
  shows "refines dc (for_upto n (\<lambda>i s. rbind (cell_rd dc (x i) s) (\<lambda>l. rbind (cell_rd dc (y i) s) (\<lambda>r.
       rbind (combine_tags l r s) (\<lambda>(u, s1). rbind (cell_wr dc (x i) u s1) (cell_wr dc (y i) u)))))) n
     (both_spec dc n x y (\<lambda>i T. tget dc (x i) T \<union> tget dc (y i) T))"
proof -
  have "refines dc (for_upto n (\<lambda>i s. rbind (cell_rd dc (x i) s) (\<lambda>l. rbind (cell_rd dc (y i) s) (\<lambda>r.
       rbind (combine_tags l r s) (\<lambda>(u, s1). rbind (cell_wr dc (x i) u s1) (cell_wr dc (y i) u)))))) (n * 1)
     (fold (\<lambda>i T. let X = tget dc (x i) T \<union> tget dc (y i) T in tset dc (y i) X (tset dc (x i) X T)) [0..<n])"
    by (rule refines_upto, rule refines_combine2) (use assms(1,2) in auto)
  then show ?thesis unfolding both_spec_def mult_1_right Let_def
    by (rule refines_cong) (rule fold_tset_assign2, use assms(3) in auto)
qed

lemma refines_both3_loop:
  assumes "\<And>i. i < n \<Longrightarrow> readable (x i) \<and> writable (x i)" "\<And>i. i < n \<Longrightarrow> readable (y i)"
    "\<And>i. i < n \<Longrightarrow> readable (z i) \<and> writable (z i)"
    "\<And>i j. i < n \<Longrightarrow> j < i \<Longrightarrow> x i \<noteq> x j \<and> x i \<noteq> z j \<and> y i \<noteq> x j \<and> y i \<noteq> z j \<and> z i \<noteq> x j \<and> z i \<noteq> z j"
  shows "refines dc (for_upto n (\<lambda>i s. rbind (cell_rd dc (x i) s) (\<lambda>l. rbind (cell_rd dc (y i) s) (\<lambda>r.
       rbind (cell_rd dc (z i) s) (\<lambda>a. rbind (combine_tags l r s) (\<lambda>(u, s1). rbind (combine_tags u a s1) (\<lambda>(u', s2).
         rbind (cell_wr dc (x i) u' s2) (cell_wr dc (z i) u')))))))) (n * 2)
     (both_spec dc n x z (\<lambda>i T. tget dc (x i) T \<union> tget dc (y i) T \<union> tget dc (z i) T))"
proof -
  have "refines dc (for_upto n (\<lambda>i s. rbind (cell_rd dc (x i) s) (\<lambda>l. rbind (cell_rd dc (y i) s) (\<lambda>r.
       rbind (cell_rd dc (z i) s) (\<lambda>a. rbind (combine_tags l r s) (\<lambda>(u, s1). rbind (combine_tags u a s1) (\<lambda>(u', s2).
         rbind (cell_wr dc (x i) u' s2) (cell_wr dc (z i) u')))))))) (n * 2)
     (fold (\<lambda>i T. let X = tget dc (x i) T \<union> tget dc (y i) T \<union> tget dc (z i) T
        in tset dc (z i) X (tset dc (x i) X T)) [0..<n])"
    by (rule refines_upto, rule refines_combine3) (use assms(1-3) in auto)
  then show ?thesis unfolding both_spec_def Let_def
    by (rule refines_cong) (rule fold_tset_assign2, use assms(4) in auto)
qed

section \<open>Spans\<close>

lemma src_readable: "src_ok row start n \<Longrightarrow> i < n \<Longrightarrow> readable (CReg row (start + i))"
  by (simp add: src_ok_def)

lemma dst_writable: "dst_ok row start n \<Longrightarrow> i < n \<Longrightarrow> readable (CReg row (start + i)) \<and> writable (CReg row (start + i))"
  by (simp add: dst_ok_def)

lemma unat_mem_ok:
  assumes "mem_ok a n" "i < n"
  shows "unat (a + of_nat i) = unat a + i"
proof -
  have "unat a + i < 2 ^ 64" using assms by (simp add: mem_ok_def)
  moreover from this have "unat (of_nat i :: ADDRINT) = i" by (simp add: unat_of_nat take_bit_nat_eq_self)
  ultimately show ?thesis by (simp add: unat_word_ariths)
qed

lemma mem_ok_testb: "mem_ok a n \<Longrightarrow> i < n \<Longrightarrow> file_tag_testb (a + of_nat i)"
  using unat_mem_ok[of a n i]
  by (auto simp: file_tag_testb_def max_addr_def word_less_nat_alt mem_ok_def)

lemma mem_readable: "mem_ok a n \<Longrightarrow> i < n \<Longrightarrow> readable (CMem (a + of_nat i)) \<and> writable (CMem (a + of_nat i))"
  by (simp add: mem_ok_testb)

lemma mem_cells_neq: "mem_ok a n \<Longrightarrow> i < n \<Longrightarrow> j < i \<Longrightarrow> CMem (a + of_nat i) \<noteq> CMem (a + of_nat j)"
proof
  assume a: "mem_ok a n" "i < n" "j < i" "CMem (a + of_nat i) = CMem (a + of_nat j)"
  then have "unat (a + of_nat i) = unat (a + of_nat j)" by simp
  with unat_mem_ok[OF a(1), of i] unat_mem_ok[OF a(1), of j] a(2,3) show False by simp
qed

lemmas span_facts = src_readable dst_writable mem_readable mem_cells_neq

section \<open>The handlers\<close>

lemma refines_with_tc:
  assumes "refines (cur_drcontext E) (f (cur_drcontext E)) c g"
  shows "refines (cur_drcontext E) (with_tc E f) c g"
  using assms by (auto simp: refines_def with_tc_def live_def)

text \<open>Accesses as accesses of cells.\<close>

lemma rd_cell: "gpr_rd dc row b s = cell_rd dc (CReg row b) s" "mem_rd a s = cell_rd dc' (CMem a) s"
  by simp_all

lemma wr_cell: "gpr_wr dc row b = cell_wr dc (CReg row b)" "Inr (mem_wr a t s) = cell_wr dc' (CMem a) t s"
  by (simp_all add: fun_eq_iff)

lemma wr_mem_eta: "cell_wr dc (CMem a) t = (\<lambda>s. Inr (mem_wr a t s))"
  by (rule ext) simp

lemma r2r_xfer_refines:
  assumes "dst_ok dr ds n" "src_ok sr ss n" "forward_ok dr ds sr ss n"
  shows "refines (cur_drcontext E) (r2r_xfer E dr ds sr ss n) 0 (copy_spec (cur_drcontext E) n (reg_cells dr ds) (reg_cells sr ss))"
  unfolding r2r_xfer_def
proof (rule refines_with_tc)
  show "refines (cur_drcontext E) (for_upto n (\<lambda>i s. rbind (gpr_rd (cur_drcontext E) sr (ss + i) s)
      (\<lambda>t. gpr_wr (cur_drcontext E) dr (ds + i) t s))) 0 (copy_spec (cur_drcontext E) n (reg_cells dr ds) (reg_cells sr ss))"
    using refines_copy_loop[of n "reg_cells sr ss" "reg_cells dr ds" "cur_drcontext E"] assms
    by (auto simp: src_ok_def dst_ok_def forward_ok_def)
qed

lemma r_clr_refines:
  assumes "dst_ok r st n"
  shows "refines (cur_drcontext E) (r_clr E r st n) 0 (assign (cur_drcontext E) n (reg_cells r st) (\<lambda>_. {}))"
  unfolding r_clr_def
  by (rule refines_with_tc, unfold wr_cell(1), rule refines_clear_loop) (use assms in \<open>simp add: dst_ok_def\<close>)

lemma m2r_loop:
  assumes "dst_ok r st n" "mem_ok a n"
  shows "refines dc (for_upto n (\<lambda>i s. rbind (mem_rd (a + of_nat i) s) (\<lambda>t. gpr_wr dc r (st + i) t s))) 0
     (copy_spec dc n (reg_cells r st) (mem_cells a))"
  using refines_copy_loop[of n "mem_cells a" "reg_cells r st" dc] assms
  by (simp add: mem_ok_testb dst_ok_def)

lemma mov_m2r_refines:
  assumes "dst_ok r st n" "mem_ok a n"
  shows "refines (cur_drcontext E) (mov_m2r E r st a n) 0 (copy_spec (cur_drcontext E) n (reg_cells r st) (mem_cells a))"
  unfolding mov_m2r_def by (rule refines_with_tc, rule m2r_loop) (rule assms)+

lemma mov_r2m_refines:
  assumes "src_ok r st n" "mem_ok a n"
  shows "refines (cur_drcontext E) (mov_r2m E a r st n) 0 (copy_spec (cur_drcontext E) n (mem_cells a) (reg_cells r st))"
  unfolding mov_r2m_def
proof (rule refines_with_tc)
  show "refines (cur_drcontext E) (for_upto n (\<lambda>i s. rbind (gpr_rd (cur_drcontext E) r (st + i) s)
     (\<lambda>t. Inr (mem_wr (a + of_nat i) t s)))) 0 (copy_spec (cur_drcontext E) n (mem_cells a) (reg_cells r st))"
    using refines_copy_loop[of n "reg_cells r st" "mem_cells a" "cur_drcontext E"] assms by (simp add: src_ok_def)
qed

lemma m2m_xfer_refines:
  assumes "mem_ok d n" "mem_ok a n" "unat d \<le> unat a \<or> unat a + n \<le> unat d"
  shows "refines dc (m2m_xfer d a n) 0 (copy_spec dc n (mem_cells d) (mem_cells a))"
proof -
  have "CMem (a + of_nat i) \<noteq> CMem (d + of_nat j)" if "i < n" "j < i" for i j
  proof
    assume "CMem (a + of_nat i) = CMem (d + of_nat j)"
    then have "unat (a + of_nat i) = unat (d + of_nat j)" by simp
    with unat_mem_ok[OF assms(2), of i] unat_mem_ok[OF assms(1), of j] that assms(3) show False by auto
  qed
  then show ?thesis
    unfolding m2m_xfer_def
    using refines_copy_loop[of n "mem_cells a" "mem_cells d" dc] assms by (simp add: mem_ok_testb)
qed

lemma mov_clr_mem_refines:
  assumes "mem_ok a n" "n < 2 ^ 32"
  shows "refines dc (mov_clr_mem a (of_nat n)) 0 (assign dc n (mem_cells a) (\<lambda>_. {}))"
proof (rule refinesI)
  fix s :: "'a engine_scheme" and k
  assume s: "engine_ok s" "live dc s" "room (0 + k) (tables s)"
  let ?s = "s\<lparr>tag_dir := file_tagmap_clrn a (of_nat n) (tag_dir s)\<rparr>"
  have n: "unat (of_nat n :: UINT32) = n" using assms(2) by (simp add: unat_of_nat take_bit_nat_eq_self)
  have na: "unat (a + ucast (of_nat n :: UINT32)) = unat a + n"
    using assms n by (simp add: unat_word_ariths unat_ucast_up mem_ok_def)
  have sh: "shadow_of (file_tagmap_clrn a (of_nat n) (tag_dir s)) x =
      (if unat a \<le> unat x \<and> unat x < unat a + n then 0 else shadow_of (tag_dir s) x)" for x
    by (simp add: file_tagmap_clrn_def shadow_of_clr_from word_le_nat_alt word_less_nat_alt na)
  have z: "valid_tag (tables s) 0" "label_set (tables s) 0 = {}"
    using s(1) label_set_0 by (auto simp: engine_ok_def)
  have ok: "engine_ok ?s" using s(1) z by (auto simp: engine_ok_def sh)
  have tm: "tmem (assign dc n (mem_cells a) (\<lambda>_. {}) T) x =
     (if unat a \<le> unat x \<and> unat x < unat a + n then {} else tmem T x)" for T x
  proof (cases "unat a \<le> unat x \<and> unat x < unat a + n")
    case True
    define i where "i = unat x - unat a"
    have i: "i < n" "x = a + of_nat i"
      using True unat_mem_ok[OF assms(1), of i] by (auto simp: i_def word_unat_eq_iff)
    have "tget dc (mem_cells a i) (assign dc n (mem_cells a) (\<lambda>_. {}) T) = {}"
      by (rule tget_assign) (use i assms(1) mem_ok_testb mem_cells_neq in fastforce)+
    with True i(2) show ?thesis by simp
  next
    case False
    have "tget dc (CMem x) (assign dc n (mem_cells a) (\<lambda>_. {}) T) = tget dc (CMem x) T"
    proof (rule tget_assign_other)
      fix i assume "i < n"
      with False unat_mem_ok[OF assms(1), of i] show "CMem x \<noteq> CMem (a + of_nat i)" by auto
    qed
    with False show ?thesis by auto
  qed
  have tr: "treg (assign dc m (mem_cells a) v T) = treg T" for m v T
    by (induction m) (simp_all add: assign_Suc)
  have "taint_of ?s = assign dc n (mem_cells a) (\<lambda>_. {}) (taint_of s)"
    by (rule taint.equality) (auto simp: tr tm fun_eq_iff taint_of_def sh z(2) split: option.splits)
  with s ok show "\<exists>s'. mov_clr_mem a (of_nat n) s = Inr s' \<and> engine_ok s' \<and> live dc s' \<and> room k (tables s')
     \<and> side s' = side s \<and> taint_of s' = assign dc n (mem_cells a) (\<lambda>_. {}) (taint_of s)
     \<and> extends (tables s) (tables s')"
    by (simp add: mov_clr_mem_def live_def side_def)
qed

lemma combine_into_refines:
  "refines dc (\<lambda>s. rbind (cell_rd dc x s) (\<lambda>t. combine_into dc row b t s)) 1
     (\<lambda>T. tset dc (CReg row b) (tget dc (CReg row b) T \<union> tget dc x T) T)"
  if "readable x" "row < GRP_NUM" "b < TAGS_PER_GPR"
proof -
  have f: "rbind (cell_rd dc x s) (\<lambda>t. combine_into dc row b t s) =
    rbind (cell_rd dc (CReg row b) s) (\<lambda>l. rbind (cell_rd dc x s) (\<lambda>r.
       rbind (combine_tags l r s) (\<lambda>(u, s1). cell_wr dc (CReg row b) u s1)))"
    if s: "engine_ok s" "live dc s" for s :: "'a engine_scheme"
  proof -
    have "readable (CReg row b)" using \<open>row < GRP_NUM\<close> \<open>b < TAGS_PER_GPR\<close> by simp
    then obtain l where "gpr_rd dc row b s = Inr l" using cell_rd_ok[OF s] by (metis cell_rd.simps(1))
    moreover obtain t where "cell_rd dc x s = Inr t" using cell_rd_ok[OF s \<open>readable x\<close>] by metis
    ultimately show ?thesis by (simp add: combine_into_def)
  qed
  have "refines dc (\<lambda>s :: 'a engine_scheme. rbind (cell_rd dc (CReg row b) s) (\<lambda>l. rbind (cell_rd dc x s) (\<lambda>r.
       rbind (combine_tags l r s) (\<lambda>(u, s1). cell_wr dc (CReg row b) u s1)))) 1
     (\<lambda>T. tset dc (CReg row b) (tget dc (CReg row b) T \<union> tget dc x T) T)"
    by (rule refines_combine) (use that in auto)
  then show ?thesis by (rule refines_step_cong) (rule f)
qed

lemma binary_loop:
  assumes "\<And>i. i < n \<Longrightarrow> readable (x i)" "dst_ok r st n" "\<And>i j. i < n \<Longrightarrow> j < i \<Longrightarrow> x i \<noteq> CReg r (st + j)"
  shows "refines dc (for_upto n (\<lambda>i s. rbind (cell_rd dc (x i) s) (\<lambda>t. combine_into dc r (st + i) t s))) n
     (union_spec dc n (reg_cells r st) (reg_cells r st) x)"
proof -
  have "refines dc (for_upto n (\<lambda>i s. rbind (cell_rd dc (x i) s) (\<lambda>t. combine_into dc r (st + i) t s))) (n * 1)
     (fold (\<lambda>i T. tset dc (CReg r (st + i)) (tget dc (CReg r (st + i)) T \<union> tget dc (x i) T) T) [0..<n])"
    by (rule refines_upto, rule combine_into_refines) (use assms in \<open>auto simp: dst_ok_def\<close>)
  then show ?thesis unfolding union_spec_def mult_1_right
    by (rule refines_cong) (rule fold_tset_assign, use assms(3) in \<open>simp del: tget.simps\<close>)
qed

lemma binary_r2r_refines:
  assumes "dst_ok dr ds n" "src_ok sr ss n" "aligned dr ds sr ss n"
  shows "refines (cur_drcontext E) (binary_r2r E dr ds sr ss n) n
     (union_spec (cur_drcontext E) n (reg_cells dr ds) (reg_cells dr ds) (reg_cells sr ss))"
  unfolding binary_r2r_def
  by (rule refines_with_tc, unfold rd_cell(1), rule binary_loop)
     (use assms in \<open>auto simp: src_ok_def aligned_def\<close>)

lemma binary_m2r_refines:
  assumes "dst_ok r st n" "mem_ok a n"
  shows "refines (cur_drcontext E) (binary_m2r E r st a n) n
     (union_spec (cur_drcontext E) n (reg_cells r st) (reg_cells r st) (mem_cells a))"
  unfolding binary_m2r_def
  by (rule refines_with_tc, unfold rd_cell(2)[where dc' = "cur_drcontext E"], rule binary_loop)
     (use assms in \<open>auto simp: mem_ok_testb\<close>)

lemma binary_r2m_refines:
  assumes "src_ok r st n" "mem_ok a n"
  shows "refines (cur_drcontext E) (binary_r2m E a r st n) n
     (union_spec (cur_drcontext E) n (mem_cells a) (mem_cells a) (reg_cells r st))"
  unfolding binary_r2m_def
  by (rule refines_with_tc, unfold rd_cell(1) rd_cell(2)[where dc' = "cur_drcontext E"]
      wr_cell(2)[where dc' = "cur_drcontext E"], rule refines_union_loop)
     (use assms in \<open>auto simp: mem_ok_testb src_ok_def dest: mem_cells_neq\<close>)

lemma xchg_r2r_refines:
  assumes "dst_ok ar as n" "dst_ok br bs n" "aligned ar as br bs n"
  shows "refines (cur_drcontext E) (xchg_r2r E ar as br bs n) 0
     (swap_spec (cur_drcontext E) n (reg_cells ar as) (reg_cells br bs))"
  unfolding xchg_r2r_def
  by (rule refines_with_tc, unfold rd_cell(1) wr_cell(1), rule refines_swap_loop)
     (use assms in \<open>auto simp: dst_ok_def aligned_def\<close>)

lemma xchg_m2r_refines:
  assumes "dst_ok r st n" "mem_ok a n"
  shows "refines (cur_drcontext E) (xchg_m2r E a r st n) 0
     (swap_spec (cur_drcontext E) n (reg_cells r st) (mem_cells a))"
proof -
  let ?dc = "cur_drcontext E"
  have "refines ?dc (for_upto n (\<lambda>i s. rbind (cell_rd ?dc (CReg r (st + i)) s) (\<lambda>t.
      rbind (cell_rd ?dc (CMem (a + of_nat i)) s) (\<lambda>u. rbind (cell_wr ?dc (CReg r (st + i)) u s)
        (cell_wr ?dc (CMem (a + of_nat i)) t))))) 0 (swap_spec ?dc n (reg_cells r st) (mem_cells a))"
    by (rule refines_swap_loop) (use assms in \<open>auto simp: dst_ok_def mem_ok_testb dest: mem_cells_neq\<close>)
  then show ?thesis unfolding xchg_m2r_def by (intro refines_with_tc) (simp add: wr_mem_eta)
qed

lemma cmov_r2r_refines:
  assumes "dst_ok dr ds n" "src_ok sr ss n" "forward_ok dr ds sr ss n"
  shows "refines (cur_drcontext E) (cmov_r2r E p dr ds sr ss n) 0
     (if cmov_taken E p then copy_spec (cur_drcontext E) n (reg_cells dr ds) (reg_cells sr ss) else (\<lambda>T. T))"
proof (cases "cmov_taken E p")
  case True
  have "refines (cur_drcontext E) (r2r_xfer E dr ds sr ss n) 0 (if cmov_taken E p then copy_spec (cur_drcontext E) n (reg_cells dr ds) (reg_cells sr ss) else (\<lambda>T. T))"
    using r2r_xfer_refines[OF assms, of E] True by simp
  then show ?thesis by (rule refines_step_cong) (simp add: True cmov_r2r_def r2r_xfer_def)
next
  case False
  have "refines (cur_drcontext E) Inr 0 (if cmov_taken E p then copy_spec (cur_drcontext E) n (reg_cells dr ds) (reg_cells sr ss) else (\<lambda>T. T))"
    using refines_skip False by simp
  then show ?thesis by (rule refines_step_cong) (simp add: False cmov_r2r_def)
qed

lemma cmov_m2r_refines:
  assumes "dst_ok r st n" "mem_ok a n"
  shows "refines (cur_drcontext E) (cmov_m2r E p r st a n) 0
     (if cmov_taken E p then copy_spec (cur_drcontext E) n (reg_cells r st) (mem_cells a) else (\<lambda>T. T))"
proof (cases "cmov_taken E p")
  case True
  have "refines (cur_drcontext E) (mov_m2r E r st a n) 0 (if cmov_taken E p then copy_spec (cur_drcontext E) n (reg_cells r st) (mem_cells a) else (\<lambda>T. T))"
    using mov_m2r_refines[OF assms, of E] True by simp
  then show ?thesis by (rule refines_step_cong) (simp add: True cmov_m2r_def mov_m2r_def)
next
  case False
  have "refines (cur_drcontext E) Inr 0 (if cmov_taken E p then copy_spec (cur_drcontext E) n (reg_cells r st) (mem_cells a) else (\<lambda>T. T))"
    using refines_skip False by simp
  then show ?thesis by (rule refines_step_cong) (simp add: False cmov_m2r_def)
qed

lemma xadd_r2r_refines:
  assumes "dst_ok dr ds n" "dst_ok sr ss n" "aligned dr ds sr ss n"
  shows "refines (cur_drcontext E) (xadd_r2r E dr ds sr ss n) n
     (both_spec (cur_drcontext E) n (reg_cells dr ds) (reg_cells sr ss)
       (\<lambda>i T. tget (cur_drcontext E) (reg_cells dr ds i) T \<union> tget (cur_drcontext E) (reg_cells sr ss i) T))"
  unfolding xadd_r2r_def
  by (rule refines_with_tc, unfold rd_cell(1) wr_cell(1), rule refines_both_loop)
     (use assms in \<open>auto simp: dst_ok_def aligned_def\<close>)

lemma xadd_m2r_refines:
  assumes "dst_ok r st n" "mem_ok a n"
  shows "refines (cur_drcontext E) (xadd_m2r E a r st n) n
     (both_spec (cur_drcontext E) n (mem_cells a) (reg_cells r st)
       (\<lambda>i T. tget (cur_drcontext E) (mem_cells a i) T \<union> tget (cur_drcontext E) (reg_cells r st i) T))"
proof -
  let ?dc = "cur_drcontext E"
  have "refines ?dc (for_upto n (\<lambda>i s. rbind (cell_rd ?dc (CMem (a + of_nat i)) s) (\<lambda>l.
      rbind (cell_rd ?dc (CReg r (st + i)) s) (\<lambda>t. rbind (combine_tags l t s) (\<lambda>(u, s1).
        rbind (cell_wr ?dc (CMem (a + of_nat i)) u s1) (cell_wr ?dc (CReg r (st + i)) u)))))) n
      (both_spec ?dc n (mem_cells a) (reg_cells r st)
       (\<lambda>i T. tget ?dc (mem_cells a i) T \<union> tget ?dc (reg_cells r st i) T))"
    by (rule refines_both_loop) (use assms in \<open>auto simp: dst_ok_def mem_ok_testb dest: mem_cells_neq\<close>)
  then show ?thesis unfolding xadd_m2r_def by (intro refines_with_tc) (simp add: wr_mem_eta)
qed

lemma cmpxchg_reg_refines:
  assumes "dst_ok dr ds n" "src_ok sr ss n" "dst_ok ar as n" "aligned dr ds sr ss n" "aligned dr ds ar as n"
    "aligned sr ss ar as n"
  shows "refines (cur_drcontext E) (cmpxchg_reg E dr ds sr ss ar as n) (n * 2)
     (both_spec (cur_drcontext E) n (reg_cells dr ds) (reg_cells ar as)
       (\<lambda>i T. tget (cur_drcontext E) (reg_cells dr ds i) T \<union> tget (cur_drcontext E) (reg_cells sr ss i) T
          \<union> tget (cur_drcontext E) (reg_cells ar as i) T))"
  unfolding cmpxchg_reg_def
  by (rule refines_with_tc, unfold rd_cell(1) wr_cell(1), rule refines_both3_loop)
     (use assms in \<open>auto simp: dst_ok_def src_ok_def aligned_def\<close>)

lemma cmpxchg_mem_refines:
  assumes "src_ok sr ss n" "dst_ok ar as n" "mem_ok a n" "aligned sr ss ar as n"
  shows "refines (cur_drcontext E) (cmpxchg_mem E a sr ss ar as n) (n * 2)
     (both_spec (cur_drcontext E) n (mem_cells a) (reg_cells ar as)
       (\<lambda>i T. tget (cur_drcontext E) (mem_cells a i) T \<union> tget (cur_drcontext E) (reg_cells sr ss i) T
          \<union> tget (cur_drcontext E) (reg_cells ar as i) T))"
proof -
  let ?dc = "cur_drcontext E"
  have "refines ?dc (for_upto n (\<lambda>i s. rbind (cell_rd ?dc (CMem (a + of_nat i)) s) (\<lambda>l.
      rbind (cell_rd ?dc (CReg sr (ss + i)) s) (\<lambda>r. rbind (cell_rd ?dc (CReg ar (as + i)) s) (\<lambda>b.
        rbind (combine_tags l r s) (\<lambda>(u, s1). rbind (combine_tags u b s1) (\<lambda>(u', s2).
        rbind (cell_wr ?dc (CMem (a + of_nat i)) u' s2) (cell_wr ?dc (CReg ar (as + i)) u')))))))) (n * 2)
      (both_spec ?dc n (mem_cells a) (reg_cells ar as)
       (\<lambda>i T. tget ?dc (mem_cells a i) T \<union> tget ?dc (reg_cells sr ss i) T \<union> tget ?dc (reg_cells ar as i) T))"
    by (rule refines_both3_loop)
       (use assms in \<open>auto simp: dst_ok_def src_ok_def aligned_def mem_ok_testb dest: mem_cells_neq\<close>)
  then show ?thesis unfolding cmpxchg_mem_def by (intro refines_with_tc) (simp add: wr_mem_eta)
qed

end
