(* ===== verification/Refine_Shifts.thy ===== *)
theory Refine_Shifts
  imports Refine_Moves
begin

text \<open>
  The handlers whose loops are not plain copies or unions implement their specification: shifts,
  byte swaps, extensions, and the one-operand multiply and divide.
\<close>

section \<open>Shifts and byte order\<close>

lemma cell_eta:
  "cell_rd dc (CReg row b) = gpr_rd dc row b" "cell_rd dc (CMem a) = mem_rd a"
  "cell_wr dc (CReg row b) = gpr_wr dc row b" "cell_wr dc (CMem a) = (\<lambda>t s. Inr (mem_wr a t s))"
  by (rule ext; simp; fail | intro ext; simp)+

lemma shift_r_refines:
  assumes "dst_ok r st n"
  shows "refines (cur_drcontext E) (shift_r E r st n) n
     (smear_spec (cur_drcontext E) n (reg_cells r st) 0 (\<lambda>_. CReg 0 0))"
proof (cases "n = 0")
  case True
  then show ?thesis unfolding shift_r_def
    by (intro refines_with_tc) (simp add: refines_def smear_spec_def)
next
  case False
  let ?dc = "cur_drcontext E"
  have "refines ?dc (\<lambda>s. rbind (cell_rd ?dc (CReg r (st + 0)) s) (\<lambda>u0.
       rbind (union_loop 1 (n - 1) (\<lambda>i. cell_rd ?dc (CReg r (st + i))) (u0, s)) (\<lambda>st'.
       rbind (union_loop 0 0 (\<lambda>i. cell_rd ?dc (CReg 0 0)) st') (\<lambda>(u, s1).
         for_upto n (\<lambda>i. cell_wr ?dc (CReg r (st + i)) u) s1)))) (n + 0)
     (smear_spec ?dc n (reg_cells r st) 0 (\<lambda>_. CReg 0 0))"
    unfolding smear_spec_def by (rule refines_fill) (use assms False in \<open>auto simp: dst_ok_def\<close>)
  then show ?thesis unfolding shift_r_def
    using False by (intro refines_with_tc) (simp add: union_loop_def[of 0] cell_eta del: cell_rd.simps cell_wr.simps)
qed

lemma shift_m_refines:
  assumes "mem_ok a n"
  shows "refines dc (shift_m a n) n (smear_spec dc n (mem_cells a) 0 (\<lambda>_. CReg 0 0))"
proof (cases "n = 0")
  case True
  then show ?thesis by (simp add: refines_def smear_spec_def shift_m_def)
next
  case False
  have "refines dc (\<lambda>s. rbind (cell_rd dc (CMem (a + of_nat 0)) s) (\<lambda>u0.
       rbind (union_loop 1 (n - 1) (\<lambda>i. cell_rd dc (CMem (a + of_nat i))) (u0, s)) (\<lambda>st'.
       rbind (union_loop 0 0 (\<lambda>i. cell_rd dc (CReg 0 0)) st') (\<lambda>(u, s1).
         for_upto n (\<lambda>i. cell_wr dc (CMem (a + of_nat i)) u) s1)))) (n + 0)
     (smear_spec dc n (mem_cells a) 0 (\<lambda>_. CReg 0 0))"
    unfolding smear_spec_def by (rule refines_fill) (use assms False in \<open>auto simp: mem_ok_testb\<close>)
  then show ?thesis unfolding shift_m_def[abs_def]
    using False by (simp add: union_loop_def[of 0] cell_eta del: cell_rd.simps cell_wr.simps)
qed

lemma shld_r2r_refines:
  assumes "dst_ok dr ds n" "src_ok sr ss n"
  shows "refines (cur_drcontext E) (shld_r2r E dr ds sr ss n) (n + n)
     (smear_spec (cur_drcontext E) n (reg_cells dr ds) n (reg_cells sr ss))"
proof (cases "n = 0")
  case True
  then show ?thesis unfolding shld_r2r_def
    by (intro refines_with_tc) (simp add: refines_def smear_spec_def)
next
  case False
  let ?dc = "cur_drcontext E"
  have "refines ?dc (\<lambda>s. rbind (cell_rd ?dc (CReg dr (ds + 0)) s) (\<lambda>u0.
       rbind (union_loop 1 (n - 1) (\<lambda>i. cell_rd ?dc (CReg dr (ds + i))) (u0, s)) (\<lambda>st'.
       rbind (union_loop 0 n (\<lambda>i. cell_rd ?dc (CReg sr (ss + i))) st') (\<lambda>(u, s1).
         for_upto n (\<lambda>i. cell_wr ?dc (CReg dr (ds + i)) u) s1)))) (n + n)
     (smear_spec ?dc n (reg_cells dr ds) n (reg_cells sr ss))"
    unfolding smear_spec_def by (rule refines_fill) (use assms False in \<open>auto simp: dst_ok_def src_ok_def\<close>)
  then show ?thesis unfolding shld_r2r_def
    using False by (intro refines_with_tc) (simp add: cell_eta del: cell_rd.simps cell_wr.simps)
qed

lemma movbe_m2r_refines:
  assumes "dst_ok r st n" "mem_ok a n"
  shows "refines (cur_drcontext E) (movbe_m2r E r st a n) 0
     (copy_spec (cur_drcontext E) n (reg_cells r st) (\<lambda>i. mem_cells a (n - 1 - i)))"
proof -
  let ?dc = "cur_drcontext E"
  have "refines ?dc (for_upto n (\<lambda>i s. rbind (cell_rd ?dc (CMem (a + of_nat (n - 1 - i))) s)
      (\<lambda>t. cell_wr ?dc (CReg r (st + i)) t s))) 0 (copy_spec ?dc n (reg_cells r st) (\<lambda>i. mem_cells a (n - 1 - i)))"
  proof (rule refines_copy_loop)
    show "readable (CMem (a + of_nat (n - 1 - i)))" if "i < n" for i
      unfolding readable.simps by (rule mem_ok_testb[OF assms(2)]) (use that in simp)
  qed (use assms in \<open>auto simp: dst_ok_def\<close>)
  moreover have "for_upto n (\<lambda>i s. rbind (cell_rd ?dc (CMem (a + of_nat (n - 1 - i))) s) (\<lambda>t. cell_wr ?dc (CReg r (st + i)) t s)) s
      = for_upto n (\<lambda>i s. rbind (mem_rd (a + of_nat n - 1 - of_nat i) s) (\<lambda>t. gpr_wr ?dc r (st + i) t s)) s"
    for s :: "'a engine_scheme"
    unfolding for_upto_def by (rule for_loop_cong) (simp add: of_nat_diff algebra_simps)
  ultimately show ?thesis unfolding movbe_m2r_def by (intro refines_with_tc) (erule refines_step_cong, simp)
qed

lemma movbe_r2m_refines:
  assumes "src_ok r st n" "mem_ok a n"
  shows "refines (cur_drcontext E) (movbe_r2m E a r st n) 0
     (copy_spec (cur_drcontext E) n (mem_cells a) (\<lambda>i. reg_cells r st (n - 1 - i)))"
proof -
  let ?dc = "cur_drcontext E"
  have "refines ?dc (for_upto n (\<lambda>i s. rbind (cell_rd ?dc (CReg r (st + (n - 1 - i))) s)
      (\<lambda>t. cell_wr ?dc (CMem (a + of_nat i)) t s))) 0 (copy_spec ?dc n (mem_cells a) (\<lambda>i. reg_cells r st (n - 1 - i)))"
    by (rule refines_copy_loop) (use assms in \<open>auto simp: src_ok_def\<close>)
  moreover have "for_upto n (\<lambda>i s. rbind (cell_rd ?dc (CReg r (st + (n - 1 - i))) s) (\<lambda>t. cell_wr ?dc (CMem (a + of_nat i)) t s)) s
      = for_upto n (\<lambda>i s. rbind (gpr_rd ?dc r (st + n - 1 - i) s) (\<lambda>t. Inr (mem_wr (a + of_nat i) t s))) s"
    for s :: "'a engine_scheme"
    unfolding for_upto_def by (rule for_loop_cong) simp
  ultimately show ?thesis unfolding movbe_r2m_def by (intro refines_with_tc) (erule refines_step_cong, simp)
qed

text \<open>Extensions.\<close>

lemma assign_split:
  "m \<le> n \<Longrightarrow> assign dc n y v T = fold (\<lambda>i. tset dc (y i) (v i)) [m..<n] (assign dc m y v T)"
  using upt_add_eq_append[of 0 m "n - m"] by (simp add: assign_def)

lemma extend_split:
  assumes "sn \<le> dn"
  shows "extend_spec dc sn dn y x ext T = fold (\<lambda>i. tset dc (y i) (ext T)) [sn..<dn] (copy_spec dc sn y x T)"
proof -
  let ?v = "\<lambda>i. if i < sn then tget dc (x i) T else ext T"
  have "assign dc sn y ?v T = assign dc sn y (\<lambda>i. tget dc (x i) T) T" by (rule assign_cong) simp
  moreover have "fold (\<lambda>i. tset dc (y i) (?v i)) [sn..<dn] U = fold (\<lambda>i. tset dc (y i) (ext T)) [sn..<dn] U" for U
    by (rule fold_cong) auto
  ultimately show ?thesis by (simp add: extend_spec_def copy_spec_def assign_split[OF assms])
qed

text \<open>A loop that writes one label to a range of cells.\<close>

lemma write_loop_ok:
  assumes "engine_ok s" "live dc s" "valid_tag (tables s) t" "\<And>i. i0 \<le> i \<Longrightarrow> i < i0 + k \<Longrightarrow> writable (y i)"
  shows "\<exists>s'. for_loop i0 k (\<lambda>i. cell_wr dc (y i) t) s = Inr s' \<and> engine_ok s' \<and> live dc s' \<and> tables s' = tables s
     \<and> side s' = side s \<and> taint_of s' = fold (\<lambda>i. tset dc (y i) (label_set (tables s) t)) [i0..<i0 + k] (taint_of s)"
proof (rule for_loop_total[where P = "\<lambda>j u. engine_ok u \<and> live dc u \<and> tables u = tables s \<and> side u = side s
     \<and> taint_of u = fold (\<lambda>i. tset dc (y i) (label_set (tables s) t)) [i0..<j] (taint_of s)"])
  fix j u assume j: "i0 \<le> j" "j < i0 + k" and u: "engine_ok u \<and> live dc u \<and> tables u = tables s \<and> side u = side s
     \<and> taint_of u = fold (\<lambda>i. tset dc (y i) (label_set (tables s) t)) [i0..<j] (taint_of s)"
  have v: "valid_tag (tables u) t" using u assms(3) by simp
  obtain u' where "cell_wr dc (y j) t u = Inr u'" "engine_ok u'" "live dc u'" "tables u' = tables u"
    "side u' = side u" "taint_of u' = tset dc (y j) (label_set (tables u) t) (taint_of u)"
    using cell_wr_ok[OF _ _ assms(4)[OF j] v] u by auto
  with u j show "\<exists>u'. cell_wr dc (y j) t u = Inr u' \<and> engine_ok u' \<and> live dc u' \<and> tables u' = tables s
     \<and> side u' = side s \<and> taint_of u' = fold (\<lambda>i. tset dc (y i) (label_set (tables s) t)) [i0..<Suc j] (taint_of s)"
    by auto
qed (use assms in auto)

lemma refines_write_loop:
  assumes "readable c" "\<And>i. i0 \<le> i \<Longrightarrow> i < i0 + k \<Longrightarrow> writable (y i)"
  shows "refines dc (\<lambda>s. rbind (cell_rd dc c s) (\<lambda>t. for_loop i0 k (\<lambda>i. cell_wr dc (y i) t) s)) 0
     (\<lambda>T. fold (\<lambda>i. tset dc (y i) (tget dc c T)) [i0..<i0 + k] T)"
proof (rule refinesI)
  fix s :: "'a engine_scheme" and m
  assume s: "engine_ok s" "live dc s" "room (0 + m) (tables s)"
  obtain t where t: "cell_rd dc c s = Inr t" "valid_tag (tables s) t"
    "label_set (tables s) t = tget dc c (taint_of s)" using cell_rd_ok[OF s(1,2) assms(1)] .
  from write_loop_ok[OF s(1,2) t(2), of i0 k y] assms(2) t s
  show "\<exists>s'. rbind (cell_rd dc c s) (\<lambda>t. for_loop i0 k (\<lambda>i. cell_wr dc (y i) t) s) = Inr s' \<and> engine_ok s' \<and> live dc s'
     \<and> room m (tables s') \<and> side s' = side s
     \<and> taint_of s' = fold (\<lambda>i. tset dc (y i) (tget dc c (taint_of s))) [i0..<i0 + k] (taint_of s)
     \<and> extends (tables s) (tables s')" by auto
qed

lemma zero_extend:
  assumes "\<And>i. i < sn \<Longrightarrow> readable (x i)" "\<And>i. i < dn \<Longrightarrow> writable (y i)" "\<And>i j. i < sn \<Longrightarrow> j < i \<Longrightarrow> x i \<noteq> y j"
    "sn \<le> dn"
  shows "refines dc (\<lambda>s. rbind (for_upto sn (\<lambda>i s. rbind (cell_rd dc (x i) s) (\<lambda>t. cell_wr dc (y i) t s)) s)
      (for_loop sn (dn - sn) (\<lambda>i. cell_wr dc (y i) cleared_val))) 0 (extend_spec dc sn dn y x (\<lambda>_. {}))"
proof -
  have 2: "refines dc (for_loop sn (dn - sn) (\<lambda>i. cell_wr dc (y i) cleared_val)) ((dn - sn) * 0)
     (fold (\<lambda>i. tset dc (y i) {}) [sn..<sn + (dn - sn)])"
    by (rule refines_loop, rule refines_clear) (use assms in auto)
  have "refines dc (\<lambda>s. rbind (for_upto sn (\<lambda>i s. rbind (cell_rd dc (x i) s) (\<lambda>t. cell_wr dc (y i) t s)) s)
      (for_loop sn (dn - sn) (\<lambda>i. cell_wr dc (y i) cleared_val))) (0 + 0)
     (\<lambda>T. fold (\<lambda>i. tset dc (y i) {}) [sn..<sn + (dn - sn)] (copy_spec dc sn y x T))"
    by (rule refines_seq[OF refines_copy_loop 2[unfolded mult_0_right]]) (use assms in auto)
  then show ?thesis unfolding add_0 by (rule refines_cong) (simp add: extend_split[OF assms(4)] assms(4))
qed

lemma sign_extend:
  assumes "\<And>i. i < sn \<Longrightarrow> readable (x i)" "\<And>i. i < dn \<Longrightarrow> writable (y i)" "\<And>i j. i < sn \<Longrightarrow> j < i \<Longrightarrow> x i \<noteq> y j"
    "sn \<le> dn" "sn \<noteq> 0" "\<And>T. tget dc (x (sn - 1)) (copy_spec dc sn y x T) = tget dc (x (sn - 1)) T"
  shows "refines dc (\<lambda>s. rbind (for_upto sn (\<lambda>i s. rbind (cell_rd dc (x i) s) (\<lambda>t. cell_wr dc (y i) t s)) s)
      (\<lambda>s1. rbind (cell_rd dc (x (sn - 1)) s1) (\<lambda>sign. for_loop sn (dn - sn) (\<lambda>i. cell_wr dc (y i) sign) s1))) 0
     (extend_spec dc sn dn y x (tget dc (x (sn - 1))))"
proof -
  have 2: "refines dc (\<lambda>s1. rbind (cell_rd dc (x (sn - 1)) s1) (\<lambda>sign. for_loop sn (dn - sn) (\<lambda>i. cell_wr dc (y i) sign) s1)) 0
     (\<lambda>T. fold (\<lambda>i. tset dc (y i) (tget dc (x (sn - 1)) T)) [sn..<sn + (dn - sn)] T)"
    by (rule refines_write_loop) (use assms in auto)
  have "refines dc (\<lambda>s. rbind (for_upto sn (\<lambda>i s. rbind (cell_rd dc (x i) s) (\<lambda>t. cell_wr dc (y i) t s)) s)
      (\<lambda>s1. rbind (cell_rd dc (x (sn - 1)) s1) (\<lambda>sign. for_loop sn (dn - sn) (\<lambda>i. cell_wr dc (y i) sign) s1))) (0 + 0)
     (\<lambda>T. fold (\<lambda>i. tset dc (y i) (tget dc (x (sn - 1)) (copy_spec dc sn y x T))) [sn..<sn + (dn - sn)] (copy_spec dc sn y x T))"
    by (rule refines_seq[OF refines_copy_loop 2]) (use assms in auto)
  then show ?thesis unfolding add_0 by (rule refines_cong) (simp only: extend_split[OF assms(4)] assms(6) le_add_diff_inverse[OF assms(4)])
qed

lemma movzx_r2r_refines:
  assumes "dst_ok dr 0 dn" "src_ok sr ss sn" "sn \<le> dn"
  shows "refines (cur_drcontext E) (movzx_r2r E dr sr ss sn dn) 0
     (extend_spec (cur_drcontext E) sn dn (reg_cells dr 0) (reg_cells sr ss) (\<lambda>_. {}))"
  unfolding movzx_r2r_def
  by (rule refines_with_tc)
     (use zero_extend[of sn "reg_cells sr ss" dn "reg_cells dr 0" "cur_drcontext E"] assms in
      \<open>simp add: src_ok_def dst_ok_def cell_eta\<close>)

lemma movzx_m2r_refines:
  assumes "dst_ok dr 0 dn" "mem_ok a sn" "sn \<le> dn"
  shows "refines (cur_drcontext E) (movzx_m2r E dr a sn dn) 0
     (extend_spec (cur_drcontext E) sn dn (reg_cells dr 0) (mem_cells a) (\<lambda>_. {}))"
  unfolding movzx_m2r_def
  by (rule refines_with_tc)
     (use zero_extend[of sn "mem_cells a" dn "reg_cells dr 0" "cur_drcontext E"] assms in
      \<open>simp add: mem_ok_testb dst_ok_def cell_eta\<close>)

lemma movsx_r2r_refines:
  assumes "dst_ok dr 0 dn" "src_ok sr ss sn" "sn \<le> dn"
  shows "refines (cur_drcontext E) (movsx_r2r E dr sr ss sn dn) 0
     (if sn = 0 then (\<lambda>T. T) else
      extend_spec (cur_drcontext E) sn dn (reg_cells dr 0) (reg_cells sr ss)
        (tget (cur_drcontext E) (reg_cells sr ss (sn - 1))))"
proof (cases "sn = 0")
  case True
  then show ?thesis unfolding movsx_r2r_def by (intro refines_with_tc) (simp add: refines_def)
next
  case False
  let ?dc = "cur_drcontext E"
  have "tget ?dc (reg_cells sr ss (sn - 1)) (copy_spec ?dc sn (reg_cells dr 0) (reg_cells sr ss) T)
     = tget ?dc (reg_cells sr ss (sn - 1)) T" for T
  proof (cases "sr = dr \<and> ss = 0")
    case True
    then show ?thesis unfolding copy_spec_def
      using tget_assign[of "sn - 1" sn "reg_cells dr 0" ?dc "\<lambda>i. tget ?dc (reg_cells sr ss i) T" T] False by auto
  next
    case other: False
    show ?thesis unfolding copy_spec_def by (rule tget_assign_other) (use other in auto)
  qed
  with sign_extend[of sn "reg_cells sr ss" dn "reg_cells dr 0" ?dc] assms False
  have "refines ?dc (\<lambda>s. rbind (for_upto sn (\<lambda>i s. rbind (gpr_rd ?dc sr (ss + i) s) (\<lambda>t. gpr_wr ?dc dr i t s)) s)
      (\<lambda>s1. rbind (gpr_rd ?dc sr (ss + (sn - 1)) s1) (\<lambda>sign. for_loop sn (dn - sn) (\<lambda>i. gpr_wr ?dc dr i sign) s1))) 0
     (extend_spec ?dc sn dn (reg_cells dr 0) (reg_cells sr ss) (tget ?dc (reg_cells sr ss (sn - 1))))"
    by (simp add: src_ok_def dst_ok_def cell_eta del: tget.simps)
  then show ?thesis unfolding movsx_r2r_def using False by (intro refines_with_tc) (simp del: tget.simps)
qed

lemma movsx_m2r_refines:
  assumes "dst_ok dr 0 dn" "mem_ok a sn" "sn \<le> dn"
  shows "refines (cur_drcontext E) (movsx_m2r E dr a sn dn) 0
     (if sn = 0 then (\<lambda>T. T) else
      extend_spec (cur_drcontext E) sn dn (reg_cells dr 0) (mem_cells a)
        (tget (cur_drcontext E) (mem_cells a (sn - 1))))"
proof (cases "sn = 0")
  case True
  then show ?thesis unfolding movsx_m2r_def by (intro refines_with_tc) (simp add: refines_def)
next
  case False
  let ?dc = "cur_drcontext E"
  have last: "a + of_nat (sn - 1) = a + of_nat sn - 1" using False by (simp add: of_nat_diff)
  have "tget ?dc (mem_cells a (sn - 1)) (copy_spec ?dc sn (reg_cells dr 0) (mem_cells a) T)
     = tget ?dc (mem_cells a (sn - 1)) T" for T
    unfolding copy_spec_def by (rule tget_assign_other) simp
  from sign_extend[of sn "mem_cells a" dn "reg_cells dr 0" ?dc, OF _ _ _ _ _ this] assms False
  have "refines ?dc (\<lambda>s. rbind (for_upto sn (\<lambda>i s. rbind (mem_rd (a + of_nat i) s) (\<lambda>t. gpr_wr ?dc dr i t s)) s)
      (\<lambda>s1. rbind (mem_rd (a + of_nat (sn - 1)) s1) (\<lambda>sign. for_loop sn (dn - sn) (\<lambda>i. gpr_wr ?dc dr i sign) s1))) 0
     (extend_spec ?dc sn dn (reg_cells dr 0) (mem_cells a) (tget ?dc (mem_cells a (sn - 1))))"
    by (simp add: mem_ok_testb dst_ok_def cell_eta del: tget.simps of_nat_diff)
  then show ?thesis unfolding movsx_m2r_def last using False
    by (intro refines_with_tc) (simp add: last[simplified] algebra_simps del: tget.simps)
qed

text \<open>
  The byte swap exchanges the two halves in place; the specification is the reversed copy.
\<close>

lemma taint_eqI:
  assumes "\<And>c. tget dc c T = tget dc c U" "\<And>dc'. dc' \<noteq> dc \<Longrightarrow> treg T dc' = treg U dc'"
  shows "T = (U :: taint)"
proof (rule taint.equality)
  have "treg T dc = treg U dc" using assms(1)[of "CReg _ _"] by (simp add: fun_eq_iff)
  with assms(2) show "treg T = treg U" by (metis ext)
  show "tmem T = tmem U" using assms(1)[of "CMem _"] by (simp add: fun_eq_iff)
qed simp

lemma treg_assign2_other_thread: "dc' \<noteq> dc \<Longrightarrow> treg (assign2 dc n y v z w T) dc' = treg T dc'"
  by (induction n) (auto simp: assign2_def treg_tset_other)

lemma tget_assign2:
  assumes "i < n" "has_cell (y i)" "has_cell (z i)" "y i \<noteq> z i"
    "\<And>j. i < j \<Longrightarrow> j < n \<Longrightarrow> y i \<noteq> y j \<and> y i \<noteq> z j \<and> z i \<noteq> y j \<and> z i \<noteq> z j"
  shows "tget dc (y i) (assign2 dc n y v z w T) = v i" "tget dc (z i) (assign2 dc n y v z w T) = w i"
proof -
  have "tget dc (y i) (assign2 dc n y v z w T) = v i \<and> tget dc (z i) (assign2 dc n y v z w T) = w i"
    using assms
  proof (induction n)
    case (Suc n)
    show ?case
    proof (cases "i = n")
      case True
      with Suc.prems show ?thesis by (simp add: assign2_Suc tget_tset)
    next
      case False
      then have "i < n" using Suc.prems(1) by simp
      with Suc.prems(5)[of n] Suc show ?thesis by (simp add: assign2_Suc tget_tset)
    qed
  qed simp
  then show "tget dc (y i) (assign2 dc n y v z w T) = v i" "tget dc (z i) (assign2 dc n y v z w T) = w i" by auto
qed

lemma swap_reverse:
  "swap_spec dc (n div 2) (reg_cells r st) (\<lambda>i. CReg r (st + (n - 1 - i))) T
     = copy_spec dc n (reg_cells r st) (\<lambda>i. CReg r (st + (n - 1 - i))) T" (is "?L = ?R")
proof (rule taint_eqI[of dc])
  fix c
  show "tget dc c ?L = tget dc c ?R"
  proof (cases "\<exists>i < n. c = CReg r (st + i)")
    case False
    then have "tget dc c ?R = tget dc c T" unfolding copy_spec_def by (intro tget_assign_other) auto
    moreover have "c \<noteq> CReg r (st + i) \<and> c \<noteq> CReg r (st + (n - 1 - i))" if "i < n div 2" for i
    proof -
      have "i < n" "n - 1 - i < n" using that by auto
      with False show ?thesis by blast
    qed
    then have "tget dc c ?L = tget dc c T" unfolding swap_spec_def by (rule tget_assign2_other)
    ultimately show ?thesis by simp
  next
    case True
    then obtain i where i: "i < n" "c = CReg r (st + i)" by auto
    have R: "tget dc c ?R = treg T dc r (st + (n - 1 - i))"
      using tget_assign[OF i(1), of "reg_cells r st" dc] i by (simp add: copy_spec_def)
    let ?y = "\<lambda>i. CReg r (st + (n - 1 - i))"
    have sw: "tget dc (reg_cells r st j) ?L = treg T dc r (st + (n - 1 - j))" "tget dc (?y j) ?L = treg T dc r (st + j)"
      if "j < n div 2" for j
    proof -
      have "reg_cells r st j \<noteq> ?y j" using that by auto
      moreover have "reg_cells r st j \<noteq> reg_cells r st k \<and> reg_cells r st j \<noteq> ?y k \<and> ?y j \<noteq> reg_cells r st k \<and> ?y j \<noteq> ?y k"
        if "j < k" "k < n div 2" for k using that by auto
      ultimately show "tget dc (reg_cells r st j) ?L = treg T dc r (st + (n - 1 - j))" "tget dc (?y j) ?L = treg T dc r (st + j)"
        unfolding swap_spec_def using tget_assign2[OF that, of "reg_cells r st" ?y] by simp_all
    qed
    consider "i < n div 2" | "n - 1 - i < n div 2" | "i = n - 1 - i" "\<not> i < n div 2" using i(1) by linarith
    then show ?thesis
    proof cases
      case 1
      with sw(1)[of i] R i show ?thesis by simp
    next
      case 2
      with sw(2)[of "n - 1 - i"] R i show ?thesis by simp
    next
      case 3
      have "c \<noteq> CReg r (st + j) \<and> c \<noteq> ?y j" if "j < n div 2" for j using that 3 i by auto
      then have "tget dc c ?L = tget dc c T" unfolding swap_spec_def by (rule tget_assign2_other)
      then have "tget dc c ?L = treg T dc r (st + i)" unfolding i(2) by simp
      also have "\<dots> = tget dc c ?R" unfolding R using 3(1) by presburger
      finally show ?thesis .
    qed
  qed
next
  fix dc' assume "dc' \<noteq> dc"
  then show "treg ?L dc' = treg ?R dc'"
    by (simp add: swap_spec_def copy_spec_def treg_assign2_other_thread treg_assign_other_thread)
qed

lemma bswap_reg_refines:
  assumes "dst_ok r st n"
  shows "refines (cur_drcontext E) (bswap_reg E r st n) 0
     (copy_spec (cur_drcontext E) n (reg_cells r st) (\<lambda>i. CReg r (st + (n - 1 - i))))"
proof -
  let ?dc = "cur_drcontext E"
  have "refines ?dc (for_upto (n div 2) (\<lambda>i s. rbind (cell_rd ?dc (CReg r (st + i)) s) (\<lambda>t.
      rbind (cell_rd ?dc (CReg r (st + (n - 1 - i))) s) (\<lambda>u.
      rbind (cell_wr ?dc (CReg r (st + i)) u s) (cell_wr ?dc (CReg r (st + (n - 1 - i))) t))))) 0
     (swap_spec ?dc (n div 2) (reg_cells r st) (\<lambda>i. CReg r (st + (n - 1 - i))))"
    by (rule refines_swap_loop) (use assms in \<open>auto simp: dst_ok_def\<close>)
  then have "refines ?dc (for_upto (n div 2) (\<lambda>i s. rbind (cell_rd ?dc (CReg r (st + i)) s) (\<lambda>t.
      rbind (cell_rd ?dc (CReg r (st + (n - 1 - i))) s) (\<lambda>u.
      rbind (cell_wr ?dc (CReg r (st + i)) u s) (cell_wr ?dc (CReg r (st + (n - 1 - i))) t))))) 0
     (copy_spec ?dc n (reg_cells r st) (\<lambda>i. CReg r (st + (n - 1 - i))))"
    by (rule refines_cong) (rule swap_reverse)
  note copied = this
  show ?thesis unfolding bswap_reg_def
  proof (rule refines_with_tc, rule refines_step_cong[OF copied])
    fix s :: "'a engine_scheme"
    show "(if n < 2 then Inr s else for_upto (n div 2) (\<lambda>i s. rbind (gpr_rd ?dc r (st + i) s) (\<lambda>tmp.
         rbind (gpr_rd ?dc r (st + n - 1 - i) s) (\<lambda>t.
         rbind (gpr_wr ?dc r (st + i) t s) (gpr_wr ?dc r (st + n - 1 - i) tmp)))) s)
      = for_upto (n div 2) (\<lambda>i s. rbind (cell_rd ?dc (CReg r (st + i)) s) (\<lambda>t.
      rbind (cell_rd ?dc (CReg r (st + (n - 1 - i))) s) (\<lambda>u.
      rbind (cell_wr ?dc (CReg r (st + i)) u s) (cell_wr ?dc (CReg r (st + (n - 1 - i))) t)))) s"
    proof (cases "n < 2")
      case True
      then have "n div 2 = 0" by simp
      with True show ?thesis by simp
    next
      case False
      have "st + n - 1 - i = st + (n - 1 - i)" if "i < n div 2" for i using that by simp
      with False show ?thesis
        unfolding for_upto_def if_not_P[OF False] by (intro for_loop_cong) (simp add: cell_eta)
    qed
  qed
qed

section \<open>One-operand multiply and divide\<close>

lemma fill_tags_eq:
  assumes "\<And>i. i < n \<Longrightarrow> get i = Inr (v i)"
  shows "fill_tags n get = Inr (map v [0..<n])"
proof -
  have "\<exists>t. for_upto n (\<lambda>i w. rbind (get i) (\<lambda>t. vec_set i t w)) (replicate n 0) = Inr t \<and>
      length t = n \<and> (\<forall>i < n. t ! i = v i)"
    by (rule for_upto_total[where P = "\<lambda>j t. length t = n \<and> (\<forall>i < j. t ! i = v i)"])
       (auto simp: assms vec_set_def nth_list_update less_Suc_eq)
  then obtain t where "fill_tags n get = Inr t" "length t = n" "\<forall>i < n. t ! i = v i"
    by (auto simp: fill_tags_def)
  moreover from this(2,3) have "t = map v [0..<n]" by (intro nth_equalityI) auto
  ultimately show ?thesis by simp
qed

text \<open>The labels of a span of readable cells, read without a change of the state.\<close>

lemma fill_cells_ok:
  assumes "engine_ok s" "live dc s" "\<And>i. i < n \<Longrightarrow> readable (x i)"
  obtains ts where "fill_tags n (\<lambda>i. cell_rd dc (x i) s) = Inr ts" "length ts = n"
    "\<And>i. i < n \<Longrightarrow> cell_rd dc (x i) s = Inr (ts ! i) \<and> valid_tag (tables s) (ts ! i)
       \<and> label_set (tables s) (ts ! i) = tget dc (x i) (taint_of s)"
proof -
  define v where "v i = projr (cell_rd dc (x i) s)" for i
  have v: "cell_rd dc (x i) s = Inr (v i) \<and> valid_tag (tables s) (v i)
       \<and> label_set (tables s) (v i) = tget dc (x i) (taint_of s)" if i: "i < n" for i
  proof -
    obtain t where "cell_rd dc (x i) s = Inr t" "valid_tag (tables s) t"
      "label_set (tables s) t = tget dc (x i) (taint_of s)" using cell_rd_ok[OF assms(1,2) assms(3)[OF i]] .
    then show ?thesis by (simp add: v_def)
  qed
  then have "fill_tags n (\<lambda>i. cell_rd dc (x i) s) = Inr (map v [0..<n])" by (intro fill_tags_eq) blast
  then show ?thesis
  proof (rule that)
    fix i assume i: "i < n"
    then have "map v [0..<n] ! i = v i" by simp
    with v[OF i] show "cell_rd dc (x i) s = Inr (map v [0..<n] ! i) \<and> valid_tag (tables s) (map v [0..<n] ! i)
       \<and> label_set (tables s) (map v [0..<n] ! i) = tget dc (x i) (taint_of s)" by metis
  qed simp
qed

lemma combine_into_ok:
  assumes "engine_ok s" "live dc s" "room (Suc k) (tables s)" "row < GRP_NUM" "b < TAGS_PER_GPR" "valid_tag (tables s) t"
  obtains s' where "combine_into dc row b t s = Inr s'" "engine_ok s'" "live dc s'" "room k (tables s')"
    "side s' = side s" "extends (tables s) (tables s')"
    "taint_of s' = tset dc (CReg row b) (tget dc (CReg row b) (taint_of s) \<union> label_set (tables s) t) (taint_of s)"
proof -
  have rw: "readable (CReg row b)" "writable (CReg row b)" using assms(4,5) by auto
  obtain c where c: "cell_rd dc (CReg row b) s = Inr c" "valid_tag (tables s) c"
    "label_set (tables s) c = tget dc (CReg row b) (taint_of s)" using cell_rd_ok[OF assms(1,2) rw(1)] .
  obtain u s1 where 1: "combine_tags c t s = Inr (u, s1)" "engine_ok s1" "live dc s1" "room k (tables s1)"
    "side s1 = side s" "taint_of s1 = taint_of s" "extends (tables s) (tables s1)" "valid_tag (tables s1) u"
    "label_set (tables s1) u = label_set (tables s) c \<union> label_set (tables s) t"
    using combine_tags_ok[OF assms(1-3) c(2) assms(6)] .
  obtain s2 where "cell_wr dc (CReg row b) u s1 = Inr s2" "engine_ok s2" "live dc s2" "tables s2 = tables s1"
    "side s2 = side s1" "taint_of s2 = tset dc (CReg row b) (label_set (tables s1) u) (taint_of s1)"
    using cell_wr_ok[OF 1(2,3) rw(2) 1(8)] .
  with c 1 that[of s2] show ?thesis by (simp add: combine_into_def)
qed

text \<open>Two cells in turn; the second union reads the table that the first one left.\<close>

lemma combine_into2_ok:
  assumes "engine_ok s" "live dc s" "room (2 + k) (tables s)" "row < GRP_NUM" "row' < GRP_NUM"
    "b < TAGS_PER_GPR" "b' < TAGS_PER_GPR" "valid_tag (tables s) t" "CReg row b \<noteq> CReg row' b'"
  obtains s' where "rbind (combine_into dc row b t s) (combine_into dc row' b' t) = Inr s'" "engine_ok s'" "live dc s'"
    "room k (tables s')" "side s' = side s" "extends (tables s) (tables s')"
    "taint_of s' = tset dc (CReg row' b') (tget dc (CReg row' b') (taint_of s) \<union> label_set (tables s) t)
       (tset dc (CReg row b) (tget dc (CReg row b) (taint_of s) \<union> label_set (tables s) t) (taint_of s))"
proof -
  have "room (Suc (Suc k)) (tables s)" using assms(3) by simp
  then obtain s1 where 1: "combine_into dc row b t s = Inr s1" "engine_ok s1" "live dc s1" "room (Suc k) (tables s1)"
    "side s1 = side s" "extends (tables s) (tables s1)"
    "taint_of s1 = tset dc (CReg row b) (tget dc (CReg row b) (taint_of s) \<union> label_set (tables s) t) (taint_of s)"
    using combine_into_ok[OF assms(1,2) _ assms(4,6,8)] by metis
  have t: "valid_tag (tables s1) t" "label_set (tables s1) t = label_set (tables s) t"
    using 1(6) assms(8) labels.grows_valid labels.grows_den by blast+
  obtain s2 where 2: "combine_into dc row' b' t s1 = Inr s2" "engine_ok s2" "live dc s2" "room k (tables s2)"
    "side s2 = side s1" "extends (tables s1) (tables s2)"
    "taint_of s2 = tset dc (CReg row' b') (tget dc (CReg row' b') (taint_of s1) \<union> label_set (tables s1) t) (taint_of s1)"
    using combine_into_ok[OF 1(2-4) assms(5,7) t(1)] .
  have "extends (tables s) (tables s2)" using 1(6) 2(6) labels.grows_trans by blast
  moreover have "tget dc (CReg row' b') (taint_of s1) = tget dc (CReg row' b') (taint_of s)"
    using assms(9) unfolding 1(7) tget_tset by auto
  ultimately show ?thesis using that[of s2] 1 2 t(2) by (simp del: tget.simps tset.simps)
qed

lemma ternary_loop_ok:
  assumes "engine_ok s" "live dc s" "room (2 * n + k) (tables s)" "n \<le> 8" "length ts = n"
    "\<And>i. i < n \<Longrightarrow> valid_tag (tables s) (ts ! i)"
  shows "\<exists>s'. for_upto n (\<lambda>i s. rbind (vec_get i ts) (\<lambda>t.
        rbind (combine_into dc DFT_REG_RDX i t s) (combine_into dc DFT_REG_RAX i t))) s = Inr s'
     \<and> engine_ok s' \<and> live dc s' \<and> room (2 * (n - n) + k) (tables s') \<and> side s' = side s \<and> extends (tables s) (tables s')
     \<and> taint_of s' = assign2 dc n (reg_cells DFT_REG_RDX 0) (\<lambda>i. tget dc (CReg DFT_REG_RDX i) (taint_of s) \<union> label_set (tables s) (ts ! i))
          (reg_cells DFT_REG_RAX 0) (\<lambda>i. tget dc (CReg DFT_REG_RAX i) (taint_of s) \<union> label_set (tables s) (ts ! i)) (taint_of s)"
proof (rule for_upto_total[where P = "\<lambda>j u. engine_ok u \<and> live dc u \<and> room (2 * (n - j) + k) (tables u) \<and> side u = side s
     \<and> extends (tables s) (tables u)
     \<and> taint_of u = assign2 dc j (reg_cells DFT_REG_RDX 0) (\<lambda>i. tget dc (CReg DFT_REG_RDX i) (taint_of s) \<union> label_set (tables s) (ts ! i))
          (reg_cells DFT_REG_RAX 0) (\<lambda>i. tget dc (CReg DFT_REG_RAX i) (taint_of s) \<union> label_set (tables s) (ts ! i)) (taint_of s)"])
  fix j u
  assume j: "j < n" and u: "engine_ok u \<and> live dc u \<and> room (2 * (n - j) + k) (tables u) \<and> side u = side s
     \<and> extends (tables s) (tables u)
     \<and> taint_of u = assign2 dc j (reg_cells DFT_REG_RDX 0) (\<lambda>i. tget dc (CReg DFT_REG_RDX i) (taint_of s) \<union> label_set (tables s) (ts ! i))
          (reg_cells DFT_REG_RAX 0) (\<lambda>i. tget dc (CReg DFT_REG_RAX i) (taint_of s) \<union> label_set (tables s) (ts ! i)) (taint_of s)"
  let ?t = "ts ! j"
  have t: "valid_tag (tables u) ?t" "label_set (tables u) ?t = label_set (tables s) ?t"
    using u assms(6)[OF j] labels.grows_valid labels.grows_den by blast+
  have "2 + (2 * (n - Suc j) + k) = 2 * (n - j) + k" using j by simp
  with u have rm: "room (2 + (2 * (n - Suc j) + k)) (tables u)" by metis
  have rows: "DFT_REG_RDX < GRP_NUM" "DFT_REG_RAX < GRP_NUM" "j < TAGS_PER_GPR" "DFT_REG_RDX \<noteq> DFT_REG_RAX"
    using j assms(4) by (simp_all add: DFT_REG_RDX_def DFT_REG_RAX_def GRP_NUM_def TAGS_PER_GPR_def)
  obtain u' where 1: "rbind (combine_into dc DFT_REG_RDX j ?t u) (combine_into dc DFT_REG_RAX j ?t) = Inr u'"
    "engine_ok u'" "live dc u'" "room (2 * (n - Suc j) + k) (tables u')" "side u' = side u" "extends (tables u) (tables u')"
    "taint_of u' = tset dc (CReg DFT_REG_RAX j) (tget dc (CReg DFT_REG_RAX j) (taint_of u) \<union> label_set (tables u) ?t)
       (tset dc (CReg DFT_REG_RDX j) (tget dc (CReg DFT_REG_RDX j) (taint_of u) \<union> label_set (tables u) ?t) (taint_of u))"
    using combine_into2_ok[OF _ _ rm rows(1,2,3,3) t(1)] u rows(4) by auto
  have old: "tget dc (CReg row j) (taint_of u) = tget dc (CReg row j) (taint_of s)" for row
  proof -
    from u have tu: "taint_of u = assign2 dc j (reg_cells DFT_REG_RDX 0) (\<lambda>i. tget dc (CReg DFT_REG_RDX i) (taint_of s) \<union> label_set (tables s) (ts ! i))
          (reg_cells DFT_REG_RAX 0) (\<lambda>i. tget dc (CReg DFT_REG_RAX i) (taint_of s) \<union> label_set (tables s) (ts ! i)) (taint_of s)" by blast
    show ?thesis unfolding tu by (rule tget_assign2_other) auto
  qed
  have "extends (tables s) (tables u')" using u 1(6) labels.grows_trans by blast
  with 1 u t(2) old j assms(5)
  show "\<exists>u'. rbind (vec_get j ts) (\<lambda>t. rbind (combine_into dc DFT_REG_RDX j t u) (combine_into dc DFT_REG_RAX j t)) = Inr u'
     \<and> engine_ok u' \<and> live dc u' \<and> room (2 * (n - Suc j) + k) (tables u') \<and> side u' = side s \<and> extends (tables s) (tables u')
     \<and> taint_of u' = assign2 dc (Suc j) (reg_cells DFT_REG_RDX 0) (\<lambda>i. tget dc (CReg DFT_REG_RDX i) (taint_of s) \<union> label_set (tables s) (ts ! i))
          (reg_cells DFT_REG_RAX 0) (\<lambda>i. tget dc (CReg DFT_REG_RAX i) (taint_of s) \<union> label_set (tables s) (ts ! i)) (taint_of s)"
    by (intro exI[of _ u']) (simp add: vec_get_def assign2_Suc del: tget.simps tset.simps)
qed (use assms labels.grows_refl in \<open>simp_all add: assign2_def\<close>)

lemma ternary_combine_ok:
  assumes "engine_ok s" "live dc s" "room (2 * n + k) (tables s)" "n \<le> 8" "length ts = n"
    "\<And>i. i < n \<Longrightarrow> valid_tag (tables s) (ts ! i) \<and> label_set (tables s) (ts ! i) = v i"
  shows "\<exists>s'. ternary_combine dc ts n s = Inr s' \<and> engine_ok s' \<and> live dc s' \<and> room k (tables s') \<and> side s' = side s
     \<and> taint_of s' = ternary_spec dc n v (taint_of s) \<and> extends (tables s) (tables s')"
proof (cases "n = 1")
  case True
  have "room (2 + k) (tables s)" using assms(3) True by simp
  moreover have "DFT_REG_RAX < GRP_NUM" "0 < TAGS_PER_GPR" "1 < TAGS_PER_GPR"
    by (simp_all add: DFT_REG_RAX_def GRP_NUM_def TAGS_PER_GPR_def)
  moreover have "valid_tag (tables s) (ts ! 0)" "label_set (tables s) (ts ! 0) = v 0" using assms(6)[of 0] True by auto
  ultimately obtain s' where s': "rbind (combine_into dc DFT_REG_RAX 0 (ts ! 0) s) (combine_into dc DFT_REG_RAX 1 (ts ! 0)) = Inr s'"
    "engine_ok s'" "live dc s'" "room k (tables s')" "side s' = side s" "extends (tables s) (tables s')"
    "taint_of s' = tset dc (CReg DFT_REG_RAX 1) (tget dc (CReg DFT_REG_RAX 1) (taint_of s) \<union> v 0)
       (tset dc (CReg DFT_REG_RAX 0) (tget dc (CReg DFT_REG_RAX 0) (taint_of s) \<union> v 0) (taint_of s))"
    using combine_into2_ok[OF assms(1,2), of k DFT_REG_RAX DFT_REG_RAX 0 1 "ts ! 0"] by auto
  have "taint_of s' = ternary_spec dc n v (taint_of s)"
    unfolding s'(7) using True by (simp add: ternary_spec_def numeral_2_eq_2 assign_Suc)
  with s' True assms(5) show ?thesis by (auto simp: ternary_combine_def vec_get_def)
next
  case False
  have 1: "valid_tag (tables s) (ts ! i)" "i < n \<longrightarrow> label_set (tables s) (ts ! i) = v i" if "i < n" for i
    using assms(6)[OF that] by auto
  have "assign2 dc n (reg_cells DFT_REG_RDX 0) (\<lambda>i. tget dc (CReg DFT_REG_RDX i) T \<union> label_set (tables s) (ts ! i))
          (reg_cells DFT_REG_RAX 0) (\<lambda>i. tget dc (CReg DFT_REG_RAX i) T \<union> label_set (tables s) (ts ! i)) U
     = assign2 dc n (reg_cells DFT_REG_RDX 0) (\<lambda>i. tget dc (CReg DFT_REG_RDX i) T \<union> v i)
          (reg_cells DFT_REG_RAX 0) (\<lambda>i. tget dc (CReg DFT_REG_RAX i) T \<union> v i) U" for T U
    unfolding assign2_def by (rule fold_cong) (use 1(2) in auto)
  with ternary_loop_ok[OF assms(1-5) 1(1)] False show ?thesis
    by (auto simp: ternary_combine_def ternary_spec_def)
qed

lemma ternary_refines:
  assumes "\<And>i. i < n \<Longrightarrow> readable (x i)" "n \<le> 8"
  shows "refines dc (\<lambda>s. rbind (fill_tags (min n 8) (\<lambda>i. cell_rd dc (x i) s)) (\<lambda>src. ternary_combine dc src n s)) (2 * n)
     (\<lambda>T. ternary_spec dc n (\<lambda>i. tget dc (x i) T) T)"
proof (rule refinesI)
  fix s :: "'a engine_scheme" and k
  assume s: "engine_ok s" "live dc s" "room (2 * n + k) (tables s)"
  obtain ts where ts: "fill_tags n (\<lambda>i. cell_rd dc (x i) s) = Inr ts" "length ts = n"
    "\<And>i. i < n \<Longrightarrow> cell_rd dc (x i) s = Inr (ts ! i) \<and> valid_tag (tables s) (ts ! i)
       \<and> label_set (tables s) (ts ! i) = tget dc (x i) (taint_of s)"
    by (rule fill_cells_ok[OF s(1,2), of n x]) (rule assms(1), assumption, blast)
  have "min n 8 = n" using assms(2) by simp
  with ternary_combine_ok[OF s assms(2) ts(2), of "\<lambda>i. tget dc (x i) (taint_of s)"] ts(1,3)
  show "\<exists>s'. rbind (fill_tags (min n 8) (\<lambda>i. cell_rd dc (x i) s)) (\<lambda>src. ternary_combine dc src n s) = Inr s'
     \<and> engine_ok s' \<and> live dc s' \<and> room k (tables s') \<and> side s' = side s
     \<and> taint_of s' = ternary_spec dc n (\<lambda>i. tget dc (x i) (taint_of s)) (taint_of s)
     \<and> extends (tables s) (tables s')" by simp
qed

lemma ternary_r2r_refines:
  assumes "src_ok r st n" "n \<le> 8"
  shows "refines (cur_drcontext E) (ternary_r2r E r st n) (2 * n)
     (\<lambda>T. ternary_spec (cur_drcontext E) n (\<lambda>i. tget (cur_drcontext E) (reg_cells r st i) T) T)"
  unfolding ternary_r2r_def
  by (rule refines_with_tc)
     (use ternary_refines[of n "reg_cells r st" "cur_drcontext E"] assms in \<open>simp add: src_ok_def\<close>)

lemma ternary_m2r_refines:
  assumes "mem_ok a n" "n \<le> 8"
  shows "refines (cur_drcontext E) (ternary_m2r E a n) (2 * n)
     (\<lambda>T. ternary_spec (cur_drcontext E) n (\<lambda>i. tget (cur_drcontext E) (mem_cells a i) T) T)"
  unfolding ternary_m2r_def
  by (rule refines_with_tc)
     (use ternary_refines[of n "mem_cells a" "cur_drcontext E"] assms in \<open>simp add: mem_ok_testb\<close>)

end
