(* ===== verification/Refine_Records.thy ===== *)
theory Refine_Records
  imports Refine_Shifts
begin

text \<open>
  The handlers that report: \<^verbatim>\<open>lea_prop\<close> and the comparisons. For each of them, when a record is
  emitted, what its fields are and that reporting leaves taint, labels and threads alone.
\<close>

section \<open>Printed sets\<close>

definition print_set :: "nat set \<Rightarrow> string" where
  "print_set X = ''{'' @ commas (map dec_str (sorted_list_of_set X)) @ ''}''"

lemma tag_sprint_set:
  assumes "tables_ok T" "valid_tag T t"
  shows "tag_sprint t T = print_set (label_set T t)"
proof (cases "t = 0")
  case True
  with label_set_0[OF assms(1)] show ?thesis by (simp add: tag_sprint_def print_set_def)
next
  case False
  have inv: "ewah_inv (g_sets T ! unat t)" using tables_ok_inv[OF assms] .
  have "tag_sprint t T = ewah_sprint (g_sets T ! unat t)" using False assms(2) by (simp add: tag_sprint_def valid_tag_def)
  moreover have "ewah_ones (g_sets T ! unat t) = sorted_list_of_set (offsets (g_sets T ! unat t))"
    using inv ewah_ones_sorted set_ewah_ones strict_sorted_equal_Uniq
    by (metis ewah_inv_def sorted_list_of_set.idem_if_sorted_distinct strict_sorted_iff)
  ultimately show ?thesis using inv assms(2) by (simp add: ewah_sprint_eq print_set_def label_set_def)
qed

lemma tag_count_set: "tables_ok T \<Longrightarrow> valid_tag T t \<Longrightarrow> tag_count t \<longleftrightarrow> label_set T t \<noteq> {}"
  using label_set_inject[of T t 0] label_set_0[of T] by (auto simp: tag_count_def)

text \<open>The number that the limit on a field is compared with: the offsets in it, and 1 for none.\<close>

lemma comma_tokens_count: "comma_tokens s = 1 + int (count_list s (CHR '',''))"
proof -
  have "fold (\<lambda>c n. if c = CHR '','' then n + 1 else n) s m = m + int (count_list s (CHR '',''))" for m
    by (induction s arbitrary: m) auto
  then show ?thesis by (simp add: comma_tokens_def)
qed

lemma comma_tokens_print_set:
  assumes "finite X"
  shows "comma_tokens (print_set X) = max 1 (int (card X))"
proof (cases "X = {}")
  case False
  then have ne: "sorted_list_of_set X \<noteq> []" using assms by simp
  have "card X > 0" using False assms by auto
  moreover have "count_list (print_set X) (CHR '','') = card X - 1"
    using count_comma_commas[of "map dec_str (sorted_list_of_set X)"] ne assms
    by (fastforce simp: print_set_def)
  ultimately show ?thesis by (simp add: comma_tokens_count)
qed (simp add: comma_tokens_count print_set_def)

section \<open>The fields of a record\<close>

lemma map_upt_update: "i < n \<Longrightarrow> (map f [0..<n])[i := x] = map (f(i := x)) [0..<n]"
  by (rule nth_equalityI) (auto simp: nth_list_update)

lemma vec_set_map_upt: "i < n \<Longrightarrow> vec_set i x (map f [0..<n]) = Inr (map (f(i := x)) [0..<n])"
  by (simp add: vec_set_def map_upt_update)

text \<open>Field k of a comparison record, with the printed tags of the two operands.\<close>

definition cmp_field :: "string \<Rightarrow> string \<Rightarrow> string \<Rightarrow> string list \<Rightarrow> string list \<Rightarrow> string \<Rightarrow> string \<Rightarrow> nat \<Rightarrow> string" where
  "cmp_field bits kind ip ds ss dv sv k =
     (if k = 0 then bits
      else if k = 1 then kind
      else if k = 2 then ip
      else if k < 11 then (if k - 3 < length ds then ds ! (k - 3) else ''{}'')
      else if k < 19 then (if k - 11 < length ss then ss ! (k - 11) else ''{}'')
      else if k = 19 then dv
      else sv)"

definition cmp_record :: "string \<Rightarrow> string \<Rightarrow> string \<Rightarrow> string list \<Rightarrow> string list \<Rightarrow> string \<Rightarrow> string \<Rightarrow> string list" where
  "cmp_record bits kind ip ds ss dv sv = map (cmp_field bits kind ip ds ss dv sv) [0..<21]"

lemma no_fields_record: "no_fields = cmp_record ''{}'' ''{}'' ''{}'' [] [] ''{}'' ''{}''"
  by (rule nth_equalityI) (simp_all add: no_fields_def cmp_record_def cmp_field_def del: upt_Suc)

lemma record_dest:
  assumes "length ds < 8"
  shows "(cmp_field b k ip ds ss dv sv)(length ds + 3 := x) = cmp_field b k ip (ds @ [x]) ss dv sv"
  using assms by (auto simp: cmp_field_def fun_eq_iff nth_append)

lemma record_src:
  assumes "length ss < 8"
  shows "(cmp_field b k ip ds ss dv sv)(length ss + 11 := x) = cmp_field b k ip ds (ss @ [x]) dv sv"
  using assms by (auto simp: cmp_field_def fun_eq_iff nth_append)

lemma record_ip: "(cmp_field b k ip ds ss dv sv)(2 := x) = cmp_field b k x ds ss dv sv"
  by (auto simp: cmp_field_def fun_eq_iff)

lemma put_dest: "length ds < 8 \<Longrightarrow> put_field (length ds + 3) x (fl, cmp_record b k ip ds ss dv sv)
    = Inr (fl, cmp_record b k ip (ds @ [x]) ss dv sv)"
  by (simp add: put_field_def cmp_record_def vec_set_map_upt record_dest)

lemma put_src: "length ss < 8 \<Longrightarrow> put_field (length ss + 11) x (fl, cmp_record b k ip ds ss dv sv)
    = Inr (fl, cmp_record b k ip ds (ss @ [x]) dv sv)"
  by (simp add: put_field_def cmp_record_def vec_set_map_upt record_src)

definition ip_field :: "bool \<Rightarrow> UINT64 \<Rightarrow> string" where
  "ip_field fl ins = (if fl then hexstr_u ins else ''{}'')"

lemma mark_record:
  assumes "mark = mark_once \<or> mark = mark_always"
  shows "mark ins t (fl, cmp_record b k (ip_field fl ins) ds ss dv sv)
    = Inr (fl \<or> t, cmp_record b k (ip_field (fl \<or> t) ins) ds ss dv sv)"
  using assms
  by (auto simp: mark_once_def mark_always_def cmp_record_def vec_set_map_upt record_ip ip_field_def)

lemma cmp_fields2_eq:
  assumes "length dest = sz" "length src = sz" "sz \<le> 8" "mark = mark_once \<or> mark = mark_always"
  shows "cmp_fields2 ins mark p sz dest src s = Inr (list_ex p (dest @ src),
     cmp_record ''{}'' ''{}'' (ip_field (list_ex p (dest @ src)) ins)
       (map (\<lambda>t. tag_sprint t (tables s)) dest) (map (\<lambda>t. tag_sprint t (tables s)) src) ''{}'' ''{}'')"
proof -
  let ?pr = "\<lambda>t. tag_sprint t (tables s)"
  define P where "P = (\<lambda>j st. st = (list_ex p (take j dest @ take j src),
     cmp_record ''{}'' ''{}'' (ip_field (list_ex p (take j dest @ take j src)) ins)
       (map ?pr (take j dest)) (map ?pr (take j src)) ''{}'' ''{}''))"
  have "\<exists>st. cmp_fields2 ins mark p sz dest src s = Inr st \<and> P sz st"
    unfolding cmp_fields2_def
  proof (rule for_upto_total)
    show "P 0 (False, no_fields)" by (simp add: P_def no_fields_record ip_field_def)
    fix j st assume j: "j < sz" and st: "P j st"
    let ?fl = "list_ex p (take j dest @ take j src)"
    let ?d = "dest ! j" and ?t = "src ! j"
    have jd: "j < length dest" "j < length src" "j < 8" using j assms by auto
    have len: "length (map ?pr (take j dest)) = j" "length (map ?pr (take j src)) = j" using jd by auto
    have d: "map ?pr (take j dest) @ [?pr ?d] = map ?pr (take (Suc j) dest)"
      and t: "map ?pr (take j src) @ [?pr ?t] = map ?pr (take (Suc j) src)"
      using jd by (simp_all add: take_Suc_conv_app_nth)
    have fl: "(?fl \<or> p ?d) \<or> p ?t \<longleftrightarrow> list_ex p (take (Suc j) dest @ take (Suc j) src)"
      using jd by (auto simp: take_Suc_conv_app_nth)
    have m1: "mark_once ins (p ?d) st = Inr (?fl \<or> p ?d, cmp_record ''{}'' ''{}'' (ip_field (?fl \<or> p ?d) ins)
        (map ?pr (take j dest)) (map ?pr (take j src)) ''{}'' ''{}'')"
      using st mark_record[of mark_once] unfolding P_def by simp
    have p1: "put_field (j + 3) (?pr ?d) (?fl \<or> p ?d, cmp_record ''{}'' ''{}'' (ip_field (?fl \<or> p ?d) ins)
        (map ?pr (take j dest)) (map ?pr (take j src)) ''{}'' ''{}'') = Inr (?fl \<or> p ?d, cmp_record ''{}'' ''{}'' (ip_field (?fl \<or> p ?d) ins)
        (map ?pr (take (Suc j) dest)) (map ?pr (take j src)) ''{}'' ''{}'')"
      using put_dest[of "map ?pr (take j dest)"] len jd(3) unfolding d[symmetric] by metis
    have p2: "put_field (j + 11) (?pr ?t) ((?fl \<or> p ?d) \<or> p ?t, cmp_record ''{}'' ''{}'' (ip_field ((?fl \<or> p ?d) \<or> p ?t) ins)
        (map ?pr (take (Suc j) dest)) (map ?pr (take j src)) ''{}'' ''{}'') = Inr ((?fl \<or> p ?d) \<or> p ?t, cmp_record ''{}'' ''{}'' (ip_field ((?fl \<or> p ?d) \<or> p ?t) ins)
        (map ?pr (take (Suc j) dest)) (map ?pr (take (Suc j) src)) ''{}'' ''{}'')"
      using put_src[of "map ?pr (take j src)"] len jd(3) unfolding t[symmetric] by metis
    show "\<exists>st'. rbind (vec_get j dest) (\<lambda>d. rbind (mark_once ins (p d) st) (\<lambda>st1.
       rbind (put_field (j + 3) (?pr d) st1) (\<lambda>st2. rbind (vec_get j src) (\<lambda>t.
       rbind (mark ins (p t) st2) (\<lambda>st3. put_field (j + 11) (?pr t) st3))))) = Inr st' \<and> P (Suc j) st'"
      unfolding P_def fl[symmetric]
      by (simp only: vec_get_def jd m1 p1 p2 mark_record[OF assms(4)] if_True rbind_Inr) blast
  qed
  then show ?thesis using assms(1,2) by (auto simp: P_def)
qed

lemma cmp_fields1_eq:
  assumes "length dest = sz" "sz \<le> 8"
  shows "cmp_fields1 ins sz dest s = Inr (list_ex tag_count dest,
     cmp_record ''{}'' ''{}'' (ip_field (list_ex tag_count dest) ins)
       (map (\<lambda>t. tag_sprint t (tables s)) dest) [] ''{}'' ''{}'')"
proof -
  let ?pr = "\<lambda>t. tag_sprint t (tables s)"
  define P where "P = (\<lambda>j st. st = (list_ex tag_count (take j dest),
     cmp_record ''{}'' ''{}'' (ip_field (list_ex tag_count (take j dest)) ins) (map ?pr (take j dest)) [] ''{}'' ''{}''))"
  have "\<exists>st. cmp_fields1 ins sz dest s = Inr st \<and> P sz st"
    unfolding cmp_fields1_def
  proof (rule for_upto_total)
    show "P 0 (False, no_fields)" by (simp add: P_def no_fields_record ip_field_def)
    fix j st assume j: "j < sz" and st: "P j st"
    let ?fl = "list_ex tag_count (take j dest)"
    let ?d = "dest ! j"
    have jd: "j < length dest" "j < 8" using j assms by auto
    have len: "length (map ?pr (take j dest)) = j" using jd by auto
    have d: "map ?pr (take j dest) @ [?pr ?d] = map ?pr (take (Suc j) dest)"
      using jd by (simp add: take_Suc_conv_app_nth)
    have fl: "?fl \<or> tag_count ?d \<longleftrightarrow> list_ex tag_count (take (Suc j) dest)"
      using jd by (auto simp: take_Suc_conv_app_nth)
    have m1: "mark_once ins (tag_count ?d) st = Inr (?fl \<or> tag_count ?d, cmp_record ''{}'' ''{}'' (ip_field (?fl \<or> tag_count ?d) ins)
        (map ?pr (take j dest)) [] ''{}'' ''{}'')"
      using st mark_record[of mark_once] unfolding P_def by simp
    have p1: "put_field (j + 3) (?pr ?d) (?fl \<or> tag_count ?d, cmp_record ''{}'' ''{}'' (ip_field (?fl \<or> tag_count ?d) ins)
        (map ?pr (take j dest)) [] ''{}'' ''{}'') = Inr (?fl \<or> tag_count ?d, cmp_record ''{}'' ''{}'' (ip_field (?fl \<or> tag_count ?d) ins)
        (map ?pr (take (Suc j) dest)) [] ''{}'' ''{}'')"
      using put_dest[of "map ?pr (take j dest)"] len jd(2) unfolding d[symmetric] by metis
    show "\<exists>st'. rbind (vec_get j dest) (\<lambda>d. rbind (mark_once ins (tag_count d) st) (put_field (j + 3) (?pr d))) = Inr st' \<and> P (Suc j) st'"
      unfolding P_def fl[symmetric]
      by (simp only: vec_get_def jd m1 p1 if_True rbind_Inr) blast
  qed
  then show ?thesis using assms(1) by (auto simp: P_def)
qed

section \<open>Emitting\<close>

text \<open>\<open>same_taint s s'\<close>: the two states differ in output files and sink log at most.\<close>

definition same_taint :: "'a engine_scheme \<Rightarrow> 'a engine_scheme \<Rightarrow> bool" where
  "same_taint s s' \<longleftrightarrow> tls_idx s' = tls_idx s \<and> threads s' = threads s \<and> tag_dir s' = tag_dir s \<and> tables s' = tables s
     \<and> g_pending_func_sinks s' = g_pending_func_sinks s \<and> engine.more s' = engine.more s"

lemma same_taint_refl [simp]: "same_taint s s"
  by (simp add: same_taint_def)

lemma same_taint_emit [simp]: "same_taint s (emit_cmp fs ins d t s)" "same_taint s (emit_lea fs ins t s)"
  "same_taint s (dispatch_pc_range_sink pc s)"
  by (simp_all add: same_taint_def dispatch_pc_range_sink_def emit_cmp_def emit_lea_def dispatch_sink_def
       legacy_write_cmp_def legacy_write_lea_def split: option.split)

lemma same_taintD:
  assumes "same_taint s s'"
  shows "engine_ok s' = engine_ok s" "live dc s' = live dc s" "tables s' = tables s" "taint_of s' = taint_of s"
proof -
  have eq: "tls_idx s' = tls_idx s" "threads s' = threads s" "tag_dir s' = tag_dir s" "tables s' = tables s"
    using assms by (simp_all add: same_taint_def)
  show "engine_ok s' = engine_ok s" "live dc s' = live dc s" "tables s' = tables s" "taint_of s' = taint_of s"
    unfolding engine_ok_def live_def taint_of_def libdft_get_thread_ctx_def eq by (rule refl)+
qed

section \<open>Operand tags\<close>

definition reg_tags :: "nat \<Rightarrow> nat \<Rightarrow> nat \<Rightarrow> nat \<Rightarrow> 'a engine_scheme \<Rightarrow> tag_t list" where
  "reg_tags dc row start sz s =
     (case libdft_get_thread_ctx dc s of None \<Rightarrow> []
      | Some tc \<Rightarrow> map (\<lambda>i. gpr_file tc row (start + i)) [0..<sz])"

definition mem_tags :: "ADDRINT \<Rightarrow> nat \<Rightarrow> 'a engine_scheme \<Rightarrow> tag_t list" where
  "mem_tags addr sz s = map (\<lambda>i. shadow_of (tag_dir s) (addr + of_nat i)) [0..<sz]"

lemma fill_reg_tags_eq:
  assumes "live dc s" "src_ok row start sz"
  shows "fill_reg_tags dc row start sz s = Inr (reg_tags dc row start sz s)" "length (reg_tags dc row start sz s) = sz"
proof -
  obtain tc where tc: "libdft_get_thread_ctx dc s = Some tc" using assms(1) by (auto simp: live_def)
  have "gpr_rd dc row (start + i) s = Inr (gpr_file tc row (start + i))" if "i < sz" for i
    using tc that assms(2) by (simp add: gpr_rd_def src_ok_def)
  then show "fill_reg_tags dc row start sz s = Inr (reg_tags dc row start sz s)"
    unfolding fill_reg_tags_def reg_tags_def tc option.case by (rule fill_tags_eq)
qed (use assms in \<open>auto simp: reg_tags_def live_def\<close>)

lemma fill_mem_tags_eq:
  assumes "mem_ok a sz"
  shows "fill_mem_tags a sz s = Inr (mem_tags a sz s)" "length (mem_tags a sz s) = sz"
proof -
  have "mem_rd (a + of_nat i) s = Inr (shadow_of (tag_dir s) (a + of_nat i))" if "i < sz" for i
    using mem_ok_testb[OF assms that] by (simp add: mem_rd_def)
  then show "fill_mem_tags a sz s = Inr (mem_tags a sz s)"
    unfolding fill_mem_tags_def mem_tags_def by (rule fill_tags_eq)
qed (simp add: mem_tags_def)

text \<open>The labels of a span denote the taint of its cells, and print as it.\<close>

lemma reg_tags_sets:
  assumes "engine_ok s" "live dc s" "i < sz"
  shows "valid_tag (tables s) (reg_tags dc row start sz s ! i)"
    "label_set (tables s) (reg_tags dc row start sz s ! i) = treg (taint_of s) dc row (start + i)"
  using assms by (auto simp: reg_tags_def live_def engine_ok_def taint_of_def)

lemma mem_tags_sets:
  assumes "engine_ok s" "i < sz"
  shows "valid_tag (tables s) (mem_tags a sz s ! i)"
    "label_set (tables s) (mem_tags a sz s ! i) = tmem (taint_of s) (a + of_nat i)"
  using assms by (auto simp: mem_tags_def engine_ok_def taint_of_def)

section \<open>Comparisons\<close>

text \<open>The value as it is printed at a width, and at the 32-bit width the immediates are cut to.\<close>

definition val_str :: "nat \<Rightarrow> UINT64 \<Rightarrow> string" where
  "val_str sz v =
     (if sz = 8 then hexstr_u v
      else if sz \<in> {1, 2, 4} then hexstr_u (take_bit (8 * sz) v)
      else ''{}'')"

definition val32_str :: "nat \<Rightarrow> UINT64 \<Rightarrow> string" where
  "val32_str sz v = val_str (if sz = 8 then 4 else sz) v"

lemma record_vals: "(cmp_record b k ip ds ss dv sv)[19 := x, 20 := y] = cmp_record b k ip ds ss x y"
  by (auto simp: cmp_record_def map_upt_update cmp_field_def fun_eq_iff simp del: upt_Suc)

lemma record_head: "(cmp_record b k ip ds ss dv sv)[0 := x, Suc 0 := y] = cmp_record x y ip ds ss dv sv"
  by (auto simp: cmp_record_def map_upt_update cmp_field_def fun_eq_iff simp del: upt_Suc)

lemma val_fields_record:
  "val_fields sz x y (cmp_record b k ip ds ss ''{}'' ''{}'') = cmp_record b k ip ds ss (val_str sz x) (val_str sz y)"
  "val_fields32 sz x y (cmp_record b k ip ds ss ''{}'' ''{}'') = cmp_record b k ip ds ss (val32_str sz x) (val32_str sz y)"
  by (simp_all add: val_fields_def val_fields32_def val_str_def val32_str_def record_vals)

text \<open>What a comparison must report.\<close>

definition report_cmp :: "string \<Rightarrow> UINT64 \<Rightarrow> nat \<Rightarrow> bool \<Rightarrow> tag_t list \<Rightarrow> tag_t list \<Rightarrow> string \<Rightarrow> string \<Rightarrow> 'a engine_scheme \<Rightarrow> 'a engine_scheme" where
  "report_cmp kind ins sz fl dest src dv sv s =
     (if fl then
        emit_cmp (cmp_record (int2str (int sz * 8)) kind (hexstr_u ins)
            (map (\<lambda>t. tag_sprint t (tables s)) dest) (map (\<lambda>t. tag_sprint t (tables s)) src) dv sv)
          ins dest src s
      else s)"

lemma same_taint_report [simp]: "same_taint s (report_cmp kind ins sz fl dest src dv sv s)"
  by (simp add: report_cmp_def)

lemma with_tc_live: "live (cur_drcontext E) s \<Longrightarrow> with_tc E f s = f (cur_drcontext E) s"
  by (auto simp: with_tc_def live_def)

lemma cmp_r2r_eq:
  assumes "live (cur_drcontext E) s" "src_ok dr ds sz" "src_ok sr ss sz" "sz \<le> 8"
  shows "cmp_r2r E ins dr ds dval sr ss sval sz s = Inr
     (let dest = reg_tags (cur_drcontext E) dr ds sz s; src = reg_tags (cur_drcontext E) sr ss sz s in
      report_cmp ''reg reg'' ins sz (list_ex tag_count (dest @ src)) dest src (val_str sz dval) (val_str sz sval) s)"
  using assms
  by (simp add: cmp_r2r_def with_tc_live fill_reg_tags_eq cmp_fields2_eq val_fields_record record_head ip_field_def
       report_cmp_def Let_def)

lemma cmp_m2r_eq:
  assumes "live (cur_drcontext E) s" "src_ok dr ds sz" "file_tag_testb a \<longrightarrow> mem_ok a sz" "sz \<le> 8"
  shows "cmp_m2r E ins dr ds dval a sz s = Inr
     (let dest = reg_tags (cur_drcontext E) dr ds sz s; src = mem_tags a sz s in
      report_cmp ''reg mem'' ins sz (file_tag_testb a \<and> list_ex tag_count (dest @ src)) dest src
        (val_str sz dval) (val_str sz (read_mem_val E a sz)) s)"
  using assms
  by (simp add: cmp_m2r_def with_tc_live fill_reg_tags_eq fill_mem_tags_eq cmp_fields2_eq val_fields_record record_head
       ip_field_def report_cmp_def Let_def)

lemma cmp_i2r_eq:
  assumes "live (cur_drcontext E) s" "src_ok dr ds sz" "sz \<le> 8"
  shows "cmp_i2r E ins dr ds dval imm sz s = Inr
     (let dest = reg_tags (cur_drcontext E) dr ds sz s in
      report_cmp ''reg imm'' ins sz (list_ex tag_count dest) dest [] (val32_str sz dval) (val32_str sz (ucast imm)) s)"
  using assms
  by (simp add: cmp_i2r_def with_tc_live fill_reg_tags_eq cmp_fields1_eq val_fields_record record_head ip_field_def
       report_cmp_def Let_def)

lemma cmp_r2m_eq:
  assumes "live (cur_drcontext E) s" "src_ok sr ss sz" "file_tag_testb a \<longrightarrow> mem_ok a sz" "sz \<le> 8"
  shows "cmp_r2m E ins a sr ss sval sz s = Inr
     (let dest = mem_tags a sz s; src = reg_tags (cur_drcontext E) sr ss sz s in
      report_cmp ''mem reg'' ins sz (file_tag_testb a \<and> list_ex tag_count (dest @ src)) dest src
        (val_str sz (read_mem_val E a sz)) (val_str sz sval) s)"
  using assms
  by (simp add: cmp_r2m_def with_tc_live fill_reg_tags_eq fill_mem_tags_eq cmp_fields2_eq val_fields_record record_head
       ip_field_def report_cmp_def Let_def)

lemma cmp_i2m_eq:
  assumes "file_tag_testb a \<longrightarrow> mem_ok a sz" "sz \<le> 8"
  shows "cmp_i2m E ins a imm sz s = Inr
     (let dest = mem_tags a sz s in
      report_cmp ''mem imm'' ins sz (file_tag_testb a \<and> list_ex tag_count dest) dest []
        (val32_str sz (read_mem_val E a (if sz = 8 then 4 else sz))) (hexstr_u (ucast imm)) s)"
proof -
  have n: "cmp_record b k ip ds ss ''{}'' y = (cmp_record b k ip ds ss ''{}'' y)[19 := ''{}'']" for b k ip ds ss y
    by (auto simp: cmp_record_def map_upt_update cmp_field_def fun_eq_iff simp del: upt_Suc)
  have v: "(if sz = 8 \<or> sz = 4 then fs[19 := hexstr_u (take_bit 32 (read_mem_val E a 4))]
       else if sz = 2 then fs[19 := hexstr_u (take_bit 16 (read_mem_val E a 2))]
       else if sz = 1 then fs[19 := hexstr_u (take_bit 8 (read_mem_val E a 1))] else fs)
     = fs[19 := val32_str sz (read_mem_val E a (if sz = 8 then 4 else sz))]"
    if "fs = cmp_record b k ip ds ss ''{}'' ''{}''" for fs b k ip ds ss
    using n[of b k ip ds ss "''{}''"] that by (auto simp: val32_str_def val_str_def)
  show ?thesis using assms
    by (simp add: cmp_i2m_def fill_mem_tags_eq cmp_fields1_eq v[OF refl] record_vals record_head
         ip_field_def report_cmp_def Let_def)
qed

lemma cmp_m2m_eq:
  assumes "file_tag_testb d \<and> file_tag_testb a \<longrightarrow> mem_ok d sz \<and> mem_ok a sz" "sz \<le> 8"
  shows "cmp_m2m E ins d a sz s = Inr
     (let dest = mem_tags d sz s; src = mem_tags a sz s; w = (if sz = 8 then 4 else sz) in
      report_cmp ''mem mem'' ins sz
        (file_tag_testb d \<and> file_tag_testb a
         \<and> list_ex (\<lambda>t. label_numberOfOnes t (tables s) > 0
              \<and> ucast (label_numberOfOnes t (tables s)) \<le> (of_int (limit_offset s) :: UINT64)) (dest @ src)) dest src
        (val32_str sz (read_mem_val E d w)) (val32_str sz (read_mem_val E a w)) s)"
  using assms
  by (auto simp: cmp_m2m_def fill_mem_tags_eq cmp_fields2_eq val_fields_record record_head ip_field_def
       report_cmp_def Let_def)

section \<open>Load effective address\<close>

definition lea_field :: "string \<Rightarrow> string list \<Rightarrow> nat \<Rightarrow> string" where
  "lea_field bits ts k =
     (if k = 0 then bits
      else if k = 1 then ''baseidx''
      else if k - 2 < length ts then ts ! (k - 2)
      else ''{}'')"

definition lea_record :: "string \<Rightarrow> string list \<Rightarrow> string list" where
  "lea_record bits ts = map (lea_field bits ts) [0..<10]"

lemma lea_head: "(replicate 10 ''{}'')[0 := b, 1 := ''baseidx''] = lea_record b []"
  by (rule nth_equalityI) (auto simp: lea_record_def lea_field_def nth_list_update simp del: upt_Suc)

lemma lea_put:
  assumes "length ts < 8"
  shows "vec_set (length ts + 2) x (lea_record b ts) = Inr (lea_record b (ts @ [x]))"
proof -
  have "(lea_field b ts)(length ts + 2 := x) = lea_field b (ts @ [x])"
    by (auto simp: lea_field_def fun_eq_iff nth_append)
  then show ?thesis using assms vec_set_map_upt[of "length ts + 2" 10 x "lea_field b ts"] by (simp add: lea_record_def)
qed

lemma lea_fields_eq:
  assumes "length ts = sz" "sz \<le> 8"
  shows "lea_fields sz ts s = Inr (lea_record (int2str (int sz * 8)) (map (\<lambda>t. tag_sprint t (tables s)) ts))"
proof -
  let ?pr = "\<lambda>t. tag_sprint t (tables s)"
  define P where "P = (\<lambda>j fs. fs = lea_record (int2str (int sz * 8)) (map ?pr (take j ts)))"
  have "\<exists>fs. lea_fields sz ts s = Inr fs \<and> P sz fs"
    unfolding lea_fields_def
  proof (rule for_upto_total)
    show "P 0 ((replicate 10 ''{}'')[0 := int2str (int sz * 8), 1 := ''baseidx''])"
      unfolding P_def lea_head by simp
    fix j fs assume j: "j < sz" and fs: "P j fs"
    have len: "length (map ?pr (take j ts)) = j" "length (map ?pr (take j ts)) < 8" using j assms by auto
    have "map ?pr (take j ts) @ [?pr (ts ! j)] = map ?pr (take (Suc j) ts)"
      using j assms by (simp add: take_Suc_conv_app_nth)
    with lea_put[OF len(2), of "?pr (ts ! j)"] len(1) fs
    have "vec_set (j + 2) (?pr (ts ! j)) fs = Inr (lea_record (int2str (int sz * 8)) (map ?pr (take (Suc j) ts)))"
      by (simp add: P_def)
    then show "\<exists>fs'. rbind (vec_get j ts) (\<lambda>t. vec_set (j + 2) (?pr t) fs) = Inr fs' \<and> P (Suc j) fs'"
      using j assms(1) by (simp add: P_def vec_get_def)
  qed
  then show ?thesis using assms(1) by (auto simp: P_def)
qed

text \<open>A record when the index is tainted, then the union of base and index.\<close>

definition report_lea :: "UINT64 \<Rightarrow> nat \<Rightarrow> tag_t list \<Rightarrow> 'a engine_scheme \<Rightarrow> 'a engine_scheme" where
  "report_lea ins sz idx s =
     (if list_ex tag_count idx then
        emit_lea (lea_record (int2str (int sz * 8)) (map (\<lambda>t. tag_sprint t (tables s)) idx)) ins idx s
      else s)"

lemma same_taint_report_lea [simp]: "same_taint s (report_lea ins sz idx s)"
  by (simp add: report_lea_def)

lemma lea_prop_eq:
  assumes "live (cur_drcontext E) s" "src_ok ir is n" "n \<le> 8"
  shows "lea_prop E ins dr br bs ir is n s =
     for_upto n (\<lambda>i s. rbind (gpr_rd (cur_drcontext E) br (bs + i) s) (\<lambda>b.
        rbind (gpr_rd (cur_drcontext E) ir (is + i) s) (\<lambda>x.
        rbind (combine_tags b x s) (\<lambda>(u, s1). gpr_wr (cur_drcontext E) dr i u s1))))
       (report_lea ins n (reg_tags (cur_drcontext E) ir is n s) s)"
  using assms by (simp add: lea_prop_def with_tc_live fill_reg_tags_eq lea_fields_eq report_lea_def)

lemma lea_union_refines:
  assumes "dst_ok dr 0 n" "src_ok br bs n" "src_ok ir is n"
  shows "refines dc (for_upto n (\<lambda>i s. rbind (gpr_rd dc br (bs + i) s) (\<lambda>b. rbind (gpr_rd dc ir (is + i) s) (\<lambda>x.
        rbind (combine_tags b x s) (\<lambda>(u, s1). gpr_wr dc dr i u s1))))) n
     (union_spec dc n (reg_cells dr 0) (reg_cells br bs) (reg_cells ir is))"
  using refines_union_loop[of n "reg_cells br bs" "reg_cells ir is" "reg_cells dr 0" dc] assms
  by (simp add: src_ok_def dst_ok_def)

end
