(* ===== verification/Records.thy ===== *)
theory Records
  imports Refine_Records
begin

text \<open>
  What may leave the engine: the records handed to sinks and the lines of \<^verbatim>\<open>cmp.out\<close> and \<^verbatim>\<open>lea.out\<close> have the
  documented form, name at least one offset, and name only offsets that some register or memory byte
  carries when they are emitted.
\<close>

section \<open>Offsets of a state\<close>

text \<open>All the offsets that occur anywhere in a taint state.\<close>

definition all_offsets :: "taint \<Rightarrow> nat set" where
  "all_offsets T = (\<Union>dc row b. treg T dc row b) \<union> (\<Union>a. tmem T a)"

lemma tget_all: "tget dc c T \<subseteq> all_offsets T"
  by (cases c) (auto simp: all_offsets_def)

lemma in_all_offsets: "treg T dc row b \<subseteq> all_offsets T" "tmem T a \<subseteq> all_offsets T"
  unfolding all_offsets_def by blast+

lemma all_offsets_le: "all_offsets T \<subseteq> X \<longleftrightarrow> (\<forall>dc row b. treg T dc row b \<subseteq> X) \<and> (\<forall>a. tmem T a \<subseteq> X)"
  unfolding all_offsets_def by blast

section \<open>Genuine records\<close>

text \<open>At most eight printed sets of offsets from P.\<close>

definition named_sets :: "nat set \<Rightarrow> nat set list \<Rightarrow> bool" where
  "named_sets P Xs \<longleftrightarrow> length Xs \<le> 8 \<and> (\<forall>X \<in> set Xs. finite X \<and> X \<subseteq> P)"

definition cmp_genuine :: "nat set \<Rightarrow> string list \<Rightarrow> bool" where
  "cmp_genuine P fs \<longleftrightarrow> (\<exists>b k ip D S dv sv. fs = cmp_record b k ip (map print_set D) (map print_set S) dv sv
     \<and> named_sets P D \<and> named_sets P S \<and> (\<exists>X \<in> set (D @ S). X \<noteq> {}))"

definition lea_genuine :: "nat set \<Rightarrow> string list \<Rightarrow> bool" where
  "lea_genuine P fs \<longleftrightarrow> (\<exists>b D. fs = lea_record b (map print_set D) \<and> named_sets P D \<and> (\<exists>X \<in> set D. X \<noteq> {}))"

definition cmp_line :: "nat set \<Rightarrow> int \<Rightarrow> string \<Rightarrow> bool" where
  "cmp_line P lim l \<longleftrightarrow> (\<exists>fs. cmp_genuine P fs \<and> \<not> field_limit_hit [3..<19] lim fs \<and> l = record_line 21 fs)"

definition lea_line :: "nat set \<Rightarrow> int \<Rightarrow> string \<Rightarrow> bool" where
  "lea_line P lim l \<longleftrightarrow> (\<exists>fs. lea_genuine P fs \<and> \<not> field_limit_hit [2..<10] lim fs \<and> l = record_line 10 fs)"

text \<open>Sinks are called for comparisons and address computations only.\<close>

fun event_genuine :: "nat set \<Rightarrow> sink_event \<Rightarrow> bool" where
  "event_genuine P (OpcodeSink cb cls pc pl) =
     (cls = CMP \<and> cmp_genuine P (legacy_fields pl) \<or> cls = LEA \<and> lea_genuine P (legacy_fields pl))"
| "event_genuine P _ = True"

text \<open>A file that has grown by lines that satisfy Q, or is closed; and the outputs of a step.\<close>

definition appended :: "(string \<Rightarrow> bool) \<Rightarrow> string option \<Rightarrow> string option \<Rightarrow> bool" where
  "appended Q f f' \<longleftrightarrow> (\<exists>ls. list_all Q ls \<and> f' = map_option (\<lambda>c. c @ concat ls) f)"

definition logs :: "nat set \<Rightarrow> 'a engine_scheme \<Rightarrow> 'a engine_scheme \<Rightarrow> bool" where
  "logs P s s' \<longleftrightarrow> limit_offset s' = limit_offset s
     \<and> appended (cmp_line P (limit_offset s)) (out_file s) (out_file s')
     \<and> appended (lea_line P (limit_offset s)) (out_lea_file s) (out_lea_file s')
     \<and> (\<exists>es. list_all (event_genuine P) es \<and> sink_log s' = sink_log s @ es)"

section \<open>Order\<close>

lemma named_sets_mono: "named_sets P Xs \<Longrightarrow> P \<subseteq> P' \<Longrightarrow> named_sets P' Xs"
  by (auto simp: named_sets_def)

lemma genuine_mono:
  assumes "P \<subseteq> P'"
  shows "cmp_genuine P fs \<Longrightarrow> cmp_genuine P' fs" "lea_genuine P fs \<Longrightarrow> lea_genuine P' fs"
    "cmp_line P lim l \<Longrightarrow> cmp_line P' lim l" "lea_line P lim l \<Longrightarrow> lea_line P' lim l"
    "event_genuine P e \<Longrightarrow> event_genuine P' e"
proof -
  show c: "cmp_genuine P fs \<Longrightarrow> cmp_genuine P' fs" and l: "lea_genuine P fs \<Longrightarrow> lea_genuine P' fs" for fs
    using named_sets_mono[OF _ assms] unfolding cmp_genuine_def lea_genuine_def by blast+
  show "cmp_line P lim l \<Longrightarrow> cmp_line P' lim l" "lea_line P lim l \<Longrightarrow> lea_line P' lim l"
    using c l unfolding cmp_line_def lea_line_def by blast+
  show "event_genuine P e \<Longrightarrow> event_genuine P' e" using c l by (cases e) auto
qed

lemma appended_mono: "(\<And>l. Q l \<Longrightarrow> Q' l) \<Longrightarrow> appended Q f f' \<Longrightarrow> appended Q' f f'"
  unfolding appended_def list_all_iff by blast

lemma appended_refl: "appended Q f f"
  unfolding appended_def by (rule exI[of _ "[]"]) (simp add: option.map_ident)

lemma appended_trans: "appended Q f g \<Longrightarrow> appended Q g h \<Longrightarrow> appended Q f h"
proof -
  assume "appended Q f g" "appended Q g h"
  then obtain xs ys where "list_all Q xs" "g = map_option (\<lambda>c. c @ concat xs) f" "list_all Q ys" "h = map_option (\<lambda>c. c @ concat ys) g"
    by (auto simp: appended_def)
  then show ?thesis unfolding appended_def by (intro exI[of _ "xs @ ys"]) (cases f; simp)
qed

lemma logs_same: "outputs s' = outputs s \<Longrightarrow> logs P s s'"
  by (simp add: logs_def outputs_def appended_refl)

lemma logs_trans: "logs P s s1 \<Longrightarrow> logs P s1 s2 \<Longrightarrow> logs P s s2"
proof -
  assume l: "logs P s s1" "logs P s1 s2"
  then obtain xs ys where "list_all (event_genuine P) (xs @ ys)" "sink_log s2 = sink_log s @ xs @ ys" by (auto simp: logs_def)
  then have "\<exists>es. list_all (event_genuine P) es \<and> sink_log s2 = sink_log s @ es" by blast
  with l show ?thesis unfolding logs_def using appended_trans by metis
qed

lemma logs_mono:
  assumes "logs P s s'" "P \<subseteq> P'"
  shows "logs P' s s'"
proof -
  note m = genuine_mono[OF assms(2)]
  have l: "limit_offset s' = limit_offset s" "appended (cmp_line P (limit_offset s)) (out_file s) (out_file s')"
    "appended (lea_line P (limit_offset s)) (out_lea_file s) (out_lea_file s')" using assms(1) by (simp_all add: logs_def)
  obtain es where es: "list_all (event_genuine P) es" "sink_log s' = sink_log s @ es" using assms(1) by (auto simp: logs_def)
  have "list_all (event_genuine P') es" using es(1) m(5) by (simp add: list_all_iff)
  then show ?thesis unfolding logs_def
    using l(1) appended_mono[OF m(3) l(2)] appended_mono[OF m(4) l(3)] es(2) by (intro conjI exI[of _ es])
qed

text \<open>A file that consists of such lines only, and all outputs together.\<close>

definition all_lines :: "(string \<Rightarrow> bool) \<Rightarrow> string option \<Rightarrow> bool" where
  "all_lines Q f = (case f of None \<Rightarrow> True | Some content \<Rightarrow> \<exists>ls. list_all Q ls \<and> content = concat ls)"

definition records_ok :: "nat set \<Rightarrow> 'a engine_scheme \<Rightarrow> bool" where
  "records_ok P s \<longleftrightarrow> all_lines (cmp_line P (limit_offset s)) (out_file s) \<and> all_lines (lea_line P (limit_offset s)) (out_lea_file s)
     \<and> list_all (event_genuine P) (sink_log s)"

lemma all_lines_fresh: "f = None \<or> f = Some [] \<Longrightarrow> all_lines Q f"
  by (auto simp: all_lines_def intro!: exI[of _ "[] :: string list"])

lemma all_lines_mono: "all_lines Q f \<Longrightarrow> (\<And>l. Q l \<Longrightarrow> Q' l) \<Longrightarrow> all_lines Q' f"
  unfolding all_lines_def list_all_iff by (cases f) auto

lemma all_lines_appended: "all_lines Q f \<Longrightarrow> appended Q f f' \<Longrightarrow> all_lines Q f'"
proof (cases f)
  case (Some content)
  assume "all_lines Q f" "appended Q f f'"
  then obtain ls ls' where "list_all Q (ls @ ls')" "f' = Some (concat (ls @ ls'))"
    using Some by (auto simp: all_lines_def appended_def)
  then show ?thesis by (auto simp: all_lines_def intro!: exI[of _ "ls @ ls'"])
qed (auto simp: appended_def all_lines_def)

lemma records_ok_mono: "records_ok P s \<Longrightarrow> P \<subseteq> P' \<Longrightarrow> records_ok P' s"
  using genuine_mono[of P P'] all_lines_mono unfolding records_ok_def list_all_iff by metis

lemma records_ok_logs: "records_ok P s \<Longrightarrow> logs P s s' \<Longrightarrow> records_ok P s'"
  using all_lines_appended unfolding records_ok_def logs_def list_all_append[symmetric]
  by (metis list_all_append)

section \<open>Emitting\<close>

lemma appended_line: "Q l \<Longrightarrow> appended Q (Some c) (Some (c @ l))"
  unfolding appended_def by (rule exI[of _ "[l]"]) simp

lemma emit_logs:
  "cmp_genuine P fs \<Longrightarrow> logs P s (emit_cmp fs ins d t s)"
  "lea_genuine P fs \<Longrightarrow> logs P s (emit_lea fs ins t s)"
proof -
  have d: "logs P s (dispatch_sink cls ins pl s)" if "\<And>cb. event_genuine P (OpcodeSink cb cls ins pl)" for cls pl
    using that by (simp add: logs_def dispatch_sink_def appended_refl list_all_iff del: event_genuine.simps)
  have c: "logs P s (legacy_write_cmp fs s)" if g: "cmp_genuine P fs"
  proof -
    have "cmp_line P (limit_offset s) (record_line 21 fs)" if "\<not> field_limit_hit [3..<19] (limit_offset s) fs"
      using g that unfolding cmp_line_def by blast
    from appended_line[of "cmp_line P (limit_offset s)", OF this]
    show ?thesis by (simp add: logs_def legacy_write_cmp_def appended_refl split: option.split)
  qed
  have l: "logs P s (legacy_write_lea fs s)" if g: "lea_genuine P fs"
  proof -
    have "lea_line P (limit_offset s) (record_line 10 fs)" if "\<not> field_limit_hit [2..<10] (limit_offset s) fs"
      using g that unfolding lea_line_def by blast
    from appended_line[of "lea_line P (limit_offset s)", OF this]
    show ?thesis by (simp add: logs_def legacy_write_lea_def appended_refl split: option.split)
  qed
  show "cmp_genuine P fs \<Longrightarrow> logs P s (emit_cmp fs ins d t s)" using c d[of CMP] by (simp add: emit_cmp_def)
  show "lea_genuine P fs \<Longrightarrow> logs P s (emit_lea fs ins t s)" using l d[of LEA] by (simp add: emit_lea_def)
qed

lemma pc_range_logs: "logs P s (dispatch_pc_range_sink pc s)"
  by (auto simp: logs_def dispatch_pc_range_sink_def appended_refl list_all_iff)

text \<open>The labels of a span print as sets of offsets of the state.\<close>

definition span_ok :: "tag_t list \<Rightarrow> 'a engine_scheme \<Rightarrow> bool" where
  "span_ok ts s \<longleftrightarrow> length ts \<le> 8 \<and> (\<forall>t \<in> set ts. valid_tag (tables s) t \<and> label_set (tables s) t \<subseteq> all_offsets (taint_of s))"

lemma reg_span_ok:
  assumes "engine_ok s" "live dc s" "src_ok row start sz" "sz \<le> 8"
  shows "span_ok (reg_tags dc row start sz s) s"
proof -
  have "valid_tag (tables s) t \<and> label_set (tables s) t \<subseteq> all_offsets (taint_of s)" if t: "t \<in> set (reg_tags dc row start sz s)" for t
  proof -
    obtain i where "i < sz" "t = reg_tags dc row start sz s ! i"
      using t fill_reg_tags_eq(2)[OF assms(2,3)] unfolding in_set_conv_nth by auto
    then show ?thesis using reg_tags_sets[OF assms(1,2), of i sz row start] in_all_offsets(1) by simp
  qed
  then show ?thesis using fill_reg_tags_eq(2)[OF assms(2,3)] assms(4) by (simp add: span_ok_def)
qed

lemma mem_span_ok:
  assumes "engine_ok s" "sz \<le> 8"
  shows "span_ok (mem_tags a sz s) s"
proof -
  have "valid_tag (tables s) t \<and> label_set (tables s) t \<subseteq> all_offsets (taint_of s)" if t: "t \<in> set (mem_tags a sz s)" for t
  proof -
    obtain i where "i < sz" "t = mem_tags a sz s ! i" using t by (auto simp: mem_tags_def)
    then show ?thesis using mem_tags_sets[OF assms(1), of i sz a] in_all_offsets(2) by simp
  qed
  then show ?thesis using assms(2) by (simp add: span_ok_def mem_tags_def)
qed

lemma finite_label_set:
  assumes "tables_ok T" "valid_tag T t"
  shows "finite (label_set T t)"
proof -
  have "ewah_inv (g_sets T ! unat t)" by (rule tables_ok_inv[OF assms])
  then have "set (ewah_ones (g_sets T ! unat t)) = label_set T t"
    using assms(2) set_ewah_ones by (simp add: label_set_def ewah_inv_def)
  then show ?thesis by (metis List.finite_set)
qed

lemma span_named:
  assumes "engine_ok s" "span_ok ts s"
  defines "D \<equiv> map (label_set (tables s)) ts"
  shows "map (\<lambda>t. tag_sprint t (tables s)) ts = map print_set D" "named_sets (all_offsets (taint_of s)) D"
    "list_ex tag_count ts \<Longrightarrow> \<exists>X \<in> set D. X \<noteq> {}"
proof -
  have T: "tables_ok (tables s)" using assms(1) by (simp add: engine_ok_def)
  have v: "valid_tag (tables s) t" "label_set (tables s) t \<subseteq> all_offsets (taint_of s)" if "t \<in> set ts" for t
    using that assms(2) by (auto simp: span_ok_def)
  show "map (\<lambda>t. tag_sprint t (tables s)) ts = map print_set D" using tag_sprint_set[OF T v(1)] by (simp add: D_def)
  show "named_sets (all_offsets (taint_of s)) D"
    using assms(2) v(2) finite_label_set[OF T v(1)] by (auto simp: D_def named_sets_def span_ok_def)
  show "list_ex tag_count ts \<Longrightarrow> \<exists>X \<in> set D. X \<noteq> {}" using tag_count_set[OF T v(1)] by (auto simp: D_def list_ex_iff)
qed

lemma report_cmp_logs:
  assumes "engine_ok s" "span_ok dest s" "span_ok src s" "fl \<Longrightarrow> list_ex tag_count (dest @ src)"
  shows "logs (all_offsets (taint_of s)) s (report_cmp kind ins sz fl dest src dv sv s)"
proof -
  note d = span_named[OF assms(1,2)] and t = span_named[OF assms(1,3)]
  let ?D = "map (label_set (tables s)) dest" and ?S = "map (label_set (tables s)) src"
  have g: "cmp_genuine (all_offsets (taint_of s)) (cmp_record b kind ip (map print_set ?D) (map print_set ?S) dv sv)"
    if "\<exists>X \<in> set (?D @ ?S). X \<noteq> {}" for b ip
    unfolding cmp_genuine_def using d(2) t(2) that by blast
  have "\<exists>X \<in> set (?D @ ?S). X \<noteq> {}" if f: fl
  proof (cases "list_ex tag_count dest")
    case True
    then show ?thesis using d(3) by (auto simp: bex_Un)
  next
    case False
    then show ?thesis using t(3) assms(4)[OF f] by (auto simp: bex_Un)
  qed
  then show ?thesis using emit_logs(1)[OF g, where s = s] logs_same[of s s] unfolding report_cmp_def d(1) t(1) by simp
qed

lemma report_lea_logs:
  assumes "engine_ok s" "span_ok idx s"
  shows "logs (all_offsets (taint_of s)) s (report_lea ins sz idx s)"
proof -
  note d = span_named[OF assms]
  let ?D = "map (label_set (tables s)) idx"
  have g: "lea_genuine (all_offsets (taint_of s)) (lea_record b (map print_set ?D))" if "\<exists>X \<in> set ?D. X \<noteq> {}" for b
    unfolding lea_genuine_def using d(2) that by blast
  show ?thesis using emit_logs(2)[OF g[OF d(3)], where s = s] logs_same[of s s] unfolding report_lea_def d(1) by simp
qed

text \<open>The test of the string comparison: a label with a positive number of offsets is not empty.\<close>

lemma counted_tainted:
  assumes "engine_ok s" "span_ok ts s" "list_ex (\<lambda>t. label_numberOfOnes t (tables s) > 0 \<and> Q t) ts"
  shows "list_ex tag_count ts"
proof -
  have T: "tables_ok (tables s)" using assms(1) by (simp add: engine_ok_def)
  obtain t where t: "t \<in> set ts" "label_numberOfOnes t (tables s) > 0" using assms(3) by (auto simp: list_ex_iff)
  then have v: "valid_tag (tables s) t" using assms(2) by (auto simp: span_ok_def)
  have "label_set (tables s) t \<noteq> {}" using tag_walk_ascending[OF T v] t(2) by fastforce
  with t(1) tag_count_set[OF T v] show ?thesis by (auto simp: list_ex_iff)
qed

end
