(* ===== verification/Soundness.thy ===== *)
theory Soundness
  imports Records
begin

text \<open>
  Soundness of propagation: every allowed clean call, whatever the thread, implements \<open>spec_call\<close> on
  the offset sets, keeps the invariant of the engine and does not fault; so does every sequence of
  clean calls of interleaved threads.
\<close>

section \<open>The specification makes up no offsets\<close>

lemma all_offsets_tset: "X \<subseteq> all_offsets T0 \<Longrightarrow> all_offsets T \<subseteq> all_offsets T0 \<Longrightarrow> all_offsets (tset dc c X T) \<subseteq> all_offsets T0"
  unfolding all_offsets_le by (cases c) simp_all

lemma all_offsets_assign:
  assumes "\<And>i. v i \<subseteq> all_offsets T"
  shows "all_offsets (assign dc n y v T) \<subseteq> all_offsets T"
  by (induction n) (simp_all add: assign_Suc all_offsets_tset assms)

lemma all_offsets_assign2:
  assumes "\<And>i. v i \<subseteq> all_offsets T" "\<And>i. w i \<subseteq> all_offsets T"
  shows "all_offsets (assign2 dc n y v z w T) \<subseteq> all_offsets T"
  by (induction n) (simp_all add: assign2_Suc all_offsets_tset assms, simp add: assign2_def)

lemmas spec_defs = copy_spec_def union_spec_def both_spec_def swap_spec_def smear_spec_def extend_spec_def ternary_spec_def

lemma spec_call_offsets: "all_offsets (spec_call E dc c T) \<subseteq> all_offsets T"
  by (cases c)
     (simp_all del: tget.simps add: spec_defs tget_all UN_subset_iff all_offsets_assign all_offsets_assign2)

lemma treg_spec_call_other: "dc' \<noteq> dc \<Longrightarrow> treg (spec_call E dc c T) dc' = treg T dc'"
  by (cases c) (auto simp: spec_defs treg_assign_other_thread treg_assign2_other_thread)

section \<open>One clean call\<close>

text \<open>How many fresh labels a call can use up.\<close>

primrec call_cost :: "clean_call \<Rightarrow> nat" where
  "call_cost (Call_r2r_xfer dr ds sr ss n) = 0"
| "call_cost (Call_r_clr r st n) = 0"
| "call_cost (Call_mov_m2r r st a n) = 0"
| "call_cost (Call_mov_r2m a r st n) = 0"
| "call_cost (Call_mov_clr_mem a n) = 0"
| "call_cost (Call_m2m_xfer d a n) = 0"
| "call_cost (Call_ternary_r2r r st n) = 2 * n"
| "call_cost (Call_ternary_m2r a n) = 2 * n"
| "call_cost (Call_xchg_r2r ar as br bs n) = 0"
| "call_cost (Call_xchg_m2r a r st n) = 0"
| "call_cost (Call_cmov_r2r p dr ds sr ss n) = 0"
| "call_cost (Call_cmov_m2r p r st a n) = 0"
| "call_cost (Call_binary_r2r dr ds sr ss n) = n"
| "call_cost (Call_binary_m2r r st a n) = n"
| "call_cost (Call_binary_r2m a r st n) = n"
| "call_cost (Call_movzx_r2r dr sr ss sn dn) = 0"
| "call_cost (Call_movzx_m2r dr a sn dn) = 0"
| "call_cost (Call_movsx_r2r dr sr ss sn dn) = 0"
| "call_cost (Call_movsx_m2r dr a sn dn) = 0"
| "call_cost (Call_lea_prop ins dr br bs ir is n) = n"
| "call_cost (Call_shift_r r st n) = n"
| "call_cost (Call_shift_m a n) = n"
| "call_cost (Call_shld_r2r dr ds sr ss n) = n + n"
| "call_cost (Call_bswap_reg r st n) = 0"
| "call_cost (Call_movbe_m2r r st a n) = 0"
| "call_cost (Call_movbe_r2m a r st n) = 0"
| "call_cost (Call_cmpxchg_mem a sr ss ar as n) = n * 2"
| "call_cost (Call_cmpxchg_reg dr ds sr ss ar as n) = n * 2"
| "call_cost (Call_xadd_r2r dr ds sr ss n) = n"
| "call_cost (Call_xadd_m2r a r st n) = n"
| "call_cost (Call_cmp_r2r ins dr ds dv sr ss sv n) = 0"
| "call_cost (Call_cmp_m2r ins dr ds dv a n) = 0"
| "call_cost (Call_cmp_i2r ins dr ds dv imm n) = 0"
| "call_cost (Call_cmp_r2m ins a sr ss sv n) = 0"
| "call_cost (Call_cmp_i2m ins a imm n) = 0"
| "call_cost (Call_cmp_m2m ins d a n) = 0"
| "call_cost (Call_pc_range_sink pc) = 0"

text \<open>The extension of the engine, with the state of the other components, and the TLS slot stay as they are.\<close>

definition rest :: "'a engine_scheme \<Rightarrow> int \<times> pending_func_sink list \<times> 'a" where
  "rest s = (tls_idx s, g_pending_func_sinks s, engine.more s)"

definition sound_step :: "nat \<Rightarrow> ('a engine_scheme \<Rightarrow> 'a engine_scheme res) \<Rightarrow> nat \<Rightarrow> (taint \<Rightarrow> taint) \<Rightarrow> bool" where
  "sound_step dc f c g \<longleftrightarrow>
     (\<forall>s k. engine_ok s \<and> live dc s \<and> room (c + k) (tables s) \<longrightarrow>
        (\<exists>s'. f s = Inr s' \<and> engine_ok s' \<and> (\<forall>dc'. live dc' s' = live dc' s) \<and> rest s' = rest s \<and> room k (tables s')
              \<and> taint_of s' = g (taint_of s) \<and> logs (all_offsets (taint_of s)) s s'
              \<and> extends (tables s) (tables s')))"

lemma live_side: "side s' = side s \<Longrightarrow> live dc s' = live dc s"
  by (auto simp: side_def live_def libdft_get_thread_ctx_def domIff set_eq_iff)

lemma rest_side: "side s' = side s \<Longrightarrow> rest s' = rest s"
  by (simp add: side_def rest_def)

lemma rest_same_taint: "same_taint s s' \<Longrightarrow> rest s' = rest s"
  by (simp add: same_taint_def rest_def)

lemma refines_sound: "refines dc f c g \<Longrightarrow> sound_step dc f c g"
  unfolding refines_def sound_step_def using live_side rest_side logs_same[OF side_outputs] by blast

lemma same_taint_sound:
  assumes "\<And>s. engine_ok s \<Longrightarrow> live dc s \<Longrightarrow> \<exists>s'. f s = Inr s' \<and> same_taint s s' \<and> logs (all_offsets (taint_of s)) s s'"
  shows "sound_step dc f 0 (\<lambda>T. T)"
  unfolding sound_step_def
proof (intro allI impI)
  fix s :: "'a engine_scheme" and k
  assume s: "engine_ok s \<and> live dc s \<and> room (0 + k) (tables s)"
  then obtain s' where "f s = Inr s'" "same_taint s s'" "logs (all_offsets (taint_of s)) s s'" using assms by blast
  with s same_taintD[OF this(2)] rest_same_taint[OF this(2)]
  show "\<exists>s'. f s = Inr s' \<and> engine_ok s' \<and> (\<forall>dc'. live dc' s' = live dc' s) \<and> rest s' = rest s \<and> room k (tables s')
     \<and> taint_of s' = taint_of s \<and> logs (all_offsets (taint_of s)) s s' \<and> extends (tables s) (tables s')"
    using labels.grows_refl[of "tables s"] by auto
qed

lemma report_then_sound:
  assumes "refines dc f c g"
    and "\<And>s. engine_ok s \<Longrightarrow> live dc s \<Longrightarrow> \<exists>s'. h s = f s' \<and> same_taint s s' \<and> logs (all_offsets (taint_of s)) s s'"
  shows "sound_step dc h c g"
  unfolding sound_step_def
proof (intro allI impI)
  fix s :: "'a engine_scheme" and k
  assume s: "engine_ok s \<and> live dc s \<and> room (c + k) (tables s)"
  then obtain s1 where 1: "h s = f s1" "same_taint s s1" "logs (all_offsets (taint_of s)) s s1" using assms(2) by blast
  note eq = same_taintD[OF 1(2)]
  obtain s' where "f s1 = Inr s'" "engine_ok s'" "live dc s'" "room k (tables s')" "side s' = side s1"
    "taint_of s' = g (taint_of s1)" "extends (tables s1) (tables s')"
    using refinesD[OF assms(1), of s1 k] s eq by auto
  then show "\<exists>s'. h s = Inr s' \<and> engine_ok s' \<and> (\<forall>dc'. live dc' s' = live dc' s) \<and> rest s' = rest s \<and> room k (tables s')
     \<and> taint_of s' = g (taint_of s) \<and> logs (all_offsets (taint_of s)) s s' \<and> extends (tables s) (tables s')"
    using 1(1) eq live_side[of s' s1] rest_side[of s' s1] rest_same_taint[OF 1(2)]
      logs_trans[OF 1(3) logs_same[OF side_outputs]] by auto
qed

lemma lea_prop_sound:
  assumes "dst_ok dr 0 n" "src_ok br bs n" "src_ok ir is n" "n \<le> 8"
  shows "sound_step (cur_drcontext E) (lea_prop E ins dr br bs ir is n) n
     (union_spec (cur_drcontext E) n (reg_cells dr 0) (reg_cells br bs) (reg_cells ir is))"
proof (rule report_then_sound[OF lea_union_refines[OF assms(1-3)]])
  fix s :: "'a engine_scheme"
  assume s: "engine_ok s" "live (cur_drcontext E) s"
  from lea_prop_eq[OF s(2) assms(3,4)] show "\<exists>s'. lea_prop E ins dr br bs ir is n s =
      for_upto n (\<lambda>i s. rbind (gpr_rd (cur_drcontext E) br (bs + i) s) (\<lambda>b.
        rbind (gpr_rd (cur_drcontext E) ir (is + i) s) (\<lambda>x.
        rbind (combine_tags b x s) (\<lambda>(u, s1). gpr_wr (cur_drcontext E) dr i u s1)))) s' \<and> same_taint s s'
        \<and> logs (all_offsets (taint_of s)) s s'"
    using same_taint_report_lea report_lea_logs[OF s(1) reg_span_ok[OF s assms(3,4)]] by blast
qed

text \<open>The comparisons change nothing but the outputs, and report what their operands carry.\<close>

lemma report_sound:
  assumes "\<And>s. live dc s \<Longrightarrow> f s = Inr (report_cmp kind ins sz (fl s) (dest s) (src s) (dv s) (sv s) s)"
    and "\<And>s. engine_ok s \<Longrightarrow> live dc s \<Longrightarrow> span_ok (dest s) s" "\<And>s. engine_ok s \<Longrightarrow> live dc s \<Longrightarrow> span_ok (src s) s"
    and "\<And>s. engine_ok s \<Longrightarrow> live dc s \<Longrightarrow> fl s \<Longrightarrow> list_ex tag_count (dest s @ src s)"
  shows "sound_step dc f 0 (\<lambda>T. T)"
proof (rule same_taint_sound)
  fix s :: "'a engine_scheme"
  assume s: "engine_ok s" "live dc s"
  show "\<exists>s'. f s = Inr s' \<and> same_taint s s' \<and> logs (all_offsets (taint_of s)) s s'"
    using assms(1)[OF s(2)] report_cmp_logs[OF s(1) assms(2-4)[OF s]] s by auto
qed

lemma no_span [simp]: "span_ok [] s"
  by (simp add: span_ok_def)

lemma cmp_reg_sound:
  assumes "src_ok dr ds n" "n \<le> 8"
  shows "src_ok sr ss n \<Longrightarrow> sound_step (cur_drcontext E) (cmp_r2r E ins dr ds dv sr ss sv n) 0 (\<lambda>T. T)"
    "(file_tag_testb a \<longrightarrow> mem_ok a n) \<Longrightarrow> sound_step (cur_drcontext E) (cmp_m2r E ins dr ds dv a n) 0 (\<lambda>T. T)"
    "sound_step (cur_drcontext E) (cmp_i2r E ins dr ds dv imm n) 0 (\<lambda>T. T)"
proof -
  note sp = reg_span_ok[OF _ _ _ assms(2)] mem_span_ok[OF _ assms(2)]
  show "src_ok sr ss n \<Longrightarrow> sound_step (cur_drcontext E) (cmp_r2r E ins dr ds dv sr ss sv n) 0 (\<lambda>T. T)"
    by (rule report_sound, rule cmp_r2r_eq[unfolded Let_def]) (simp_all add: sp assms)
  show "(file_tag_testb a \<longrightarrow> mem_ok a n) \<Longrightarrow> sound_step (cur_drcontext E) (cmp_m2r E ins dr ds dv a n) 0 (\<lambda>T. T)"
    by (rule report_sound, rule cmp_m2r_eq[unfolded Let_def]) (simp_all add: sp assms)
  show "sound_step (cur_drcontext E) (cmp_i2r E ins dr ds dv imm n) 0 (\<lambda>T. T)"
    by (rule report_sound, rule cmp_i2r_eq[unfolded Let_def]) (simp_all add: sp assms)
qed

lemma cmp_mem_sound:
  assumes "file_tag_testb a \<longrightarrow> mem_ok a n" "n \<le> 8"
  shows "src_ok sr ss n \<Longrightarrow> sound_step (cur_drcontext E) (cmp_r2m E ins a sr ss sv n) 0 (\<lambda>T. T)"
    "sound_step dc (cmp_i2m E ins a imm n) 0 (\<lambda>T. T)"
proof -
  note sp = reg_span_ok[OF _ _ _ assms(2)] mem_span_ok[OF _ assms(2)]
  show "src_ok sr ss n \<Longrightarrow> sound_step (cur_drcontext E) (cmp_r2m E ins a sr ss sv n) 0 (\<lambda>T. T)"
    by (rule report_sound, rule cmp_r2m_eq[unfolded Let_def]) (simp_all add: sp assms)
  show "sound_step dc (cmp_i2m E ins a imm n) 0 (\<lambda>T. T)"
    by (rule report_sound, rule cmp_i2m_eq[unfolded Let_def]) (simp_all add: sp assms)
qed

lemma cmp_m2m_sound:
  assumes "file_tag_testb d \<and> file_tag_testb a \<longrightarrow> mem_ok d n \<and> mem_ok a n" "n \<le> 8"
  shows "sound_step dc (cmp_m2m E ins d a n) 0 (\<lambda>T. T)"
proof (rule report_sound, rule cmp_m2m_eq[unfolded Let_def, OF assms])
  note sp = mem_span_ok[OF _ assms(2)]
  fix s :: "'a engine_scheme"
  assume s: "engine_ok s"
  show d: "span_ok (mem_tags d n s) s" and a: "span_ok (mem_tags a n s) s" using sp[OF s] by simp_all
  show "list_ex tag_count (mem_tags d n s @ mem_tags a n s)"
    if "file_tag_testb d \<and> file_tag_testb a \<and> list_ex (\<lambda>t. label_numberOfOnes t (tables s) > 0
        \<and> ucast (label_numberOfOnes t (tables s)) \<le> (of_int (limit_offset s) :: UINT64)) (mem_tags d n s @ mem_tags a n s)"
  proof -
    let ?Q = "\<lambda>t. ucast (label_numberOfOnes t (tables s)) \<le> (of_int (limit_offset s) :: UINT64)"
    show ?thesis using counted_tainted[OF s d, of ?Q] counted_tainted[OF s a, of ?Q] that by auto
  qed
qed

lemmas call_defs = run_call.simps call_cost.simps spec_call.simps call_ok.simps

lemma call_sound:
  assumes "call_ok E c"
  shows "sound_step (cur_drcontext E) (run_call E c) (call_cost c) (spec_call E (cur_drcontext E) c)"
proof (cases c)
  case (Call_r2r_xfer dr ds sr ss n)
  show ?thesis using assms unfolding Call_r2r_xfer call_defs by (intro refines_sound r2r_xfer_refines) auto
next
  case (Call_r_clr r st n)
  show ?thesis using assms unfolding Call_r_clr call_defs by (intro refines_sound r_clr_refines) auto
next
  case (Call_mov_m2r r st a n)
  show ?thesis using assms unfolding Call_mov_m2r call_defs by (intro refines_sound mov_m2r_refines) auto
next
  case (Call_mov_r2m a r st n)
  show ?thesis using assms unfolding Call_mov_r2m call_defs by (intro refines_sound mov_r2m_refines) auto
next
  case (Call_mov_clr_mem a n)
  show ?thesis using assms unfolding Call_mov_clr_mem call_defs by (intro refines_sound mov_clr_mem_refines) auto
next
  case (Call_m2m_xfer d a n)
  show ?thesis using assms unfolding Call_m2m_xfer call_defs by (intro refines_sound m2m_xfer_refines) auto
next
  case (Call_ternary_r2r r st n)
  show ?thesis using assms unfolding Call_ternary_r2r call_defs by (intro refines_sound ternary_r2r_refines) auto
next
  case (Call_ternary_m2r a n)
  show ?thesis using assms unfolding Call_ternary_m2r call_defs by (intro refines_sound ternary_m2r_refines) auto
next
  case (Call_xchg_r2r ar as br bs n)
  show ?thesis using assms unfolding Call_xchg_r2r call_defs by (intro refines_sound xchg_r2r_refines) auto
next
  case (Call_xchg_m2r a r st n)
  show ?thesis using assms unfolding Call_xchg_m2r call_defs by (intro refines_sound xchg_m2r_refines) auto
next
  case (Call_cmov_r2r p dr ds sr ss n)
  show ?thesis using assms unfolding Call_cmov_r2r call_defs by (intro refines_sound cmov_r2r_refines) auto
next
  case (Call_cmov_m2r p r st a n)
  show ?thesis using assms unfolding Call_cmov_m2r call_defs by (intro refines_sound cmov_m2r_refines) auto
next
  case (Call_binary_r2r dr ds sr ss n)
  show ?thesis using assms unfolding Call_binary_r2r call_defs by (intro refines_sound binary_r2r_refines) auto
next
  case (Call_binary_m2r r st a n)
  show ?thesis using assms unfolding Call_binary_m2r call_defs by (intro refines_sound binary_m2r_refines) auto
next
  case (Call_binary_r2m a r st n)
  show ?thesis using assms unfolding Call_binary_r2m call_defs by (intro refines_sound binary_r2m_refines) auto
next
  case (Call_movzx_r2r dr sr ss sn dn)
  show ?thesis using assms unfolding Call_movzx_r2r call_defs by (intro refines_sound movzx_r2r_refines) auto
next
  case (Call_movzx_m2r dr a sn dn)
  show ?thesis using assms unfolding Call_movzx_m2r call_defs by (intro refines_sound movzx_m2r_refines) auto
next
  case (Call_movsx_r2r dr sr ss sn dn)
  show ?thesis using assms unfolding Call_movsx_r2r call_defs by (intro refines_sound movsx_r2r_refines) auto
next
  case (Call_movsx_m2r dr a sn dn)
  show ?thesis using assms unfolding Call_movsx_m2r call_defs by (intro refines_sound movsx_m2r_refines) auto
next
  case (Call_lea_prop ins dr br bs ir ist n)
  show ?thesis using assms unfolding Call_lea_prop call_defs by (intro lea_prop_sound) auto
next
  case (Call_shift_r r st n)
  show ?thesis using assms unfolding Call_shift_r call_defs by (intro refines_sound shift_r_refines) auto
next
  case (Call_shift_m a n)
  show ?thesis using assms unfolding Call_shift_m call_defs by (intro refines_sound shift_m_refines) auto
next
  case (Call_shld_r2r dr ds sr ss n)
  show ?thesis using assms unfolding Call_shld_r2r call_defs by (intro refines_sound shld_r2r_refines) auto
next
  case (Call_bswap_reg r st n)
  show ?thesis using assms unfolding Call_bswap_reg call_defs by (intro refines_sound bswap_reg_refines) auto
next
  case (Call_movbe_m2r r st a n)
  show ?thesis using assms unfolding Call_movbe_m2r call_defs by (intro refines_sound movbe_m2r_refines) auto
next
  case (Call_movbe_r2m a r st n)
  show ?thesis using assms unfolding Call_movbe_r2m call_defs by (intro refines_sound movbe_r2m_refines) auto
next
  case (Call_cmpxchg_mem a sr ss ar as n)
  show ?thesis using assms unfolding Call_cmpxchg_mem call_defs by (intro refines_sound cmpxchg_mem_refines) auto
next
  case (Call_cmpxchg_reg dr ds sr ss ar as n)
  show ?thesis using assms unfolding Call_cmpxchg_reg call_defs by (intro refines_sound cmpxchg_reg_refines) auto
next
  case (Call_xadd_r2r dr ds sr ss n)
  show ?thesis using assms unfolding Call_xadd_r2r call_defs by (intro refines_sound xadd_r2r_refines) auto
next
  case (Call_xadd_m2r a r st n)
  show ?thesis using assms unfolding Call_xadd_m2r call_defs by (intro refines_sound xadd_m2r_refines) auto
next
  case (Call_cmp_r2r ins dr ds dv sr ss sv n)
  show ?thesis using assms unfolding Call_cmp_r2r call_defs by (intro cmp_reg_sound) auto
next
  case (Call_cmp_m2r ins dr ds dv a n)
  show ?thesis using assms unfolding Call_cmp_m2r call_defs by (intro cmp_reg_sound) auto
next
  case (Call_cmp_i2r ins dr ds dv imm n)
  show ?thesis using assms unfolding Call_cmp_i2r call_defs by (intro cmp_reg_sound) auto
next
  case (Call_cmp_r2m ins a sr ss sv n)
  show ?thesis using assms unfolding Call_cmp_r2m call_defs by (intro cmp_mem_sound) auto
next
  case (Call_cmp_i2m ins a imm n)
  show ?thesis using assms unfolding Call_cmp_i2m call_defs by (intro cmp_mem_sound) auto
next
  case (Call_cmp_m2m ins d a n)
  show ?thesis using assms unfolding Call_cmp_m2m call_defs by (intro cmp_m2m_sound) auto
next
  case (Call_pc_range_sink pc)
  then show ?thesis by (auto intro!: same_taint_sound simp: pc_range_logs)
qed

text \<open>A sample engine: thread 7, with offset 3 in al and offset 70 in bl, and offset 3 in one memory byte.\<close>

definition sample_env :: "ADDRINT \<Rightarrow> dr_env" where
  "sample_env a = \<lparr>cur_drcontext = 7, safe_read = (\<lambda>a n. None), xflags = 0, ea = (\<lambda>_. a), reg_value = (\<lambda>_. 0)\<rparr>"

definition sample_thread :: thread_ctx_t where
  "sample_thread =
     \<lparr>gpr_file = (\<lambda>row b.
        if row = DFT_REG_RAX \<and> b = 0 then fst (dft_label_set 3 tagmap_alloc)
        else if row = DFT_REG_RBX \<and> b = 0 then fst (dft_label_set 70 (snd (dft_label_set 3 tagmap_alloc)))
        else 0),
      syscall_ctx = \<lparr>nr = 0, arg = (\<lambda>_. 0), ret = 0\<rparr>, syscall_nr = 0, gpr_mask_cached = 0\<rparr>"

definition sample_engine :: engine where
  "sample_engine =
     \<lparr>tables = sample_tables,
      tag_dir = tagmap_setb_with_tag 0x1000 (fst (dft_label_set 3 tagmap_alloc)) empty_dir,
      tls_idx = 0, threads = [7 \<mapsto> sample_thread], out_file = None, out_lea_file = None, limit_offset = 30,
      g_opcode_sinks = (\<lambda>_. []), g_pc_ranges = [], g_pending_func_sinks = [], sink_log = []\<rparr>"

lemma sample_get: "libdft_get_thread_ctx dc sample_engine = (if dc = 7 then Some sample_thread else None)"
  by (simp add: libdft_get_thread_ctx_def sample_engine_def)

lemma sample_engine_ok: "engine_ok sample_engine" "live 7 sample_engine" "tables sample_engine = sample_tables"
proof -
  have "valid_tag sample_tables (gpr_file sample_thread row b)" for row b
    using sample_tables_ok by (auto simp: sample_thread_def)
  moreover have "gpr_file sample_thread GRP_NUM b = cleared_val" for b
    by (simp add: sample_thread_def GRP_NUM_def DFT_REG_RAX_def DFT_REG_RBX_def cleared_val_def)
  moreover have "valid_tag sample_tables (shadow_of (tag_dir sample_engine) a)" for a
    using sample_tables_ok by (simp add: sample_engine_def)
  ultimately show "engine_ok sample_engine"
    using sample_tables_ok by (simp add: engine_ok_def sample_get) (simp add: sample_engine_def)
  show "live 7 sample_engine" by (simp add: live_def sample_get)
  show "tables sample_engine = sample_tables" by (simp add: sample_engine_def)
qed

lemma sample_room: "n \<le> 4294967293 \<Longrightarrow> room n (tables sample_engine)"
  using sample_tables_ok by (simp add: sample_engine_ok(3) room_def)

lemma sample_taint:
  "treg (taint_of sample_engine) 7 DFT_REG_RAX 0 = {3}" "treg (taint_of sample_engine) 7 DFT_REG_RBX 0 = {70}"
  "tmem (taint_of sample_engine) 0x1000 = {3}"
  using sample_tables_ok
  by (simp_all add: taint_of_def sample_get sample_engine_ok(3) sample_thread_def DFT_REG_RAX_def DFT_REG_RBX_def)
     (simp add: sample_engine_def file_tag_testb_def max_addr_def)

text \<open>
  C1. Soundness and totality of propagation. Take any well-formed engine, any clean call whose register
  spans lie in the register file and whose memory spans are shadowed, and a table with enough ids left
  for the unions of the call. The handler then returns, without a fault; the engine it leaves is
  well-formed; and the offset set of every register byte of every thread and of every memory byte is the
  one the specification of the call computes from the sets before.
\<close>

theorem run_call_sound:
  assumes "engine_ok s" "live (cur_drcontext E) s" "call_ok E c" "room (call_cost c + k) (tables s)"
  shows "\<exists>s'. run_call E c s = Inr s' \<and> engine_ok s' \<and> live (cur_drcontext E) s' \<and> room k (tables s')
     \<and> taint_of s' = spec_call E (cur_drcontext E) c (taint_of s)"
  using call_sound[OF assms(3)] assms(1,2,4) unfolding sound_step_def by metis

theorem run_call_sound_witness:
  "\<exists>s'. run_call (sample_env 0x1000) (Call_binary_r2r DFT_REG_RAX 0 DFT_REG_RBX 0 8) sample_engine = Inr s'
     \<and> treg (taint_of s') 7 DFT_REG_RAX 0 = {3, 70}"
proof -
  have e: "cur_drcontext (sample_env 0x1000) = 7" by (simp add: sample_env_def)
  have "call_ok (sample_env 0x1000) (Call_binary_r2r DFT_REG_RAX 0 DFT_REG_RBX 0 8)"
    by (simp add: dst_ok_def src_ok_def aligned_def DFT_REG_RAX_def DFT_REG_RBX_def GRP_NUM_def TAGS_PER_GPR_def)
  then obtain s' where s': "run_call (sample_env 0x1000) (Call_binary_r2r DFT_REG_RAX 0 DFT_REG_RBX 0 8) sample_engine = Inr s'"
    "taint_of s' = spec_call (sample_env 0x1000) 7 (Call_binary_r2r DFT_REG_RAX 0 DFT_REG_RBX 0 8) (taint_of sample_engine)"
    using run_call_sound[of sample_engine "sample_env 0x1000" _ 0] sample_engine_ok sample_room e by fastforce
  have "tget 7 (reg_cells DFT_REG_RAX 0 0) (taint_of s') = {3, 70}"
    unfolding s'(2) spec_call.simps union_spec_def using tget_assign[of 0 8 "reg_cells DFT_REG_RAX 0" 7] sample_taint by auto
  with s'(1) show ?thesis by auto
qed

section \<open>Sequences of clean calls\<close>

text \<open>A run of interleaved threads: every entry is the environment of the thread that executes and its call.\<close>

fun run_trace :: "(dr_env \<times> clean_call) list \<Rightarrow> 'a engine_scheme \<Rightarrow> 'a engine_scheme res" where
  "run_trace [] s = Inr s"
| "run_trace ((E, c) # tr) s = rbind (run_call E c s) (run_trace tr)"

fun spec_trace :: "(dr_env \<times> clean_call) list \<Rightarrow> taint \<Rightarrow> taint" where
  "spec_trace [] T = T"
| "spec_trace ((E, c) # tr) T = spec_trace tr (spec_call E (cur_drcontext E) c T)"

definition trace_cost :: "(dr_env \<times> clean_call) list \<Rightarrow> nat" where
  "trace_cost tr = sum_list (map (\<lambda>(E, c). call_cost c) tr)"

lemma spec_trace_offsets: "all_offsets (spec_trace tr T) \<subseteq> all_offsets T"
  by (induction tr T rule: spec_trace.induct) (auto dest: subsetD[OF spec_call_offsets])

lemma run_trace_refines:
  assumes "engine_ok s" "\<And>E c. (E, c) \<in> set tr \<Longrightarrow> live (cur_drcontext E) s \<and> call_ok E c"
    "room (trace_cost tr + k) (tables s)"
  shows "\<exists>s'. run_trace tr s = Inr s' \<and> engine_ok s' \<and> room k (tables s') \<and> rest s' = rest s
     \<and> taint_of s' = spec_trace tr (taint_of s) \<and> logs (all_offsets (taint_of s)) s s'
     \<and> extends (tables s) (tables s') \<and> (\<forall>dc. live dc s' = live dc s)"
  using assms
proof (induction tr arbitrary: s)
  case Nil
  then show ?case using logs_same[of s s] labels.grows_refl[of "tables s"] by (simp add: trace_cost_def)
next
  case (Cons ec tr)
  obtain E c where ec: "ec = (E, c)" by fastforce
  have ok: "call_ok E c" "live (cur_drcontext E) s" using Cons.prems(2) ec by auto
  have "room (call_cost c + (trace_cost tr + k)) (tables s)" using Cons.prems(3) ec by (simp add: trace_cost_def add.assoc)
  with call_sound[OF ok(1)] Cons.prems(1) ok(2) obtain s1 where 1: "run_call E c s = Inr s1" "engine_ok s1"
    "\<And>dc. live dc s1 = live dc s" "room (trace_cost tr + k) (tables s1)" "rest s1 = rest s"
    "taint_of s1 = spec_call E (cur_drcontext E) c (taint_of s)" "logs (all_offsets (taint_of s)) s s1"
    "extends (tables s) (tables s1)"
    unfolding sound_step_def by blast
  have "\<exists>s'. run_trace tr s1 = Inr s' \<and> engine_ok s' \<and> room k (tables s') \<and> rest s' = rest s1
      \<and> taint_of s' = spec_trace tr (taint_of s1) \<and> logs (all_offsets (taint_of s1)) s1 s' \<and> extends (tables s1) (tables s')
      \<and> (\<forall>dc. live dc s' = live dc s1)"
    by (rule Cons.IH) (use 1 Cons.prems(2) in auto)
  then obtain s' where s': "run_trace tr s1 = Inr s'" "engine_ok s'" "room k (tables s')" "rest s' = rest s1"
    "taint_of s' = spec_trace tr (taint_of s1)" "logs (all_offsets (taint_of s1)) s1 s'"
    "extends (tables s1) (tables s')" "\<And>dc. live dc s' = live dc s1" by blast
  have "all_offsets (taint_of s1) \<subseteq> all_offsets (taint_of s)" unfolding 1(6) by (rule spec_call_offsets)
  from logs_trans[OF 1(7) logs_mono[OF s'(6) this]] labels.grows_trans[OF 1(8) s'(7)] 1 s' show ?case by (simp add: ec)
qed

text \<open>
  C10. Whole runs. Any sequence of allowed clean calls, of any number of live threads in any
  interleaving, runs to its end without a fault, and the offset sets it leaves are those that the
  specifications of the calls give one after the other.
\<close>

theorem run_trace_sound:
  assumes "engine_ok s" "\<forall>(E, c) \<in> set tr. live (cur_drcontext E) s \<and> call_ok E c"
    "room (trace_cost tr) (tables s)"
  shows "\<exists>s'. run_trace tr s = Inr s' \<and> engine_ok s' \<and> taint_of s' = spec_trace tr (taint_of s)"
  using run_trace_refines[of s tr 0] assms by auto

theorem run_trace_sound_witness:
  "\<exists>s'. run_trace [(sample_env 0x1000, Call_mov_m2r DFT_REG_RCX 0 (OpMem 0 1) 1),
          (sample_env 0x1000, Call_binary_r2r DFT_REG_RCX 0 DFT_REG_RBX 0 1)] sample_engine = Inr s'
     \<and> treg (taint_of s') 7 DFT_REG_RCX 0 = {3, 70}"
proof -
  let ?tr = "[(sample_env 0x1000, Call_mov_m2r DFT_REG_RCX 0 (OpMem 0 1) 1),
          (sample_env 0x1000, Call_binary_r2r DFT_REG_RCX 0 DFT_REG_RBX 0 1)]"
  have ok: "\<forall>(E, c) \<in> set ?tr. live (cur_drcontext E) sample_engine \<and> call_ok E c"
    using sample_engine_ok(2)
    by (simp add: sample_env_def dst_ok_def src_ok_def aligned_def mem_ok_def DFT_REG_RCX_def DFT_REG_RBX_def GRP_NUM_def TAGS_PER_GPR_def)
  obtain s' where s': "run_trace ?tr sample_engine = Inr s'" "taint_of s' = spec_trace ?tr (taint_of sample_engine)"
    using run_trace_sound[OF sample_engine_ok(1) ok] sample_room[of "trace_cost ?tr"] by (auto simp: trace_cost_def)
  have "treg (taint_of s') 7 DFT_REG_RCX 0 = {3, 70}"
    unfolding s'(2) using sample_taint
    by (simp add: sample_env_def copy_spec_def union_spec_def assign_def DFT_REG_RCX_def DFT_REG_RBX_def insert_commute)
  with s'(1) show ?thesis by blast
qed

section \<open>Consequences of the specification\<close>

text \<open>
  No taint out of nothing: whatever sequence of allowed clean calls the threads run, every offset
  found afterwards in a register byte or a memory byte was in some register or memory byte before.
\<close>

theorem no_new_offsets:
  assumes "engine_ok s" "\<forall>(E, c) \<in> set tr. live (cur_drcontext E) s \<and> call_ok E c"
    "room (trace_cost tr) (tables s)" "run_trace tr s = Inr s'"
  shows "all_offsets (taint_of s') \<subseteq> all_offsets (taint_of s)"
proof -
  have "\<exists>u. run_trace tr s = Inr u \<and> engine_ok u \<and> room 0 (tables u) \<and> taint_of u = spec_trace tr (taint_of s)"
    using run_trace_refines[of s tr 0] assms(1-3) by auto
  with assms(4) show ?thesis using spec_trace_offsets[of tr "taint_of s"] by simp
qed

theorem no_new_offsets_witness:
  "\<exists>s'. run_trace [(sample_env 0x1000, Call_bswap_reg DFT_REG_RAX 0 4)] sample_engine = Inr s'
     \<and> all_offsets (taint_of s') \<subseteq> all_offsets (taint_of sample_engine)"
proof -
  let ?tr = "[(sample_env 0x1000, Call_bswap_reg DFT_REG_RAX 0 4)]"
  have ok: "\<forall>(E, c) \<in> set ?tr. live (cur_drcontext E) sample_engine \<and> call_ok E c"
    using sample_engine_ok(2) by (simp add: sample_env_def dst_ok_def DFT_REG_RAX_def GRP_NUM_def TAGS_PER_GPR_def)
  have rm: "room (trace_cost ?tr + 0) (tables sample_engine)" using sample_room by (simp add: trace_cost_def)
  obtain s' where "run_trace ?tr sample_engine = Inr s'"
    using run_trace_refines[OF sample_engine_ok(1) _ rm] ok by auto
  with no_new_offsets[OF sample_engine_ok(1) ok _ this] rm show ?thesis by auto
qed

text \<open>
  C21. Threads do not see each other's registers: a clean call of one thread leaves the offset sets of
  every register byte of every other thread as they were.
\<close>

theorem thread_isolation:
  assumes "engine_ok s" "live (cur_drcontext E) s" "call_ok E c" "room (call_cost c) (tables s)"
    "dc' \<noteq> cur_drcontext E" "run_call E c s = Inr s'"
  shows "treg (taint_of s') dc' = treg (taint_of s) dc'"
proof -
  have "room (call_cost c + 0) (tables s)" using assms(4) by simp
  then have "taint_of s' = spec_call E (cur_drcontext E) c (taint_of s)"
    using call_sound[OF assms(3)] assms(1,2,6) unfolding sound_step_def by (metis sum.inject(2))
  then show ?thesis using treg_spec_call_other[OF assms(5)] by simp
qed

theorem thread_isolation_witness:
  "\<exists>s'. run_call (sample_env 0x1000) (Call_r_clr DFT_REG_RAX 0 8) sample_engine = Inr s'
     \<and> treg (taint_of s') 8 = treg (taint_of sample_engine) 8"
proof -
  let ?E = "sample_env 0x1000" and ?c = "Call_r_clr DFT_REG_RAX 0 8"
  have e: "cur_drcontext ?E = 7" by (simp add: sample_env_def)
  have ok: "call_ok ?E ?c" by (simp add: dst_ok_def DFT_REG_RAX_def GRP_NUM_def TAGS_PER_GPR_def)
  have rm: "room (call_cost ?c) (tables sample_engine)" using sample_room by simp
  obtain s' where "run_call ?E ?c sample_engine = Inr s'"
    using call_sound[OF ok] sample_engine_ok sample_room[of 0] e unfolding sound_step_def by fastforce
  with thread_isolation[OF sample_engine_ok(1) _ ok rm _ this, of 8] sample_engine_ok(2) e show ?thesis by auto
qed

section \<open>Reports\<close>

text \<open>The offset sets of the bytes of a register span and of a memory span.\<close>

definition reg_sets :: "taint \<Rightarrow> nat \<Rightarrow> nat \<Rightarrow> nat \<Rightarrow> nat \<Rightarrow> nat set list" where
  "reg_sets T dc row start sz = map (\<lambda>i. treg T dc row (start + i)) [0..<sz]"

definition mem_sets :: "taint \<Rightarrow> ADDRINT \<Rightarrow> nat \<Rightarrow> nat set list" where
  "mem_sets T a sz = map (\<lambda>i. tmem T (a + of_nat i)) [0..<sz]"

lemma tagged_span:
  assumes "tables_ok T" "length ts = length Xs" "\<And>i. i < length Xs \<Longrightarrow> valid_tag T (ts ! i) \<and> label_set T (ts ! i) = Xs ! i"
  shows "map (\<lambda>t. tag_sprint t T) ts = map print_set Xs" "list_ex tag_count ts \<longleftrightarrow> (\<exists>X \<in> set Xs. X \<noteq> {})"
proof -
  show "map (\<lambda>t. tag_sprint t T) ts = map print_set Xs"
    by (rule nth_equalityI) (use assms tag_sprint_set in auto)
  have "(\<exists>X \<in> set Xs. X \<noteq> {}) \<longleftrightarrow> (\<exists>i < length Xs. Xs ! i \<noteq> {})" by (metis in_set_conv_nth)
  then show "list_ex tag_count ts \<longleftrightarrow> (\<exists>X \<in> set Xs. X \<noteq> {})"
    unfolding list_ex_length using assms tag_count_set[OF assms(1)] by auto
qed

lemma reg_tags_span:
  assumes "engine_ok s" "live dc s"
  shows "map (\<lambda>t. tag_sprint t (tables s)) (reg_tags dc row start sz s) = map print_set (reg_sets (taint_of s) dc row start sz)"
    "list_ex tag_count (reg_tags dc row start sz s) \<longleftrightarrow> (\<exists>X \<in> set (reg_sets (taint_of s) dc row start sz). X \<noteq> {})"
proof -
  have T: "tables_ok (tables s)" using assms(1) by (simp add: engine_ok_def)
  have len: "length (reg_tags dc row start sz s) = length (reg_sets (taint_of s) dc row start sz)"
    using assms(2) by (auto simp: reg_tags_def reg_sets_def live_def)
  have "valid_tag (tables s) (reg_tags dc row start sz s ! i)
      \<and> label_set (tables s) (reg_tags dc row start sz s ! i) = reg_sets (taint_of s) dc row start sz ! i"
    if "i < length (reg_sets (taint_of s) dc row start sz)" for i
    using that reg_tags_sets[OF assms] by (simp add: reg_sets_def)
  from tagged_span[OF T len this] show
    "map (\<lambda>t. tag_sprint t (tables s)) (reg_tags dc row start sz s) = map print_set (reg_sets (taint_of s) dc row start sz)"
    "list_ex tag_count (reg_tags dc row start sz s) \<longleftrightarrow> (\<exists>X \<in> set (reg_sets (taint_of s) dc row start sz). X \<noteq> {})"
    by auto
qed

lemma mem_tags_span:
  assumes "engine_ok s"
  shows "map (\<lambda>t. tag_sprint t (tables s)) (mem_tags a sz s) = map print_set (mem_sets (taint_of s) a sz)"
    "list_ex tag_count (mem_tags a sz s) \<longleftrightarrow> (\<exists>X \<in> set (mem_sets (taint_of s) a sz). X \<noteq> {})"
proof -
  have T: "tables_ok (tables s)" using assms by (simp add: engine_ok_def)
  have len: "length (mem_tags a sz s) = length (mem_sets (taint_of s) a sz)" by (simp add: mem_tags_def mem_sets_def)
  have "valid_tag (tables s) (mem_tags a sz s ! i) \<and> label_set (tables s) (mem_tags a sz s ! i) = mem_sets (taint_of s) a sz ! i"
    if "i < length (mem_sets (taint_of s) a sz)" for i
    using that mem_tags_sets[OF assms] by (simp add: mem_sets_def)
  from tagged_span[OF T len this] show
    "map (\<lambda>t. tag_sprint t (tables s)) (mem_tags a sz s) = map print_set (mem_sets (taint_of s) a sz)"
    "list_ex tag_count (mem_tags a sz s) \<longleftrightarrow> (\<exists>X \<in> set (mem_sets (taint_of s) a sz). X \<noteq> {})"
    by auto
qed

text \<open>
  C22. A register-register comparison reports exactly the tainted ones: when some byte of either operand
  carries an offset, one record is emitted, with the operand width in bits, the instruction address, the
  offset sets of the bytes of both operands in ascending order of byte and of offset, and the two values
  printed at their width; otherwise nothing happens. The taint is not touched in either case.
\<close>

theorem cmp_r2r_reports:
  assumes "engine_ok s" "live (cur_drcontext E) s" "src_ok dr ds sz" "src_ok sr ss sz" "sz \<le> 8"
  shows "\<exists>s'. cmp_r2r E ins dr ds dval sr ss sval sz s = Inr s' \<and> taint_of s' = taint_of s
     \<and> s' = (let D = reg_sets (taint_of s) (cur_drcontext E) dr ds sz;
                S = reg_sets (taint_of s) (cur_drcontext E) sr ss sz in
       if \<exists>X \<in> set D \<union> set S. X \<noteq> {} then
         emit_cmp (cmp_record (int2str (int sz * 8)) ''reg reg'' (hexstr_u ins) (map print_set D) (map print_set S)
             (val_str sz dval) (val_str sz sval)) ins
           (reg_tags (cur_drcontext E) dr ds sz s) (reg_tags (cur_drcontext E) sr ss sz s) s
       else s)"
proof -
  let ?r = "let dest = reg_tags (cur_drcontext E) dr ds sz s; src = reg_tags (cur_drcontext E) sr ss sz s in
      report_cmp ''reg reg'' ins sz (list_ex tag_count (dest @ src)) dest src (val_str sz dval) (val_str sz sval) s"
  have "taint_of ?r = taint_of s" unfolding Let_def by (rule same_taintD(4)) simp
  then show ?thesis unfolding cmp_r2r_eq[OF assms(2-5)]
    by (intro exI[of _ ?r]) (simp add: Let_def report_cmp_def reg_tags_span[OF assms(1,2)] bex_Un)
qed

theorem cmp_r2r_reports_witness:
  "\<exists>s'. cmp_r2r (sample_env 0) 0x401000 DFT_REG_RAX 0 0x41 DFT_REG_RBX 0 0x42 1 sample_engine = Inr s'
     \<and> s' = emit_cmp (cmp_record ''8'' ''reg reg'' ''0x401000'' [''{3}''] [''{70}''] ''0x41'' ''0x42'')
          0x401000 (reg_tags 7 DFT_REG_RAX 0 1 sample_engine) (reg_tags 7 DFT_REG_RBX 0 1 sample_engine) sample_engine"
proof -
  have e: "cur_drcontext (sample_env 0) = 7" by (simp add: sample_env_def)
  have ok: "src_ok DFT_REG_RAX 0 1" "src_ok DFT_REG_RBX 0 1"
    by (simp_all add: src_ok_def DFT_REG_RAX_def DFT_REG_RBX_def GRP_NUM_def TAGS_PER_GPR_def)
  have str: "int2str 8 = ''8''" "hexstr_u 0x401000 = ''0x401000''" "val_str (Suc 0) 0x41 = ''0x41''" "val_str (Suc 0) 0x42 = ''0x42''"
    "print_set {3} = ''{3}''" "print_set {70} = ''{70}''"
    by (simp_all add: int2str_def hexstr_u_def val_str_def print_set_def dec_str.simps hex_str.simps digit_char_def take_bit_eq_mod char_of_def bit_Suc_0_iff)
  show ?thesis
    using cmp_r2r_reports[OF sample_engine_ok(1), where E = "sample_env 0" and dr = DFT_REG_RAX and ds = 0 and sz = 1
        and sr = DFT_REG_RBX and ss = 0 and ins = "0x401000" and dval = "0x41" and sval = "0x42"]
      sample_engine_ok(2) ok e sample_taint str by (simp add: Let_def reg_sets_def)
qed

text \<open>
  C23. What reaches \<^verbatim>\<open>cmp.out\<close>: with no client sink, a record of printed offset sets is appended to the
  file, as one line of 21 fields, exactly when no operand byte has more offsets than the limit allows
  (an empty set counts as one); otherwise the file stays as it is.
\<close>

theorem legacy_cmp_limit:
  assumes "g_opcode_sinks s CMP = []" "out_file s = Some content" "length D \<le> 8" "length S \<le> 8"
    "\<forall>X \<in> set D \<union> set S. finite X" "1 \<le> limit_offset s"
  shows "out_file (emit_cmp (cmp_record bits kind ip (map print_set D) (map print_set S) dv sv) ins dest src s) =
     Some (if \<forall>X \<in> set D \<union> set S. int (card X) \<le> limit_offset s
       then content @ record_line 21 (cmp_record bits kind ip (map print_set D) (map print_set S) dv sv) else content)"
proof -
  let ?r = "cmp_record bits kind ip (map print_set D) (map print_set S) dv sv"
  have hit: "field_limit_hit is l fs \<longleftrightarrow> (\<exists>i \<in> set is. comma_tokens (fs ! i) > l)" for "is" l fs
    by (induction "is") auto
  have nil: "comma_tokens ''{}'' = 1" by (simp add: comma_tokens_count)
  have f: "?r ! (i + 3) = (if i < length D then print_set (D ! i) else ''{}'')"
    "?r ! (i + 11) = (if i < length S then print_set (S ! i) else ''{}'')" if "i < 8" for i
    using that by (simp_all add: cmp_record_def cmp_field_def del: upt_Suc)
  have fin: "i < length D \<Longrightarrow> finite (D ! i)" "i < length S \<Longrightarrow> finite (S ! i)" for i using assms(5) by auto
  have tok: "comma_tokens (?r ! (i + 3)) > limit_offset s \<longleftrightarrow> i < length D \<and> int (card (D ! i)) > limit_offset s"
    "comma_tokens (?r ! (i + 11)) > limit_offset s \<longleftrightarrow> i < length S \<and> int (card (S ! i)) > limit_offset s" if "i < 8" for i
    unfolding f[OF that] using assms(6) fin[of i] by (auto simp: nil comma_tokens_print_set)
  have "set [3..<19] = (\<lambda>i. i + 3) ` {..<8} \<union> (\<lambda>i. i + 11) ` {..<8::nat}"
  proof -
    have "x \<in> (\<lambda>i. i + 3) ` {..<8} \<union> (\<lambda>i. i + 11) ` {..<8::nat}" if "3 \<le> x" "x < 19" for x
      using that by (cases "x < 11") (auto simp: image_iff intro: bexI[of _ "x - 3"] bexI[of _ "x - 11"])
    then show ?thesis by auto
  qed
  then have "field_limit_hit [3..<19] (limit_offset s) ?r \<longleftrightarrow>
      (\<exists>i < 8. comma_tokens (?r ! (i + 3)) > limit_offset s) \<or> (\<exists>i < 8. comma_tokens (?r ! (i + 11)) > limit_offset s)"
    unfolding hit by (auto simp only: bex_Un bex_simps lessThan_iff)
  also have "\<dots> \<longleftrightarrow> (\<exists>i < length D. int (card (D ! i)) > limit_offset s) \<or> (\<exists>i < length S. int (card (S ! i)) > limit_offset s)"
    using tok assms(3,4) by (meson less_le_trans)
  also have "\<dots> \<longleftrightarrow> \<not> (\<forall>X \<in> set D \<union> set S. int (card X) \<le> limit_offset s)"
    by (auto simp: in_set_conv_nth Ball_def not_le[symmetric])
  finally show ?thesis using assms(1,2) by (simp add: emit_cmp_def has_sink_def legacy_write_cmp_def)
qed

theorem legacy_cmp_limit_witness:
  "out_file (emit_cmp (cmp_record ''8'' ''reg reg'' ''0x0'' (map print_set [{3}]) (map print_set [{70}]) ''0x1'' ''0x2'')
      0 [] [] (sample_engine\<lparr>out_file := Some []\<rparr>))
    = Some (record_line 21 (cmp_record ''8'' ''reg reg'' ''0x0'' (map print_set [{3}]) (map print_set [{70}]) ''0x1'' ''0x2''))"
  using legacy_cmp_limit[of "sample_engine\<lparr>out_file := Some []\<rparr>" "[]" "[{3}]" "[{70}]" "''8''" "''reg reg''" "''0x0''" "''0x1''" "''0x2''" 0 "[]" "[]"]
  by (simp add: sample_engine_def)

section \<open>Byte swaps, missing contexts, unshadowed and overlapping memory\<close>

lemma reverse_twice:
  "copy_spec dc n (reg_cells r st) (\<lambda>i. CReg r (st + (n - 1 - i)))
     (copy_spec dc n (reg_cells r st) (\<lambda>i. CReg r (st + (n - 1 - i))) T) = T" (is "?f (?f T) = T")
proof (rule taint_eqI[of dc])
  have get: "tget dc (CReg r (st + i)) (?f U) = tget dc (CReg r (st + (n - 1 - i))) U" if "i < n" for i U
    unfolding copy_spec_def using tget_assign[OF that, of "reg_cells r st" dc] by simp
  show "tget dc c (?f (?f T)) = tget dc c T" for c
  proof (cases "\<exists>i < n. c = CReg r (st + i)")
    case True
    then obtain i where i: "i < n" "c = CReg r (st + i)" by auto
    have "n - 1 - i < n" "n - 1 - (n - 1 - i) = i" using i(1) by auto
    with i get show ?thesis by metis
  next
    case False
    then have "tget dc c (?f U) = tget dc c U" for U unfolding copy_spec_def by (intro tget_assign_other) auto
    then show ?thesis by simp
  qed
  show "treg (?f (?f T)) dc' = treg T dc'" if "dc' \<noteq> dc" for dc'
    using that by (simp add: copy_spec_def treg_assign_other_thread)
qed

text \<open>
  Byte swaps reverse and are undone by a second one: the in-place exchange of the two halves moves
  the offset set of byte i to byte n - 1 - i, and two byte swaps of the same register leave every offset
  set of the engine as it was.
\<close>

theorem bswap_involution:
  assumes "engine_ok s" "live (cur_drcontext E) s" "dst_ok r st n"
  shows "\<exists>s1 s2. bswap_reg E r st n s = Inr s1 \<and> bswap_reg E r st n s1 = Inr s2 \<and> taint_of s2 = taint_of s
     \<and> (\<forall>i < n. treg (taint_of s1) (cur_drcontext E) r (st + i) = treg (taint_of s) (cur_drcontext E) r (st + (n - 1 - i)))"
proof -
  let ?dc = "cur_drcontext E"
  let ?f = "copy_spec ?dc n (reg_cells r st) (\<lambda>i. CReg r (st + (n - 1 - i)))"
  note ref = bswap_reg_refines[OF assms(3), of E]
  have rm: "room (0 + 0) (tables s)" using assms(1) by (simp add: room_def engine_ok_def tables_ok_def)
  obtain s1 where 1: "bswap_reg E r st n s = Inr s1" "engine_ok s1" "live ?dc s1" "room 0 (tables s1)"
    "taint_of s1 = ?f (taint_of s)" using refinesD[OF ref assms(1,2) rm] by metis
  obtain s2 where 2: "bswap_reg E r st n s1 = Inr s2" "taint_of s2 = ?f (taint_of s1)"
    using refinesD[OF ref 1(2,3), of 0] 1(4) by auto
  have "treg (taint_of s1) ?dc r (st + i) = treg (taint_of s) ?dc r (st + (n - 1 - i))" if "i < n" for i
    unfolding 1(5) copy_spec_def using tget_assign[OF that, of "reg_cells r st" ?dc] by simp
  moreover have "taint_of s2 = taint_of s" unfolding 2(2) 1(5) by (rule reverse_twice)
  ultimately show ?thesis using 1 2 by blast
qed

theorem bswap_involution_witness:
  "\<exists>s1. bswap_reg (sample_env 0) DFT_REG_RAX 0 4 sample_engine = Inr s1 \<and> treg (taint_of s1) 7 DFT_REG_RAX 3 = {3}"
proof -
  have e: "cur_drcontext (sample_env 0) = 7" by (simp add: sample_env_def)
  have ok: "dst_ok DFT_REG_RAX 0 4" by (simp add: dst_ok_def DFT_REG_RAX_def GRP_NUM_def TAGS_PER_GPR_def)
  from bswap_involution[OF sample_engine_ok(1), of "sample_env 0" DFT_REG_RAX 0 4] sample_engine_ok(2) e ok
  obtain s1 where "bswap_reg (sample_env 0) DFT_REG_RAX 0 4 sample_engine = Inr s1"
    "\<forall>i < 4. treg (taint_of s1) 7 DFT_REG_RAX (0 + i) = treg (taint_of sample_engine) 7 DFT_REG_RAX (0 + (4 - 1 - i))"
    by auto
  with sample_taint(1) show ?thesis by (auto dest: spec[of _ 3])
qed

text \<open>
  A handler that runs before its thread has a context leaves the engine alone: every clean call with
  a register operand returns the state unchanged, whatever its other arguments are.
\<close>

theorem no_context_no_change:
  assumes "libdft_get_thread_ctx (cur_drcontext E) s = None"
    "\<forall>a n. c \<noteq> Call_mov_clr_mem a n" "\<forall>d a n. c \<noteq> Call_m2m_xfer d a n" "\<forall>a n. c \<noteq> Call_shift_m a n"
    "\<forall>i a v n. c \<noteq> Call_cmp_i2m i a v n" "\<forall>i d a n. c \<noteq> Call_cmp_m2m i d a n" "\<forall>pc. c \<noteq> Call_pc_range_sink pc"
  shows "run_call E c s = Inr s"
proof -
  have tc: "with_tc E f s = Inr s" for f using assms(1) by (simp add: with_tc_def)
  show ?thesis using assms(2-)
    by (cases c) (simp_all add: tc r2r_xfer_def r_clr_def mov_m2r_def mov_r2m_def ternary_r2r_def ternary_m2r_def
      xchg_r2r_def xchg_m2r_def cmov_r2r_def cmov_m2r_def binary_r2r_def binary_m2r_def binary_r2m_def movzx_r2r_def
      movzx_m2r_def movsx_r2r_def movsx_m2r_def lea_prop_def cmp_r2r_def cmp_m2r_def cmp_i2r_def cmp_r2m_def
      shift_r_def shld_r2r_def bswap_reg_def movbe_m2r_def movbe_r2m_def cmpxchg_mem_def cmpxchg_reg_def
      xadd_r2r_def xadd_m2r_def)
qed

theorem no_context_no_change_witness:
  "run_call (sample_env 0) (Call_bswap_reg DFT_REG_RAX 0 8) (sample_engine\<lparr>tls_idx := -1\<rparr>) = Inr (sample_engine\<lparr>tls_idx := -1\<rparr>)"
  using no_context_no_change[of "sample_env 0" "sample_engine\<lparr>tls_idx := -1\<rparr>" "Call_bswap_reg DFT_REG_RAX 0 8"]
  by (simp add: libdft_get_thread_ctx_def)

text \<open>
  Memory above the user half is not guarded in a load: a move from an address beyond
  0x7fffffffffff dereferences a null pointer, since the shadow lookup gives none for it.
\<close>

theorem load_above_limit_faults:
  assumes "live (cur_drcontext E) s" "\<not> file_tag_testb a" "0 < n"
  shows "mov_m2r E row st a n s = Inl NullDeref"
proof -
  obtain m where n: "n = Suc m" using assms(3) by (cases n) auto
  have "mem_rd a s = Inl NullDeref"
    using assms(2) by (simp add: mem_rd_def file_tagmap_getb_def tag_dir_getb_def tag_dir_getb_as_ptr_def file_tag_testb_def)
  then show ?thesis
    using assms(1) by (simp add: mov_m2r_def with_tc_live n for_upto_def)
qed

theorem load_above_limit_faults_witness:
  "mov_m2r (sample_env 0) DFT_REG_RAX 0 0x800000000000 8 sample_engine = Inl NullDeref"
  using load_above_limit_faults[of "sample_env 0" sample_engine "0x800000000000" 8 DFT_REG_RAX 0] sample_engine_ok(2)
  by (simp add: sample_env_def file_tag_testb_def max_addr_def)

text \<open>
  A memory-to-memory move that overlaps upwards smears: with the destination one byte above the
  source, two bytes moved put the offset set of the first source byte into both destination bytes, where
  an instruction that loads before it stores would move the set of the second byte to the second.
\<close>

theorem overlap_smears:
  assumes "engine_ok s" "live dc s" "mem_ok a 3"
  shows "\<exists>s'. m2m_xfer (a + 1) a 2 s = Inr s' \<and> tmem (taint_of s') (a + 1) = tmem (taint_of s) a
     \<and> tmem (taint_of s') (a + 2) = tmem (taint_of s) a"
proof -
  have tb: "file_tag_testb a" "file_tag_testb (a + 1)" "file_tag_testb (a + 2)"
    using mem_ok_testb[OF assms(3), of 0] mem_ok_testb[OF assms(3), of 1] mem_ok_testb[OF assms(3), of 2] by simp_all
  let ?t = "shadow_of (tag_dir s) a"
  let ?s1 = "mem_wr (a + 1) ?t s"
  have v: "valid_tag (tables s) ?t" using assms(1) by (simp add: engine_ok_def)
  have "mem_rd a s = Inr ?t" "mem_rd (a + 1) ?s1 = Inr ?t"
    using tb by (simp_all add: mem_rd_def mem_wr_def)
  then have "m2m_xfer (a + 1) a 2 s = Inr (mem_wr (a + 2) ?t ?s1)"
    by (simp add: m2m_xfer_def numeral_2_eq_2 for_upto_Suc add.assoc)
  moreover have "a + 1 \<noteq> a + 2" by simp
  ultimately show ?thesis using tb by (simp add: taint_of_def mem_wr_def)
qed

theorem overlap_smears_witness:
  "\<exists>s'. m2m_xfer 0x1001 0x1000 2 sample_engine = Inr s' \<and> tmem (taint_of s') 0x1001 = {3} \<and> tmem (taint_of s') 0x1002 = {3}"
  using overlap_smears[OF sample_engine_ok(1,2), of "0x1000"] sample_taint(3) by (simp add: mem_ok_def)

end
