(* ===== verification/Sources.thy ===== *)
theory Sources
  imports Syscalls Soundness
begin

text \<open>
  The taint sources at the level of offset sets: every system call has an effect on the sets of the
  memory bytes (paint a range with file offsets, clear a range, or nothing), and the events of
  \<open>Syscalls\<close> implement that effect for every call.
\<close>

section \<open>Effects\<close>

text \<open>
  \<open>Paint buf off n\<close> gives the i-th byte of a buffer the offset off + i (its low 32 bits),
  \<open>Clear buf n\<close> empties the bytes of a buffer, both with addresses that wrap around;
  \<open>Clear_span a n\<close> is the clearing loop whose bound does not wrap.
\<close>

datatype effect = Keep | Paint ADDRINT UINT64 nat | Clear ADDRINT nat | Clear_span ADDRINT nat

fun apply_effect :: "effect \<Rightarrow> taint \<Rightarrow> taint" where
  "apply_effect Keep T = T"
| "apply_effect (Paint buf off n) T =
     T\<lparr>tmem := (\<lambda>x. if unat (x - buf) < n then {unat (off + (x - buf)) mod 2 ^ 32} else tmem T x)\<rparr>"
| "apply_effect (Clear buf n) T = T\<lparr>tmem := (\<lambda>x. if unat (x - buf) < n then {} else tmem T x)\<rparr>"
| "apply_effect (Clear_span a n) T =
     T\<lparr>tmem := (\<lambda>x. if unat a \<le> unat x \<and> unat x < unat a + n then {} else tmem T x)\<rparr>"

fun effect_cost :: "effect \<Rightarrow> nat" where
  "effect_cost (Paint buf off n) = n"
| "effect_cost _ = 0"

text \<open>The bytes to paint must have shadow bytes, since the loop reads their labels first.\<close>

fun effect_ok :: "effect \<Rightarrow> bool" where
  "effect_ok (Paint buf off n) = (n \<le> 2 ^ 64 \<and> (\<forall>i < n. file_tag_testb (buf + of_nat i)))"
| "effect_ok (Clear buf n) = (n \<le> 2 ^ 64)"
| "effect_ok _ = True"

section \<open>The loops implement the effects\<close>

lemma word_offset_iff: "j < 2 ^ 64 \<Longrightarrow> x = buf + of_nat j \<longleftrightarrow> unat (x - buf) = j" for x buf :: ADDRINT
proof -
  assume "j < 2 ^ 64"
  then have "unat (of_nat j :: ADDRINT) = j" by (simp add: unat_of_nat)
  then have "unat (x - buf) = j \<longleftrightarrow> x - buf = of_nat j" by (metis word_unat_eq_iff)
  then show ?thesis by (auto simp: algebra_simps)
qed

lemma less_Suc_offset:
  "j < 2 ^ 64 \<Longrightarrow> unat (x - buf) < Suc j \<longleftrightarrow> x = buf + of_nat j \<or> unat (x - buf) < j" for x buf :: ADDRINT
  using word_offset_iff[of j x buf] by (auto simp: less_Suc_eq)

lemma paint_byte_ok:
  assumes "engine_ok s" "room (Suc k) (tables s)" "file_tag_testb addr"
  obtains s' where "paint_byte addr off s = Inr s'" "engine_ok s'" "room k (tables s')" "side s' = side s"
    "threads s' = threads s" "extends (tables s) (tables s')"
    "taint_of s' = (taint_of s)\<lparr>tmem := (tmem (taint_of s))(addr := {unat off mod 2 ^ 32})\<rparr>"
proof -
  obtain t T where tT: "dft_label_set (ucast off) (tables s) = (t, T)" by fastforce
  have ok: "tables_ok (tables s)" using assms(1) by (simp add: engine_ok_def)
  have l: "tables_ok T" "room k T" "extends (tables s) T" "valid_tag T t"
    "label_set T t = {unat (ucast off :: UINT32)}"
    using dft_label_set_spec[OF ok _ tT] assms(2) by (auto simp: room_def)
  let ?s = "s\<lparr>tables := T\<rparr>"
  have g: "engine_ok ?s" "taint_of ?s = taint_of s" using engine_ok_grow[OF assms(1) l(1,3)] by simp_all
  have v: "valid_tag (tables ?s) t" using l(4) by simp
  have off: "unat (ucast off :: UINT32) = unat off mod 2 ^ 32"
    by (simp add: unsigned_ucast_eq take_bit_eq_mod)
  have "mem_rd addr s = Inr (shadow_of (tag_dir s) addr)" using assms(3) by (simp add: mem_rd_def)
  then have p: "paint_byte addr off s = Inr (mem_wr addr t ?s)" by (simp add: paint_byte_def tT)
  have "side (mem_wr addr t ?s) = side s" "threads (mem_wr addr t ?s) = threads s"
    by (simp_all add: side_def mem_wr_def)
  then show ?thesis
    using that[OF p] mem_wr_ok[OF g(1) v, where a = addr] l(2,3,5) g(2) assms(3) off by simp
qed

lemma taint_of_dir:
  "taint_of (s\<lparr>tag_dir := d\<rparr>) = (taint_of s)\<lparr>tmem := (\<lambda>a. label_set (tables s) (shadow_of d a))\<rparr>"
  by (auto simp: taint_of_def fun_eq_iff split: option.splits)

lemma tmem_taint_of: "tmem (taint_of s) = (\<lambda>a. label_set (tables s) (shadow_of (tag_dir s) a))"
  by (simp add: taint_of_def)

text \<open>Everything of a source state that the effect of a system call leaves alone.\<close>

definition quiet :: "'a sys_state_scheme \<Rightarrow> 'a sys_state_scheme \<Rightarrow> bool" where
  "quiet s s' \<longleftrightarrow> side s' = side s \<and> threads s' = threads s \<and> extends (tables s) (tables s')"

lemma paint_loop_ok:
  assumes "engine_ok s" "room (n + k) (tables s)" "effect_ok (Paint buf off n)"
  obtains s' where "paint_loop buf off n s = Inr s'" "engine_ok s'" "room k (tables s')" "quiet s s'"
    "taint_of s' = apply_effect (Paint buf off n) (taint_of s)"
proof -
  let ?P = "\<lambda>j t. engine_ok t \<and> room (n - j + k) (tables t) \<and> quiet s t
     \<and> taint_of t = apply_effect (Paint buf off j) (taint_of s)"
  have "\<exists>t. for_upto n (\<lambda>i. paint_byte (buf + of_nat i) (off + of_nat i)) s = Inr t \<and> ?P n t"
  proof (rule for_upto_total[where P = ?P])
    fix j t assume j: "j < n" and t: "?P j t"
    have a: "file_tag_testb (buf + of_nat j)" "j < 2 ^ 64" using assms(3) j by auto
    have r: "room (Suc (n - Suc j + k)) (tables t)" using t j by (simp add: Suc_diff_Suc)
    obtain t' where t': "paint_byte (buf + of_nat j) (off + of_nat j) t = Inr t'" "engine_ok t'"
      "room (n - Suc j + k) (tables t')" "side t' = side t" "threads t' = threads t"
      "extends (tables t) (tables t')" "taint_of t' = (taint_of t)\<lparr>tmem := (tmem (taint_of t))
         (buf + of_nat j := {unat (off + of_nat j) mod 2 ^ 32})\<rparr>"
      using paint_byte_ok[OF _ r a(1), of "off + of_nat j"] t by blast
    have "(tmem (taint_of t))(buf + of_nat j := {unat (off + of_nat j) mod 2 ^ 32})
       = tmem (apply_effect (Paint buf off (Suc j)) (taint_of s))"
      using t less_Suc_offset[OF a(2), of _ buf] by (auto simp: fun_eq_iff)
    then have "taint_of t' = apply_effect (Paint buf off (Suc j)) (taint_of s)"
      using t'(7) t by simp
    with t' t show "\<exists>t'. paint_byte (buf + of_nat j) (off + of_nat j) t = Inr t' \<and> ?P (Suc j) t'"
      by (auto simp: quiet_def intro: labels.grows_trans)
  qed (use assms labels.grows_refl in \<open>auto simp: quiet_def\<close>)
  then show ?thesis using that by (auto simp: paint_loop_def)
qed

lemma clear_byte_ok:
  assumes "engine_ok s"
  shows "engine_ok (clear_byte a s)" "taint_of (clear_byte a s) = (taint_of s)\<lparr>tmem := (tmem (taint_of s))(a := {})\<rparr>"
    "side (clear_byte a s) = side s" "threads (clear_byte a s) = threads s" "tables (clear_byte a s) = tables s"
proof -
  have z: "valid_tag (tables s) 0" "label_set (tables s) 0 = {}"
    using assms label_set_0 by (auto simp: engine_ok_def)
  show "engine_ok (clear_byte a s)" using assms z by (auto simp: engine_ok_def clear_byte_def)
  show "taint_of (clear_byte a s) = (taint_of s)\<lparr>tmem := (tmem (taint_of s))(a := {})\<rparr>"
    using z(2) by (simp add: clear_byte_def taint_of_dir tmem_taint_of fun_upd_def if_distrib[of "label_set (tables s)"] cong: if_cong)
  show "side (clear_byte a s) = side s" "threads (clear_byte a s) = threads s" "tables (clear_byte a s) = tables s"
    by (simp_all add: side_def clear_byte_def)
qed

lemma clear_loop_ok:
  assumes "engine_ok s" "n \<le> 2 ^ 64"
  obtains s' where "clear_loop buf n s = Inr s'" "engine_ok s'" "tables s' = tables s" "side s' = side s"
    "threads s' = threads s" "taint_of s' = apply_effect (Clear buf n) (taint_of s)"
proof -
  let ?P = "\<lambda>j t. engine_ok t \<and> tables t = tables s \<and> side t = side s \<and> threads t = threads s
     \<and> taint_of t = apply_effect (Clear buf j) (taint_of s)"
  have "\<exists>t. for_upto n (\<lambda>i s. Inr (clear_byte (buf + of_nat i) s)) s = Inr t \<and> ?P n t"
  proof (rule for_upto_total[where P = ?P])
    fix j t assume j: "j < n" and t: "?P j t"
    have a: "j < 2 ^ 64" using assms(2) j by simp
    have "taint_of (clear_byte (buf + of_nat j) t) = apply_effect (Clear buf (Suc j)) (taint_of s)"
      using t clear_byte_ok(2)[of t "buf + of_nat j"] less_Suc_offset[OF a, of _ buf] by (auto simp: fun_eq_iff)
    with t clear_byte_ok[of t "buf + of_nat j"]
    show "\<exists>t'. Inr (clear_byte (buf + of_nat j) t) = (Inr t' :: 'a engine_scheme res) \<and> ?P (Suc j) t'" by auto
  qed (use assms in auto)
  then show ?thesis using that by (auto simp: clear_loop_def)
qed

lemma clrn_ok:
  assumes "engine_ok s"
  shows "engine_ok (s\<lparr>tag_dir := file_tagmap_clrn a n (tag_dir s)\<rparr>)"
    "taint_of (s\<lparr>tag_dir := file_tagmap_clrn a n (tag_dir s)\<rparr>) = apply_effect (Clear_span a (unat n)) (taint_of s)"
proof -
  let ?d = "file_tagmap_clrn a n (tag_dir s)"
  have z: "valid_tag (tables s) 0" "label_set (tables s) 0 = {}"
    using assms label_set_0 by (auto simp: engine_ok_def)
  have high: "shadow_of d x = 0" if "x > max_addr" for d x
    using that by (simp add: shadow_of_def dirstore.getb_view file_tag_testb_def cleared_val_def)
  have sh: "shadow_of ?d x = (if unat a \<le> unat x \<and> unat x < unat a + unat n then 0 else shadow_of (tag_dir s) x)" for x
  proof (cases "x > max_addr")
    case False
    then show ?thesis using getb_clrn[of a n "tag_dir s" x]
      by (auto simp: dirstore.getb_view file_tag_testb_def cleared_val_def split: if_splits)
  qed (simp add: high)
  show "engine_ok (s\<lparr>tag_dir := ?d\<rparr>)" using assms z by (auto simp: engine_ok_def sh)
  show "taint_of (s\<lparr>tag_dir := ?d\<rparr>) = apply_effect (Clear_span a (unat n)) (taint_of s)"
    using z(2) by (simp add: taint_of_dir tmem_taint_of sh if_distrib[of "label_set (tables s)"] cong: if_cong)
qed

section \<open>The effect of a hook and of a system call\<close>

text \<open>
  What the exit event of a system call does to the offset sets, from the arguments, the result, the
  tracked descriptors and the kernel's answers. Where the mmap hook ends the process there is a fault
  instead of an effect.
\<close>

definition read_effect :: "int set \<Rightarrow> int \<Rightarrow> ADDRINT \<Rightarrow> UINT64 \<Rightarrow> UINT32 \<Rightarrow> effect" where
  "read_effect fds fd buf off n = (if fd \<in> fds then Paint buf off (unat n) else Clear buf (unat n))"

fun hook_effect :: "hook \<Rightarrow> os_env \<Rightarrow> syscall_ctx_t \<Rightarrow> 'a sys_state_scheme \<Rightarrow> effect res" where
  "hook_effect Post_read_hook K ctx s =
     (let fd = to_int (arg ctx 0); n = ucast (ret ctx)
      in Inr (if to_ssize (ret ctx) \<le> 0 then Keep
              else read_effect (fdset s) fd (arg ctx 1) (lseek_cur K fd - ucast n) n))"
| "hook_effect Post_pread64_hook K ctx s =
     Inr (if to_ssize (ret ctx) < 0 then Keep
          else read_effect (fdset s) (to_int (arg ctx 0)) (arg ctx 1) (arg ctx 3) (ucast (ret ctx)))"
| "hook_effect Post_munmap_hook K ctx s =
     Inr (if to_ssize (ret ctx) < 0 then Keep else Clear (arg ctx 0) (unat (arg ctx 1)))"
| "hook_effect Post_mmap_hook K ctx s =
     (let down = ucast (arg ctx 3) AND MAP_GROWSDOWN \<noteq> 0;
          buf = (if down then ret ctx + mmap_extent (arg ctx 1) - 1 else ret ctx);
          fd = to_int (arg ctx 4)
      in if ret ctx = MAP_FAILED then Inr Keep
         else if fd \<ge> 0 \<and> fd \<in> fdset s then
           rbind (if mmap_type s then mmap_offset K fd buf (arg ctx 5) else Inr (lseek_cur K fd))
             (\<lambda>off. Inr (Paint buf off (unat (arg ctx 1))))
         else Inr (Clear buf (unat (arg ctx 1))))"
| "hook_effect _ K ctx s = Inr Keep"

lemma hook_effect_cong:
  "fdset s = fdset s' \<Longrightarrow> mmap_type s = mmap_type s' \<Longrightarrow> hook_effect h K ctx s = hook_effect h K ctx s'"
  by (cases h) (simp_all only: hook_effect.simps)

fun builtin :: "hook \<Rightarrow> bool" where
  "builtin NULL = False" | "builtin (Client_hook k) = False" | "builtin _ = True"

lemma outputs_sys [simp]:
  "outputs (s\<lparr>fdset := x1\<rparr>) = outputs s" "outputs (s\<lparr>flag := x2\<rparr>) = outputs s" "outputs (s\<lparr>os_log := x3\<rparr>) = outputs s"
  "outputs (s\<lparr>g_src_events := x4\<rparr>) = outputs s" "outputs (s\<lparr>g_src_bytes := x5\<rparr>) = outputs s"
  by (simp_all add: outputs_def)

text \<open>The parts of the state that no hook of the engine touches.\<close>

definition kept :: "'a sys_state_scheme \<Rightarrow> 'a sys_state_scheme \<Rightarrow> bool" where
  "kept s s' \<longleftrightarrow> threads s' = threads s \<and> tls_idx s' = tls_idx s \<and> syscall_desc s' = syscall_desc s
     \<and> mmap_type s' = mmap_type s \<and> filename s' = filename s \<and> outputs s' = outputs s
     \<and> g_pending_func_sinks s' = g_pending_func_sinks s \<and> sys_state.more s' = sys_state.more s"

definition achieves :: "effect \<Rightarrow> nat \<Rightarrow> 'a sys_state_scheme \<Rightarrow> 'a sys_state_scheme \<Rightarrow> bool" where
  "achieves e k s s' \<longleftrightarrow> engine_ok s' \<and> room k (tables s') \<and> kept s s' \<and> taint_of s' = apply_effect e (taint_of s)
     \<and> extends (tables s) (tables s')"

lemma side_kept:
  fixes s s' :: "'a sys_state_scheme"
  assumes "side s' = side s"
  shows "tls_idx s' = tls_idx s \<and> syscall_desc s' = syscall_desc s \<and> mmap_type s' = mmap_type s
    \<and> filename s' = filename s \<and> fdset s' = fdset s \<and> outputs s' = outputs s
    \<and> g_pending_func_sinks s' = g_pending_func_sinks s \<and> sys_state.more s' = sys_state.more s"
proof -
  have "engine.more s' = engine.more s" "tls_idx s' = tls_idx s" "g_pending_func_sinks s' = g_pending_func_sinks s"
    using assms by (simp_all add: side_def)
  then have "tls_idx s' = tls_idx s \<and> syscall_desc s' = syscall_desc s \<and> mmap_type s' = mmap_type s
    \<and> filename s' = filename s \<and> fdset s' = fdset s \<and> g_pending_func_sinks s' = g_pending_func_sinks s
    \<and> sys_state.more s' = sys_state.more s" by (cases s; cases s') simp
  with side_outputs[OF assms] show ?thesis by simp
qed

lemma achieves_keep:
  fixes s s' :: "'a sys_state_scheme"
  assumes "engine_ok s" "room k (tables s)" "kept s s'" "tables s' = tables s" "tag_dir s' = tag_dir s"
  shows "achieves Keep k s s'"
proof -
  have "libdft_get_thread_ctx dc s' = libdft_get_thread_ctx dc s" for dc
    using assms(3) by (simp add: libdft_get_thread_ctx_def kept_def)
  then show ?thesis using assms labels.grows_refl
    by (simp add: achieves_def engine_ok_def taint_of_def cong: option.case_cong)
qed

lemma achieves_paint:
  fixes s s0 :: "'a sys_state_scheme"
  assumes "engine_ok s" "room (effect_cost (Paint buf off n) + k) (tables s)" "effect_ok (Paint buf off n)"
    and "kept s s0" "tables s0 = tables s" "tag_dir s0 = tag_dir s"
  shows "\<exists>s'. paint_loop buf off n s0 = Inr s' \<and> achieves (Paint buf off n) k s s'"
proof -
  have a: "achieves Keep (n + k) s s0" using achieves_keep[OF assms(1) _ assms(4-6)] assms(2) by simp
  then have s0: "engine_ok s0" "room (n + k) (tables s0)" "taint_of s0 = taint_of s" by (simp_all add: achieves_def)
  obtain s' where s': "paint_loop buf off n s0 = Inr s'" "engine_ok s'" "room k (tables s')" "quiet s0 s'"
    "taint_of s' = apply_effect (Paint buf off n) (taint_of s0)"
    using paint_loop_ok[OF s0(1,2) assms(3)] .
  have "kept s s'" using s'(4) assms(4) side_kept[of s' s0] by (simp add: kept_def quiet_def)
  moreover have "extends (tables s) (tables s')" using s'(4) assms(5) by (simp add: quiet_def)
  ultimately show ?thesis using s' s0(3) by (simp only: achieves_def) blast
qed

lemma achieves_clear:
  fixes s :: "'a sys_state_scheme"
  assumes "engine_ok s" "room k (tables s)" "effect_ok (Clear buf n)"
  shows "\<exists>s'. clear_loop buf n s = Inr s' \<and> achieves (Clear buf n) k s s'"
proof -
  obtain s' where "clear_loop buf n s = Inr s'" "engine_ok s'" "tables s' = tables s" "side s' = side s"
    "threads s' = threads s" "taint_of s' = apply_effect (Clear buf n) (taint_of s)"
    using clear_loop_ok[OF assms(1)] assms(3) by auto
  with assms(2) side_kept[of s' s] labels.grows_refl show ?thesis by (auto simp: achieves_def kept_def)
qed

lemma count_source_kept [simp]:
  "kept s (count_source n s)" "tables (count_source n s) = tables s" "tag_dir (count_source n s) = tag_dir s"
  by (simp_all add: kept_def count_source_def)

lemma read_effect_ok:
  fixes s :: "'a sys_state_scheme"
  assumes "engine_ok s" "room (effect_cost (read_effect (fdset s) fd buf off n) + k) (tables s)"
    "effect_ok (read_effect (fdset s) fd buf off n)"
  shows "\<exists>s'. (if fd \<in> fdset s then paint_loop buf off (unat n) (count_source m s) else clear_loop buf (unat n) s) = Inr s'
     \<and> achieves (read_effect (fdset s) fd buf off n) k s s'"
proof (cases "fd \<in> fdset s")
  case True
  then show ?thesis
    using achieves_paint[OF assms(1), of buf off "unat n" k "count_source m s"] assms(2,3) by (simp add: read_effect_def)
next
  case False
  then show ?thesis using achieves_clear[OF assms(1), of k buf "unat n"] assms(2,3) by (simp add: read_effect_def)
qed

lemma keep_ok:
  fixes s :: "'a sys_state_scheme"
  assumes "engine_ok s" "room k (tables s)"
  shows "achieves Keep k s s"
  using achieves_keep[OF assms, of s] by (simp add: kept_def)

lemma post_read_hook_ok:
  fixes s :: "'a sys_state_scheme"
  assumes "engine_ok s" "hook_effect Post_read_hook K ctx s = Inr e" "effect_ok e" "room (effect_cost e + k) (tables s)"
  shows "\<exists>s'. post_read_hook K ctx s = Inr s' \<and> achieves e k s s'"
proof (cases "to_ssize (ret ctx) \<le> 0")
  case True
  then show ?thesis using assms keep_ok[OF assms(1), of k] by (auto simp: post_read_hook_def)
next
  case False
  let ?fd = "to_int (arg ctx 0)" and ?n = "ucast (ret ctx) :: UINT32"
  have e: "e = read_effect (fdset s) ?fd (arg ctx 1) (lseek_cur K ?fd - ucast ?n) ?n"
    using assms(2) False by (simp add: Let_def)
  have h: "post_read_hook K ctx s = (if ?fd \<in> fdset s
      then paint_loop (arg ctx 1) (lseek_cur K ?fd - ucast ?n) (unat ?n) (count_source (ucast ?n) s)
      else clear_loop (arg ctx 1) (unat ?n) s)" using False by (simp add: post_read_hook_def Let_def)
  show ?thesis unfolding h e by (rule read_effect_ok[OF assms(1) assms(4,3)[unfolded e]])
qed

lemma post_pread64_hook_ok:
  fixes s :: "'a sys_state_scheme"
  assumes "engine_ok s" "hook_effect Post_pread64_hook K ctx s = Inr e" "effect_ok e" "room (effect_cost e + k) (tables s)"
  shows "\<exists>s'. post_pread64_hook ctx s = Inr s' \<and> achieves e k s s'"
proof (cases "to_ssize (ret ctx) < 0")
  case True
  then show ?thesis using assms keep_ok[OF assms(1), of k] by (auto simp: post_pread64_hook_def)
next
  case False
  let ?fd = "to_int (arg ctx 0)" and ?n = "ucast (ret ctx) :: UINT32"
  have e: "e = read_effect (fdset s) ?fd (arg ctx 1) (arg ctx 3) ?n"
    using assms(2) False by simp
  have h: "post_pread64_hook ctx s = (if ?fd \<in> fdset s
      then paint_loop (arg ctx 1) (arg ctx 3) (unat ?n) (count_source (ucast ?n) s)
      else clear_loop (arg ctx 1) (unat ?n) s)" using False by (simp add: post_pread64_hook_def Let_def)
  show ?thesis unfolding h e by (rule read_effect_ok[OF assms(1) assms(4,3)[unfolded e]])
qed

lemma post_munmap_hook_ok:
  fixes s :: "'a sys_state_scheme"
  assumes "engine_ok s" "hook_effect Post_munmap_hook K ctx s = Inr e" "effect_ok e" "room (effect_cost e + k) (tables s)"
  shows "\<exists>s'. post_munmap_hook ctx s = Inr s' \<and> achieves e k s s'"
  using assms keep_ok[OF assms(1), of k] achieves_clear[OF assms(1), of k "arg ctx 0" "unat (arg ctx 1)"]
  by (auto simp: post_munmap_hook_def split: if_splits)

lemma post_mmap_hook_ok:
  fixes s :: "'a sys_state_scheme"
  assumes "engine_ok s" "hook_effect Post_mmap_hook K ctx s = Inr e" "effect_ok e" "room (effect_cost e + k) (tables s)"
  shows "\<exists>ctx' s'. post_mmap_hook K ctx s = Inr (ctx', s') \<and> achieves e k s s'"
proof (cases "ret ctx = MAP_FAILED")
  case True
  then show ?thesis using assms keep_ok[OF assms(1), of k] by (auto simp: post_mmap_hook_def)
next
  case False
  define ctx1 where "ctx1 = (if (ucast (arg ctx 3) AND MAP_GROWSDOWN) \<noteq> 0
     then ctx\<lparr>ret := ret ctx + mmap_extent (arg ctx 1) - 1\<rparr> else ctx)"
  let ?fd = "to_int (arg ctx 4)" and ?n = "arg ctx 1"
  have arg1: "arg ctx1 = arg ctx" by (simp add: ctx1_def)
  show ?thesis
  proof (cases "?fd \<ge> 0 \<and> ?fd \<in> fdset s")
    case fd: True
    obtain off where off: "(if mmap_type s then mmap_offset K ?fd (ret ctx1) (arg ctx 5) else Inr (lseek_cur K ?fd)) = Inr off"
      "e = Paint (ret ctx1) off (unat ?n)"
      using assms(2) False fd by (auto simp: Let_def ctx1_def rbind_eq_Inr_iff split: if_splits)
    define s1 where "s1 = (if mmap_type s then s\<lparr>os_log := os_log s @ [Lseek_end ?fd]\<rparr> else s)"
    have k1: "kept s (count_source ?n s1)" "tables (count_source ?n s1) = tables s" "tag_dir (count_source ?n s1) = tag_dir s"
      by (simp_all add: s1_def kept_def count_source_def)
    obtain s' where s': "paint_loop (ret ctx1) off (unat ?n) (count_source ?n s1) = Inr s'" "achieves e k s s'"
      using achieves_paint[OF assms(1) _ _ k1, of "ret ctx1" off "unat ?n" k] assms(3,4) off(2) by auto
    have "post_mmap_hook K ctx s = Inr (ctx1, s')"
      using False fd off(1) s'(1) unfolding post_mmap_hook_def Let_def ctx1_def[symmetric] arg1
      by (auto simp: s1_def split: if_splits)
    with s'(2) show ?thesis by blast
  next
    case fd: False
    have e: "e = Clear (ret ctx1) (unat ?n)"
      using assms(2) False fd by (auto simp: Let_def ctx1_def split: if_splits)
    obtain s' where s': "clear_loop (ret ctx1) (unat ?n) s = Inr s'" "achieves e k s s'"
      using achieves_clear[OF assms(1), of k "ret ctx1" "unat ?n"] assms(3,4) e by auto
    have "post_mmap_hook K ctx s = Inr (ctx1, s')"
      using False fd s'(1) unfolding post_mmap_hook_def Let_def ctx1_def[symmetric] arg1 by auto
    with s'(2) show ?thesis by blast
  qed
qed

lemma fd_hooks_keep:
  "engine_ok s \<Longrightarrow> room k (tables s) \<Longrightarrow> achieves Keep k s (post_open_hook K ctx s)"
  "engine_ok s \<Longrightarrow> room k (tables s) \<Longrightarrow> achieves Keep k s (post_openat_hook K ctx s)"
  "engine_ok s \<Longrightarrow> room k (tables s) \<Longrightarrow> achieves Keep k s (post_dup_hook ctx s)"
  "engine_ok s \<Longrightarrow> room k (tables s) \<Longrightarrow> achieves Keep k s (post_dup2_hook ctx s)"
  "engine_ok s \<Longrightarrow> room k (tables s) \<Longrightarrow> achieves Keep k s (post_dup3_hook ctx s)"
  "engine_ok s \<Longrightarrow> room k (tables s) \<Longrightarrow> achieves Keep k s (post_close_hook ctx s)"
  by (rule achieves_keep; simp add: kept_def Let_def post_open_hook_def post_openat_hook_def post_dup_hook_def
      post_dup2_hook_def post_dup3_hook_def post_close_hook_def)+

lemma call_hook_ok:
  fixes s :: "'a sys_state_scheme"
  assumes "engine_ok s" "builtin h" "hook_effect h K ctx s = Inr e" "effect_ok e" "room (effect_cost e + k) (tables s)"
  shows "\<exists>ctx' s'. call_hook client h K ctx s = Inr (ctx', s') \<and> achieves e k s s'"
proof (cases h)
  case Post_read_hook
  with post_read_hook_ok[OF assms(1) _ assms(4,5)] assms(3) show ?thesis by force
next
  case Post_pread64_hook
  with post_pread64_hook_ok[OF assms(1) _ assms(4,5)] assms(3) show ?thesis by force
next
  case Post_munmap_hook
  with post_munmap_hook_ok[OF assms(1) _ assms(4,5)] assms(3) show ?thesis by force
next
  case Post_mmap_hook
  with post_mmap_hook_ok[OF assms(1) _ assms(4,5)] assms(3) show ?thesis by simp
qed (use assms fd_hooks_keep[OF assms(1)] in auto)

section \<open>The events\<close>

lemma set_syscall_ctx_simps [simp]:
  "fdset (set_syscall_ctx dc ctx s) = fdset s" "mmap_type (set_syscall_ctx dc ctx s) = mmap_type s"
  "filename (set_syscall_ctx dc ctx s) = filename s" "syscall_desc (set_syscall_ctx dc ctx s) = syscall_desc s"
  "sys_state.more (set_syscall_ctx dc ctx s) = sys_state.more s"
  by (simp_all add: set_syscall_ctx_def)

lemma set_syscall_ctx_engine [simp]:
  "tables (set_syscall_ctx dc ctx s) = tables s" "tag_dir (set_syscall_ctx dc ctx s) = tag_dir s"
  "tls_idx (set_syscall_ctx dc ctx s) = tls_idx s" "outputs (set_syscall_ctx dc ctx s) = outputs s"
  "g_pending_func_sinks (set_syscall_ctx dc ctx s) = g_pending_func_sinks s"
  by (simp_all add: set_syscall_ctx_def)

lemma set_syscall_ctx_thread:
  "threads s dc = Some tc \<Longrightarrow> threads (set_syscall_ctx dc ctx s) dc = Some (tc\<lparr>syscall_ctx := ctx\<rparr>)"
  by (simp add: set_syscall_ctx_def)

lemma set_syscall_ctx_get:
  "libdft_get_thread_ctx dc' (set_syscall_ctx dc ctx s) =
     map_option (\<lambda>tc. if dc' = dc then tc\<lparr>syscall_ctx := ctx\<rparr> else tc) (libdft_get_thread_ctx dc' s)"
  by (simp add: libdft_get_thread_ctx_def set_syscall_ctx_def option.map_ident)

lemma set_syscall_ctx_ok:
  "engine_ok s \<Longrightarrow> engine_ok (set_syscall_ctx dc ctx s)" "taint_of (set_syscall_ctx dc ctx s) = taint_of s"
  "dom (threads (set_syscall_ctx dc ctx s)) = dom (threads s)"
proof -
  show "engine_ok s \<Longrightarrow> engine_ok (set_syscall_ctx dc ctx s)"
    unfolding engine_ok_def set_syscall_ctx_get set_syscall_ctx_engine by auto
  show "taint_of (set_syscall_ctx dc ctx s) = taint_of s"
    unfolding taint_of_def set_syscall_ctx_get set_syscall_ctx_engine by (auto simp: fun_eq_iff split: option.splits)
  show "dom (threads (set_syscall_ctx dc ctx s)) = dom (threads s)"
    by (auto simp: set_syscall_ctx_def split: if_splits)
qed

text \<open>The context a system call leaves for its exit event: number, arguments and result.\<close>

definition saved_args :: "os_env \<Rightarrow> syscall_desc_t \<Rightarrow> int \<Rightarrow> syscall_ctx_t \<Rightarrow> syscall_ctx_t" where
  "saved_args K d n ctx = ctx\<lparr>nr := n, arg := (\<lambda>i. if i < nargs d then syscall_get_param K i else arg ctx i)\<rparr>"

lemma save_args_loop:
  assumes "n \<le> SYSCALL_ARG_NUM"
  shows "for_upto n (save_arg K) ctx = Inr (ctx\<lparr>arg := (\<lambda>i. if i < n then syscall_get_param K i else arg ctx i)\<rparr>)"
proof -
  have "\<exists>t. for_upto n (save_arg K) ctx = Inr t \<and>
      t = ctx\<lparr>arg := (\<lambda>i. if i < n then syscall_get_param K i else arg ctx i)\<rparr>"
  proof (rule for_upto_total[where P = "\<lambda>j t. t = ctx\<lparr>arg := (\<lambda>i. if i < j then syscall_get_param K i else arg ctx i)\<rparr>"])
    fix j t assume "j < n" "t = ctx\<lparr>arg := (\<lambda>i. if i < j then syscall_get_param K i else arg ctx i)\<rparr>"
    then show "\<exists>t'. save_arg K j t = Inr t' \<and>
        t' = ctx\<lparr>arg := (\<lambda>i. if i < Suc j then syscall_get_param K i else arg ctx i)\<rparr>"
      using assms by (auto simp: save_arg_def fun_eq_iff less_Suc_eq intro!: syscall_ctx_t.equality)
  qed (simp add: syscall_ctx_t.equality)
  then show ?thesis by simp
qed

definition arg_effects :: "syscall_desc_t \<Rightarrow> syscall_ctx_t \<Rightarrow> nat \<Rightarrow> effect list" where
  "arg_effects d ctx n = map (\<lambda>i. Clear_span (arg ctx i) (map_args d ! i))
     (filter (\<lambda>i. map_args d ! i > 0 \<and> arg ctx i \<noteq> 0) [0..<n])"

definition syscall_effects :: "os_env \<Rightarrow> syscall_desc_t \<Rightarrow> syscall_ctx_t \<Rightarrow> 'a sys_state_scheme \<Rightarrow> effect list res" where
  "syscall_effects K d ctx s =
     (if post d \<noteq> NULL then rbind (hook_effect (post d) K ctx s) (\<lambda>e. Inr [e])
      else Inr (if to_ssize (ret ctx) < 0 then [] else arg_effects d ctx (nargs d)))"

lemma clear_args_ok:
  fixes s :: "'a sys_state_scheme"
  assumes "engine_ok s" "desc_ok d"
  shows "\<exists>s'. clear_args d ctx s = Inr s' \<and> engine_ok s' \<and> tables s' = tables s \<and> kept s s'
     \<and> taint_of s' = fold apply_effect (if to_ssize (ret ctx) < 0 then [] else arg_effects d ctx (nargs d)) (taint_of s)"
proof (cases "to_ssize (ret ctx) < 0")
  case True
  then show ?thesis using assms(1) by (simp add: clear_args_def kept_def)
next
  case False
  let ?P = "\<lambda>j t. engine_ok t \<and> tables t = tables s \<and> kept s t
     \<and> taint_of t = fold apply_effect (arg_effects d ctx j) (taint_of s)"
  have "\<exists>t. for_upto (nargs d) (clear_arg d ctx) s = Inr t \<and> ?P (nargs d) t"
  proof (rule for_upto_total[where P = ?P])
    show "?P 0 s" using assms(1) by (simp add: arg_effects_def kept_def)
    fix j t assume "j < nargs d" and t: "?P j t"
    then have j: "j < SYSCALL_ARG_NUM" using assms(2) by (simp add: desc_ok_def)
    show "\<exists>t'. clear_arg d ctx j t = Inr t' \<and> ?P (Suc j) t'"
    proof (cases "map_args d ! j > 0 \<and> arg ctx j \<noteq> 0")
      case True
      have "map_args d ! j < 2 ^ 32" using assms(2) j by (simp add: desc_ok_def)
      then have n: "unat (of_nat (map_args d ! j) :: UINT32) = map_args d ! j"
        by (simp add: unat_of_nat take_bit_nat_eq_self)
      let ?t = "t\<lparr>tag_dir := file_tagmap_clrn (arg ctx j) (of_nat (map_args d ! j)) (tag_dir t)\<rparr>"
      have "kept s ?t" using t by (simp add: kept_def)
      moreover have "arg_effects d ctx (Suc j) = arg_effects d ctx j @ [Clear_span (arg ctx j) (map_args d ! j)]"
        using True by (simp add: arg_effects_def)
      ultimately have "?P (Suc j) ?t"
        using clrn_ok[of t "arg ctx j" "of_nat (map_args d ! j)"] t unfolding n by simp
      moreover have "clear_arg d ctx j t = Inr ?t" using True j by (simp add: clear_arg_def)
      ultimately show ?thesis by blast
    next
      case False
      then show ?thesis using t j by (auto simp: clear_arg_def arg_effects_def)
    qed
  qed
  with False show ?thesis by (simp add: clear_args_def)
qed

lemma event_pre_syscall_ok:
  fixes s :: "'a sys_state_scheme"
  assumes "cur_thread_ctx dc s = Some tc" "0 \<le> n" "n < SYSCALL_MAX" "d = syscall_desc s ! nat n" "desc_ok d"
    "wants_args d" "pre d = NULL"
  shows "event_pre_syscall client K dc n s = Inr (True, set_syscall_ctx dc (saved_args K d n (syscall_ctx tc)) s)"
  using assms save_args_loop[of "nargs d" K "(syscall_ctx tc)\<lparr>nr := n\<rparr>"]
  by (simp add: event_pre_syscall_def desc_ok_def Let_def saved_args_def cong: if_cong)

lemma kept_dom: "kept s s' \<Longrightarrow> dom (threads s') = dom (threads s)"
  by (simp add: kept_def)

lemma run_syscall_ok:
  fixes s :: "'a sys_state_scheme"
  assumes s: "engine_ok s" "cur_thread_ctx dc s = Some tc" and n: "event_filter_syscall n s"
    and d: "d = syscall_desc s ! nat n" "desc_ok d" "pre d = NULL" "post d = NULL \<or> builtin (post d)"
    and ctx: "ctx = (saved_args K d n (syscall_ctx tc))\<lparr>ret := syscall_get_result K'\<rparr>"
    and e: "syscall_effects K' d ctx s = Inr es" "list_all effect_ok es" "room (sum_list (map effect_cost es) + k) (tables s)"
  shows "\<exists>s'. run_syscall client K K' dc n s = Inr s' \<and> engine_ok s' \<and> room k (tables s')
     \<and> taint_of s' = fold apply_effect es (taint_of s) \<and> dom (threads s') = dom (threads s)
     \<and> tls_idx s' = tls_idx s \<and> syscall_desc s' = syscall_desc s \<and> outputs s' = outputs s
     \<and> extends (tables s) (tables s')
     \<and> g_pending_func_sinks s' = g_pending_func_sinks s \<and> sys_state.more s' = sys_state.more s"
proof -
  have n': "0 \<le> n" "n < SYSCALL_MAX" "wants_args d"
    using n d(1) by (simp_all add: event_filter_syscall_def split: if_splits)
  define s1 where "s1 = set_syscall_ctx dc (saved_args K d n (syscall_ctx tc)) s"
  define s2 where "s2 = set_syscall_ctx dc ctx s1"
  have pre: "event_pre_syscall client K dc n s = Inr (True, s1)"
    using event_pre_syscall_ok[OF s(2) n'(1,2) d(1,2) n'(3) d(3)] by (simp add: s1_def)
  have t1: "threads s1 dc = Some (tc\<lparr>syscall_ctx := saved_args K d n (syscall_ctx tc)\<rparr>)"
    using s(2) by (simp add: s1_def set_syscall_ctx_thread cur_thread_ctx_def)
  have s2: "engine_ok s2" "taint_of s2 = taint_of s" "dom (threads s2) = dom (threads s)" "tables s2 = tables s"
    "tls_idx s2 = tls_idx s" "syscall_desc s2 = syscall_desc s" "fdset s2 = fdset s" "mmap_type s2 = mmap_type s"
    "outputs s2 = outputs s" "g_pending_func_sinks s2 = g_pending_func_sinks s" "sys_state.more s2 = sys_state.more s"
    using s(1) by (simp_all add: s2_def s1_def set_syscall_ctx_ok)
  have post: "event_post_syscall client K' dc n s1 =
      (if post d \<noteq> NULL then rbind (call_hook client (post d) K' ctx s2) (\<lambda>(ctx', s'). Inr (set_syscall_ctx dc ctx' s'))
       else clear_args d ctx s2)"
    using t1 n' d(1) by (simp add: event_post_syscall_def cur_thread_ctx_def Let_def saved_args_def ctx s2_def s1_def)
  have run: "run_syscall client K K' dc n s = event_post_syscall client K' dc n s1"
    using n pre by (simp add: run_syscall_def)
  show ?thesis
  proof (cases "post d = NULL")
    case True
    then obtain s' where "clear_args d ctx s2 = Inr s'" "engine_ok s'" "tables s' = tables s2" "kept s2 s'"
      "taint_of s' = fold apply_effect es (taint_of s2)"
      using clear_args_ok[OF s2(1) d(2), of ctx] e(1) by (auto simp: syscall_effects_def)
    then show ?thesis using True s2 e(3) kept_dom[of s2 s'] unfolding run post by (auto simp: kept_def room_def)
  next
    case False
    then obtain e1 where e1: "hook_effect (post d) K' ctx s = Inr e1" "es = [e1]"
      using e(1) by (auto simp: syscall_effects_def rbind_eq_Inr_iff)
    then have "hook_effect (post d) K' ctx s2 = Inr e1"
      using hook_effect_cong[OF s2(7,8)] by simp
    then obtain ctx' s' where "call_hook client (post d) K' ctx s2 = Inr (ctx', s')" "achieves e1 k s2 s'"
      using call_hook_ok[OF s2(1), of "post d" K' ctx e1 k client] False d(4) e e1(2) s2(4) by auto
    then show ?thesis using False s2 e1(2) unfolding run post by (auto simp: achieves_def set_syscall_ctx_ok kept_def)
  qed
qed

section \<open>Facts of the descriptor table\<close>

lemma table_hooks:
  "list_all (\<lambda>d. pre d = NULL \<and> (post d = NULL \<or> builtin (post d))) (syscall_desc_table Z)"
  by (simp add: syscall_desc_table_def syscall_desc_0_def syscall_desc_1_def syscall_desc_2_def syscall_desc_3_def
      syscall_desc_4_def desc_def)

lemma table_ok: "(\<And>t. Z t < 2 ^ 32) \<Longrightarrow> list_all desc_ok (syscall_desc_table Z)"
  using table_part_ok[of Z] by (simp add: syscall_desc_table_def)

lemma table_entry:
  assumes "syscall_desc s = syscall_desc_table Z" "\<And>t. Z t < 2 ^ 32" "event_filter_syscall n s" "d = syscall_desc s ! nat n"
  shows "desc_ok d" "pre d = NULL" "post d = NULL \<or> builtin (post d)"
proof -
  have "0 \<le> n" "n < 316" using assms(3) by (simp_all add: event_filter_syscall_def SYSCALL_MAX_def split: if_splits)
  then have "d \<in> set (syscall_desc_table Z)" using assms(1,4) by (simp add: table_length)
  with table_ok[of Z] table_hooks[of Z] assms(2)
  show "desc_ok d" "pre d = NULL" "post d = NULL \<or> builtin (post d)" by (auto simp: list_all_iff)
qed

text \<open>A sample source state: the sample engine with descriptor 5 tracked; \<open>sample_os\<close> answers for a read.\<close>

definition sample_sys :: sys_state where
  "sample_sys =
     \<lparr>tables = tables sample_engine, tag_dir = tag_dir sample_engine, tls_idx = 0, threads = threads sample_engine,
      out_file = None, out_lea_file = None, limit_offset = 30, g_opcode_sinks = (\<lambda>_. []), g_pc_ranges = [],
      g_pending_func_sinks = [], sink_log = [], fdset = {5}, filename = ''in.bin'', flag = 1, mmap_type = False,
      g_src_events = 0, g_src_bytes = 0, syscall_desc = syscall_desc_table (\<lambda>_. 16), os_log = []\<rparr>"

definition sample_os :: "UINT64 list \<Rightarrow> UINT64 \<Rightarrow> UINT64 \<Rightarrow> os_env" where
  "sample_os args result pos =
     \<lparr>syscall_get_param = (\<lambda>i. if i < length args then args ! i else 0), syscall_get_result = result,
      lseek_cur = (\<lambda>_. pos), lseek_end = (\<lambda>_. 0), readlink = (\<lambda>_. Inr ''/tmp/in.bin''), strerror = (\<lambda>_. []),
      os_stat = (\<lambda>_. Some (False, 100)), pread4 = (\<lambda>_. []), app_byte = (\<lambda>_. None)\<rparr>"

lemma sample_sys_ok:
  "engine_ok sample_sys" "cur_thread_ctx 7 sample_sys = Some sample_thread" "taint_of sample_sys = taint_of sample_engine"
  "syscall_desc sample_sys = syscall_desc_table (\<lambda>_. 16)"
proof -
  have g: "libdft_get_thread_ctx dc sample_sys = libdft_get_thread_ctx dc sample_engine" for dc
    by (simp add: libdft_get_thread_ctx_def sample_sys_def sample_engine_def)
  have t: "tables sample_sys = tables sample_engine" "tag_dir sample_sys = tag_dir sample_engine" by (simp_all add: sample_sys_def)
  show "engine_ok sample_sys" using sample_engine_ok(1) unfolding engine_ok_def g t .
  show "taint_of sample_sys = taint_of sample_engine" unfolding taint_of_def g t ..
  show "cur_thread_ctx 7 sample_sys = Some sample_thread" by (simp add: cur_thread_ctx_def sample_sys_def sample_engine_def)
qed (simp add: sample_sys_def)

section \<open>Properties\<close>



text \<open>
  C24. The descriptor table. It has one entry for every system call number below \<open>SYSCALL_MAX\<close>; every
  entry has at most six arguments and six widths, names a width only for an argument that the call has
  and only when the call returns values in its arguments, has widths that the 32-bit length of the clearing
  loop can hold, and saves the arguments whenever a hook would read them. Installing and removing
  hooks keeps this.
\<close>

theorem descriptor_invariant:
  assumes "\<And>t. Z t < 2 ^ 32"
  shows "int (length (syscall_desc_table Z)) = SYSCALL_MAX \<and> list_all desc_ok (syscall_desc_table Z)
     \<and> (desc_ok d \<longrightarrow> list_all (\<lambda>dp. pred_option desc_ok (snd dp))
          [syscall_set_pre (Some d) f, syscall_set_post (Some d) f, syscall_clr_pre (Some d), syscall_clr_post (Some d)])"
  using table_ok[OF assms]
  by (simp add: table_length SYSCALL_MAX_def)
     (simp add: syscall_set_pre_def syscall_set_post_def syscall_clr_pre_def syscall_clr_post_def desc_ok_def Let_def)

theorem descriptor_invariant_witness:
  "int (length (syscall_desc_table (\<lambda>_. 16))) = SYSCALL_MAX \<and> list_all desc_ok (syscall_desc_table (\<lambda>_. 16))"
  using descriptor_invariant[of "\<lambda>_. 16"] by simp

text \<open>
  Installing a hook in a free slot and removing it again gives back the descriptor, except that the flag
  to save arguments ends as it must be for the remaining hook; a null descriptor or a null hook is refused
  and nothing changes.
\<close>

theorem hook_install_remove:
  assumes "f \<noteq> NULL" "post d = NULL"
  shows "syscall_clr_post (snd (syscall_set_post (Some d) f)) = (0, Some (d\<lparr>save_args := if pre d = NULL then 0 else 1\<rparr>))
     \<and> syscall_set_post (Some d) NULL = (1, Some d) \<and> syscall_set_post None f = (1, None)"
  using assms by (simp add: syscall_set_post_def syscall_clr_post_def Let_def)

theorem hook_install_remove_witness:
  "syscall_clr_post (snd (syscall_set_post (Some (desc 1 0 0 [0, 0, 0, 0, 0, 0] NULL NULL)) (Client_hook 0)))
     = (0, Some (desc 1 0 0 [0, 0, 0, 0, 0, 0] NULL NULL))"
proof -
  have "post (desc 1 0 0 [0, 0, 0, 0, 0, 0] NULL NULL) = NULL" by (simp add: desc_def)
  from hook_install_remove[OF _ this, of "Client_hook 0"] show ?thesis by (simp add: desc_def)
qed

lemma bit_mask_fold:
  fixes m :: UINT32
  assumes "\<And>r. r \<in> set rows \<Longrightarrow> r < 32"
  shows "bit (fold (\<lambda>row m. if P row then m OR push_bit row 1 else m) rows m) r \<longleftrightarrow> bit m r \<or> r \<in> set rows \<and> P r"
  using assms
proof (induction rows arbitrary: m)
  case (Cons row rows)
  have "bit (m OR push_bit row 1) r \<longleftrightarrow> bit m r \<or> r = row"
    using Cons.prems[of row] by (auto simp: bit_simps)
  with Cons show ?case by auto
qed simp

text \<open>
  C27. The register mask is exact: in a well-formed engine, bit r of the mask of a thread is set if and only
  if r is the row of one of the sixteen registers and one of its eight bytes carries a file offset.
\<close>

theorem gpr_mask_exact:
  assumes "engine_ok s" "libdft_get_thread_ctx dc s = Some tc"
  shows "bit (libdft_compute_gpr_mask tc) r \<longleftrightarrow>
     DFT_REG_RDI \<le> r \<and> r \<le> DFT_REG_R15 \<and> (\<exists>b < 8. treg (taint_of s) dc r b \<noteq> {})"
proof -
  have T: "tables_ok (tables s)" "\<And>row b. valid_tag (tables s) (gpr_file tc row b)"
    using assms by (auto simp: engine_ok_def)
  have "gpr_file tc r b \<noteq> 0 \<longleftrightarrow> treg (taint_of s) dc r b \<noteq> {}" for b
    using label_set_inject[OF T(1) T(2)[of r b], of 0] label_set_0[OF T(1)] assms(2) by (simp add: taint_of_def)
  then have "row_tainted tc r \<longleftrightarrow> (\<exists>b < 8. treg (taint_of s) dc r b \<noteq> {})"
    by (auto simp: row_tainted_def list_ex_iff)
  moreover have rows: "set [DFT_REG_RDI..<Suc DFT_REG_R15] = {DFT_REG_RDI..DFT_REG_R15}"
    by (simp only: set_upt atLeastLessThanSuc_atLeastAtMost)
  have "bit (libdft_compute_gpr_mask tc) r \<longleftrightarrow> bit (0 :: UINT32) r \<or> r \<in> {DFT_REG_RDI..DFT_REG_R15} \<and> row_tainted tc r"
    unfolding libdft_compute_gpr_mask_def rows[symmetric] by (rule bit_mask_fold) (simp only: rows, simp add: DFT_REG_R15_def)
  ultimately show ?thesis by simp
qed

theorem gpr_mask_exact_witness: "bit (libdft_compute_gpr_mask sample_thread) 10"
proof -
  have "libdft_get_thread_ctx 7 sample_engine = Some sample_thread" by (simp add: sample_get)
  from gpr_mask_exact[OF sample_engine_ok(1) this, of 10] show ?thesis
    using sample_taint(1) by (auto simp: DFT_REG_RAX_def DFT_REG_RDI_def DFT_REG_R15_def intro!: exI[of _ 0])
qed

end
