(* ===== verification/Tag_Api.thy ===== *)
theory Tag_Api
  imports Sources Instrumentation
begin

text \<open>
  The public interface for clients: tags and shadow accesses of \<^verbatim>\<open>src/src/api_tag.cpp\<close>, the source
  functions of \<^verbatim>\<open>src/src/api_sources.cpp\<close>, the accessors of the sink contexts of
  \<^verbatim>\<open>src/src/api_sinks.cpp\<close>, and the names that \<^verbatim>\<open>src/include/libdft_dr/libdft64_compat.h\<close> keeps for older
  clients. A client's visitor is a function from its own state to the answer (go on or stop) and its new
  state. Messages to the standard error stream are left out.
\<close>

section \<open>Tags\<close>

text \<open>The class \<^verbatim>\<open>libdft_dr::tag_t\<close>: one private id.\<close>

datatype pub_tag = from_raw (raw: UINT32)

definition empty_tag :: pub_tag where "empty_tag = from_raw 0"

definition tag_empty :: "pub_tag \<Rightarrow> bool" where
  "tag_empty t = (raw t = 0)"

definition to_internal :: "pub_tag \<Rightarrow> tag_t" where
  "to_internal t = raw t"

definition to_public :: "tag_t \<Rightarrow> pub_tag" where
  "to_public t = from_raw t"

definition make_tag :: "UINT32 \<Rightarrow> 'a engine_scheme \<Rightarrow> pub_tag \<times> 'a engine_scheme" where
  "make_tag label s = (let (t, T) = dft_label_set label (tables s) in (to_public t, s\<lparr>tables := T\<rparr>))"

definition combine :: "pub_tag \<Rightarrow> pub_tag \<Rightarrow> 'a engine_scheme \<Rightarrow> (pub_tag \<times> 'a engine_scheme) res" where
  "combine a b s = rbind (combine_tags (to_internal a) (to_internal b) s) (\<lambda>(t, s'). Inr (to_public t, s'))"

definition enumerate :: "pub_tag \<Rightarrow> (UINT32 \<Rightarrow> 'u \<Rightarrow> bool \<times> 'u) \<Rightarrow> 'u \<Rightarrow> 'a engine_scheme \<Rightarrow> 'u" where
  "enumerate t fn u s = snd (tag_walk (to_internal t) fn u (tables s))"

definition to_string :: "pub_tag \<Rightarrow> 'a engine_scheme \<Rightarrow> string" where
  "to_string t s = tag_sprint (to_internal t) (tables s)"

section \<open>Memory\<close>

definition get_mem_tag :: "ADDRINT \<Rightarrow> 'a engine_scheme \<Rightarrow> pub_tag res" where
  "get_mem_tag va s = rbind (mem_rd va s) (\<lambda>t. Inr (to_public t))"

definition set_mem_tag :: "ADDRINT \<Rightarrow> pub_tag \<Rightarrow> 'a engine_scheme \<Rightarrow> 'a engine_scheme" where
  "set_mem_tag va t s = mem_wr va (to_internal t) s"

text \<open>The length has 64 bits and is converted to the 32-bit parameter of \<open>file_tagmap_clrn\<close>.\<close>

definition clear_mem :: "ADDRINT \<Rightarrow> UINT64 \<Rightarrow> 'a engine_scheme \<Rightarrow> 'a engine_scheme" where
  "clear_mem va n s = s\<lparr>tag_dir := file_tagmap_clrn va (ucast n) (tag_dir s)\<rparr>"

definition union_step :: "ADDRINT \<Rightarrow> nat \<Rightarrow> tag_t \<times> 'a engine_scheme \<Rightarrow> (tag_t \<times> 'a engine_scheme) res" where
  "union_step va i st = (case st of (acc, s) \<Rightarrow> rbind (mem_rd (va + of_nat i) s) (\<lambda>b. combine_tags acc b s))"

definition get_mem_tag_range :: "ADDRINT \<Rightarrow> nat \<Rightarrow> 'a engine_scheme \<Rightarrow> (pub_tag \<times> 'a engine_scheme) res" where
  "get_mem_tag_range va n s =
     rbind (for_upto n (union_step va) (0, s)) (\<lambda>(acc, s'). Inr (to_public acc, s'))"

section \<open>Registers\<close>

definition reg_span :: "dr_regs \<Rightarrow> reg_id \<Rightarrow> (nat \<times> nat \<times> nat) option" where
  "reg_span R reg =
     (if \<not> reg_is_gpr R reg then None
      else
        case (case reg_to_pointer_sized R reg of
                REG_64 RDI \<Rightarrow> Some DFT_REG_RDI
              | REG_64 RSI \<Rightarrow> Some DFT_REG_RSI
              | REG_64 RBP \<Rightarrow> Some DFT_REG_RBP
              | REG_64 RSP \<Rightarrow> Some DFT_REG_RSP
              | REG_64 RAX \<Rightarrow> Some DFT_REG_RAX
              | REG_64 RBX \<Rightarrow> Some DFT_REG_RBX
              | REG_64 RCX \<Rightarrow> Some DFT_REG_RCX
              | REG_64 RDX \<Rightarrow> Some DFT_REG_RDX
              | REG_64 R8 \<Rightarrow> Some DFT_REG_R8
              | REG_64 R9 \<Rightarrow> Some DFT_REG_R9
              | REG_64 R10 \<Rightarrow> Some DFT_REG_R10
              | REG_64 R11 \<Rightarrow> Some DFT_REG_R11
              | REG_64 R12 \<Rightarrow> Some DFT_REG_R12
              | REG_64 R13 \<Rightarrow> Some DFT_REG_R13
              | REG_64 R14 \<Rightarrow> Some DFT_REG_R14
              | REG_64 R15 \<Rightarrow> Some DFT_REG_R15
              | _ \<Rightarrow> None) of
          None \<Rightarrow> None
        | Some idx \<Rightarrow>
            if reg = REG_8H RAX \<or> reg = REG_8H RBX \<or> reg = REG_8H RCX \<or> reg = REG_8H RDX
            then Some (idx, 1, 1)
            else Some (idx, 0, reg_bytes R reg))"

definition cur_ctx :: "dr_env \<Rightarrow> 'a engine_scheme \<Rightarrow> thread_ctx_t option" where
  "cur_ctx E s = libdft_get_thread_ctx (cur_drcontext E) s"

definition get_reg_tag :: "dr_regs \<Rightarrow> dr_env \<Rightarrow> reg_id \<Rightarrow> 'a engine_scheme \<Rightarrow> pub_tag res" where
  "get_reg_tag R E reg s =
     (case reg_span R reg of
        None \<Rightarrow> Inr empty_tag
      | Some (row, start, n) \<Rightarrow>
          (case cur_ctx E s of
             None \<Rightarrow> Inr empty_tag
           | Some tc \<Rightarrow> rbind (gpr_rd (cur_drcontext E) row start s) (\<lambda>t. Inr (to_public t))))"

definition get_reg_tag_byte :: "dr_regs \<Rightarrow> dr_env \<Rightarrow> reg_id \<Rightarrow> nat \<Rightarrow> 'a engine_scheme \<Rightarrow> pub_tag res" where
  "get_reg_tag_byte R E reg byte_idx s =
     (case reg_span R reg of
        None \<Rightarrow> Inr empty_tag
      | Some (row, start, n) \<Rightarrow>
          if byte_idx \<ge> n then Inr empty_tag
          else
            (case cur_ctx E s of
               None \<Rightarrow> Inr empty_tag
             | Some tc \<Rightarrow> rbind (gpr_rd (cur_drcontext E) row (start + byte_idx) s) (\<lambda>t. Inr (to_public t))))"

definition set_reg_tag :: "dr_regs \<Rightarrow> dr_env \<Rightarrow> reg_id \<Rightarrow> pub_tag \<Rightarrow> 'a engine_scheme \<Rightarrow> 'a engine_scheme res" where
  "set_reg_tag R E reg t s =
     (case reg_span R reg of
        None \<Rightarrow> Inr s
      | Some (row, start, n) \<Rightarrow>
          (case cur_ctx E s of
             None \<Rightarrow> Inr s
           | Some tc \<Rightarrow> for_upto n (\<lambda>k. gpr_wr (cur_drcontext E) row (start + k) (to_internal t)) s))"

definition set_reg_tag_byte :: "dr_regs \<Rightarrow> dr_env \<Rightarrow> reg_id \<Rightarrow> nat \<Rightarrow> pub_tag \<Rightarrow> 'a engine_scheme \<Rightarrow> 'a engine_scheme res" where
  "set_reg_tag_byte R E reg byte_idx t s =
     (case reg_span R reg of
        None \<Rightarrow> Inr s
      | Some (row, start, n) \<Rightarrow>
          if byte_idx \<ge> n then Inr s
          else
            (case cur_ctx E s of
               None \<Rightarrow> Inr s
             | Some tc \<Rightarrow> gpr_wr (cur_drcontext E) row (start + byte_idx) (to_internal t) s))"

definition reg_union_step :: "nat \<Rightarrow> nat \<Rightarrow> nat \<Rightarrow> nat \<Rightarrow> tag_t \<times> 'a engine_scheme \<Rightarrow> (tag_t \<times> 'a engine_scheme) res" where
  "reg_union_step dc row start k st =
     (case st of (acc, s) \<Rightarrow> rbind (gpr_rd dc row (start + k) s) (\<lambda>b. combine_tags acc b s))"

definition get_reg_tag_range :: "dr_regs \<Rightarrow> dr_env \<Rightarrow> reg_id \<Rightarrow> 'a engine_scheme \<Rightarrow> (pub_tag \<times> 'a engine_scheme) res" where
  "get_reg_tag_range R E reg s =
     (case reg_span R reg of
        None \<Rightarrow> Inr (empty_tag, s)
      | Some (row, start, n) \<Rightarrow>
          (case cur_ctx E s of
             None \<Rightarrow> Inr (empty_tag, s)
           | Some tc \<Rightarrow>
               rbind (for_upto n (reg_union_step (cur_drcontext E) row start) (0, s)) (\<lambda>(acc, s'). Inr (to_public acc, s'))))"

section \<open>Sources\<close>

record file_source_options_t =
  opt_filename :: string
  max_bytes :: UINT64
  track_dups :: bool

definition register_file_source :: "file_source_options_t \<Rightarrow> 'a sys_state_scheme \<Rightarrow> 'a sys_state_scheme" where
  "register_file_source opts s = s\<lparr>filename := opt_filename opts, flag := 1\<rparr>"

definition paint_range :: "ADDRINT \<Rightarrow> nat \<Rightarrow> UINT32 \<Rightarrow> 'a engine_scheme \<Rightarrow> 'a engine_scheme res" where
  "paint_range va n label =
     for_upto n (\<lambda>i s. let (t, T) = dft_label_set label (tables s)
                        in Inr (mem_wr (va + of_nat i) t (s\<lparr>tables := T\<rparr>)))"

definition clear_range :: "ADDRINT \<Rightarrow> UINT64 \<Rightarrow> 'a engine_scheme \<Rightarrow> 'a engine_scheme" where
  "clear_range va n s = s\<lparr>tag_dir := file_tagmap_clrn va (ucast n) (tag_dir s)\<rparr>"

text \<open>The two registrations of client hooks print a message and do nothing else.\<close>

definition register_pre_syscall_hook :: "int \<Rightarrow> nat \<Rightarrow> 'a sys_state_scheme \<Rightarrow> 'a sys_state_scheme" where
  "register_pre_syscall_hook sysno cb s = s"

definition register_post_syscall_hook :: "int \<Rightarrow> nat \<Rightarrow> 'a sys_state_scheme \<Rightarrow> 'a sys_state_scheme" where
  "register_post_syscall_hook sysno cb s = s"

section \<open>Accessors of sink contexts\<close>

fun visit_operands :: "(int \<Rightarrow> bool \<Rightarrow> pub_tag \<Rightarrow> 'u \<Rightarrow> bool \<times> 'u) \<Rightarrow> int \<Rightarrow> pub_tag list \<Rightarrow> 'u \<Rightarrow> 'u" where
  "visit_operands fn i [] u = u"
| "visit_operands fn i (t # ts) u =
     (case fn i False t u of (go, u') \<Rightarrow> if \<not> go then u' else visit_operands fn (i + 1) ts u')"

definition for_each_operand_tag :: "(int \<Rightarrow> bool \<Rightarrow> pub_tag \<Rightarrow> 'u \<Rightarrow> bool \<times> 'u) \<Rightarrow> sink_payload \<Rightarrow> 'u \<Rightarrow> 'u" where
  "for_each_operand_tag fn pl u = visit_operands fn 0 (map to_public (operand_tags pl)) u"

definition legacy_record :: "sink_payload \<Rightarrow> string list" where
  "legacy_record pl = legacy_fields pl"

text \<open>The accessors of a function sink; \<open>args\<close> is \<^verbatim>\<open>drwrap_get_arg\<close>.\<close>

definition arg_tag :: "nat \<Rightarrow> pub_tag" where
  "arg_tag idx = empty_tag"

definition arg_pointed_tag :: "(nat \<Rightarrow> ADDRINT) \<Rightarrow> nat \<Rightarrow> nat \<Rightarrow> 'a engine_scheme \<Rightarrow> (pub_tag \<times> 'a engine_scheme) res" where
  "arg_pointed_tag args idx n s =
     (if n = 0 then Inr (empty_tag, s)
      else
        let p = args idx
        in if p = 0 then Inr (empty_tag, s)
           else rbind (for_upto n (union_step p) (0, s)) (\<lambda>(acc, s'). Inr (from_raw acc, s')))"

fun any_tainted :: "ADDRINT \<Rightarrow> nat \<Rightarrow> nat \<Rightarrow> 'a engine_scheme \<Rightarrow> bool res" where
  "any_tainted p i 0 s = Inr False"
| "any_tainted p i (Suc n) s =
     rbind (mem_rd (p + of_nat i) s) (\<lambda>b. if b \<noteq> 0 then Inr True else any_tainted p (Suc i) n s)"

definition arg_pointed_is_tainted :: "(nat \<Rightarrow> ADDRINT) \<Rightarrow> nat \<Rightarrow> nat \<Rightarrow> 'a engine_scheme \<Rightarrow> bool res" where
  "arg_pointed_is_tainted args idx n s =
     (if n = 0 then Inr False
      else let p = args idx in if p = 0 then Inr False else any_tainted p 0 n s)"

fun visit_args :: "(nat \<Rightarrow> pub_tag \<Rightarrow> 'u \<Rightarrow> bool \<times> 'u) \<Rightarrow> nat \<Rightarrow> nat \<Rightarrow> 'u \<Rightarrow> 'u" where
  "visit_args fn i 0 u = u"
| "visit_args fn i (Suc n) u =
     (case fn i (arg_tag i) u of (go, u') \<Rightarrow> if \<not> go then u' else visit_args fn (Suc i) n u')"

definition for_each_arg_tag :: "nat \<Rightarrow> (nat \<Rightarrow> pub_tag \<Rightarrow> 'u \<Rightarrow> bool \<times> 'u) \<Rightarrow> 'u \<Rightarrow> 'u" where
  "for_each_arg_tag n_args fn u = visit_args fn 0 n_args u"

section \<open>Names for older clients\<close>

definition compat_tag_combine :: "pub_tag \<Rightarrow> pub_tag \<Rightarrow> 'a engine_scheme \<Rightarrow> (pub_tag \<times> 'a engine_scheme) res" where
  "compat_tag_combine lhs rhs s = combine lhs rhs s"

definition compat_tag_count :: "pub_tag \<Rightarrow> bool" where
  "compat_tag_count t = (\<not> tag_empty t)"

definition compat_tag_sprint :: "pub_tag \<Rightarrow> 'a engine_scheme \<Rightarrow> string" where
  "compat_tag_sprint t s = to_string t s"

definition compat_setb_with_tag :: "ADDRINT \<Rightarrow> pub_tag \<Rightarrow> 'a engine_scheme \<Rightarrow> 'a engine_scheme" where
  "compat_setb_with_tag va t s = set_mem_tag va t s"

definition compat_setb :: "ADDRINT \<Rightarrow> UINT32 \<Rightarrow> 'a engine_scheme \<Rightarrow> 'a engine_scheme" where
  "compat_setb va offset s = (let (t, s') = make_tag offset s in set_mem_tag va t s')"

definition compat_clrb :: "ADDRINT \<Rightarrow> 'a engine_scheme \<Rightarrow> 'a engine_scheme" where
  "compat_clrb va s = clear_mem va 1 s"

definition compat_clrn :: "ADDRINT \<Rightarrow> UINT64 \<Rightarrow> 'a engine_scheme \<Rightarrow> 'a engine_scheme" where
  "compat_clrn va n s = clear_mem va n s"

definition compat_getb :: "ADDRINT \<Rightarrow> 'a engine_scheme \<Rightarrow> pub_tag res" where
  "compat_getb va s = get_mem_tag va s"

definition compat_testb :: "ADDRINT \<Rightarrow> 'a engine_scheme \<Rightarrow> bool res" where
  "compat_testb va s = rbind (get_mem_tag va s) (\<lambda>t. Inr (\<not> tag_empty t))"

definition R64TAG :: "dr_regs \<Rightarrow> dr_env \<Rightarrow> reg_id \<Rightarrow> 'a engine_scheme \<Rightarrow> pub_tag res" where
  "R64TAG R E r s = get_reg_tag R E r s"

definition R32TAG :: "dr_regs \<Rightarrow> dr_env \<Rightarrow> reg_id \<Rightarrow> 'a engine_scheme \<Rightarrow> pub_tag res" where
  "R32TAG R E r s = get_reg_tag R E r s"

definition R16TAG :: "dr_regs \<Rightarrow> dr_env \<Rightarrow> reg_id \<Rightarrow> 'a engine_scheme \<Rightarrow> pub_tag res" where
  "R16TAG R E r s = get_reg_tag R E r s"

definition R8TAG :: "dr_regs \<Rightarrow> dr_env \<Rightarrow> reg_id \<Rightarrow> 'a engine_scheme \<Rightarrow> pub_tag res" where
  "R8TAG R E r s = get_reg_tag R E r s"

section \<open>Spans and loops\<close>

lemma row_of_less: "row_of g < GRP_NUM"
  by (cases g) (simp_all add: GRP_NUM_def reg_row_defs)

lemma reg_span_eq:
  "reg_span R reg =
     (if \<not> reg_is_gpr R reg then None
      else case reg_to_pointer_sized R reg of
             REG_64 g \<Rightarrow> Some (if is_high_byte reg then (row_of g, 1, 1) else (row_of g, 0, reg_bytes R reg))
           | _ \<Rightarrow> None)"
proof (cases "reg_to_pointer_sized R reg")
  case (REG_64 g)
  then show ?thesis by (cases g) (simp_all add: reg_span_def is_high_byte_def)
qed (simp_all add: reg_span_def)

lemma reg_span_bounds:
  assumes "dr_regs_ok R" "reg_span R reg = Some (row, start, n)"
  shows "row < GRP_NUM" "start + n \<le> 8" "0 < n"
proof -
  obtain g where g: "reg_to_pointer_sized R reg = REG_64 g" "reg_is_gpr R reg"
    and eq: "(row, start, n) = (if is_high_byte reg then (row_of g, 1, 1) else (row_of g, 0, reg_bytes R reg))"
    using assms(2) by (auto simp: reg_span_eq split: if_splits reg_id.splits)
  show "row < GRP_NUM" using eq row_of_less[of g] by (auto split: if_splits)
  have "0 < reg_bytes R reg" "reg_bytes R reg \<le> 8" using assms(1) g(2) by (cases reg; auto simp: dr_regs_ok_def)+
  then show "start + n \<le> 8" "0 < n" using eq by (auto split: if_splits)
qed

lemma gpr_wr_loop:
  assumes "libdft_get_thread_ctx dc s = Some tc" "row < GRP_NUM" "start + n \<le> TAGS_PER_GPR"
  shows "\<exists>s'. for_upto n (\<lambda>k. gpr_wr dc row (start + k) t) s = Inr s' \<and> libdft_get_thread_ctx dc s' =
     Some (tc\<lparr>gpr_file := (\<lambda>r b. if r = row \<and> start \<le> b \<and> b < start + n then t else gpr_file tc r b)\<rparr>)"
proof (rule for_upto_total[where P = "\<lambda>j u. libdft_get_thread_ctx dc u =
     Some (tc\<lparr>gpr_file := (\<lambda>r b. if r = row \<and> start \<le> b \<and> b < start + j then t else gpr_file tc r b)\<rparr>)"])
  show "libdft_get_thread_ctx dc s =
     Some (tc\<lparr>gpr_file := (\<lambda>r b. if r = row \<and> start \<le> b \<and> b < start + 0 then t else gpr_file tc r b)\<rparr>)"
  proof -
    have "(\<lambda>r b. if r = row \<and> start \<le> b \<and> b < start + 0 then t else gpr_file tc r b) = gpr_file tc"
      by (auto simp: fun_eq_iff)
    with assms(1) show ?thesis by simp
  qed
next
  fix j u
  let ?f = "\<lambda>j r b. if r = row \<and> start \<le> b \<and> b < start + j then t else gpr_file tc r b"
  assume j: "j < n" and u: "libdft_get_thread_ctx dc u = Some (tc\<lparr>gpr_file := ?f j\<rparr>)"
  have f: "(?f j)(row := (?f j row)(start + j := t)) = ?f (Suc j)" by (auto simp: fun_eq_iff)
  have "tls_idx u \<noteq> -1" using u by (auto simp: libdft_get_thread_ctx_def)
  then show "\<exists>u'. gpr_wr dc row (start + j) t u = Inr u' \<and> libdft_get_thread_ctx dc u' = Some (tc\<lparr>gpr_file := ?f (Suc j)\<rparr>)"
    using u j assms(2,3) f by (simp add: gpr_wr_def libdft_get_thread_ctx_def)
qed

lemma mem_union_loop: "for_upto n (union_step va) st = union_loop 0 n (\<lambda>i. cell_rd dc (CMem (va + of_nat i))) st"
  by (simp add: for_upto_def union_loop_def union_step_def [abs_def])

lemma reg_union_loop: "for_upto n (reg_union_step dc row start) st = union_loop 0 n (\<lambda>i. cell_rd dc (CReg row (start + i))) st"
  by (simp add: for_upto_def union_loop_def reg_union_step_def [abs_def])

lemma union_loop_from_0:
  assumes "engine_ok s" "live dc s" "room n (tables s)" "\<And>i. i < n \<Longrightarrow> readable (x i)"
  shows "\<exists>u s'. union_loop 0 n (\<lambda>i. cell_rd dc (x i)) (0, s) = Inr (u, s') \<and> taint_of s' = taint_of s
     \<and> label_set (tables s') u = (\<Union>i < n. tget dc (x i) (taint_of s))"
proof -
  have z: "valid_tag (tables s) 0" "label_set (tables s) 0 = {}" using assms(1) label_set_0 by (auto simp: engine_ok_def)
  have r: "room (n + 0) (tables s)" using assms(3) by simp
  obtain u s' where "union_loop 0 n (\<lambda>i. cell_rd dc (x i)) (0, s) = Inr (u, s')" "engine_ok s'" "live dc s'"
    "room 0 (tables s')" "side s' = side s" "taint_of s' = taint_of s" "valid_tag (tables s') u"
    "label_set (tables s') u = label_set (tables s) 0 \<union> (\<Union>i \<in> {0..<0 + n}. tget dc (x i) (taint_of s))"
    by (rule union_loop_ok[OF assms(1,2) r z(1), of 0 x]) (use assms(4) in simp_all)
  then show ?thesis using z(2) by (simp add: atLeast0LessThan)
qed

section \<open>Properties\<close>

text \<open>
  The two copies of the register table agree: the mapping from register names to rows and bytes of the
  register file in the client interface is the one the instrumentation uses, for every register.
\<close>

theorem reg_span_in_sync: "reg_span R reg = reg_shadow_span R reg"
proof (cases "reg_to_pointer_sized R reg")
  case (REG_64 g)
  then show ?thesis
    using row_of_less[of g] by (auto simp: reg_span_eq reg_shadow_span_def reg_indx_dr_def Let_def)
qed (auto simp: reg_span_eq reg_shadow_span_def reg_indx_dr_def Let_def)

text \<open>Uniting a tag with itself or with the empty tag gives it back and leaves the table alone.\<close>

lemma reg_union_same:
  assumes "libdft_get_thread_ctx dc s = Some tc" "row < GRP_NUM" "start + n \<le> TAGS_PER_GPR" "0 < n"
    and "\<And>k. k < n \<Longrightarrow> gpr_file tc row (start + k) = t"
  shows "for_upto n (reg_union_step dc row start) (0, s) = Inr (t, s)"
  using assms(3-5)
proof (induction n)
  case (Suc n)
  have step: "gpr_rd dc row (start + n) s = Inr t"
    using assms(1,2) Suc.prems(1,3) by (simp add: gpr_rd_def)
  have "for_upto n (reg_union_step dc row start) (0, s) = Inr (if n = 0 then 0 else t, s)"
    using Suc.IH Suc.prems by (cases "n = 0") simp_all
  moreover have "reg_union_step dc row start n (if n = 0 then 0 else t, s) = Inr (t, s)"
    by (simp add: reg_union_step_def step combine_tags_def tag_combine_def)
  ultimately show ?case by (simp add: for_upto_Suc)
qed simp

text \<open>
  C28. Round trip of register tags, with aliasing. After a tag is set on a register, every byte of every
  register reads as that tag if it lies in the register that was set (al, ah, ax and eax lie in rax) and as
  before if it does not; bytes beyond a register's width read as the empty tag. The tag of a whole
  register is the new tag if its lowest byte lies in the register that was set and as before if not. The
  union over the register that was set is the new tag, and computing it changes nothing.
\<close>

theorem set_get_reg_tag:
  assumes "dr_regs_ok R" "live (cur_drcontext E) s" "reg_span R reg = Some (row, start, n)"
  shows "\<exists>s'. set_reg_tag R E reg t s = Inr s'
     \<and> get_reg_tag_byte R E reg2 i s' =
         (case reg_span R reg2 of
            None \<Rightarrow> Inr empty_tag
          | Some (row2, start2, n2) \<Rightarrow>
              if i \<ge> n2 then Inr empty_tag
              else if row2 = row \<and> start \<le> start2 + i \<and> start2 + i < start + n then Inr t
              else get_reg_tag_byte R E reg2 i s)
     \<and> get_reg_tag R E reg2 s' =
         (case reg_span R reg2 of
            None \<Rightarrow> Inr empty_tag
          | Some (row2, start2, n2) \<Rightarrow>
              if row2 = row \<and> start \<le> start2 \<and> start2 < start + n then Inr t else get_reg_tag R E reg2 s)
     \<and> get_reg_tag_range R E reg s' = Inr (t, s')"
proof -
  let ?dc = "cur_drcontext E"
  obtain tc where tc: "libdft_get_thread_ctx ?dc s = Some tc" using assms(2) by (auto simp: live_def)
  have b: "row < GRP_NUM" "start + n \<le> TAGS_PER_GPR" "0 < n"
    using reg_span_bounds[OF assms(1,3)] by (simp_all add: TAGS_PER_GPR_def)
  let ?g = "\<lambda>r b. if r = row \<and> start \<le> b \<and> b < start + n then to_internal t else gpr_file tc r b"
  obtain s' where s': "for_upto n (\<lambda>k. gpr_wr ?dc row (start + k) (to_internal t)) s = Inr s'"
    "libdft_get_thread_ctx ?dc s' = Some (tc\<lparr>gpr_file := ?g\<rparr>)"
    using gpr_wr_loop[OF tc b(1,2), of "to_internal t"] by blast
  have set: "set_reg_tag R E reg t s = Inr s'"
    using s'(1) tc assms(3) by (simp add: set_reg_tag_def cur_ctx_def)
  have "get_reg_tag_range R E reg s' = Inr (t, s')"
    using reg_union_same[OF s'(2) b, of "to_internal t"] s'(2) assms(3)
    by (simp add: get_reg_tag_range_def cur_ctx_def to_internal_def to_public_def)
  moreover have "get_reg_tag_byte R E reg2 i s' =
         (case reg_span R reg2 of
            None \<Rightarrow> Inr empty_tag
          | Some (row2, start2, n2) \<Rightarrow>
              if i \<ge> n2 then Inr empty_tag
              else if row2 = row \<and> start \<le> start2 + i \<and> start2 + i < start + n then Inr t
              else get_reg_tag_byte R E reg2 i s)
     \<and> get_reg_tag R E reg2 s' =
         (case reg_span R reg2 of
            None \<Rightarrow> Inr empty_tag
          | Some (row2, start2, n2) \<Rightarrow>
              if row2 = row \<and> start \<le> start2 \<and> start2 < start + n then Inr t else get_reg_tag R E reg2 s)"
  proof (cases "reg_span R reg2")
    case None
    then show ?thesis by (simp add: get_reg_tag_byte_def get_reg_tag_def)
  next
    case (Some x)
    obtain row2 start2 n2 where x: "x = (row2, start2, n2)" by (cases x)
    have "row2 < GRP_NUM" "start2 + n2 \<le> 8" "0 < n2" using reg_span_bounds[OF assms(1), of reg2] Some x by auto
    then show ?thesis
      using Some x tc s'(2)
      by (simp add: get_reg_tag_byte_def get_reg_tag_def cur_ctx_def gpr_rd_def TAGS_PER_GPR_def to_internal_def to_public_def)
  qed
  ultimately show ?thesis using set by blast
qed

theorem set_get_reg_tag_witness:
  "\<exists>s'. set_reg_tag x86_regs (sample_env 0) (REG_16 RAX) (from_raw 2) sample_engine = Inr s'
     \<and> get_reg_tag_byte x86_regs (sample_env 0) (REG_8H RAX) 0 s' = Inr (from_raw 2)
     \<and> get_reg_tag x86_regs (sample_env 0) (REG_8H RAX) s' = Inr (from_raw 2)
     \<and> get_reg_tag_range x86_regs (sample_env 0) (REG_16 RAX) s' = Inr (from_raw 2, s')"
proof -
  have "live (cur_drcontext (sample_env 0)) sample_engine" using sample_engine_ok(2) by (simp add: sample_env_def)
  moreover have "reg_span x86_regs (REG_16 RAX) = Some (DFT_REG_RAX, 0, 2)" "reg_span x86_regs (REG_8H RAX) = Some (DFT_REG_RAX, 1, 1)"
    by (simp_all add: reg_span_def x86_regs_def)
  ultimately show ?thesis
    using set_get_reg_tag[OF x86_regs_ok, of "sample_env 0" sample_engine "REG_16 RAX" DFT_REG_RAX 0 2 "from_raw 2" "REG_8H RAX" 0]
    by simp
qed

text \<open>
  C29. The range queries return unions: the tag of n consecutive memory bytes has exactly the offsets of
  these bytes, and the tag of a register exactly those of its bytes. No query changes the taint.
\<close>

theorem tag_ranges_are_unions:
  assumes "dr_regs_ok R" "engine_ok s" "live (cur_drcontext E) s"
    and "\<And>i. i < n \<Longrightarrow> file_tag_testb (va + of_nat i)" "room n (tables s)"
    and "reg_span R reg = Some (row, start, m)" "room m (tables s)"
  shows "(\<exists>t s'. get_mem_tag_range va n s = Inr (t, s') \<and> taint_of s' = taint_of s
       \<and> label_set (tables s') (raw t) = (\<Union>i < n. tmem (taint_of s) (va + of_nat i)))
     \<and> (\<exists>t s'. get_reg_tag_range R E reg s = Inr (t, s') \<and> taint_of s' = taint_of s
       \<and> label_set (tables s') (raw t) = (\<Union>i < m. treg (taint_of s) (cur_drcontext E) row (start + i)))"
proof
  let ?dc = "cur_drcontext E"
  show "\<exists>t s'. get_mem_tag_range va n s = Inr (t, s') \<and> taint_of s' = taint_of s
       \<and> label_set (tables s') (raw t) = (\<Union>i < n. tmem (taint_of s) (va + of_nat i))"
    using union_loop_from_0[OF assms(2,3,5), of "\<lambda>i. CMem (va + of_nat i)"] assms(4)
    by (auto simp: get_mem_tag_range_def mem_union_loop[where dc = ?dc] to_public_def)
  have b: "row < GRP_NUM" "start + m \<le> 8" using reg_span_bounds[OF assms(1,6)] by simp_all
  obtain tc where tc: "libdft_get_thread_ctx ?dc s = Some tc" using assms(3) by (auto simp: live_def)
  show "\<exists>t s'. get_reg_tag_range R E reg s = Inr (t, s') \<and> taint_of s' = taint_of s
       \<and> label_set (tables s') (raw t) = (\<Union>i < m. treg (taint_of s) ?dc row (start + i))"
    using union_loop_from_0[OF assms(2,3,7), of "\<lambda>i. CReg row (start + i)"] tc assms(6) b
    by (auto simp: get_reg_tag_range_def cur_ctx_def reg_union_loop to_public_def TAGS_PER_GPR_def)
qed

theorem tag_ranges_are_unions_witness:
  "\<exists>t s'. get_mem_tag_range 0x1000 1 sample_engine = Inr (t, s') \<and> label_set (tables s') (raw t) = {3}"
proof -
  have "live (cur_drcontext (sample_env 0)) sample_engine" using sample_engine_ok(2) by (simp add: sample_env_def)
  moreover have "reg_span x86_regs (REG_16 RAX) = Some (DFT_REG_RAX, 0, 2)"
    by (simp add: reg_span_def x86_regs_def)
  moreover have "file_tag_testb (0x1000 + of_nat i)" if "i < 1" for i
    using that by (simp add: file_tag_testb_def max_addr_def)
  ultimately show ?thesis
    using tag_ranges_are_unions[OF x86_regs_ok sample_engine_ok(1), where E = "sample_env 0" and n = 1 and va = "0x1000" and reg = "REG_16 RAX" and row = DFT_REG_RAX and start = 0 and m = 2]
      sample_room[of 1] sample_room[of 2] sample_taint(3) by (auto simp: lessThan_Suc)
qed

text \<open>
  C30. The public clearing function loses the high half of its length: it clears the first n mod 2^32 bytes
  of the range and leaves the rest as it was, so that a request for a multiple of 4 GiB clears nothing.
\<close>

theorem clear_mem_truncates:
  "mem_rd x (clear_mem va n s) =
     (if x > max_addr then Inl NullDeref
      else if unat va \<le> unat x \<and> unat x < unat va + unat n mod 2 ^ 32 then Inr cleared_val
      else mem_rd x s)"
proof -
  have "unat (ucast n :: UINT32) = unat n mod 2 ^ 32" by (simp add: unsigned_ucast_eq take_bit_eq_mod)
  then show ?thesis
    using getb_clrn[of va "ucast n" "tag_dir s" x] unfolding mem_rd_def clear_mem_def file_tagmap_getb_def by simp
qed

end
