(* ===== verification/Clients.thy ===== *)
theory Clients
  imports Telemetry Tag_Api
begin

text \<open>
  The programs built on the library: the front end \<^verbatim>\<open>src/tools/libdft-dta-dr.cpp\<close> and the reference clients
  under \<^verbatim>\<open>src/clients\<close>. The values of the command line options are records, since \<^verbatim>\<open>droption\<close> is not part of
  the repository; \<open>opens\<close> says for which paths \<^verbatim>\<open>dr_open_file\<close> succeeds. A file opened for writing is the
  string written to it so far and \<open>None\<close> is \<^verbatim>\<open>INVALID_FILE\<close>. Messages to the standard error stream are left
  out.
\<close>

definition dr_open_file :: "(string \<Rightarrow> bool) \<Rightarrow> string \<Rightarrow> string option" where
  "dr_open_file opens path = (if opens path then Some [] else None)"

text \<open>\<^verbatim>\<open>snprintf\<close> into an array of n characters: the string that ends up in the array.\<close>

definition snprintf_buf :: "nat \<Rightarrow> string \<Rightarrow> string" where
  "snprintf_buf n line = take (n - 1) line"

definition default_init_options :: init_options_t where
  "default_init_options =
     \<lparr>single_threaded = True, opaque_modules = [], reg_file_size = 0, mmap_paint_method = 1, max_offset_per_byte = 4\<rparr>"

definition default_file_source :: "string \<Rightarrow> file_source_options_t" where
  "default_file_source f = \<lparr>opt_filename = f, max_bytes = 0, track_dups = True\<rparr>"

text \<open>
  The callbacks of a client for the events of the sink log, in order. The callbacks that are run this way
  change nothing but the client's own state, so that they can run after the events.
\<close>

fun run_callbacks :: "(sink_event \<Rightarrow> 'c \<Rightarrow> 'c res) \<Rightarrow> sink_event list \<Rightarrow> 'c \<Rightarrow> 'c res" where
  "run_callbacks cb [] c = Inr c"
| "run_callbacks cb (e # es) c = rbind (cb e c) (run_callbacks cb es)"

section \<open>The front end libdft-dta-dr\<close>

record fuzz_options =
  op_cmpfile :: string
  op_leafile :: string
  op_filename :: string
  op_timeout :: int
  op_maxoff :: int
  op_mmap :: int

text \<open>The client thread that ends the process: the milliseconds it sleeps, if it is created.\<close>

definition watchdog_thread :: "fuzz_options \<Rightarrow> UINT64" where
  "watchdog_thread opt = of_int (op_timeout opt) * 1000"

definition start_watchdog :: "fuzz_options \<Rightarrow> UINT64 option" where
  "start_watchdog opt = (if op_timeout opt > 0 then Some (watchdog_thread opt) else None)"

definition tool_main :: "(string \<Rightarrow> bool) \<Rightarrow> fuzz_options \<Rightarrow> lib_env \<Rightarrow> 'a lib_state_scheme \<Rightarrow> (UINT64 option \<times> 'a lib_state_scheme) res" where
  "tool_main opens opt L s =
     (let s1 = s\<lparr>out_file := dr_open_file opens (op_cmpfile opt), out_lea_file := dr_open_file opens (op_leafile opt),
                 filename := op_filename opt, limit_offset := op_maxoff opt, mmap_type := (op_mmap opt \<noteq> 0)\<rparr>
      in rbind (libdft_setup L s1) (\<lambda>s2. Inr (start_watchdog opt, s2)))"

section \<open>The client vuzzer_cmp_sink\<close>

record vuzzer_client =
  g_out :: "string option"
  g_out_lea :: "string option"
  g_maxoff :: int

fun any_wide :: "nat \<Rightarrow> nat \<Rightarrow> int \<Rightarrow> string list \<Rightarrow> bool res" where
  "any_wide i 0 maxoff fs = Inr False"
| "any_wide i (Suc n) maxoff fs =
     rbind (vec_get i fs) (\<lambda>f. if comma_tokens f > maxoff then Inr True else any_wide (Suc i) n maxoff fs)"

text \<open>\<open>write_record\<close> on the file \<open>fh\<close>, with the limit of the client.\<close>

definition write_record :: "string option \<Rightarrow> string list \<Rightarrow> nat \<Rightarrow> nat \<Rightarrow> int \<Rightarrow> string option res" where
  "write_record fh fs filter_lo filter_hi maxoff =
     (case fh of
        None \<Rightarrow> Inr None
      | Some content \<Rightarrow>
          rbind (any_wide filter_lo (filter_hi - filter_lo) maxoff fs) (\<lambda>wide.
            if wide then Inr (Some content)
            else Inr (Some (content @ concat (map (\<lambda>f. f @ '' '') fs) @ [CHR 0x0A]))))"

definition on_cmp_sink :: "sink_payload \<Rightarrow> vuzzer_client \<Rightarrow> vuzzer_client res" where
  "on_cmp_sink pl c = rbind (write_record (g_out c) (legacy_record pl) 3 19 (g_maxoff c)) (\<lambda>f. Inr (c\<lparr>g_out := f\<rparr>))"

definition on_lea_sink :: "sink_payload \<Rightarrow> vuzzer_client \<Rightarrow> vuzzer_client res" where
  "on_lea_sink pl c = rbind (write_record (g_out_lea c) (legacy_record pl) 2 10 (g_maxoff c)) (\<lambda>f. Inr (c\<lparr>g_out_lea := f\<rparr>))"

text \<open>The numbers of the two callbacks, and the callback of an event of the sink log.\<close>

definition cmp_cb :: sink_cb where "cmp_cb = 0"
definition lea_cb :: sink_cb where "lea_cb = 1"

fun vuzzer_callback :: "sink_event \<Rightarrow> vuzzer_client \<Rightarrow> vuzzer_client res" where
  "vuzzer_callback (OpcodeSink cb cls pc pl) c =
     (if cb = cmp_cb then on_cmp_sink pl c else if cb = lea_cb then on_lea_sink pl c else Inr c)"
| "vuzzer_callback _ c = Inr c"

definition vuzzer_callbacks :: "sink_event list \<Rightarrow> vuzzer_client \<Rightarrow> vuzzer_client res" where
  "vuzzer_callbacks es c = run_callbacks vuzzer_callback es c"

definition vuzzer_main ::
  "(string \<Rightarrow> bool) \<Rightarrow> fuzz_options \<Rightarrow> lib_env \<Rightarrow> 'a lib_state_scheme \<Rightarrow> (vuzzer_client \<times> UINT64 option \<times> 'a lib_state_scheme) res" where
  "vuzzer_main opens opt L s =
     (let c = \<lparr>g_out = dr_open_file opens (op_cmpfile opt), g_out_lea = dr_open_file opens (op_leafile opt),
               g_maxoff = op_maxoff opt\<rparr>;
          s1 = s\<lparr>exit_events := exit_events s + 1\<rparr>;
          opts = default_init_options\<lparr>mmap_paint_method := op_mmap opt, max_offset_per_byte := op_maxoff opt\<rparr>
      in rbind (lib_init L opts s1) (\<lambda>(ok, s2).
           if \<not> ok then Inl ProcessExit
           else
             let s3 = register_file_source (default_file_source (op_filename opt)) s2;
                 s4 = register_sink LEA lea_cb (register_sink CMP cmp_cb s3)
             in Inr (c, start_watchdog opt, s4)))"

text \<open>The exit event of the client closes its files.\<close>

definition vuzzer_event_exit :: "vuzzer_client \<Rightarrow> string option \<times> string option" where
  "vuzzer_event_exit c = (g_out c, g_out_lea c)"

section \<open>The client synthetic_unit\<close>

text \<open>The counters of passed and failed checks.\<close>

record unit_counts =
  g_pass :: nat
  g_fail :: nat

definition EXPECT :: "bool \<Rightarrow> unit_counts \<Rightarrow> unit_counts" where
  "EXPECT cond k = (if cond then k\<lparr>g_pass := g_pass k + 1\<rparr> else k\<lparr>g_fail := g_fail k + 1\<rparr>)"

text \<open>The visitor of the fourth test, with its three captured variables.\<close>

definition unit_visitor :: "UINT32 \<Rightarrow> nat \<times> nat \<times> nat \<Rightarrow> bool \<times> nat \<times> nat \<times> nat" where
  "unit_visitor l st =
     (case st of (seen42, seen7, count) \<Rightarrow>
        (True, if l = 42 then 1 else seen42, if l = 7 then 1 else seen7, count + 1))"

definition run_unit_tests :: "ADDRINT \<Rightarrow> unit_counts \<Rightarrow> 'a engine_scheme \<Rightarrow> (unit_counts \<times> 'a engine_scheme) res" where
  "run_unit_tests buf k0 s0 =
     (let e = empty_tag;
          k1 = EXPECT (to_string e s0 = ''{}'') (EXPECT (tag_empty e) k0);
          (a, s1) = make_tag 42 s0;
          k2 = EXPECT (str_contains ''42'' (to_string a s1)) (EXPECT (\<not> tag_empty a) k1);
          (b, s2) = make_tag 7 s1
      in rbind (combine a b s2) (\<lambda>(ab, s3).
         rbind (combine b a s3) (\<lambda>(ba, s4).
         rbind (combine ab ab s4) (\<lambda>(t1, s5).
         rbind (combine ab e s5) (\<lambda>(t2, s6).
         rbind (combine e ab s6) (\<lambda>(t3, s7).
           let k3 = EXPECT (t3 = ab) (EXPECT (t2 = ab) (EXPECT (t1 = ab) (EXPECT (ab = ba) k2)));
               (seen42, seen7, count) = enumerate ab unit_visitor (0, 0, 0) s7;
               k4 = EXPECT (seen7 = 1) (EXPECT (seen42 = 1) (EXPECT (count = 2) k3));
               s8 = set_mem_tag buf a s7
           in rbind (get_mem_tag buf s8) (\<lambda>m1.
              rbind (get_mem_tag_range buf 8 (set_mem_tag (buf + 4) b s8)) (\<lambda>(m2, s9).
                let s10 = clear_mem buf 16 s9
                in rbind (get_mem_tag buf s10) (\<lambda>m3.
                   rbind (get_mem_tag (buf + 4) s10) (\<lambda>m4.
                     Inr (EXPECT (tag_empty m4) (EXPECT (tag_empty m3) (EXPECT (m2 = ab) (EXPECT (m1 = a) k4))), s10)))))))))))"

text \<open>The line that the exit event prints last: whether it is \<^verbatim>\<open>OK\<close>.\<close>

definition unit_event_exit :: "ADDRINT \<Rightarrow> unit_counts \<Rightarrow> 'a engine_scheme \<Rightarrow> (bool \<times> unit_counts \<times> 'a engine_scheme) res" where
  "unit_event_exit buf k s = rbind (run_unit_tests buf k s) (\<lambda>(k', s'). Inr (\<not> g_fail k' > 0, k', s'))"

definition unit_main :: "lib_env \<Rightarrow> 'a lib_state_scheme \<Rightarrow> 'a lib_state_scheme res" where
  "unit_main L s =
     rbind (lib_init L default_init_options s) (\<lambda>(ok, s1).
       if \<not> ok then Inl ProcessExit else Inr (s1\<lparr>exit_events := exit_events s1 + 1\<rparr>))"

section \<open>The client file_introspect\<close>

record introspect_options =
  in_filename :: string
  op_lo :: UINT64
  op_hi :: UINT64
  op_addr1 :: UINT64
  op_size1 :: UINT64
  op_addr2 :: UINT64
  op_size2 :: UINT64
  in_outfile :: string

text \<open>The lambda \<open>dump\<close>: the file and the engine afterwards.\<close>

definition dump_region :: "string \<Rightarrow> ADDRINT \<Rightarrow> UINT64 \<Rightarrow> string \<times> 'a engine_scheme \<Rightarrow> (string \<times> 'a engine_scheme) res" where
  "dump_region label va n st =
     (case st of (f, s) \<Rightarrow>
        if n = 0 \<or> va = 0 then Inr (f, s)
        else
          rbind (get_mem_tag_range va (unat n) s) (\<lambda>(t, s').
            let hdr = snprintf_buf 128
                  (label @ '' [0x'' @ hex_str (unat va) @ ''..+'' @ dec_str (unat n) @ ''] -> '')
            in Inr (f @ hdr @ to_string t s' @ [CHR 0x0A], s')))"

definition on_pc_hit :: "introspect_options \<Rightarrow> ADDRINT \<Rightarrow> string option \<times> 'a engine_scheme \<Rightarrow> (string option \<times> 'a engine_scheme) res" where
  "on_pc_hit opt pc st =
     (case st of
        (None, s) \<Rightarrow> Inr (None, s)
      | (Some f, s) \<Rightarrow>
          let hdr = snprintf_buf 64 (''hit pc=0x'' @ hex_str (unat pc) @ [CHR 0x0A])
          in rbind (dump_region ''  region1'' (op_addr1 opt) (op_size1 opt) (f @ hdr, s)) (\<lambda>st1.
             rbind (dump_region ''  region2'' (op_addr2 opt) (op_size2 opt) st1) (\<lambda>(f', s'). Inr (Some f', s'))))"

definition pc_hit_cb :: sink_cb where "pc_hit_cb = 0"

definition introspect_main ::
  "(string \<Rightarrow> bool) \<Rightarrow> introspect_options \<Rightarrow> lib_env \<Rightarrow> 'a lib_state_scheme \<Rightarrow> (string option \<times> 'a lib_state_scheme) res" where
  "introspect_main opens opt L s =
     (let out = dr_open_file opens (in_outfile opt); s1 = s\<lparr>exit_events := exit_events s + 1\<rparr>
      in rbind (lib_init L default_init_options s1) (\<lambda>(ok, s2).
           if \<not> ok then Inl ProcessExit
           else
             let s3 = (if in_filename opt \<noteq> [] then register_file_source (default_file_source (in_filename opt)) s2 else s2)
             in Inr (out, if op_hi opt > op_lo opt then register_pc_range_sink (op_lo opt) (op_hi opt) pc_hit_cb s3 else s3)))"

section \<open>The client egress_sanitizer\<close>

record egress_options =
  eg_filename :: string
  eg_outfile :: string

record egress_client =
  eg_out :: "string option"
  g_alerts :: UINT64

text \<open>\<^verbatim>\<open>func_sink_context_t::arg\<close>, from the arguments that \<^verbatim>\<open>drwrap_get_arg\<close> finds.\<close>

definition sink_arg :: "(nat \<Rightarrow> ADDRINT) \<Rightarrow> nat \<Rightarrow> ADDRINT" where
  "sink_arg args idx = args idx"

definition alert_line :: "(nat \<Rightarrow> ADDRINT) \<Rightarrow> string \<Rightarrow> string" where
  "alert_line args labels =
     ''ALERT: write(fd='' @ int2str (sint (sink_arg args 0)) @ '', buf=0x'' @ hex_str (unat (sink_arg args 1)) @ '', n='' @
     dec_str (unat (sink_arg args 2)) @ '') -- tainted bytes '' @ labels @ [CHR 0x0A]"

text \<open>
  \<^verbatim>\<open>dr_write_file\<close> of the first len characters of the array \<open>line\<close> of 512 characters, which holds a
  terminated string.
\<close>

definition write_line :: "nat \<Rightarrow> string \<Rightarrow> string \<Rightarrow> string res" where
  "write_line len line f =
     (if len > 512 then Inl OutOfRange else Inr (f @ take len (snprintf_buf 512 line @ [CHR 0x00])))"

text \<open>A length that is no \<^verbatim>\<open>int\<close> is reported as a negative number.\<close>

definition on_write :: "(nat \<Rightarrow> ADDRINT) \<Rightarrow> egress_client \<times> 'a engine_scheme \<Rightarrow> (egress_client \<times> 'a engine_scheme) res" where
  "on_write args st =
     (case st of (c, s) \<Rightarrow>
        let buf = sink_arg args 1; n = unat (sink_arg args 2)
        in if n = 0 \<or> buf = 0 then Inr (c, s)
           else
             rbind (arg_pointed_is_tainted args 1 n s) (\<lambda>tainted.
               if \<not> tainted then Inr (c, s)
               else
                 rbind (arg_pointed_tag args 1 n s) (\<lambda>(t, s').
                   let line = alert_line args (to_string t s'); len = length line
                   in rbind (if 0 < len \<and> len < 2 ^ 31 then
                               (case eg_out c of
                                  None \<Rightarrow> Inr None
                                | Some f \<Rightarrow> rbind (write_line len line f) (\<lambda>f'. Inr (Some f')))
                             else Inr (eg_out c))
                        (\<lambda>out. Inr (c\<lparr>eg_out := out, g_alerts := g_alerts c + 1\<rparr>, s')))))"

definition write_cb :: sink_cb where "write_cb = 0"

definition egress_main ::
  "(string \<Rightarrow> bool) \<Rightarrow> egress_options \<Rightarrow> lib_env \<Rightarrow> 'a lib_state_scheme \<Rightarrow> (egress_client \<times> 'a lib_state_scheme) res" where
  "egress_main opens opt L s =
     (let c = \<lparr>eg_out = (if eg_outfile opt \<noteq> [] then dr_open_file opens (eg_outfile opt) else None), g_alerts = 0\<rparr>;
          s1 = s\<lparr>exit_events := exit_events s + 1\<rparr>
      in rbind (lib_init L default_init_options s1) (\<lambda>(ok, s2).
           if \<not> ok then Inl ProcessExit
           else
             let s3 = (if eg_filename opt \<noteq> [] then register_file_source (default_file_source (eg_filename opt)) s2 else s2)
             in Inr (c, snd (register_func_sink ''write'' ''libc.so.6'' write_cb s3))))"

end
