(* ===== verification/Instrument_Safety.thy ===== *)
theory Instrument_Safety
  imports Instrumentation Soundness
begin

text \<open>
  What the instrumentation may rely on and what it guarantees: for every decodable instruction, the
  clean calls that the router inserts stay inside the register file, every memory operand of a call has
  its address in a reserved register at that point, and everything reserved is released.
\<close>

section \<open>Register part and memory part of the allowed arguments\<close>

primrec regs_ok :: "clean_call \<Rightarrow> bool" where
  "regs_ok (Call_r2r_xfer dr ds sr ss n) = (dst_ok dr ds n \<and> src_ok sr ss n \<and> forward_ok dr ds sr ss n)"
| "regs_ok (Call_r_clr r st n) = (dst_ok r st n)"
| "regs_ok (Call_mov_m2r r st a n) = (dst_ok r st n)"
| "regs_ok (Call_mov_r2m a r st n) = (src_ok r st n)"
| "regs_ok (Call_mov_clr_mem a n) = True"
| "regs_ok (Call_m2m_xfer d a n) = True"
| "regs_ok (Call_ternary_r2r r st n) = (src_ok r st n \<and> n \<le> 8)"
| "regs_ok (Call_ternary_m2r a n) = (n \<le> 8)"
| "regs_ok (Call_xchg_r2r ar as br bs n) = (dst_ok ar as n \<and> dst_ok br bs n \<and> aligned ar as br bs n)"
| "regs_ok (Call_xchg_m2r a r st n) = (dst_ok r st n)"
| "regs_ok (Call_cmov_r2r p dr ds sr ss n) = (dst_ok dr ds n \<and> src_ok sr ss n \<and> forward_ok dr ds sr ss n)"
| "regs_ok (Call_cmov_m2r p r st a n) = (dst_ok r st n)"
| "regs_ok (Call_binary_r2r dr ds sr ss n) = (dst_ok dr ds n \<and> src_ok sr ss n \<and> aligned dr ds sr ss n)"
| "regs_ok (Call_binary_m2r r st a n) = (dst_ok r st n)"
| "regs_ok (Call_binary_r2m a r st n) = (src_ok r st n)"
| "regs_ok (Call_movzx_r2r dr sr ss sn dn) = (dst_ok dr 0 dn \<and> src_ok sr ss sn \<and> sn \<le> dn)"
| "regs_ok (Call_movzx_m2r dr a sn dn) = (dst_ok dr 0 dn \<and> sn \<le> dn)"
| "regs_ok (Call_movsx_r2r dr sr ss sn dn) = (dst_ok dr 0 dn \<and> src_ok sr ss sn \<and> sn \<le> dn)"
| "regs_ok (Call_movsx_m2r dr a sn dn) = (dst_ok dr 0 dn \<and> sn \<le> dn)"
| "regs_ok (Call_lea_prop ins dr br bs ir is n) = (dst_ok dr 0 n \<and> src_ok br bs n \<and> src_ok ir is n \<and> n \<le> 8)"
| "regs_ok (Call_cmp_r2r ins dr ds dv sr ss sv n) = (src_ok dr ds n \<and> src_ok sr ss n \<and> n \<le> 8)"
| "regs_ok (Call_cmp_m2r ins dr ds dv a n) = (src_ok dr ds n \<and> n \<le> 8)"
| "regs_ok (Call_cmp_i2r ins dr ds dv imm n) = (src_ok dr ds n \<and> n \<le> 8)"
| "regs_ok (Call_cmp_r2m ins a sr ss sv n) = (src_ok sr ss n \<and> n \<le> 8)"
| "regs_ok (Call_cmp_i2m ins a imm n) = (n \<le> 8)"
| "regs_ok (Call_cmp_m2m ins d a n) = (n \<le> 8)"
| "regs_ok (Call_shift_r r st n) = (dst_ok r st n)"
| "regs_ok (Call_shift_m a n) = True"
| "regs_ok (Call_shld_r2r dr ds sr ss n) = (dst_ok dr ds n \<and> src_ok sr ss n)"
| "regs_ok (Call_bswap_reg r st n) = (dst_ok r st n)"
| "regs_ok (Call_movbe_m2r r st a n) = (dst_ok r st n)"
| "regs_ok (Call_movbe_r2m a r st n) = (src_ok r st n)"
| "regs_ok (Call_cmpxchg_mem a sr ss ar as n) = (src_ok sr ss n \<and> dst_ok ar as n \<and> aligned sr ss ar as n)"
| "regs_ok (Call_cmpxchg_reg dr ds sr ss ar as n) = (dst_ok dr ds n \<and> src_ok sr ss n \<and> dst_ok ar as n \<and> aligned dr ds sr ss n \<and> aligned dr ds ar as n \<and> aligned sr ss ar as n)"
| "regs_ok (Call_xadd_r2r dr ds sr ss n) = (dst_ok dr ds n \<and> dst_ok sr ss n \<and> aligned dr ds sr ss n)"
| "regs_ok (Call_xadd_m2r a r st n) = (dst_ok r st n)"
| "regs_ok (Call_pc_range_sink pc) = True"

primrec mems_ok :: "dr_env \<Rightarrow> clean_call \<Rightarrow> bool" where
  "mems_ok E (Call_r2r_xfer dr ds sr ss n) = True"
| "mems_ok E (Call_r_clr r st n) = True"
| "mems_ok E (Call_mov_m2r r st a n) = (mem_ok (ea E a) n)"
| "mems_ok E (Call_mov_r2m a r st n) = (mem_ok (ea E a) n)"
| "mems_ok E (Call_mov_clr_mem a n) = (mem_ok (ea E a) n \<and> n < 2 ^ 32)"
| "mems_ok E (Call_m2m_xfer d a n) = (mem_ok (ea E d) n \<and> mem_ok (ea E a) n \<and> (unat (ea E d) \<le> unat (ea E a) \<or> unat (ea E a) + n \<le> unat (ea E d)))"
| "mems_ok E (Call_ternary_r2r r st n) = True"
| "mems_ok E (Call_ternary_m2r a n) = (mem_ok (ea E a) n)"
| "mems_ok E (Call_xchg_r2r ar as br bs n) = True"
| "mems_ok E (Call_xchg_m2r a r st n) = (mem_ok (ea E a) n)"
| "mems_ok E (Call_cmov_r2r p dr ds sr ss n) = True"
| "mems_ok E (Call_cmov_m2r p r st a n) = (mem_ok (ea E a) n)"
| "mems_ok E (Call_binary_r2r dr ds sr ss n) = True"
| "mems_ok E (Call_binary_m2r r st a n) = (mem_ok (ea E a) n)"
| "mems_ok E (Call_binary_r2m a r st n) = (mem_ok (ea E a) n)"
| "mems_ok E (Call_movzx_r2r dr sr ss sn dn) = True"
| "mems_ok E (Call_movzx_m2r dr a sn dn) = (mem_ok (ea E a) sn)"
| "mems_ok E (Call_movsx_r2r dr sr ss sn dn) = True"
| "mems_ok E (Call_movsx_m2r dr a sn dn) = (mem_ok (ea E a) sn)"
| "mems_ok E (Call_lea_prop ins dr br bs ir is n) = True"
| "mems_ok E (Call_cmp_r2r ins dr ds dv sr ss sv n) = True"
| "mems_ok E (Call_cmp_m2r ins dr ds dv a n) = ((file_tag_testb (ea E a) \<longrightarrow> mem_ok (ea E a) n))"
| "mems_ok E (Call_cmp_i2r ins dr ds dv imm n) = True"
| "mems_ok E (Call_cmp_r2m ins a sr ss sv n) = ((file_tag_testb (ea E a) \<longrightarrow> mem_ok (ea E a) n))"
| "mems_ok E (Call_cmp_i2m ins a imm n) = ((file_tag_testb (ea E a) \<longrightarrow> mem_ok (ea E a) n))"
| "mems_ok E (Call_cmp_m2m ins d a n) = ((file_tag_testb (ea E d) \<and> file_tag_testb (ea E a) \<longrightarrow> mem_ok (ea E d) n \<and> mem_ok (ea E a) n))"
| "mems_ok E (Call_shift_r r st n) = True"
| "mems_ok E (Call_shift_m a n) = (mem_ok (ea E a) n)"
| "mems_ok E (Call_shld_r2r dr ds sr ss n) = True"
| "mems_ok E (Call_bswap_reg r st n) = True"
| "mems_ok E (Call_movbe_m2r r st a n) = (mem_ok (ea E a) n)"
| "mems_ok E (Call_movbe_r2m a r st n) = (mem_ok (ea E a) n)"
| "mems_ok E (Call_cmpxchg_mem a sr ss ar as n) = (mem_ok (ea E a) n)"
| "mems_ok E (Call_cmpxchg_reg dr ds sr ss ar as n) = True"
| "mems_ok E (Call_xadd_r2r dr ds sr ss n) = True"
| "mems_ok E (Call_xadd_m2r a r st n) = (mem_ok (ea E a) n)"
| "mems_ok E (Call_pc_range_sink pc) = True"

lemma call_ok_split: "call_ok E c \<longleftrightarrow> regs_ok c \<and> mems_ok E c"
  by (cases c) auto

text \<open>The memory operands whose addresses a call takes.\<close>

primrec call_mems :: "clean_call \<Rightarrow> opnd list" where
  "call_mems (Call_r2r_xfer dr ds sr ss n) = []"
| "call_mems (Call_r_clr r st n) = []"
| "call_mems (Call_mov_m2r r st a n) = [a]"
| "call_mems (Call_mov_r2m a r st n) = [a]"
| "call_mems (Call_mov_clr_mem a n) = [a]"
| "call_mems (Call_m2m_xfer d a n) = [d, a]"
| "call_mems (Call_ternary_r2r r st n) = []"
| "call_mems (Call_ternary_m2r a n) = [a]"
| "call_mems (Call_xchg_r2r ar as br bs n) = []"
| "call_mems (Call_xchg_m2r a r st n) = [a]"
| "call_mems (Call_cmov_r2r p dr ds sr ss n) = []"
| "call_mems (Call_cmov_m2r p r st a n) = [a]"
| "call_mems (Call_binary_r2r dr ds sr ss n) = []"
| "call_mems (Call_binary_m2r r st a n) = [a]"
| "call_mems (Call_binary_r2m a r st n) = [a]"
| "call_mems (Call_movzx_r2r dr sr ss sn dn) = []"
| "call_mems (Call_movzx_m2r dr a sn dn) = [a]"
| "call_mems (Call_movsx_r2r dr sr ss sn dn) = []"
| "call_mems (Call_movsx_m2r dr a sn dn) = [a]"
| "call_mems (Call_lea_prop ins dr br bs ir is n) = []"
| "call_mems (Call_cmp_r2r ins dr ds dv sr ss sv n) = []"
| "call_mems (Call_cmp_m2r ins dr ds dv a n) = [a]"
| "call_mems (Call_cmp_i2r ins dr ds dv imm n) = []"
| "call_mems (Call_cmp_r2m ins a sr ss sv n) = [a]"
| "call_mems (Call_cmp_i2m ins a imm n) = [a]"
| "call_mems (Call_cmp_m2m ins d a n) = [d, a]"
| "call_mems (Call_shift_r r st n) = []"
| "call_mems (Call_shift_m a n) = [a]"
| "call_mems (Call_shld_r2r dr ds sr ss n) = []"
| "call_mems (Call_bswap_reg r st n) = []"
| "call_mems (Call_movbe_m2r r st a n) = [a]"
| "call_mems (Call_movbe_r2m a r st n) = [a]"
| "call_mems (Call_cmpxchg_mem a sr ss ar as n) = [a]"
| "call_mems (Call_cmpxchg_reg dr ds sr ss ar as n) = []"
| "call_mems (Call_xadd_r2r dr ds sr ss n) = []"
| "call_mems (Call_xadd_m2r a r st n) = [a]"
| "call_mems (Call_pc_range_sink pc) = []"

section \<open>Spans\<close>

lemma row_of_lt: "row_of g < GRP_NUM" "row_of g \<noteq> GRP_NUM"
  by (cases g; simp add: reg_row_defs GRP_NUM_def)+

lemma row_of_inject: "row_of g = row_of h \<longleftrightarrow> g = h"
  by (cases g; cases h; simp add: reg_row_defs)

text \<open>The 64-bit parent of a general-purpose register.\<close>

fun family :: "reg_id \<Rightarrow> gpr option" where
  "family (REG_64 g) = Some g" | "family (REG_32 g) = Some g" | "family (REG_16 g) = Some g"
| "family (REG_8L g) = Some g" | "family (REG_8H g) = Some g" | "family _ = None"

lemma reg_shadow_span_eq:
  assumes "dr_regs_ok R"
  shows "reg_shadow_span R r =
     (case family r of None \<Rightarrow> None
      | Some g \<Rightarrow> Some (row_of g, if is_high_byte r then 1 else 0, reg_bytes R r))"
  using assms
  by (cases r) (auto simp: reg_shadow_span_def dr_regs_ok_def reg_indx_dr_def row_of_lt Let_def is_high_byte_def)

lemma gpr_family:
  assumes "dr_regs_ok R"
  shows "reg_is_gpr R r \<longleftrightarrow> family r \<noteq> None" "family r = Some g \<Longrightarrow> reg_to_pointer_sized R r = REG_64 g"
    "family r = Some g \<Longrightarrow> 1 \<le> reg_bytes R r \<and> reg_bytes R r \<le> 8" "is_high_byte r \<Longrightarrow> reg_bytes R r = 1"
  using assms by (cases r; auto simp: dr_regs_ok_def is_high_byte_def)+

text \<open>Everything a proof needs to know of a span.\<close>

lemma span_bounds:
  assumes "dr_regs_ok R" "reg_shadow_span R r = Some (row, start, n)"
  shows "row < GRP_NUM" "1 \<le> n" "n \<le> 8" "start \<le> 1" "start = 1 \<longrightarrow> n = 1" "n = reg_bytes R r"
    "\<exists>g. family r = Some g \<and> row = row_of g"
  using assms gpr_family[OF assms(1), of r]
  by (auto simp: reg_shadow_span_eq row_of_lt split: option.splits if_splits)

section \<open>Reservations\<close>

text \<open>
  What is held at a point of the block: how often the flags are reserved, the reserved registers, and the
  memory operand whose address a register holds. A step fails when a register is reserved twice, when
  something is released that is not held, when an address is computed into a register that is not
  reserved or while the flags are not saved, and when a clean call takes an address that no reserved
  register holds.
\<close>

record held =
  aflags_held :: nat
  regs_held :: "reg_id list"
  bound :: "(opnd \<times> reg_id) list"

fun hold_step :: "bb_event \<Rightarrow> held \<Rightarrow> held option" where
  "hold_step ReserveAflags h = Some (h\<lparr>aflags_held := aflags_held h + 1\<rparr>)"
| "hold_step (ReserveRegister r) h =
     (if r = DR_REG_NULL \<or> r \<in> set (regs_held h) then None else Some (h\<lparr>regs_held := r # regs_held h\<rparr>))"
| "hold_step (UnreserveRegister r) h =
     (if r \<notin> set (regs_held h) then None
      else Some (h\<lparr>regs_held := remove1 r (regs_held h), bound := filter (\<lambda>p. snd p \<noteq> r) (bound h)\<rparr>))"
| "hold_step UnreserveAflags h = (if aflags_held h = 0 then None else Some (h\<lparr>aflags_held := aflags_held h - 1\<rparr>))"
| "hold_step (GetMemAddr m r) h =
     (if r \<notin> set (regs_held h) \<or> aflags_held h = 0 then None
      else Some (h\<lparr>bound := (m, r) # filter (\<lambda>p. snd p \<noteq> r) (bound h)\<rparr>))"
| "hold_step (CleanCall c) h = (if list_all (\<lambda>m. m \<in> fst ` set (bound h)) (call_mems c) then Some h else None)"

definition nothing_held :: held where
  "nothing_held = \<lparr>aflags_held = 0, regs_held = [], bound = []\<rparr>"

definition holding :: "bb \<Rightarrow> held option" where
  "holding b = fold (\<lambda>e h. Option.bind h (hold_step e)) b (Some nothing_held)"

lemma holding_append: "holding (b @ es) = fold (\<lambda>e h. Option.bind h (hold_step e)) es (holding b)"
  by (simp add: holding_def)

definition released :: "bb \<Rightarrow> bool" where
  "released b = (holding b = Some nothing_held)"

text \<open>
  What drreg promises: a register it hands out is a real one and is not reserved already.
\<close>

definition drreg_ok :: "dr_insert \<Rightarrow> bool" where
  "drreg_ok D \<longleftrightarrow> (\<forall>b h r. holding b = Some h \<and> reserve_register D b = Some r \<longrightarrow>
     r \<noteq> DR_REG_NULL \<and> r \<notin> set (regs_held h))"

definition calls_of :: "bb \<Rightarrow> clean_call list" where
  "calls_of b = concat (map (\<lambda>e. case e of CleanCall c \<Rightarrow> [c] | _ \<Rightarrow> []) b)"

lemma calls_of_simps [simp]: "calls_of [] = []" "calls_of (a @ b) = calls_of a @ calls_of b"
  "calls_of (CleanCall c # b) = c # calls_of b"
  "calls_of (ReserveAflags # b) = calls_of b" "calls_of (UnreserveAflags # b) = calls_of b"
  "calls_of (ReserveRegister r # b) = calls_of b" "calls_of (UnreserveRegister r # b) = calls_of b"
  "calls_of (GetMemAddr m r # b) = calls_of b"
  by (simp_all add: calls_of_def)

text \<open>\<open>good D P b b'\<close>: from b to b' only calls with P were added, and nothing stays reserved.\<close>

definition good :: "dr_insert \<Rightarrow> (clean_call \<Rightarrow> bool) \<Rightarrow> bb \<Rightarrow> bb \<Rightarrow> bool" where
  "good D P b b' \<longleftrightarrow> (drreg_ok D \<and> released b \<longrightarrow> released b') \<and> (\<exists>cs. calls_of b' = calls_of b @ cs \<and> (\<forall>c \<in> set cs. P c))"

lemma good_refl [simp]: "good D P b b"
  by (auto simp: good_def)

lemma good_trans: "good D P b b1 \<Longrightarrow> good D P b1 b2 \<Longrightarrow> good D P b b2"
  by (fastforce simp: good_def)

lemma good_call:
  assumes "P c" "call_mems c = []"
  shows "good D P b (dr_insert_clean_call c b)"
proof -
  have "released b \<Longrightarrow> released (dr_insert_clean_call c b)"
    using assms(2) by (simp add: released_def dr_insert_clean_call_def holding_append)
  then show ?thesis using assms(1) by (simp add: good_def dr_insert_clean_call_def)
qed

lemma drreg_okD: "drreg_ok D \<Longrightarrow> holding b = Some h \<Longrightarrow> reserve_register D b = Some r \<Longrightarrow> r \<noteq> DR_REG_NULL \<and> r \<notin> set (regs_held h)"
  by (auto simp: drreg_ok_def)

lemma holding_snoc: "holding (b @ [e]) = Option.bind (holding b) (hold_step e)"
  by (simp add: holding_append)

lemma holding_reserve:
  assumes "drreg_ok D" "holding b = Some h" "reserve_register D b = Some r"
  shows "holding (b @ [ReserveRegister r]) = Some (h\<lparr>regs_held := r # regs_held h\<rparr>)" "r \<noteq> DR_REG_NULL" "r \<notin> set (regs_held h)"
  using drreg_okD[OF assms] assms(2) by (simp_all add: holding_snoc)

lemma acquire_mem_addr_holding:
  assumes D: "drreg_ok D" and b: "holding b = Some nothing_held" and acq: "acquire_mem_addr D m b = (x, b')"
  shows "case x of None \<Rightarrow> holding b' = Some nothing_held
     | Some e \<Rightarrow> scratch e \<noteq> addr e
        \<and> holding b' = Some \<lparr>aflags_held = 1, regs_held = [scratch e, addr e], bound = [(m, addr e)]\<rparr>"
proof (cases "reserve_aflags D b")
  case True
  let ?b1 = "b @ [ReserveAflags]"
  have h1: "holding ?b1 = Some \<lparr>aflags_held = 1, regs_held = [], bound = []\<rparr>"
    using b by (simp add: holding_snoc nothing_held_def)
  show ?thesis
  proof (cases "reserve_register D ?b1")
    case None
    then have "x = None" "b' = ?b1 @ [UnreserveAflags]" using acq True by (simp_all add: acquire_mem_addr_def Let_def)
    then show ?thesis using h1 by (simp only: holding_snoc option.case) (simp add: nothing_held_def)
  next
    case a: (Some a)
    let ?b2 = "?b1 @ [ReserveRegister a]"
    have h2: "holding ?b2 = Some \<lparr>aflags_held = 1, regs_held = [a], bound = []\<rparr>"
      using holding_reserve[OF D h1 a] by simp
    show ?thesis
    proof (cases "reserve_register D ?b2")
      case None
      then have "x = None" "b' = (?b2 @ [UnreserveRegister a]) @ [UnreserveAflags]"
        using acq True a by (simp_all add: acquire_mem_addr_def Let_def)
      then show ?thesis using h2 by (simp only: holding_snoc option.case) (simp add: nothing_held_def)
    next
      case t: (Some t)
      let ?b3 = "?b2 @ [ReserveRegister t]"
      have h3: "holding ?b3 = Some \<lparr>aflags_held = 1, regs_held = [t, a], bound = []\<rparr>" "t \<noteq> a"
        using holding_reserve[OF D h2 t] by simp_all
      show ?thesis
      proof (cases "get_mem_addr D ?b3 m")
        case True
        with acq \<open>reserve_aflags D b\<close> a t have "x = Some \<lparr>addr = a, scratch = t\<rparr>" "b' = ?b3 @ [GetMemAddr m a]"
          by (simp_all add: acquire_mem_addr_def Let_def)
        then show ?thesis using h3 by (simp only: holding_snoc option.case) simp
      next
        case False
        with acq \<open>reserve_aflags D b\<close> a t
        have "x = None" "b' = ((?b3 @ [UnreserveRegister t]) @ [UnreserveRegister a]) @ [UnreserveAflags]"
          by (simp_all add: acquire_mem_addr_def Let_def)
        then show ?thesis using h3 by (simp only: holding_snoc option.case) (simp add: nothing_held_def)
      qed
    qed
  qed
qed (use assms in \<open>auto simp: acquire_mem_addr_def\<close>)

lemma good_mem:
  assumes "P c" "call_mems c = [m]"
  shows "good D P b (with_mem_addr D m c b)"
proof -
  obtain x b' where acq: "acquire_mem_addr D m b = (x, b')" by fastforce
  have "released (with_mem_addr D m c b)" if D: "drreg_ok D" and b: "holding b = Some nothing_held"
  proof (cases x)
    case None
    then show ?thesis using acquire_mem_addr_holding[OF D b acq] acq by (simp add: with_mem_addr_def released_def)
  next
    case (Some e)
    then have "scratch e \<noteq> addr e" "holding b' = Some \<lparr>aflags_held = 1, regs_held = [scratch e, addr e], bound = [(m, addr e)]\<rparr>"
      using acquire_mem_addr_holding[OF D b acq] by auto
    then show ?thesis using acq Some assms(2)
      by (simp add: with_mem_addr_def released_def release_mem_addr_def dr_insert_clean_call_def holding_append nothing_held_def)
  qed
  moreover have "calls_of b' = calls_of b"
    using acq by (auto simp: acquire_mem_addr_def Let_def split: option.splits if_splits)
  then have "\<exists>cs. calls_of (with_mem_addr D m c b) = calls_of b @ cs \<and> (\<forall>c \<in> set cs. P c)"
    using assms(1) acq by (cases x) (simp_all add: with_mem_addr_def release_mem_addr_def dr_insert_clean_call_def)
  ultimately show ?thesis by (simp add: good_def released_def)
qed

text \<open>The chain of \<open>try_addr2\<close>: what is held when it ends, with or without success.\<close>

lemma try_addr2_holding:
  assumes D: "drreg_ok D" and b: "holding b = Some \<lparr>aflags_held = 1, regs_held = [], bound = []\<rparr>"
    and acq: "try_addr2 D m1 m2 b = (ok, e, b')"
  shows "\<exists>bd. holding b' = Some \<lparr>aflags_held = 1, regs_held = filter (\<lambda>r. r \<noteq> DR_REG_NULL) [scratch2 e, addr2 e, addr1 e], bound = bd\<rparr>
     \<and> distinct (filter (\<lambda>r. r \<noteq> DR_REG_NULL) [scratch2 e, addr2 e, addr1 e])
     \<and> snd ` set bd \<subseteq> set (filter (\<lambda>r. r \<noteq> DR_REG_NULL) [scratch2 e, addr2 e, addr1 e])
     \<and> (ok \<longrightarrow> bd = [(m2, addr2 e), (m1, addr1 e)] \<and> addr1 e \<noteq> DR_REG_NULL \<and> addr2 e \<noteq> DR_REG_NULL \<and> scratch2 e \<noteq> DR_REG_NULL)"
proof (cases "reserve_register D b")
  case None
  then show ?thesis using acq b by (auto simp: try_addr2_def)
next
  case r1: (Some r1)
  let ?b1 = "b @ [ReserveRegister r1]"
  have h1: "holding ?b1 = Some \<lparr>aflags_held = 1, regs_held = [r1], bound = []\<rparr>" "r1 \<noteq> DR_REG_NULL"
    using holding_reserve[OF D b r1] by simp_all
  show ?thesis
  proof (cases "reserve_register D ?b1")
    case None
    then show ?thesis using acq h1 r1 by (auto simp: try_addr2_def Let_def)
  next
    case r2: (Some r2)
    let ?b2 = "?b1 @ [ReserveRegister r2]"
    have h2: "holding ?b2 = Some \<lparr>aflags_held = 1, regs_held = [r2, r1], bound = []\<rparr>" "r2 \<noteq> DR_REG_NULL" "r2 \<noteq> r1"
      using holding_reserve[OF D h1(1) r2] by simp_all
    show ?thesis
    proof (cases "reserve_register D ?b2")
      case None
      then show ?thesis using acq h1(2) h2 r1 r2 by (auto simp: try_addr2_def Let_def)
    next
      case t: (Some t)
      let ?b3 = "?b2 @ [ReserveRegister t]"
      have h3: "holding ?b3 = Some \<lparr>aflags_held = 1, regs_held = [t, r2, r1], bound = []\<rparr>" "t \<noteq> DR_REG_NULL" "t \<noteq> r1" "t \<noteq> r2"
        using holding_reserve[OF D h2(1) t] by simp_all
      have h4: "holding (?b3 @ [GetMemAddr m1 r1]) = Some \<lparr>aflags_held = 1, regs_held = [t, r2, r1], bound = [(m1, r1)]\<rparr>"
        unfolding holding_snoc[of ?b3] h3(1) by simp
      have h5: "holding ((?b3 @ [GetMemAddr m1 r1]) @ [GetMemAddr m2 r2]) =
          Some \<lparr>aflags_held = 1, regs_held = [t, r2, r1], bound = [(m2, r2), (m1, r1)]\<rparr>"
        unfolding holding_snoc[of "?b3 @ [GetMemAddr m1 r1]"] h4 using h2(3) by simp
      have e: "e = \<lparr>addr1 = r1, addr2 = r2, scratch2 = t\<rparr>"
        "(\<not> ok \<and> (b' = ?b3 \<or> b' = ?b3 @ [GetMemAddr m1 r1])) \<or> b' = (?b3 @ [GetMemAddr m1 r1]) @ [GetMemAddr m2 r2]"
        using acq r1 r2 t by (auto simp: try_addr2_def Let_def split: if_splits)
      then show ?thesis using h1(2) h2(2,3) h3(2-4) h3(1) h4 h5 by auto
    qed
  qed
qed

lemma holding_unreserve_if:
  assumes "holding b = Some \<lparr>aflags_held = k, regs_held = filter (\<lambda>r. r \<noteq> DR_REG_NULL) (r # rs), bound = bd\<rparr>"
    "distinct (filter (\<lambda>r. r \<noteq> DR_REG_NULL) (r # rs))" "snd ` set bd \<subseteq> set (filter (\<lambda>r. r \<noteq> DR_REG_NULL) (r # rs))"
  obtains bd' where "holding (unreserve_if r b) = Some \<lparr>aflags_held = k, regs_held = filter (\<lambda>r. r \<noteq> DR_REG_NULL) rs, bound = bd'\<rparr>"
    "snd ` set bd' \<subseteq> set (filter (\<lambda>r. r \<noteq> DR_REG_NULL) rs)"
proof (cases "r = DR_REG_NULL")
  case True
  with assms that[of bd] show ?thesis by (simp add: unreserve_if_def)
next
  case False
  with assms that[of "filter (\<lambda>p. snd p \<noteq> r) bd"] show ?thesis by (auto simp: unreserve_if_def holding_snoc)
qed

lemma good_mem2:
  assumes "P c" "call_mems c = [m1, m2]"
  shows "good D P b (with_mem_addr2 D m1 m2 c b)"
proof (cases "reserve_aflags D b")
  case fl: True
  obtain ok e b' where acq: "try_addr2 D m1 m2 (b @ [ReserveAflags]) = (ok, e, b')" by (metis prod_cases3)
  have "released (with_mem_addr2 D m1 m2 c b)" if D: "drreg_ok D" and b: "holding b = Some nothing_held"
  proof -
    have "holding (b @ [ReserveAflags]) = Some \<lparr>aflags_held = 1, regs_held = [], bound = []\<rparr>"
      using b by (simp add: holding_snoc nothing_held_def)
    from try_addr2_holding[OF D this acq] obtain bd where h: "holding b' = Some \<lparr>aflags_held = 1,
        regs_held = filter (\<lambda>r. r \<noteq> DR_REG_NULL) [scratch2 e, addr2 e, addr1 e], bound = bd\<rparr>"
      "distinct (filter (\<lambda>r. r \<noteq> DR_REG_NULL) [scratch2 e, addr2 e, addr1 e])"
      "snd ` set bd \<subseteq> set (filter (\<lambda>r. r \<noteq> DR_REG_NULL) [scratch2 e, addr2 e, addr1 e])"
      "ok \<longrightarrow> bd = [(m2, addr2 e), (m1, addr1 e)] \<and> addr1 e \<noteq> DR_REG_NULL \<and> addr2 e \<noteq> DR_REG_NULL \<and> scratch2 e \<noteq> DR_REG_NULL"
      by blast
    show ?thesis
    proof (cases ok)
      case True
      with h acq fl assms(2) show ?thesis
        by (simp add: with_mem_addr2_def acquire_mem_addr2_def released_def release_mem_addr2_def dr_insert_clean_call_def
            holding_append nothing_held_def)
    next
      case False
      have d: "distinct (filter (\<lambda>r. r \<noteq> DR_REG_NULL) [addr2 e, addr1 e])" "distinct (filter (\<lambda>r. r \<noteq> DR_REG_NULL) [addr1 e])"
        using h(2) by (auto split: if_splits)
      obtain bd1 where 1: "holding (unreserve_if (scratch2 e) b') = Some \<lparr>aflags_held = 1,
          regs_held = filter (\<lambda>r. r \<noteq> DR_REG_NULL) [addr2 e, addr1 e], bound = bd1\<rparr>"
        "snd ` set bd1 \<subseteq> set (filter (\<lambda>r. r \<noteq> DR_REG_NULL) [addr2 e, addr1 e])"
        using holding_unreserve_if[OF h(1-3)] .
      obtain bd2 where 2: "holding (unreserve_if (addr2 e) (unreserve_if (scratch2 e) b')) = Some \<lparr>aflags_held = 1,
          regs_held = filter (\<lambda>r. r \<noteq> DR_REG_NULL) [addr1 e], bound = bd2\<rparr>"
        "snd ` set bd2 \<subseteq> set (filter (\<lambda>r. r \<noteq> DR_REG_NULL) [addr1 e])"
        using holding_unreserve_if[OF 1(1) d(1) 1(2)] .
      obtain bd3 where 3: "holding (unreserve_if (addr1 e) (unreserve_if (addr2 e) (unreserve_if (scratch2 e) b'))) =
          Some \<lparr>aflags_held = 1, regs_held = filter (\<lambda>r. r \<noteq> DR_REG_NULL) [], bound = bd3\<rparr>"
        "snd ` set bd3 \<subseteq> set (filter (\<lambda>r. r \<noteq> DR_REG_NULL) [])"
        using holding_unreserve_if[OF 2(1) d(2) 2(2)] .
      then show ?thesis using acq fl False
        by (simp add: with_mem_addr2_def acquire_mem_addr2_def released_def holding_snoc nothing_held_def)
    qed
  qed
  moreover have "calls_of b' = calls_of b"
    using acq by (auto simp: try_addr2_def Let_def split: option.splits if_splits)
  then have "\<exists>cs. calls_of (with_mem_addr2 D m1 m2 c b) = calls_of b @ cs \<and> (\<forall>c \<in> set cs. P c)"
    using assms(1) acq fl
    by (cases ok) (simp_all add: with_mem_addr2_def acquire_mem_addr2_def release_mem_addr2_def unreserve_if_def dr_insert_clean_call_def)
  ultimately show ?thesis by (simp add: good_def released_def)
qed (simp add: with_mem_addr2_def acquire_mem_addr2_def)

section \<open>Inserters\<close>

text \<open>
  What the decoder promises of the general-purpose instructions: operands of at most eight bytes, an
  extension whose source is not wider than its destination, and equal widths for compare-and-exchange.
\<close>

definition narrow_ops :: "opcode list" where
  "narrow_ops = [OP_cmp, OP_cmps, OP_mul, OP_div, OP_idiv, OP_imul, OP_cwde, OP_cdq, OP_cmpxchg]"

definition instr_ok :: "dr_regs \<Rightarrow> instr \<Rightarrow> bool" where
  "instr_ok R i \<longleftrightarrow>
     (instr_opcode i \<in> set narrow_ops \<longrightarrow> list_all (\<lambda>x. opnd_bytes R x \<le> 8) (dsts i @ srcs i))
     \<and> (instr_opcode i \<in> {OP_movzx, OP_movsx, OP_movsxd} \<and> dsts i \<noteq> [] \<and> srcs i \<noteq> [] \<longrightarrow>
          opnd_bytes R (hd (srcs i)) \<le> opnd_bytes R (hd (dsts i)))
     \<and> (instr_opcode i = OP_cmpxchg \<longrightarrow>
          list_all (\<lambda>x. opnd_is_reg x \<and> reg_is_gpr R (opnd_get_reg x) \<longrightarrow> opnd_bytes R x = opnd_bytes R (hd (dsts i)))
            (dsts i @ srcs i))"

lemma span_ok:
  assumes "dr_regs_ok R" "reg_shadow_span R r = Some (row, start, n)" "m \<le> 8"
  shows "src_ok row start m" "dst_ok row start m" "dst_ok row 0 m" "src_ok row start n" "dst_ok row start n" "dst_ok row 0 n" "n \<le> 8"
  using span_bounds[OF assms(1,2)] assms(3) by (simp_all add: src_ok_def dst_ok_def TAGS_PER_GPR_def)

lemma two_spans:
  assumes "dr_regs_ok R" "reg_shadow_span R r = Some (row, start, n)" "reg_shadow_span R r' = Some (row', start', n')"
  shows "dst_ok row start (min n n')" "dst_ok row' start' (min n n')" "src_ok row' start' (min n n')"
    "src_ok row start (min n n')" "forward_ok row start row' start' (min n n')" "aligned row start row' start' (min n n')"
  using span_bounds[OF assms(1,2)] span_bounds[OF assms(1,3)]
  by (auto simp: src_ok_def dst_ok_def TAGS_PER_GPR_def forward_ok_def aligned_def)

lemma good_r2r:
  assumes "dr_regs_ok (regs D)"
  shows "good D regs_ok b (insert_r2r_xfer D dst src b)"
  using two_spans[OF assms]
  by (auto simp: insert_r2r_xfer_def intro!: good_call split: option.splits)

lemma good_clr:
  assumes "dr_regs_ok (regs D)"
  shows "good D regs_ok b (insert_r_clr D dst b)"
  using span_ok(5)[OF assms _ order_refl] by (auto simp: insert_r_clr_def intro!: good_call split: option.splits)

lemma good_m2r:
  assumes "dr_regs_ok (regs D)"
  shows "good D regs_ok b (insert_mov_m2r D dst mem b)"
  using span_ok(5)[OF assms _ order_refl] by (auto simp: insert_mov_m2r_def intro!: good_mem split: option.splits)

lemma good_r2m:
  assumes "dr_regs_ok (regs D)"
  shows "good D regs_ok b (insert_mov_r2m D mem src b)"
  using span_ok(4)[OF assms _ order_refl] by (auto simp: insert_mov_r2m_def intro!: good_mem split: option.splits)

lemma good_clr_mem: "good D regs_ok b (insert_mov_clr_mem D mem b)"
  by (auto simp: insert_mov_clr_mem_def Let_def intro!: good_mem)

lemma good_m2m: "good D regs_ok b (insert_m2m_xfer D d s n b)"
  by (auto simp: insert_m2m_xfer_def intro!: good_mem2)

lemmas good_moves = good_r2r good_clr good_m2r good_r2m

lemma good_binary:
  assumes "dr_regs_ok (regs D)"
  shows "good D regs_ok b (insert_binary D i op b)"
  using two_spans[OF assms] span_ok(4,5)[OF assms _ order_refl] good_clr[OF assms]
  by (auto simp: insert_binary_def Let_def intro!: good_call good_mem split: option.splits)

lemma opnd_bytes_reg: "opnd_is_reg x \<Longrightarrow> opnd_bytes R x = reg_bytes R (opnd_get_reg x)"
  by (cases x) auto

lemma good_extend:
  assumes "dr_regs_ok (regs D)" "dsts i \<noteq> [] \<Longrightarrow> srcs i \<noteq> [] \<Longrightarrow> opnd_bytes (regs D) (hd (srcs i)) \<le> opnd_bytes (regs D) (hd (dsts i))"
  shows "good D regs_ok b (insert_extend D i sign b)"
proof -
  have "n' \<le> n" if "opnd_is_reg (hd (dsts i))" "opnd_is_reg (hd (srcs i))" "dsts i \<noteq> []" "srcs i \<noteq> []"
    "reg_shadow_span (regs D) (opnd_get_reg (hd (dsts i))) = Some (row, start, n)"
    "reg_shadow_span (regs D) (opnd_get_reg (hd (srcs i))) = Some (row', start', n')" for row start n row' start' n'
    using that assms(2) span_bounds(6)[OF assms(1)] by (simp add: opnd_bytes_reg)
  moreover have "opnd_bytes (regs D) (hd (srcs i)) \<le> n" if "opnd_is_reg (hd (dsts i))" "dsts i \<noteq> []" "srcs i \<noteq> []"
    "reg_shadow_span (regs D) (opnd_get_reg (hd (dsts i))) = Some (row, start, n)" for row start n
    using that assms(2) span_bounds(6)[OF assms(1)] by (simp add: opnd_bytes_reg)
  ultimately show ?thesis
    using span_ok(4,6)[OF assms(1) _ order_refl]
    by (auto simp: insert_extend_def Let_def intro!: good_call good_mem split: option.splits)
qed

lemma good_push:
  assumes "dr_regs_ok (regs D)"
  shows "good D regs_ok b (insert_push D i b)"
proof -
  have "good D regs_ok b (push_from D mem ss b)" for mem ss b
    using good_r2m[OF assms] good_clr_mem good_m2m by (induction ss) auto
  then show ?thesis by (auto simp: insert_push_def split: option.splits)
qed

lemma good_pop:
  assumes "dr_regs_ok (regs D)"
  shows "good D regs_ok b (insert_pop D i b)"
proof -
  have "good D regs_ok b (pop_to D mem ss b)" for mem ss b
    using good_m2r[OF assms] good_m2m by (induction ss) auto
  then show ?thesis by (auto simp: insert_pop_def split: option.splits)
qed

lemma find_in_set: "List.find p xs = Some x \<Longrightarrow> x \<in> set xs \<and> p x"
  by (auto simp: find_Some_iff)

lemma good_cmps:
  assumes "list_all (\<lambda>x. opnd_bytes (regs D) x \<le> 8) (dsts i @ srcs i)"
  shows "good D regs_ok b (insert_cmps D i b)"
proof -
  have "opnd_bytes (regs D) m0 \<le> 8 \<and> opnd_bytes (regs D) m1 \<le> 8"
    if "take 2 (filter opnd_is_memory_reference (srcs i)) = [m0, m1]" for m0 m1
  proof -
    have "set [m0, m1] \<subseteq> set (srcs i)" unfolding that[symmetric] by (auto dest: in_set_takeD)
    with assms show ?thesis by (auto simp: list_all_iff)
  qed
  then show ?thesis
    by (auto simp: insert_cmps_def Let_def intro!: good_mem2 split: list.splits)
qed

lemma good_leave:
  assumes "dr_regs_ok (regs D)"
  shows "good D regs_ok b (insert_leave D i b)"
  using good_trans[OF good_r2r[OF assms] good_m2r[OF assms]] good_r2r[OF assms]
  by (auto simp: insert_leave_def Let_def split: option.splits)

lemma good_xfer:
  assumes "dr_regs_ok (regs D)"
  shows "good D regs_ok b (insert_xfer D i b)"
  using good_moves[OF assms] by (auto simp: insert_xfer_def Let_def)

lemma good_mov_st:
  assumes "dr_regs_ok (regs D)"
  shows "good D regs_ok b (insert_mov_st D i b)"
  using good_moves[OF assms] good_clr_mem by (auto simp: insert_mov_st_def Let_def)

lemma good_mov_imm:
  assumes "dr_regs_ok (regs D)"
  shows "good D regs_ok b (insert_mov_imm D i b)"
  using good_moves[OF assms] by (auto simp: insert_mov_imm_def)

lemma good_sign_extend:
  assumes "list_all (\<lambda>x. opnd_bytes (regs D) x \<le> 8) (dsts i @ srcs i)"
  shows "good D regs_ok b (insert_cwde_family D i b)" "good D regs_ok b (insert_cdq_family D i b)"
proof -
  have "opnd_bytes (regs D) (hd (dsts i)) \<le> 8" if "dsts i \<noteq> []" using that assms by (cases "dsts i") auto
  then show "good D regs_ok b (insert_cwde_family D i b)" "good D regs_ok b (insert_cdq_family D i b)"
    by (auto simp: insert_cwde_family_def insert_cdq_family_def insert_fixed_xfer_def Let_def dst_ok_def src_ok_def
        forward_ok_def DFT_REG_RAX_def DFT_REG_RDX_def GRP_NUM_def TAGS_PER_GPR_def intro!: good_call)
qed

lemma good_muldiv:
  assumes "dr_regs_ok (regs D)" "list_all (\<lambda>x. opnd_bytes (regs D) x \<le> 8) (dsts i @ srcs i)"
  shows "good D regs_ok b (insert_muldiv D i b)"
proof -
  have "opnd_bytes (regs D) e \<le> 8" if "find_explicit_operand D i = Some e" for e
    using find_in_set[OF that[unfolded find_explicit_operand_def]] assms(2) by (auto simp: list_all_iff)
  then show ?thesis using span_ok(4,7)[OF assms(1) _ order_refl]
    by (auto simp: insert_muldiv_def Let_def intro!: good_call good_mem split: option.splits)
qed

lemma good_imul:
  assumes "dr_regs_ok (regs D)" "list_all (\<lambda>x. opnd_bytes (regs D) x \<le> 8) (dsts i @ srcs i)"
  shows "good D regs_ok b (insert_imul D i b)"
  using good_muldiv[OF assms] good_binary[OF assms(1)] by (simp add: insert_imul_def)

lemma good_xchg:
  assumes "dr_regs_ok (regs D)"
  shows "good D regs_ok b (insert_xchg D i b)"
  using two_spans[OF assms] span_ok(5)[OF assms _ order_refl]
  by (auto simp: insert_xchg_def intro!: good_call good_mem split: option.splits prod.splits)

lemma addr_span_ok:
  assumes "dr_regs_ok (regs D)" "addr_reg_span D r = (row, start)" "n \<le> 8"
  shows "src_ok row start n"
  using assms(2,3) span_ok(1)[OF assms(1) _ assms(3)]
  by (auto simp: addr_reg_span_def src_ok_def TAGS_PER_GPR_def split: if_splits option.splits)

lemma good_lea:
  assumes "dr_regs_ok (regs D)"
  shows "good D regs_ok b (insert_lea D i b)"
proof -
  have "regs_ok (Call_lea_prop pc d_row b_row b_start i_row i_start d_n)"
    if "reg_shadow_span (regs D) r = Some (d_row, d_start, d_n)" "addr_reg_span D x = (b_row, b_start)"
      "addr_reg_span D y = (i_row, i_start)" for pc r x y d_row d_start d_n b_row b_start i_row i_start
    using span_ok(6,7)[OF assms that(1) order_refl] addr_span_ok[OF assms that(2)] addr_span_ok[OF assms that(3)] by simp
  then show ?thesis by (auto simp: insert_lea_def Let_def intro!: good_call split: option.splits prod.splits)
qed

lemma good_cmov:
  assumes "dr_regs_ok (regs D)"
  shows "good D regs_ok b (insert_cmov D i b)"
proof -
  have "good D regs_ok b (cmov_from D pred r span ss b)" if "reg_shadow_span (regs D) r = Some span" for pred r span ss
  proof (induction ss)
    case Nil
    then show ?case by (cases span) simp
  next
    case (Cons s ss)
    obtain row start n where sp: "span = (row, start, n)" by (metis prod_cases3)
    show ?case
      using two_spans[OF assms that[unfolded sp]] span_ok(5)[OF assms that[unfolded sp] order_refl] Cons
      by (auto simp: sp intro!: good_call good_mem split: option.splits)
  qed
  then show ?thesis by (auto simp: insert_cmov_def Let_def split: option.splits)
qed

lemma good_cmp:
  assumes "dr_regs_ok (regs D)" "list_all (\<lambda>x. opnd_bytes (regs D) x \<le> 8) (dsts i @ srcs i)"
  shows "good D regs_ok b (insert_cmp D i b)"
proof (cases "length (srcs i) < 2")
  case False
  then have "srcs i ! 0 \<in> set (srcs i)" by (intro nth_mem) linarith
  then have m: "opnd_bytes (regs D) (srcs i ! 0) \<le> 8" using assms(2) by (auto simp: list_all_iff)
  have r: "reg_bytes (regs D) r \<le> 8" if "reg_shadow_span (regs D) r = Some (row, start, n)" for r row start n
    using span_bounds(3,6)[OF assms(1) that] by simp
  have "src_ok row start (reg_bytes (regs D) r)" "reg_bytes (regs D) r \<le> 8"
    if "reg_shadow_span (regs D) r = Some (row0, start0, n0)" "reg_shadow_span (regs D) r' = Some (row, start, n)" for r r' row0 start0 n0 row start n
    using span_ok(1)[OF assms(1) that(2) r[OF that(1)]] r[OF that(1)] by auto
  moreover have "src_ok row start (opnd_bytes (regs D) (srcs i ! 0))" if "reg_shadow_span (regs D) r = Some (row, start, n)" for r row start n
    using span_ok(1)[OF assms(1) that m] .
  ultimately show ?thesis using m False
    by (auto simp: insert_cmp_def Let_def intro!: good_call good_mem split: option.splits)
qed (simp add: insert_cmp_def)

lemma good_shift:
  assumes "dr_regs_ok (regs D)"
  shows "good D regs_ok b (insert_shift D i b)"
  using span_ok(5)[OF assms _ order_refl]
  by (auto simp: insert_shift_def Let_def intro!: good_call good_mem split: option.splits)

lemma good_shld:
  assumes "dr_regs_ok (regs D)"
  shows "good D regs_ok b (insert_shld_shrd D i b)"
  using two_spans[OF assms] span_ok(5)[OF assms _ order_refl]
  by (auto simp: insert_shld_shrd_def Let_def intro!: good_call split: option.splits)

lemma good_bswap:
  assumes "dr_regs_ok (regs D)"
  shows "good D regs_ok b (insert_bswap D i b)"
  using span_ok(5)[OF assms _ order_refl]
  by (auto simp: insert_bswap_def Let_def intro!: good_call split: option.splits)

lemma good_movbe:
  assumes "dr_regs_ok (regs D)"
  shows "good D regs_ok b (insert_movbe D i b)"
  using span_ok(4,5)[OF assms _ order_refl]
  by (auto simp: insert_movbe_def Let_def intro!: good_mem split: option.splits)

lemma good_xadd:
  assumes "dr_regs_ok (regs D)"
  shows "good D regs_ok b (insert_xadd D i b)"
  using two_spans[OF assms] span_ok(5)[OF assms _ order_refl]
  by (auto simp: insert_xadd_def Let_def intro!: good_call good_mem split: option.splits)

lemma good_string:
  assumes "dr_regs_ok (regs D)"
  shows "good D regs_ok b (insert_movs D i b)" "good D regs_ok b (insert_stos D i b)" "good D regs_ok b (insert_lods D i b)"
  using good_moves[OF assms] good_m2m
  by (auto simp: insert_movs_def insert_stos_def insert_lods_def Let_def split: option.splits)

lemma cmpxchg_regs_in:
  assumes "cmpxchg_regs D dst ss (s0, a0) = (s1, a1)"
  shows "(s1 = s0 \<or> (\<exists>x \<in> set ss. gpr_opnd D x \<and> opnd_get_reg x = s1 \<and> reg_to_pointer_sized (regs D) s1 \<noteq> REG_64 RAX))
     \<and> (a1 = a0 \<or> (\<exists>x \<in> set ss. gpr_opnd D x \<and> opnd_get_reg x = a1 \<and> reg_to_pointer_sized (regs D) a1 = REG_64 RAX))"
  using assms
proof (induction ss arbitrary: s0 a0)
  case (Cons x ss)
  let ?r = "opnd_get_reg x"
  consider (skip) "\<not> gpr_opnd D x \<or> (reg_to_pointer_sized (regs D) ?r \<noteq> REG_64 RAX \<and> ?r = dst)"
    | (acc) "gpr_opnd D x" "reg_to_pointer_sized (regs D) ?r = REG_64 RAX"
    | (src) "gpr_opnd D x" "reg_to_pointer_sized (regs D) ?r \<noteq> REG_64 RAX" "?r \<noteq> dst" by blast
  then show ?case
  proof cases
    case skip
    then have "cmpxchg_regs D dst ss (s0, a0) = (s1, a1)" using Cons.prems by (auto simp: Let_def split: if_splits)
    from Cons.IH[OF this] show ?thesis by auto
  next
    case acc
    then have "cmpxchg_regs D dst ss (s0, if a0 = DR_REG_NULL then ?r else a0) = (s1, a1)" using Cons.prems by (auto simp: Let_def)
    from Cons.IH[OF this] acc show ?thesis by (auto split: if_splits)
  next
    case src
    then have "cmpxchg_regs D dst ss (if s0 = DR_REG_NULL then ?r else s0, a0) = (s1, a1)" using Cons.prems by (auto simp: Let_def)
    from Cons.IH[OF this] src show ?thesis by (auto split: if_splits)
  qed
qed simp

lemma aligned_equal_width:
  assumes "dr_regs_ok R" "reg_shadow_span R r = Some (row, start, n)" "reg_shadow_span R r' = Some (row', start', n')" "n = m" "n' = m"
  shows "aligned row start row' start' m"
  using span_bounds[OF assms(1,2)] span_bounds[OF assms(1,3)] assms(4,5) by (auto simp: aligned_def)

lemma good_cmpxchg:
  assumes R: "dr_regs_ok (regs D)" and w: "list_all (\<lambda>x. opnd_bytes (regs D) x \<le> 8) (dsts i @ srcs i)"
    and eq: "list_all (\<lambda>x. opnd_is_reg x \<and> reg_is_gpr (regs D) (opnd_get_reg x) \<longrightarrow> opnd_bytes (regs D) x = opnd_bytes (regs D) (hd (dsts i))) (dsts i @ srcs i)"
  shows "good D regs_ok b (insert_cmpxchg D i b)"
proof (cases "dsts i = [] \<or> srcs i = []")
  case False
  let ?d = "hd (dsts i)"
  let ?dst = "if opnd_is_reg ?d then opnd_get_reg ?d else DR_REG_NULL"
  obtain s a where sa: "cmpxchg_regs D ?dst (srcs i) (DR_REG_NULL, DR_REG_NULL) = (s, a)" by fastforce
  have wd: "opnd_bytes (regs D) ?d \<le> 8" using w False by (cases "dsts i") auto
  have width: "reg_bytes (regs D) r = opnd_bytes (regs D) ?d" if "x \<in> set (dsts i) \<union> set (srcs i)" "gpr_opnd D x" "opnd_get_reg x = r" for x r
    using eq that opnd_bytes_reg[of x "regs D"] by (auto simp: list_all_iff gpr_opnd_def)
  show ?thesis
  proof (cases "s = DR_REG_NULL \<or> a = DR_REG_NULL")
    case True
    then show ?thesis using False sa by (auto simp: insert_cmpxchg_def Let_def)
  next
    case ns: False
    obtain x y where x: "x \<in> set (srcs i)" "gpr_opnd D x" "opnd_get_reg x = s" "reg_to_pointer_sized (regs D) s \<noteq> REG_64 RAX"
      and y: "y \<in> set (srcs i)" "gpr_opnd D y" "opnd_get_reg y = a" "reg_to_pointer_sized (regs D) a = REG_64 RAX"
      using cmpxchg_regs_in[OF sa] ns by blast
    have ws: "reg_bytes (regs D) s = opnd_bytes (regs D) ?d" "reg_bytes (regs D) a = opnd_bytes (regs D) ?d"
      using width x y by auto
    show ?thesis
    proof (cases "reg_shadow_span (regs D) s")
      case None
      then show ?thesis using False sa by (auto simp: insert_cmpxchg_def Let_def)
    next
      case (Some sp)
      obtain sr ss sn where s: "reg_shadow_span (regs D) s = Some (sr, ss, sn)" using Some by (cases sp) auto
      show ?thesis
      proof (cases "reg_shadow_span (regs D) a")
        case None
        then show ?thesis using False sa s by (auto simp: insert_cmpxchg_def Let_def)
      next
        case (Some ap)
        obtain ar as an where a: "reg_shadow_span (regs D) a = Some (ar, as, an)" using Some by (cases ap) auto
        have n: "sn = opnd_bytes (regs D) ?d" "an = opnd_bytes (regs D) ?d"
          using span_bounds(6)[OF R s] span_bounds(6)[OF R a] ws by auto
        let ?n = "opnd_bytes (regs D) ?d"
        have ok: "src_ok sr ss ?n" "dst_ok ar as ?n" "aligned sr ss ar as ?n"
          using span_ok(1)[OF R s wd] span_ok(2)[OF R a wd] aligned_equal_width[OF R s a n] by auto
        have "dst_ok dr ds ?n \<and> aligned dr ds sr ss ?n \<and> aligned dr ds ar as ?n"
          if d: "reg_shadow_span (regs D) (opnd_get_reg ?d) = Some (dr, ds, dn)" "gpr_opnd D ?d" for dr ds dn
        proof -
          have "dn = ?n" using span_bounds(6)[OF R d(1)] d(2) opnd_bytes_reg[of ?d "regs D"] by (simp add: gpr_opnd_def)
          then show ?thesis
            using span_ok(2)[OF R d(1) wd] aligned_equal_width[OF R d(1) s _ n(1)] aligned_equal_width[OF R d(1) a _ n(2)] by blast
        qed
        then show ?thesis using False sa s a ns ok n
          by (auto simp: insert_cmpxchg_def Let_def intro!: good_call good_mem split: option.splits)
      qed
    qed
  qed
qed (auto simp: insert_cmpxchg_def)

lemma ins_inspect_good:
  assumes "dr_regs_ok (regs D)" "instr_ok (regs D) i"
  shows "good D regs_ok b (ins_inspect_dr D i b)"
proof -
  have narrow: "list_all (\<lambda>x. opnd_bytes (regs D) x \<le> 8) (dsts i @ srcs i)" if "instr_opcode i \<in> set narrow_ops"
    using that assms(2) by (simp add: instr_ok_def)
  have ext: "opnd_bytes (regs D) (hd (srcs i)) \<le> opnd_bytes (regs D) (hd (dsts i))"
    if "instr_opcode i \<in> {OP_movzx, OP_movsx, OP_movsxd}" "dsts i \<noteq> []" "srcs i \<noteq> []"
    using that assms(2) by (simp add: instr_ok_def)
  note g = good_xfer[OF assms(1)] good_mov_st[OF assms(1)] good_mov_imm[OF assms(1)] good_binary[OF assms(1)]
    good_lea[OF assms(1)] good_push[OF assms(1)] good_pop[OF assms(1)] good_leave[OF assms(1)] good_xchg[OF assms(1)]
    good_cmov[OF assms(1)] good_shift[OF assms(1)] good_shld[OF assms(1)] good_bswap[OF assms(1)] good_movbe[OF assms(1)]
    good_xadd[OF assms(1)] good_string[OF assms(1)]
  show ?thesis unfolding ins_inspect_dr_def
  proof (cases "instr_opcode i")
    case OP_cmpxchg
    with assms(2) show "good D regs_ok b (inserter (instr_opcode i) D i b)"
      using good_cmpxchg[OF assms(1) narrow] by (simp add: narrow_ops_def instr_ok_def)
  qed (use narrow ext g in \<open>auto simp: insert_mov_ld_def narrow_ops_def
        intro!: good_extend[OF assms(1)] good_cmp[OF assms(1)] good_cmps good_sign_extend good_muldiv[OF assms(1)] good_imul[OF assms(1)]\<close>)
qed

text \<open>A sample of what DynamoRIO supplies: every reservation succeeds, with a fresh register.\<close>

definition sample_insert :: dr_insert where
  "sample_insert =
     \<lparr>regs = x86_regs, reserve_aflags = (\<lambda>b. True),
      reserve_register = (\<lambda>b. case holding b of None \<Rightarrow> None
        | Some h \<Rightarrow> List.find (\<lambda>r. r \<notin> set (regs_held h)) [REG_64 R8, REG_64 R9, REG_64 R10, REG_64 R11]),
      get_mem_addr = (\<lambda>b m. True)\<rparr>"

lemma sample_insert_ok: "drreg_ok sample_insert" "regs sample_insert = x86_regs" "dr_regs_ok (regs sample_insert)"
  using x86_regs_ok by (auto simp: drreg_ok_def sample_insert_def split: if_splits)

definition sample_add :: instr where
  "sample_add = \<lparr>instr_opcode = OP_add, dsts = [OpReg (REG_64 RAX)],
     srcs = [OpBaseDisp (REG_64 RBX) DR_REG_NULL 1 0 8, OpReg (REG_64 RAX)], app_pc = 0x401000,
     predicate = PRED_OTHER, is_app = True\<rparr>"

text \<open>
  C8. The router is safe for every instruction: whatever is decoded and however the reservations of
  scratch registers turn out, nothing stays reserved behind the instrumentation, no register is released
  that is not held, every memory operand of an inserted call has its address in a reserved register at
  that point, and all rows and byte spans of the inserted calls lie inside the register file.
\<close>

theorem ins_inspect_safe:
  assumes "dr_regs_ok (regs D)" "drreg_ok D" "instr_ok (regs D) i" "released b"
  shows "released (ins_inspect_dr D i b)
     \<and> (\<exists>cs. calls_of (ins_inspect_dr D i b) = calls_of b @ cs \<and> (\<forall>c \<in> set cs. regs_ok c))"
  using ins_inspect_good[OF assms(1,3)] assms(2,4) by (simp add: good_def)

theorem ins_inspect_safe_witness:
  "released (ins_inspect_dr sample_insert sample_add [])
     \<and> calls_of (ins_inspect_dr sample_insert sample_add []) =
         [Call_binary_m2r DFT_REG_RAX 0 (OpBaseDisp (REG_64 RBX) DR_REG_NULL 1 0 8) 8]"
proof -
  have "instr_ok (regs sample_insert) sample_add" by (simp add: instr_ok_def sample_add_def narrow_ops_def)
  moreover have "released []" by (simp add: released_def holding_def)
  moreover have "calls_of (ins_inspect_dr sample_insert sample_add []) =
         [Call_binary_m2r DFT_REG_RAX 0 (OpBaseDisp (REG_64 RBX) DR_REG_NULL 1 0 8) 8]" by code_simp
  ultimately show ?thesis using ins_inspect_safe[OF sample_insert_ok(3,1), of sample_add "[]"] by simp
qed

section \<open>Instrumented execution\<close>

text \<open>
  C11. From instruction to taint. Run the clean calls that the router inserts for an instruction, in a
  well-formed engine with room in the label table, and let the memory spans they touch be shadowed: no
  call faults, and the offset sets afterwards are those of the specifications of these calls in order.
\<close>

theorem instrumented_sound:
  assumes "dr_regs_ok (regs D)" "instr_ok (regs D) i" "engine_ok s" "live (cur_drcontext E) s"
    "\<forall>c \<in> set (calls_of (ins_inspect_dr D i [])). mems_ok E c"
    "room (trace_cost (map (Pair E) (calls_of (ins_inspect_dr D i [])))) (tables s)"
  shows "\<exists>s'. run_trace (map (Pair E) (calls_of (ins_inspect_dr D i []))) s = Inr s' \<and> engine_ok s'
     \<and> taint_of s' = spec_trace (map (Pair E) (calls_of (ins_inspect_dr D i []))) (taint_of s)"
proof -
  let ?cs = "calls_of (ins_inspect_dr D i [])"
  have "\<forall>c \<in> set ?cs. regs_ok c" using ins_inspect_good[OF assms(1,2), of "[]"] by (auto simp: good_def)
  then have ok: "live (cur_drcontext E') s \<and> call_ok E' c" if "(E', c) \<in> set (map (Pair E) ?cs)" for E' c
    using that assms(4,5) by (auto simp: call_ok_split)
  have "\<exists>s'. run_trace (map (Pair E) ?cs) s = Inr s' \<and> engine_ok s' \<and> room 0 (tables s')
      \<and> taint_of s' = spec_trace (map (Pair E) ?cs) (taint_of s)"
    using run_trace_refines[where k = 0 and tr = "map (Pair E) ?cs", OF assms(3) ok] assms(6) by auto
  then show ?thesis by blast
qed

theorem instrumented_sound_witness:
  "\<exists>s'. run_trace (map (Pair (sample_env 0x1000)) (calls_of (ins_inspect_dr sample_insert sample_add []))) sample_engine = Inr s'
     \<and> engine_ok s'"
proof -
  have cs: "calls_of (ins_inspect_dr sample_insert sample_add []) =
         [Call_binary_m2r DFT_REG_RAX 0 (OpBaseDisp (REG_64 RBX) DR_REG_NULL 1 0 8) 8]" by code_simp
  have "instr_ok (regs sample_insert) sample_add" by (simp add: instr_ok_def sample_add_def narrow_ops_def)
  moreover have "\<forall>c \<in> set (calls_of (ins_inspect_dr sample_insert sample_add [])). mems_ok (sample_env 0x1000) c"
    unfolding cs by (simp add: mem_ok_def sample_env_def)
  moreover have "room (trace_cost (map (Pair (sample_env 0x1000)) (calls_of (ins_inspect_dr sample_insert sample_add [])))) (tables sample_engine)"
    unfolding cs using sample_room by (simp add: trace_cost_def)
  moreover have "live (cur_drcontext (sample_env 0x1000)) sample_engine" using sample_engine_ok(2) by (simp add: sample_env_def)
  ultimately show ?thesis using instrumented_sound[OF sample_insert_ok(3)] sample_engine_ok(1) by blast
qed

text \<open>
  C20. The zeroing idioms clear: for xor, sub and sbb of a register with itself the router inserts one
  call, which leaves the bytes of the register without any offset, and everything else as it was.
\<close>

theorem zeroing_idiom_clears:
  assumes "dr_regs_ok (regs D)" "instr_opcode i \<in> {OP_xor, OP_sub, OP_sbb}" "dsts i = [OpReg r]" "srcs i = [OpReg r, OpReg r]"
    "reg_shadow_span (regs D) r = Some (row, start, n)" "engine_ok s" "live (cur_drcontext E) s"
  shows "calls_of (ins_inspect_dr D i []) = [Call_r_clr row start n]
     \<and> (\<exists>s'. run_call E (Call_r_clr row start n) s = Inr s'
          \<and> (\<forall>k < n. treg (taint_of s') (cur_drcontext E) row (start + k) = {})
          \<and> tmem (taint_of s') = tmem (taint_of s))"
proof -
  have g: "reg_is_gpr (regs D) r" using assms(5) by (simp add: reg_shadow_span_def split: if_splits)
  have "find_data_dst D i = Some (OpReg r)" using assms(3) g by (simp add: find_data_dst_def gpr_opnd_def)
  moreover have "binary_src (OpReg r) i = OpReg r" using assms(4) by (simp add: binary_src_def same_data_opnd_def)
  moreover have "ins_inspect_dr D i b = insert_binary D i (instr_opcode i) b" for b using assms(2) by (auto simp: ins_inspect_dr_def)
  ultimately have "calls_of (ins_inspect_dr D i []) = [Call_r_clr row start n]"
    using assms(2,5) by (simp add: insert_binary_def Let_def insert_r_clr_def dr_insert_clean_call_def)
  moreover have ok: "dst_ok row start n" using span_ok(5)[OF assms(1,5) order_refl] .
  have rm: "room (0 + 0) (tables s)" using assms(6) by (simp add: room_def engine_ok_def tables_ok_def)
  obtain s' where s': "r_clr E row start n s = Inr s'" "taint_of s' = assign (cur_drcontext E) n (reg_cells row start) (\<lambda>_. {}) (taint_of s)"
    using refinesD[OF r_clr_refines[OF ok] assms(6,7) rm] by metis
  have "treg (taint_of s') (cur_drcontext E) row (start + k) = {}" if "k < n" for k
    using tget_assign[OF that, of "reg_cells row start" "cur_drcontext E" "\<lambda>_. {}"] by (simp add: s'(2))
  moreover have "tmem (taint_of s') a = tmem (taint_of s) a" for a
    using tget_assign_other[of n "CMem a" "reg_cells row start" "cur_drcontext E"] by (simp add: s'(2))
  ultimately show ?thesis using s'(1) by (auto simp: fun_eq_iff)
qed

theorem zeroing_idiom_clears_witness:
  "\<exists>s'. run_call (sample_env 0) (Call_r_clr DFT_REG_RAX 0 4) sample_engine = Inr s' \<and> treg (taint_of s') 7 DFT_REG_RAX 0 = {}"
proof -
  let ?i = "\<lparr>instr_opcode = OP_xor, dsts = [OpReg (REG_32 RAX)], srcs = [OpReg (REG_32 RAX), OpReg (REG_32 RAX)],
     app_pc = 0x401000, predicate = PRED_OTHER, is_app = True\<rparr>"
  have e: "cur_drcontext (sample_env 0) = 7" by (simp add: sample_env_def)
  have sp: "reg_shadow_span (regs sample_insert) (REG_32 RAX) = Some (DFT_REG_RAX, 0, 4)"
    unfolding sample_insert_ok(2) by (simp add: reg_shadow_span_def reg_indx_dr_def x86_regs_def DFT_REG_RAX_def GRP_NUM_def is_high_byte_def)
  from zeroing_idiom_clears[OF sample_insert_ok(3) _ _ _ sp sample_engine_ok(1), of ?i "sample_env 0"] sample_engine_ok(2) e
  obtain s' where "run_call (sample_env 0) (Call_r_clr DFT_REG_RAX 0 4) sample_engine = Inr s'"
    "\<forall>k < 4. treg (taint_of s') 7 DFT_REG_RAX (0 + k) = {}" by auto
  then show ?thesis by (auto dest: spec[of _ 0])
qed

end
