(* ===== verification/Summaries_Correct.thy ===== *)
theory Summaries_Correct
  imports Summaries
begin

text \<open>
  The configuration format of the summaries: a printer for directives, and the proof that the parser
  reads back what the printer writes, for every summary that the format can express and for whole files.
\<close>

section \<open>Numbers and references\<close>

definition int32 :: "int \<Rightarrow> bool" where
  "int32 v \<longleftrightarrow> - (2 ^ 31) \<le> v \<and> v < 2 ^ 31"

lemma dec_str_is_digit: "c \<in> set (dec_str n) \<Longrightarrow> is_digit c"
  using dec_str_digits[of c n] by (auto simp: is_digit_def)

lemma digit_not_special:
  assumes "is_digit c"
  shows "c \<noteq> CHR ''-''" "c \<noteq> CHR ''+''" "\<not> is_space c" "\<not> is_blank c" "c \<noteq> CHR '',''" "c \<noteq> CR" "c \<noteq> LF" "c \<noteq> CHR ''r''"
    "c \<noteq> CHR ''s''" "c \<noteq> CHR ''w''"
  using assms by (auto simp: is_digit_def is_space_def is_blank_def)

lemma hd_dec_str: "is_digit (hd (dec_str n))"
  by (rule dec_str_is_digit[of _ n]) simp

lemma strtol_dec: "strtol (dec_str n) = min (2 ^ 63 - 1) (int n)"
proof -
  have d: "takeWhile is_digit (dec_str n) = dec_str n"
    by (simp add: takeWhile_eq_all_conv dec_str_is_digit)
  have s: "dropWhile is_space (dec_str n) = dec_str n"
    using digit_not_special(3)[OF hd_dec_str[of n]] by (cases "dec_str n") simp_all
  show ?thesis
    using digit_not_special(1,2)[OF hd_dec_str[of n]] by (simp add: strtol_def s d Let_def)
qed

lemma strtol_neg: "strtol (CHR ''-'' # dec_str n) = max (- (2 ^ 63)) (- int n)"
proof -
  have d: "takeWhile is_digit (dec_str n) = dec_str n"
    by (simp add: takeWhile_eq_all_conv dec_str_is_digit)
  have s: "\<not> is_space (CHR ''-'')" by (simp add: is_space_def)
  show ?thesis by (simp add: strtol_def s d Let_def)
qed

lemma atoi_int2str: "int32 v \<Longrightarrow> atoi (int2str v) = v"
proof -
  assume v: "int32 v"
  then have "strtol (int2str v) = v"
    by (auto simp: int2str_def strtol_dec strtol_neg int32_def)
  with v show ?thesis by (simp add: atoi_def int32_def signed_of_int signed_take_bit_int_eq_self)
qed

lemma int2str_chars: "c \<in> set (int2str v) \<Longrightarrow> is_digit c \<or> c = CHR ''-''"
  by (auto simp: int2str_def dec_str_is_digit split: if_splits)

lemma int2str_not_Nil [simp]: "int2str v \<noteq> []"
  by (simp add: int2str_def)

lemma comma_notin_int2str: "CHR '','' \<notin> set (int2str v)"
  using int2str_chars[of "CHR '',''" v] digit_not_special(5) by auto

lemma parse_csv_token: "CHR '','' \<notin> set x \<Longrightarrow> x \<noteq> [] \<Longrightarrow> parse_csv_ints x = [atoi x]"
proof -
  assume x: "CHR '','' \<notin> set x" "x \<noteq> []"
  then have tw: "takeWhile (\<lambda>c. c \<noteq> CHR '','') x = x" "dropWhile (\<lambda>c. c \<noteq> CHR '','') x = []"
    by (auto simp: takeWhile_eq_all_conv dropWhile_eq_Nil_conv)
  show ?thesis using x(2) by (subst parse_csv_ints.simps) (simp add: tw Let_def parse_csv_ints.simps[of "[]"])
qed

lemma parse_csv_cons:
  "CHR '','' \<notin> set x \<Longrightarrow> x \<noteq> [] \<Longrightarrow> parse_csv_ints (x @ CHR '','' # s) = atoi x # parse_csv_ints s"
proof -
  assume x: "CHR '','' \<notin> set x" "x \<noteq> []"
  then have "takeWhile (\<lambda>c. c \<noteq> CHR '','') (x @ CHR '','' # s) = x" "dropWhile (\<lambda>c. c \<noteq> CHR '','') (x @ CHR '','' # s) = CHR '','' # s"
    by (auto simp: takeWhile_append dropWhile_append takeWhile_eq_all_conv dropWhile_eq_Nil_conv)
  with x show ?thesis by (simp add: parse_csv_ints.simps[of "x @ CHR '','' # s"] Let_def)
qed

lemma parse_csv_print: "list_all int32 vs \<Longrightarrow> parse_csv_ints (commas (map int2str vs)) = vs"
proof (induction vs rule: induct_list012)
  case 1
  then show ?case by (simp add: parse_csv_ints.simps)
next
  case (2 v)
  then show ?case by (simp add: parse_csv_token comma_notin_int2str atoi_int2str)
next
  case (3 v w vs)
  then show ?case by (simp add: parse_csv_cons comma_notin_int2str atoi_int2str)
qed

fun print_ref :: "Ref \<Rightarrow> string" where
  "print_ref r =
     (case ref_kind r of
        REF_RET \<Rightarrow> ''ret'' | REF_STRLEN \<Rightarrow> ''strlen'' | REF_WCSLEN \<Rightarrow> ''wcslen'' | _ \<Rightarrow> int2str (ref_value r))"

text \<open>A reference that the format can express: arguments 0 to 5, other numbers as literals.\<close>

definition ref_ok :: "Ref \<Rightarrow> bool" where
  "ref_ok r \<longleftrightarrow>
     (case ref_kind r of
        REF_ARG \<Rightarrow> 0 \<le> ref_value r \<and> ref_value r \<le> 5
      | REF_LITERAL \<Rightarrow> int32 (ref_value r) \<and> \<not> (0 \<le> ref_value r \<and> ref_value r \<le> 5)
      | _ \<Rightarrow> ref_value r = 0)"

lemma parse_ref_number:
  assumes "int32 v"
  shows "parse_ref (int2str v) = new_Ref\<lparr>ref_kind := if 0 \<le> v \<and> v \<le> 5 then REF_ARG else REF_LITERAL, ref_value := v\<rparr>"
proof -
  have hd: "is_digit (hd (int2str v)) \<or> hd (int2str v) = CHR ''-''" using int2str_chars[of "hd (int2str v)" v] by simp
  have "\<not> is_digit (CHR ''r'')" "\<not> is_digit (CHR ''s'')" "\<not> is_digit (CHR ''w'')" by (auto simp: is_digit_def)
  with hd have "int2str v \<noteq> ''ret''" "int2str v \<noteq> ''strlen''" "int2str v \<noteq> ''wcslen''" by auto
  then show ?thesis using hd atoi_int2str[OF assms] by (auto simp: parse_ref_def Let_def)
qed

lemma parse_print_ref:
  assumes "ref_ok r" "ref_kind r \<noteq> REF_NONE"
  shows "parse_ref (print_ref r) = r"
proof (cases "ref_kind r")
  case REF_ARG
  then have "int32 (ref_value r)" "0 \<le> ref_value r \<and> ref_value r \<le> 5" using assms(1) by (auto simp: ref_ok_def int32_def)
  then show ?thesis using REF_ARG parse_ref_number[of "ref_value r"] by (simp add: new_Ref_def)
next
  case REF_LITERAL
  then have "int32 (ref_value r)" "\<not> (0 \<le> ref_value r \<and> ref_value r \<le> 5)" using assms(1) by (auto simp: ref_ok_def)
  then show ?thesis using REF_LITERAL parse_ref_number[of "ref_value r"] by (auto simp: new_Ref_def)
qed (use assms in \<open>auto simp: ref_ok_def parse_ref_def new_Ref_def\<close>)

section \<open>Tokens and lines\<close>

fun spaces :: "string list \<Rightarrow> string" where
  "spaces [] = []"
| "spaces [x] = x"
| "spaces (x # y # xs) = x @ CHR '' '' # spaces (y # xs)"

definition token_ok :: "string \<Rightarrow> bool" where
  "token_ok x \<longleftrightarrow> x \<noteq> [] \<and> (\<forall>c \<in> set x. \<not> is_blank c \<and> c \<noteq> LF \<and> c \<noteq> CR)"

lemma token_parts:
  assumes "token_ok x"
  shows "dropWhile is_blank (x @ s) = x @ s" "takeWhile (\<lambda>c. \<not> is_blank c) (x @ CHR '' '' # s) = x"
    "dropWhile (\<lambda>c. \<not> is_blank c) (x @ CHR '' '' # s) = CHR '' '' # s" "takeWhile (\<lambda>c. \<not> is_blank c) x = x"
    "dropWhile (\<lambda>c. \<not> is_blank c) x = []"
proof -
  have b: "is_blank (CHR '' '')" by (simp add: is_blank_def)
  show "dropWhile is_blank (x @ s) = x @ s" using assms by (cases x) (simp_all add: token_ok_def)
  show "takeWhile (\<lambda>c. \<not> is_blank c) (x @ CHR '' '' # s) = x" "dropWhile (\<lambda>c. \<not> is_blank c) (x @ CHR '' '' # s) = CHR '' '' # s"
    using assms b by (auto simp: token_ok_def takeWhile_append dropWhile_append takeWhile_eq_all_conv dropWhile_eq_Nil_conv)
  show "takeWhile (\<lambda>c. \<not> is_blank c) x = x" "dropWhile (\<lambda>c. \<not> is_blank c) x = []"
    using assms by (auto simp: token_ok_def takeWhile_eq_all_conv dropWhile_eq_Nil_conv)
qed

lemma split_ws_blank: "split_ws (CHR '' '' # s) = split_ws s"
  by (simp add: split_ws.simps[of "CHR '' '' # s"] split_ws.simps[of s] is_blank_def)

lemma split_ws_cons: "token_ok x \<Longrightarrow> split_ws (x @ CHR '' '' # s) = x # split_ws s"
proof -
  assume x: "token_ok x"
  then have "x \<noteq> []" by (simp add: token_ok_def)
  then have "split_ws (x @ CHR '' '' # s) = x # split_ws (CHR '' '' # s)"
    by (subst split_ws.simps) (simp add: token_parts[OF x] Let_def)
  then show ?thesis by (simp add: split_ws_blank)
qed

lemma split_ws_token: "token_ok x \<Longrightarrow> split_ws x = [x]"
proof -
  assume x: "token_ok x"
  then have "x \<noteq> []" by (simp add: token_ok_def)
  moreover have "dropWhile is_blank x = x" using token_parts(1)[OF x, of "[]"] by simp
  ultimately have "split_ws x = x # split_ws []"
    by (subst split_ws.simps) (simp add: token_parts[OF x] Let_def)
  then show ?thesis by (simp add: split_ws.simps[of "[]"])
qed

lemma split_ws_spaces: "list_all token_ok ts \<Longrightarrow> split_ws (spaces ts) = ts"
proof (induction ts rule: spaces.induct)
  case 1
  then show ?case by (simp add: split_ws.simps)
next
  case (2 x)
  then show ?case by (simp add: split_ws_token)
next
  case (3 x y xs)
  then show ?case by (simp add: split_ws_cons)
qed

lemma strip_id:
  assumes "s \<noteq> []" "\<not> is_blank (hd s)" "\<not> is_blank (last s)" "last s \<noteq> LF" "last s \<noteq> CR"
  shows "strip s = s"
proof -
  obtain ys where ys: "rev s = last s # ys" using assms(1) by (cases s rule: rev_cases) simp_all
  have "dropWhile (\<lambda>c. c = CHR '' '' \<or> c = TAB \<or> c = CR \<or> c = LF) (rev s) = rev s"
    unfolding ys using assms(3-5) by (simp add: is_blank_def)
  then have "rstrip s = s" by (simp add: rstrip_def)
  then show ?thesis using assms(1,2) by (cases s) (simp_all add: strip_def lstrip_def)
qed

lemma spaces_last: "ts \<noteq> [] \<Longrightarrow> list_all token_ok ts \<Longrightarrow> spaces ts \<noteq> [] \<and> last (spaces ts) = last (last ts)"
  by (induction ts rule: spaces.induct) (auto simp: token_ok_def)

lemma spaces_hd: "ts \<noteq> [] \<Longrightarrow> list_all token_ok ts \<Longrightarrow> hd (spaces ts) = hd (hd ts)"
  by (induction ts rule: spaces.induct) (auto simp: token_ok_def)

lemma strip_spaces:
  assumes "ts \<noteq> []" "list_all token_ok ts"
  shows "strip (spaces ts) = spaces ts"
proof -
  have "token_ok (hd ts)" "token_ok (last ts)" using assms by (auto simp: list_all_iff)
  then show ?thesis
    using spaces_last[OF assms] spaces_hd[OF assms] by (intro strip_id) (auto simp: token_ok_def)
qed

section \<open>Directives\<close>

fun shape_name :: "Shape \<Rightarrow> string" where
  "shape_name SHAPE_SOURCE = ''SOURCE''"
| "shape_name SHAPE_SOURCE_RET_PTR = ''SOURCE_RETURN_PTR''"
| "shape_name SHAPE_PROP_PTR2PTR = ''PROP_PTR2PTR''"
| "shape_name SHAPE_PROP_PTR2VAL = ''PROP_PTR2VAL''"
| "shape_name SHAPE_PROP_SCALAR = ''PROP_SCALAR''"
| "shape_name SHAPE_CLOBBER_ONLY = ''CLOBBER_ONLY''"
| "shape_name SHAPE_INVALID = ''INVALID''"

definition kv :: "string \<Rightarrow> string \<Rightarrow> string" where
  "kv key val = key @ CHR ''='' # val"

definition func_tokens :: "string \<Rightarrow> Summary \<Rightarrow> string list" where
  "func_tokens name s =
     [''FUNC'', name, shape_name (sum_shape s), kv ''buf'' (int2str (sum_buf s))]
     @ (if ref_kind (sum_len s) = REF_NONE then [] else [kv ''len'' (print_ref (sum_len s))])
     @ (if ref_kind (sum_dst s) = REF_NONE then [] else [kv ''dst'' (print_ref (sum_dst s))])
     @ [kv ''src'' (commas (map int2str (sum_src s))), kv ''args'' (commas (map int2str (sum_args s)))]"

definition print_func :: "string \<Rightarrow> Summary \<Rightarrow> string" where
  "print_func name s = spaces (func_tokens name s)"

definition summary_ok :: "Summary \<Rightarrow> bool" where
  "summary_ok s \<longleftrightarrow> sum_shape s \<noteq> SHAPE_INVALID \<and> ref_ok (sum_len s) \<and> ref_ok (sum_dst s)
     \<and> list_all int32 (sum_src s) \<and> list_all int32 (sum_args s) \<and> int32 (sum_buf s)"

lemma split_kv_kv: "CHR ''='' \<notin> set key \<Longrightarrow> split_kv (kv key val) = Some (key, val)"
proof -
  assume "CHR ''='' \<notin> set key"
  then have "takeWhile (\<lambda>c. c \<noteq> CHR ''='') (kv key val) = key" "dropWhile (\<lambda>c. c \<noteq> CHR ''='') (kv key val) = CHR ''='' # val"
    by (auto simp: kv_def takeWhile_append dropWhile_append takeWhile_eq_all_conv dropWhile_eq_Nil_conv)
  then show ?thesis by (simp add: split_kv_def) (simp add: kv_def)
qed

lemma parse_shape_name: "sh \<noteq> SHAPE_INVALID \<Longrightarrow> parse_shape (shape_name sh) = Some sh"
  by (cases sh) (simp_all add: parse_shape_def)

lemma parse_keys_kv: "CHR ''='' \<notin> set key \<Longrightarrow> parse_keys (kv key val # toks) s = parse_keys toks (set_key key val s)"
  by (simp add: split_kv_kv)

lemma parse_keys_print:
  assumes "summary_ok s"
  shows "parse_keys (drop 3 (func_tokens name s)) (new_Summary\<lparr>sum_shape := sum_shape s\<rparr>) = s"
proof -
  have n: "ref_kind r = REF_NONE \<Longrightarrow> ref_ok r \<Longrightarrow> r = new_Ref" for r :: Ref
    by (simp add: ref_ok_def new_Ref_def)
  have "sum_len s = new_Ref \<or> ref_kind (sum_len s) \<noteq> REF_NONE" "sum_dst s = new_Ref \<or> ref_kind (sum_dst s) \<noteq> REF_NONE"
    using assms n by (auto simp: summary_ok_def)
  then show ?thesis
    using assms unfolding func_tokens_def
    by (auto simp: parse_keys_kv set_key_def atoi_int2str parse_print_ref parse_csv_print summary_ok_def new_Summary_def
        new_Ref_def simp del: parse_keys.simps(2) print_ref.simps)
qed

lemma no_blank_tokens: "list_all token_ok [''FUNC'', ''ret'', ''strlen'', ''wcslen'', shape_name sh]"
  by (cases sh) (simp_all add: token_ok_def is_blank_def)

lemma int2str_char_ok: "c \<in> set (int2str v) \<Longrightarrow> \<not> is_blank c \<and> c \<noteq> LF \<and> c \<noteq> CR"
  using int2str_chars[of c v] digit_not_special(4,6,7)[of c] by (auto simp: is_blank_def)

lemma commas_chars: "c \<in> set (commas xs) \<Longrightarrow> c = CHR '','' \<or> (\<exists>x \<in> set xs. c \<in> set x)"
  by (induction xs rule: commas.induct) auto

lemma csv_char_ok: "c \<in> set (commas (map int2str vs)) \<Longrightarrow> \<not> is_blank c \<and> c \<noteq> LF \<and> c \<noteq> CR"
  using commas_chars[of c "map int2str vs"] int2str_char_ok[of c] by (auto simp: is_blank_def)

lemma print_ref_char_ok: "c \<in> set (print_ref r) \<Longrightarrow> \<not> is_blank c \<and> c \<noteq> LF \<and> c \<noteq> CR"
  using int2str_char_ok[of c] by (cases "ref_kind r") (auto simp: is_blank_def)

lemma kv_token: "token_ok key \<Longrightarrow> (\<And>c. c \<in> set val \<Longrightarrow> \<not> is_blank c \<and> c \<noteq> LF \<and> c \<noteq> CR) \<Longrightarrow> token_ok (kv key val)"
  by (auto simp: token_ok_def kv_def is_blank_def)

lemma func_tokens_ok: "token_ok name \<Longrightarrow> list_all token_ok (func_tokens name s)"
proof -
  assume n: "token_ok name"
  have k: "token_ok ''buf''" "token_ok ''len''" "token_ok ''dst''" "token_ok ''src''" "token_ok ''args''"
    by (simp_all add: token_ok_def is_blank_def)
  show ?thesis
    using n no_blank_tokens[of "sum_shape s"] kv_token[OF k(1) int2str_char_ok] kv_token[OF k(2) print_ref_char_ok]
      kv_token[OF k(3) print_ref_char_ok] kv_token[OF k(4) csv_char_ok] kv_token[OF k(5) csv_char_ok]
    by (auto simp: func_tokens_def)
qed

lemma parse_line_print_func:
  assumes "token_ok name" "summary_ok s"
  shows "parse_line (print_func name s) d = d\<lparr>s_funcs := (s_funcs d)(name \<mapsto> s)\<rparr>"
proof -
  let ?ts = "func_tokens name s"
  have ts: "?ts \<noteq> []" "list_all token_ok ?ts" "hd ?ts = ''FUNC''" "length ?ts \<ge> 3" "?ts ! 1 = name" "?ts ! 2 = shape_name (sum_shape s)"
    using func_tokens_ok[OF assms(1), of s] by (simp_all add: func_tokens_def)
  have line: "strip (print_func name s) = spaces ?ts" "split_ws (spaces ?ts) = ?ts" "spaces ?ts \<noteq> []" "hd (spaces ?ts) = CHR ''F''"
    using strip_spaces[OF ts(1,2)] split_ws_spaces[OF ts(2)] spaces_last[OF ts(1,2)] spaces_hd[OF ts(1,2)] ts(3)
    by (simp_all add: print_func_def)
  have "parse_func ?ts d = d\<lparr>s_funcs := (s_funcs d)(name \<mapsto> s)\<rparr>"
    using ts(4-6) assms(2) parse_keys_print[OF assms(2), of name] by (simp add: parse_func_def parse_shape_name summary_ok_def)
  then show ?thesis using line ts(1,3) by (simp add: parse_line_def Let_def)
qed

section \<open>Whole files\<close>

fun join_lines :: "string list \<Rightarrow> string" where
  "join_lines [] = []"
| "join_lines [x] = x"
| "join_lines (x # y # xs) = x @ LF # join_lines (y # xs)"

lemma split_lines_not_Nil [simp]: "split_lines s \<noteq> []"
  by (cases s) simp_all

lemma split_lines_one: "LF \<notin> set x \<Longrightarrow> split_lines x = [x]"
  by (induction x) auto

lemma split_lines_cons: "LF \<notin> set x \<Longrightarrow> split_lines (x @ LF # s) = x # split_lines s"
  by (induction x) auto

lemma split_join_lines: "xs \<noteq> [] \<Longrightarrow> (\<And>x. x \<in> set xs \<Longrightarrow> LF \<notin> set x) \<Longrightarrow> split_lines (join_lines xs) = xs"
  by (induction xs rule: join_lines.induct) (auto simp: split_lines_one split_lines_cons)

lemma spaces_chars: "c \<in> set (spaces ts) \<Longrightarrow> c = CHR '' '' \<or> (\<exists>x \<in> set ts. c \<in> set x)"
  by (induction ts rule: spaces.induct) auto

lemma print_func_one_line: "token_ok name \<Longrightarrow> LF \<notin> set (print_func name s)"
  using spaces_chars[of LF "func_tokens name s"] func_tokens_ok[of name s]
  by (auto simp: print_func_def list_all_iff token_ok_def)

lemma fold_parse_funcs:
  assumes "\<And>n s. (n, s) \<in> set fs \<Longrightarrow> token_ok n \<and> summary_ok s"
  shows "fold parse_line (map (\<lambda>(n, s). print_func n s) fs) d = d\<lparr>s_funcs := s_funcs d ++ map_of (rev fs)\<rparr>"
  using assms
proof (induction fs arbitrary: d)
  case (Cons f fs)
  obtain n s where f: "f = (n, s)" by (cases f)
  have "fold parse_line (map (\<lambda>(n, s). print_func n s) fs) (d\<lparr>s_funcs := (s_funcs d)(n \<mapsto> s)\<rparr>)
     = d\<lparr>s_funcs := (s_funcs d)(n \<mapsto> s) ++ map_of (rev fs)\<rparr>"
    by (subst Cons.IH) (use Cons.prems in auto)
  then show ?case using Cons.prems[of n s] f by (simp add: parse_line_print_func map_add_assoc[symmetric])
qed simp

text \<open>
  C33. Round trip of the configuration file: when a file holds one \<^verbatim>\<open>FUNC\<close> line for each of a list of
  functions with distinct names, loading it succeeds and the lookup of each name gives back the summary
  that was written, field by field. Summaries are those the format can express: a shape, 32-bit numbers,
  and references to arguments 0 to 5, to other literals, or to the three named values.
\<close>

theorem summaries_roundtrip:
  assumes "funcs \<noteq> []" "distinct (map fst funcs)" "\<And>n s. (n, s) \<in> set funcs \<Longrightarrow> token_ok n \<and> summary_ok s"
    and "fs path = Some (join_lines (map (\<lambda>(n, s). print_func n s) funcs))" "(name, sm) \<in> set funcs"
  shows "fst (sdft_load fs path d) \<and> sdft_find name (snd (sdft_load fs path d)) = Some sm"
proof -
  let ?lines = "map (\<lambda>(n, s). print_func n s) funcs"
  have "split_lines (join_lines ?lines) = ?lines"
    using assms(1,3) by (intro split_join_lines) (auto simp: print_func_one_line)
  then have load: "sdft_load fs path d = (True, set_default (d\<lparr>s_funcs := s_funcs d ++ map_of (rev funcs)\<rparr>))"
    using assms(4) fold_parse_funcs[OF assms(3)] by (simp add: sdft_load_def)
  have "map_of (rev funcs) name = Some sm"
    using assms(2,5) by (intro map_of_is_SomeI) (simp_all add: rev_map[symmetric])
  then show ?thesis by (simp add: load sdft_find_def set_default_def)
qed

definition memcpy_summary :: Summary where
  "memcpy_summary = \<lparr>sum_shape = SHAPE_PROP_PTR2PTR, sum_dst = \<lparr>ref_kind = REF_ARG, ref_value = 0\<rparr>, sum_src = [1],
     sum_len = \<lparr>ref_kind = REF_ARG, ref_value = 2\<rparr>, sum_args = [], sum_buf = - 1\<rparr>"

theorem summaries_roundtrip_witness:
  "sdft_find ''memcpy'' (snd (sdft_load (\<lambda>_. Some (join_lines [print_func ''memcpy'' memcpy_summary])) ''x'' sdft_start))
     = Some memcpy_summary"
proof -
  have "token_ok ''memcpy''" by (simp add: token_ok_def is_blank_def)
  moreover have "summary_ok memcpy_summary" by (simp add: summary_ok_def memcpy_summary_def ref_ok_def int32_def)
  ultimately show ?thesis
    using summaries_roundtrip[of "[(''memcpy'', memcpy_summary)]" "\<lambda>_. Some (join_lines [print_func ''memcpy'' memcpy_summary])" "''x''"
        "''memcpy''" memcpy_summary sdft_start] by simp
qed

end
