(* ===== verification/Mnt_Correct.thy ===== *)
theory Mnt_Correct
  imports Mnt
begin

text \<open>
  Correctness of the must-not-taint query and of the file reader: bisection finds what is there, the
  lazily sorted ranges and the cache of the last image do not change the answer, nested ranges do, and a
  file in the format of the analyser is read back as it was written.
\<close>

section \<open>Bisection\<close>

lemma bisect_correct:
  assumes "sorted xs" "f + n \<le> length xs"
  shows "f \<le> bisect xs v f n \<and> bisect xs v f n \<le> f + n
     \<and> (\<forall>i. f \<le> i \<longrightarrow> i < bisect xs v f n \<longrightarrow> xs ! i < v)
     \<and> (\<forall>i. bisect xs v f n \<le> i \<longrightarrow> i < f + n \<longrightarrow> v \<le> xs ! i)"
  using assms
proof (induction xs v f n rule: bisect.induct)
  case (1 xs v f n)
  show ?case
  proof (cases "n = 0")
    case True
    then show ?thesis by (simp add: bisect.simps[of xs v f 0])
  next
    case False
    define m where "m = f + n div 2"
    have m: "m < length xs" "f \<le> m" "m < f + n" using False "1.prems"(2) by (auto simp: m_def)
    show ?thesis
    proof (cases "xs ! m < v")
      case True
      have eq: "bisect xs v f n = bisect xs v (m + 1) (n - n div 2 - 1)"
        using True False by (simp add: bisect.simps[of xs v f n] m_def Let_def)
      have le: "m + 1 + (n - n div 2 - 1) = f + n" using False by (simp add: m_def)
      have small: "xs ! i < v" if "i \<le> m" for i
        using sorted_nth_mono[OF "1.prems"(1) that m(1)] True by simp
      define r where "r = bisect xs v (m + 1) (n - n div 2 - 1)"
      have r: "m + 1 \<le> r" "r \<le> f + n" "\<And>i. m + 1 \<le> i \<Longrightarrow> i < r \<Longrightarrow> xs ! i < v" "\<And>i. r \<le> i \<Longrightarrow> i < f + n \<Longrightarrow> v \<le> xs ! i"
        using "1.IH"(1)[OF False refl True[unfolded m_def] "1.prems"(1)] le "1.prems"(2) by (simp_all add: m_def r_def)
      have "xs ! i < v" if "i < r" for i
        using small[of i] r(3)[of i] that by (cases "i \<le> m") simp_all
      with r m show ?thesis unfolding eq r_def[symmetric] by auto
    next
      case F: False
      have eq: "bisect xs v f n = bisect xs v f (n div 2)"
        using F False by (simp add: bisect.simps[of xs v f n] m_def Let_def)
      have big: "v \<le> xs ! i" if "m \<le> i" "i < f + n" for i
        using sorted_nth_mono[OF "1.prems"(1) that(1)] F that(2) "1.prems"(2) by fastforce
      define r where "r = bisect xs v f (n div 2)"
      have r: "f \<le> r" "r \<le> m" "\<And>i. f \<le> i \<Longrightarrow> i < r \<Longrightarrow> xs ! i < v" "\<And>i. r \<le> i \<Longrightarrow> i < m \<Longrightarrow> v \<le> xs ! i"
        using "1.IH"(2)[OF False refl F[unfolded m_def] "1.prems"(1)] m by (simp_all add: m_def r_def)
      have "v \<le> xs ! i" if "r \<le> i" "i < f + n" for i
        using big[of i] r(4)[of i] that by (cases "m \<le> i") simp_all
      with r m show ?thesis unfolding eq r_def[symmetric] by auto
    qed
  qed
qed

lemma lower_bound_correct:
  assumes "sorted xs"
  shows "lower_bound xs v \<le> length xs" "i < lower_bound xs v \<Longrightarrow> xs ! i < v"
    "lower_bound xs v \<le> i \<Longrightarrow> i < length xs \<Longrightarrow> v \<le> xs ! i"
  using bisect_correct[OF assms, of 0 "length xs" v] by (auto simp: lower_bound_def)

lemma binary_search_iff:
  assumes "sorted xs"
  shows "binary_search xs v \<longleftrightarrow> v \<in> set xs"
proof
  assume "binary_search xs v"
  then have i: "lower_bound xs v < length xs" "\<not> v < xs ! lower_bound xs v" by (simp_all add: binary_search_def Let_def)
  with lower_bound_correct(3)[OF assms, of v "lower_bound xs v"] have "v = xs ! lower_bound xs v" by simp
  with i(1) show "v \<in> set xs" by (metis nth_mem)
next
  assume "v \<in> set xs"
  then obtain j where j: "j < length xs" "xs ! j = v" by (auto simp: in_set_conv_nth)
  have "\<not> j < lower_bound xs v" using lower_bound_correct(2)[OF assms, of j v] j by auto
  then have l: "lower_bound xs v < length xs" using j by simp
  moreover have "xs ! lower_bound xs v \<le> v"
    using sorted_nth_mono[OF assms, of "lower_bound xs v" j] j \<open>\<not> j < lower_bound xs v\<close> by simp
  ultimately show "binary_search xs v" by (simp add: binary_search_def Let_def not_less)
qed

section \<open>Ranges\<close>

definition in_rtn :: "ADDRINT \<Rightarrow> ADDRINT \<times> ADDRINT \<Rightarrow> bool" where
  "in_rtn pc r \<longleftrightarrow> fst r \<le> pc \<and> pc < snd r"

definition ranges_ok :: "(ADDRINT \<times> ADDRINT) set \<Rightarrow> bool" where
  "ranges_ok A \<longleftrightarrow> (\<forall>r \<in> A. fst r < snd r) \<and> (\<forall>r \<in> A. \<forall>q \<in> A. r \<noteq> q \<longrightarrow> snd r \<le> fst q \<or> snd q \<le> fst r)"

lemma probe_less: "pc + 1 \<noteq> 0 \<Longrightarrow> r < (pc + 1, 0) \<longleftrightarrow> fst r \<le> pc" for pc :: ADDRINT and r :: "ADDRINT \<times> ADDRINT"
proof -
  assume "pc + 1 \<noteq> 0"
  then have "unat (pc + 1) = Suc (unat pc)" using unatSuc[of pc] by (simp add: add.commute)
  then have "fst r < pc + 1 \<longleftrightarrow> fst r \<le> pc"
    by (simp add: word_less_nat_alt word_le_nat_alt less_Suc_eq_le)
  then show ?thesis by (cases r) (auto simp: less_prod_def)
qed

text \<open>
  The bisection finds the last range that begins at or before the pc, whatever ranges there are; it decides.
  For disjoint ranges that is membership in any of them.
\<close>

definition range_decides :: "(ADDRINT \<times> ADDRINT) set \<Rightarrow> ADDRINT \<Rightarrow> bool" where
  "range_decides A pc \<longleftrightarrow> (\<exists>r \<in> A. in_rtn pc r \<and> (\<forall>q \<in> A. fst q \<le> pc \<longrightarrow> q \<le> r))"

lemma range_lookup:
  assumes "sorted rs" "i = lower_bound rs (pc + 1, 0)"
  shows "(i \<noteq> 0 \<and> in_rtn pc (rs ! (i - 1))) \<longleftrightarrow> range_decides (set rs) pc"
proof (cases "pc + 1 = 0")
  case True
  have "\<not> r < (0 :: ADDRINT, 0 :: ADDRINT)" for r by (cases r) (simp add: less_prod_def)
  then have "i = 0" using lower_bound_correct(2)[OF assms(1), of 0 "(pc + 1, 0)"] assms(2) True by (metis gr0I)
  moreover have "pc = - 1" using True by (metis add_eq_0_iff2)
  then have "\<not> pc < h" for h using word_order.extremum[of h] by (simp add: not_less)
  ultimately show ?thesis by (auto simp: in_rtn_def range_decides_def)
next
  case False
  have lt: "fst (rs ! j) \<le> pc" if "j < i" for j
    using lower_bound_correct(2)[OF assms(1)] that assms(2) probe_less[OF False] by blast
  have ge: "\<not> fst (rs ! j) \<le> pc" if "i \<le> j" "j < length rs" for j
    using lower_bound_correct(3)[OF assms(1), of _ j] that assms(2) probe_less[OF False] by (metis leD)
  have len: "i \<le> length rs" using lower_bound_correct(1)[OF assms(1)] assms(2) by simp
  have last: "rs ! (i - 1) \<in> set rs" "fst (rs ! (i - 1)) \<le> pc" if "i \<noteq> 0" using that len lt[of "i - 1"] by (auto intro: nth_mem)
  have max: "q \<le> rs ! (i - 1) \<and> i \<noteq> 0" if q: "q \<in> set rs" "fst q \<le> pc" for q
  proof -
    obtain j where j: "j < length rs" "q = rs ! j" using q(1) unfolding in_set_conv_nth by metis
    then have "j < i" using ge[of j] q(2) by (metis not_le)
    then show ?thesis using sorted_nth_mono[OF assms(1), of j "i - 1"] j len by auto
  qed
  show ?thesis
  proof
    assume "i \<noteq> 0 \<and> in_rtn pc (rs ! (i - 1))"
    with last(1) max show "range_decides (set rs) pc" unfolding range_decides_def by blast
  next
    assume "range_decides (set rs) pc"
    then obtain r where r: "r \<in> set rs" "in_rtn pc r" "\<forall>q \<in> set rs. fst q \<le> pc \<longrightarrow> q \<le> r" unfolding range_decides_def by blast
    then have "i \<noteq> 0" "r \<le> rs ! (i - 1)" using max[of r] by (simp_all add: in_rtn_def)
    moreover from this have "rs ! (i - 1) \<le> r" using r(3) last by blast
    ultimately show "i \<noteq> 0 \<and> in_rtn pc (rs ! (i - 1))" using r(2) by auto
  qed
qed

lemma ranges_okD: "ranges_ok A \<Longrightarrow> r \<in> A \<Longrightarrow> q \<in> A \<Longrightarrow> fst q < snd q \<and> (q = r \<or> snd q \<le> fst r \<or> snd r \<le> fst q)"
  unfolding ranges_ok_def by blast

lemma earlier_range: "fst q < snd q \<Longrightarrow> snd q \<le> l \<Longrightarrow> q \<le> (l, h)" for q :: "ADDRINT \<times> ADDRINT"
  by (cases q) (auto simp: less_eq_prod_def)

lemma range_decides_disjoint:
  assumes "ranges_ok A"
  shows "range_decides A pc \<longleftrightarrow> (\<exists>r \<in> A. in_rtn pc r)"
proof
  assume "\<exists>r \<in> A. in_rtn pc r"
  then obtain r where r: "r \<in> A" "fst r \<le> pc" "pc < snd r" by (auto simp: in_rtn_def)
  have "q \<le> r" if "q \<in> A" "fst q \<le> pc" for q
    using ranges_okD[OF assms r(1) that(1)] earlier_range[of q "fst r" "snd r"] that(2) r(3) by auto
  with r show "range_decides A pc" unfolding range_decides_def in_rtn_def by blast
qed (auto simp: range_decides_def)

section \<open>The query\<close>

text \<open>
  The shape that every state has whose images do not overlap: they are sorted, the cache points at an
  image, and the ranges are sorted unless marked dirty. The invariant adds that the ranges are disjoint.
\<close>

definition mnt_shape :: "mnt_state \<Rightarrow> bool" where
  "mnt_shape m \<longleftrightarrow> (\<forall>im \<in> set (s_images m). sorted (mnt_sorted im))
     \<and> (\<forall>pc. \<forall>im \<in> set (s_images m). \<forall>im' \<in> set (s_images m). in_image pc im \<and> in_image pc im' \<longrightarrow> im = im')
     \<and> (\<forall>i. s_last_img m = Some i \<longrightarrow> i < length (s_images m))
     \<and> (\<not> s_ranges_dirty m \<longrightarrow> sorted (s_ranges m))"

definition mnt_ok :: "mnt_state \<Rightarrow> bool" where
  "mnt_ok m \<longleftrightarrow> mnt_shape m \<and> ranges_ok (set (s_ranges m))"

text \<open>The specification: a pc is skipped if its image lists it or a summarised function contains it.\<close>

definition listed :: "mnt_state \<Rightarrow> ADDRINT \<Rightarrow> bool" where
  "listed m pc \<longleftrightarrow> s_policy m \<noteq> POLICY_OFF \<and> (\<exists>im \<in> set (s_images m). in_image pc im \<and> pc - img_low im \<in> set (mnt_sorted im))"

definition skips :: "mnt_state \<Rightarrow> ADDRINT \<Rightarrow> bool" where
  "skips m pc \<longleftrightarrow> listed m pc \<or> (\<exists>r \<in> set (s_ranges m). in_rtn pc r)"

text \<open>The parts of the state that decide the answer.\<close>

definition same_answers :: "mnt_state \<Rightarrow> mnt_state \<Rightarrow> bool" where
  "same_answers m m' \<longleftrightarrow> s_policy m' = s_policy m \<and> s_images m' = s_images m \<and> set (s_ranges m') = set (s_ranges m)"

lemma same_answers_skips: "same_answers m m' \<Longrightarrow> skips m' = skips m"
  by (simp add: same_answers_def skips_def listed_def fun_eq_iff)

abbreviation by_range :: "mnt_state \<Rightarrow> ADDRINT \<Rightarrow> bool" where
  "by_range m \<equiv> range_decides (set (s_ranges m))"

lemma rtn_range_contains_correct:
  assumes "mnt_shape m" "rtn_range_contains pc m = (b, m')"
  shows "b = by_range m pc" "mnt_shape m'" "same_answers m m'"
proof -
  define m1 where "m1 = (if s_ranges_dirty m then m\<lparr>s_ranges := sort (s_ranges m), s_ranges_dirty := False\<rparr> else m)"
  have m1: "mnt_shape m1" "same_answers m m1" "sorted (s_ranges m1)" "set (s_ranges m1) = set (s_ranges m)"
    using assms(1) by (auto simp: m1_def mnt_shape_def same_answers_def)
  show "b = by_range m pc" "mnt_shape m'" "same_answers m m'"
  proof (atomize (full), cases "s_ranges m = []")
    case True
    then have "b = False" "m' = m" using assms(2) by (simp_all add: rtn_range_contains_def)
    with True assms(1) show "b = by_range m pc \<and> mnt_shape m' \<and> same_answers m m'"
      by (simp add: same_answers_def range_decides_def)
  next
    case False
    define i where "i = lower_bound (s_ranges m1) (pc + 1, 0)"
    have "b = (i \<noteq> 0 \<and> in_rtn pc (s_ranges m1 ! (i - 1)))" "m' = m1"
      using assms(2) False unfolding rtn_range_contains_def m1_def[symmetric] i_def[symmetric] Let_def
      by (auto simp: in_rtn_def split: if_splits prod.splits)
    then show "b = by_range m pc \<and> mnt_shape m' \<and> same_answers m m'"
      using range_lookup[OF m1(3) i_def] m1 by simp
  qed
qed

lemma ask_ranges_correct:
  assumes "mnt_shape m" "ask_ranges pc m = (b, m')"
  shows "b = by_range m pc" "mnt_shape m'" "same_answers m m'"
proof -
  obtain c m1 where c: "rtn_range_contains pc m = (c, m1)" by fastforce
  note r = rtn_range_contains_correct[OF assms(1) c]
  have "b = c" "m' = m1 \<or> m' = m1\<lparr>s_total_rtn_hits := s_total_rtn_hits m1 + 1\<rparr>"
    using assms(2) c by (auto simp: ask_ranges_def split: bool.splits)
  with r show "b = by_range m pc" "mnt_shape m'" "same_answers m m'"
    by (auto simp: mnt_shape_def same_answers_def)
qed

lemma ask_image_correct:
  assumes "mnt_shape m" "im \<in> set (s_images m)" "ask_image pc im m = (b, m')"
  shows "b \<longleftrightarrow> pc - img_low im \<in> set (mnt_sorted im) \<or> by_range m pc" "mnt_shape m'" "same_answers m m'"
proof -
  have s: "binary_search (mnt_sorted im) (pc - img_low im) \<longleftrightarrow> pc - img_low im \<in> set (mnt_sorted im)"
    using assms(1,2) by (intro binary_search_iff) (simp add: mnt_shape_def)
  show "b \<longleftrightarrow> pc - img_low im \<in> set (mnt_sorted im) \<or> by_range m pc" "mnt_shape m'" "same_answers m m'"
  proof (atomize (full), cases "pc - img_low im \<in> set (mnt_sorted im)")
    case True
    then have "b" "m' = m\<lparr>s_total_hits := s_total_hits m + 1\<rparr>"
      using assms(3) s by (auto simp: ask_image_def Let_def)
    with True assms(1) show "(b = (pc - img_low im \<in> set (mnt_sorted im) \<or> by_range m pc)) \<and> mnt_shape m' \<and> same_answers m m'"
      by (auto simp: mnt_shape_def same_answers_def)
  next
    case False
    then have "ask_ranges pc m = (b, m')" using assms(3) s by (simp add: ask_image_def Let_def)
    from ask_ranges_correct[OF assms(1) this] False
    show "(b = (pc - img_low im \<in> set (mnt_sorted im) \<or> by_range m pc)) \<and> mnt_shape m' \<and> same_answers m m'" by blast
  qed
qed

lemma find_index_Some: "find_index P k xs = Some i \<Longrightarrow> k \<le> i \<and> i - k < length xs \<and> P (xs ! (i - k))"
  by (induction P k xs rule: find_index.induct) (auto simp: nth_Cons' split: if_splits)

lemma find_index_None: "find_index P k xs = None \<longleftrightarrow> (\<forall>x \<in> set xs. \<not> P x)"
  by (induction P k xs rule: find_index.induct) auto

lemma listed_image:
  assumes "mnt_shape m" "s_policy m \<noteq> POLICY_OFF" "im \<in> set (s_images m)" "in_image pc im"
  shows "listed m pc \<longleftrightarrow> pc - img_low im \<in> set (mnt_sorted im)"
  using assms unfolding mnt_shape_def listed_def by metis

lemma scan_images_correct:
  assumes "mnt_shape m" "s_policy m \<noteq> POLICY_OFF" "scan_images pc m = (b, m')"
  shows "b = (listed m pc \<or> by_range m pc) \<and> mnt_shape m' \<and> same_answers m m'"
proof (cases "find_index (in_image pc) 0 (s_images m)")
  case None
  let ?m = "m\<lparr>s_total_misses_no_img := s_total_misses_no_img m + 1\<rparr>"
  have "mnt_shape ?m" using assms(1) by (simp add: mnt_shape_def)
  moreover have "ask_ranges pc ?m = (b, m')" using assms(3) None by (simp add: scan_images_def)
  ultimately have "b = by_range m pc" "mnt_shape m'" "same_answers m m'"
    using ask_ranges_correct[of ?m pc b m'] by (simp_all add: same_answers_def)
  then show ?thesis using None by (auto simp: find_index_None listed_def)
next
  case (Some i)
  let ?m = "m\<lparr>s_last_img := Some i\<rparr>" and ?im = "s_images m ! i"
  have i: "i < length (s_images m)" "in_image pc ?im" using find_index_Some[OF Some] by simp_all
  have "mnt_shape ?m" using assms(1) i(1) by (simp add: mnt_shape_def)
  moreover have "ask_image pc ?im ?m = (b, m')" using assms(3) Some by (simp add: scan_images_def)
  ultimately have "b \<longleftrightarrow> pc - img_low ?im \<in> set (mnt_sorted ?im) \<or> by_range m pc" "mnt_shape m'" "same_answers m m'"
    using ask_image_correct[of ?m ?im pc b m'] i(1) by (simp_all add: same_answers_def)
  then show ?thesis using listed_image[OF assms(1,2) _ i(2)] i(1) by simp
qed

text \<open>The answer for any ranges, also nested or overlapping ones.\<close>

lemma is_mnt_shape:
  assumes "mnt_shape m" "is_mnt pc m = (b, m')"
  shows "b = (listed m pc \<or> by_range m pc) \<and> mnt_shape m' \<and> same_answers m m'"
proof (cases "s_policy m = POLICY_OFF")
  case True
  then have "ask_ranges pc m = (b, m')" using assms(2) by (simp add: is_mnt_def)
  from ask_ranges_correct[OF assms(1) this] True show ?thesis by (simp add: listed_def)
next
  case False
  let ?m = "m\<lparr>s_total_lookups := s_total_lookups m + 1\<rparr>"
  have m: "mnt_shape ?m" "s_policy ?m \<noteq> POLICY_OFF" "\<And>m'. same_answers ?m m' = same_answers m m'" "listed ?m = listed m"
    using assms(1) False by (simp_all add: mnt_shape_def same_answers_def listed_def fun_eq_iff)
  have "b = (listed ?m pc \<or> by_range ?m pc) \<and> mnt_shape m' \<and> same_answers ?m m'"
  proof (cases "\<exists>i. s_last_img m = Some i \<and> in_image pc (s_images m ! i)")
    case True
    then obtain i where i: "s_last_img m = Some i" "in_image pc (s_images m ! i)" by blast
    then have im: "s_images m ! i \<in> set (s_images ?m)" using assms(1) by (simp add: mnt_shape_def)
    have "ask_image pc (s_images m ! i) ?m = (b, m')" using assms(2) False i by (simp add: is_mnt_def)
    from ask_image_correct[OF m(1) im this] listed_image[OF m(1,2) im i(2)] show ?thesis by simp
  next
    case no: False
    then have "scan_images pc ?m = (b, m')" using assms(2) False by (auto simp: is_mnt_def Let_def split: option.splits)
    from scan_images_correct[OF m(1,2) this] show ?thesis .
  qed
  then show ?thesis using m(3,4) by simp
qed

lemma is_mnt_law:
  assumes "mnt_ok m" "is_mnt pc m = (b, m')"
  shows "b = skips m pc \<and> mnt_ok m' \<and> skips m' = skips m"
proof -
  have "b = (listed m pc \<or> by_range m pc)" "mnt_shape m'" "same_answers m m'"
    using is_mnt_shape[OF _ assms(2)] assms(1) by (simp_all add: mnt_ok_def)
  moreover have "ranges_ok (set (s_ranges m))" using assms(1) by (simp add: mnt_ok_def)
  moreover note range_decides_disjoint[OF this, of pc] same_answers_skips[of m m']
  ultimately show ?thesis by (simp add: mnt_ok_def skips_def same_answers_def)
qed

section \<open>The filter as an interface\<close>

text \<open>
  What the instrumentation and the function summaries rely on: a set of pcs to skip, a query that decides
  membership and may reorganise the state but not the set, and the addition of a range.
\<close>

locale skip_filter =
  fixes query :: "ADDRINT \<Rightarrow> 'm \<Rightarrow> bool \<times> 'm"
    and add :: "ADDRINT \<Rightarrow> ADDRINT \<Rightarrow> 'm \<Rightarrow> 'm"
    and fresh :: "ADDRINT \<Rightarrow> ADDRINT \<Rightarrow> 'm \<Rightarrow> bool"
    and ok :: "'m \<Rightarrow> bool"
    and skip :: "'m \<Rightarrow> ADDRINT \<Rightarrow> bool"
  assumes query_law: "ok m \<Longrightarrow> query pc m = (b, m') \<Longrightarrow> b = skip m pc \<and> ok m' \<and> skip m' = skip m"
    and add_law: "ok m \<Longrightarrow> fresh l h m \<Longrightarrow> ok (add l h m) \<and> skip (add l h m) = (\<lambda>pc. skip m pc \<or> l \<le> pc \<and> pc < h)"
begin

lemma query_answer: "ok m \<Longrightarrow> fst (query pc m) = skip m pc \<and> ok (snd (query pc m)) \<and> skip (snd (query pc m)) = skip m"
  using query_law[of m pc "fst (query pc m)" "snd (query pc m)"] by simp

lemma queries_keep: "ok m \<Longrightarrow> ok (fold (\<lambda>pc m. snd (query pc m)) pcs m) \<and> skip (fold (\<lambda>pc m. snd (query pc m)) pcs m) = skip m"
  by (induction pcs arbitrary: m) (simp_all add: query_answer)

lemma query_order: "ok m \<Longrightarrow> fst (query pc (fold (\<lambda>pc m. snd (query pc m)) pcs m)) = skip m pc"
  using queries_keep[of m pcs] query_answer by simp

lemma added_is_skipped: "ok m \<Longrightarrow> fresh l h m \<Longrightarrow> l \<le> pc \<Longrightarrow> pc < h \<Longrightarrow> fst (query pc (add l h m))"
  using add_law query_answer by simp

end

definition fresh_range :: "ADDRINT \<Rightarrow> ADDRINT \<Rightarrow> mnt_state \<Rightarrow> bool" where
  "fresh_range l h m \<longleftrightarrow> (\<forall>r \<in> set (s_ranges m). r = (l, h) \<or> h \<le> fst r \<or> snd r \<le> l)"

lemma add_rtn_range_law:
  assumes "mnt_ok m" "fresh_range l h m"
  shows "mnt_ok (add_rtn_range l h m) \<and> skips (add_rtn_range l h m) = (\<lambda>pc. skips m pc \<or> l \<le> pc \<and> pc < h)"
proof (cases "h \<le> l")
  case True
  then have "(\<lambda>pc. skips m pc \<or> l \<le> pc \<and> pc < h) = skips m" by (auto simp: fun_eq_iff)
  with True assms(1) show ?thesis by (simp add: add_rtn_range_def)
next
  case False
  have "ranges_ok (insert (l, h) (set (s_ranges m)))"
    using assms False unfolding mnt_ok_def ranges_ok_def fresh_range_def by auto
  then have "mnt_ok (add_rtn_range l h m)" using assms(1) False by (simp add: mnt_ok_def mnt_shape_def add_rtn_range_def)
  moreover have "skips (add_rtn_range l h m) = (\<lambda>pc. skips m pc \<or> l \<le> pc \<and> pc < h)"
    using False by (auto simp: skips_def listed_def add_rtn_range_def in_rtn_def fun_eq_iff)
  ultimately show ?thesis by simp
qed

interpretation mntset: skip_filter is_mnt add_rtn_range fresh_range mnt_ok skips
  by unfold_locales (rule is_mnt_law add_rtn_range_law; assumption)+

section \<open>Properties\<close>

text \<open>
  C13. The skip query is right: for images that do not overlap and whose tables are sorted, and for disjoint
  ranges of summarised functions, the query answers yes exactly for the pcs that the table of their image
  lists (unless the policy is off) or that lie in a range. The one-entry cache, the bisection and the
  sorting on demand do not change this answer or that of any later query.
\<close>

theorem is_mnt_correct:
  assumes "mnt_ok m" "is_mnt pc m = (b, m')"
  shows "b = skips m pc \<and> mnt_ok m' \<and> skips m' = skips m"
  using assms by (rule mntset.query_law)

definition sample_mnt :: mnt_state where
  "sample_mnt =
     \<lparr>s_policy = POLICY_LEAN, s_inited = True,
      s_images = [\<lparr>img_name = ''a.so'', img_low = 0x1000, img_high = 0x1fff, file_image_base = 0, mnt_sorted = [4, 0x10, 0x20]\<rparr>,
                  \<lparr>img_name = ''b.so'', img_low = 0x5000, img_high = 0x5fff, file_image_base = 0, mnt_sorted = []\<rparr>],
      s_last_img = Some 1, s_ranges = [(0x9000, 0x9100), (0x8000, 0x8040)], s_ranges_dirty = True,
      s_total_lookups = 0, s_total_hits = 0, s_total_misses_no_img = 0, s_total_rtn_hits = 0\<rparr>"

lemma sample_mnt_ok: "mnt_ok sample_mnt"
proof -
  have "\<not> (in_image pc (s_images sample_mnt ! 0) \<and> in_image pc (s_images sample_mnt ! 1))" for pc
  proof
    assume "in_image pc (s_images sample_mnt ! 0) \<and> in_image pc (s_images sample_mnt ! 1)"
    then have "pc \<le> 0x1fff" "0x5000 \<le> pc" by (simp_all add: in_image_def sample_mnt_def)
    then have "(0x5000 :: ADDRINT) \<le> 0x1fff" by (rule order_trans[rotated])
    then show False by simp
  qed
  then show ?thesis by (auto simp: mnt_ok_def mnt_shape_def sample_mnt_def ranges_ok_def)
qed

theorem is_mnt_correct_witness: "fst (is_mnt 0x1010 sample_mnt) \<and> fst (is_mnt 0x8020 sample_mnt) \<and> \<not> fst (is_mnt 0x1011 sample_mnt)"
proof -
  have "fst (is_mnt pc sample_mnt) = skips sample_mnt pc" for pc
    using is_mnt_correct[OF sample_mnt_ok, of pc "fst (is_mnt pc sample_mnt)" "snd (is_mnt pc sample_mnt)"] by simp
  then show ?thesis by (simp add: skips_def listed_def sample_mnt_def in_image_def in_rtn_def)
qed

text \<open>
  C32. A nested range cuts the range around it. The assumption that ranges are disjoint is needed: when a
  summarised function [c, d) is registered inside another one [a, h) (a local symbol inside an exported
  one), the query answers yes for the pcs of the outer function up to the end of the inner one only. What
  is skipped besides [a, d) was skipped before; the rest of the outer function, [d, h), is not recognised.
\<close>

theorem nested_range_is_missed:
  assumes "mnt_ok m" "\<And>r. r \<in> set (s_ranges m) \<Longrightarrow> h \<le> fst r \<or> snd r \<le> a" "a < c" "c < d" "d \<le> h"
  shows "fst (is_mnt pc (add_rtn_range c d (add_rtn_range a h m))) \<longleftrightarrow> skips m pc \<or> a \<le> pc \<and> pc < d"
proof -
  let ?R = "set (s_ranges m)" and ?m = "add_rtn_range c d (add_rtn_range a h m)"
  let ?A = "insert (c, d) (insert (a, h) ?R)"
  have "a < h" using assms(3-5) by simp
  then have m: "set (s_ranges ?m) = ?A" "mnt_shape ?m" "listed ?m = listed m"
    using assms(1,4) by (auto simp: add_rtn_range_def mnt_ok_def mnt_shape_def listed_def fun_eq_iff)
  have R: "ranges_ok ?R" using assms(1) by (simp add: mnt_ok_def)
  have pos: "fst q < snd q" if "q \<in> ?R" for q using R that by (simp add: ranges_ok_def)
  have before: "q \<le> (l, u)" if "q \<in> ?R" "fst q \<le> pc" "pc < h" "a \<le> l" for q l u
    using earlier_range[OF pos[OF that(1)], of l u] assms(2)[OF that(1)] that(2-4) by auto
  have "range_decides ?A pc \<longleftrightarrow> (\<exists>r \<in> ?R. in_rtn pc r) \<or> a \<le> pc \<and> pc < d"
  proof
    assume "range_decides ?A pc"
    then obtain r where r: "r \<in> ?A" "in_rtn pc r" "\<forall>q \<in> ?A. fst q \<le> pc \<longrightarrow> q \<le> r" unfolding range_decides_def by blast
    have "r = (a, h) \<Longrightarrow> \<not> c \<le> pc" using r(3) assms(3) by (auto simp: less_eq_prod_def)
    then have "r = (a, h) \<Longrightarrow> pc < d" using assms(4) by (meson less_trans not_le)
    with r(1,2) assms(3) show "(\<exists>r \<in> ?R. in_rtn pc r) \<or> a \<le> pc \<and> pc < d"
      by (auto simp: in_rtn_def)
  next
    assume "(\<exists>r \<in> ?R. in_rtn pc r) \<or> a \<le> pc \<and> pc < d"
    then consider r where "r \<in> ?R" "in_rtn pc r" | "a \<le> pc" "pc < c" | "c \<le> pc" "pc < d" by (metis not_le)
    then show "range_decides ?A pc"
    proof cases
      case (1 r)
      then have r: "fst r \<le> pc" "pc < snd r" "h \<le> fst r \<or> snd r \<le> a" using assms(2) by (simp_all add: in_rtn_def)
      have "q \<le> r" if "q \<in> ?R" "fst q \<le> pc" for q
        using ranges_okD[OF R 1(1) that(1)] earlier_range[of q "fst r" "snd r"] that(2) r(2) by auto
      moreover have "(l, u) \<le> r" if "l \<le> pc" "a \<le> l" "l < h" for l u
      proof -
        have "h \<le> fst r" using r that by (metis leD le_less_trans order_trans)
        then have "l < fst r" using that(3) by simp
        then show ?thesis by (simp add: less_eq_prod_def)
      qed
      ultimately have "\<forall>q \<in> ?A. fst q \<le> pc \<longrightarrow> q \<le> r" using assms(3-5) \<open>a < h\<close> by auto
      with 1 show ?thesis unfolding range_decides_def by blast
    next
      case 2
      then have "\<forall>q \<in> ?A. fst q \<le> pc \<longrightarrow> q \<le> (a, h)" using before assms(4,5) by auto
      moreover have "in_rtn pc (a, h)" using 2 assms(4,5) by (simp add: in_rtn_def)
      ultimately show ?thesis unfolding range_decides_def by blast
    next
      case 3
      then have "\<forall>q \<in> ?A. fst q \<le> pc \<longrightarrow> q \<le> (c, d)" using before assms(3,5) by (auto simp: less_eq_prod_def)
      moreover have "in_rtn pc (c, d)" using 3 by (simp add: in_rtn_def)
      ultimately show ?thesis unfolding range_decides_def by blast
    qed
  qed
  then show ?thesis using is_mnt_shape[OF m(2), of pc "fst (is_mnt pc ?m)" "snd (is_mnt pc ?m)"] m by (simp add: skips_def)
qed

theorem nested_range_is_missed_witness:
  "fst (is_mnt 0x7018 (add_rtn_range 0x7010 0x7020 (add_rtn_range 0x7000 0x7100 sample_mnt)))
     \<and> \<not> fst (is_mnt 0x7080 (add_rtn_range 0x7010 0x7020 (add_rtn_range 0x7000 0x7100 sample_mnt)))"
proof -
  have "fst (is_mnt pc (add_rtn_range 0x7010 0x7020 (add_rtn_range 0x7000 0x7100 sample_mnt))) \<longleftrightarrow> skips sample_mnt pc \<or> 0x7000 \<le> pc \<and> pc < 0x7020" for pc
    by (rule nested_range_is_missed[OF sample_mnt_ok]) (auto simp: sample_mnt_def)
  then show ?thesis by (simp add: skips_def listed_def sample_mnt_def in_image_def in_rtn_def)
qed

section \<open>The file format\<close>

text \<open>The file that the analyser writes for three tiers of offsets (version 2).\<close>

fun le_bytes :: "nat \<Rightarrow> nat \<Rightarrow> UINT8 list" where
  "le_bytes 0 n = []"
| "le_bytes (Suc k) n = of_nat (n mod 256) # le_bytes k (n div 256)"

definition enc_offsets :: "UINT64 list \<Rightarrow> UINT8 list" where
  "enc_offsets xs = concat (map (\<lambda>x. le_bytes 8 (unat x)) xs)"

definition mnt_header_bytes :: "UINT64 \<Rightarrow> nat \<Rightarrow> nat \<Rightarrow> nat \<Rightarrow> UINT8 list" where
  "mnt_header_bytes base n_sound n_lean n_v2 =
     mnt_magic @ le_bytes 4 2 @ le_bytes 4 0 @ le_bytes 8 (unat base) @ le_bytes 4 n_sound @ le_bytes 4 n_lean @ le_bytes 4 n_v2 @ le_bytes 4 0"

lemma length_le_bytes [simp]: "length (le_bytes k n) = k"
  by (induction k n rule: le_bytes.induct) simp_all

lemma le_nat_bytes: "n < 256 ^ k \<Longrightarrow> le_nat (le_bytes k n) = n"
proof (induction k n rule: le_bytes.induct)
  case (2 k n)
  have "n div 256 < 256 ^ k" using 2(2) by (simp add: less_mult_imp_div_less mult.commute)
  with 2 show ?case by (simp add: unat_of_nat take_bit_eq_mod)
qed simp

lemma read_u32_bytes [simp]: "n < 2 ^ 32 \<Longrightarrow> read_u32 (le_bytes 4 n @ f) = Some (of_nat n, f)"
  by (simp add: read_u32_def read_exact_def le_nat_bytes)

lemma read_u64_bytes [simp]: "read_u64 (le_bytes 8 (unat w) @ f) = Some (w, f)" for w :: UINT64
proof -
  have "unat w < 256 ^ 8" using unsigned_less[of w, where ?'a = nat] by simp
  then show ?thesis by (simp add: read_u64_def read_exact_def le_nat_bytes)
qed

lemma read_tier_bytes: "read_tier (length xs) keep (enc_offsets xs @ f) acc = (Some f, if keep then acc @ xs else acc)"
  by (induction xs arbitrary: acc) (simp_all add: enc_offsets_def)

lemma read_tier_short: "length xs < n \<Longrightarrow> read_tier n True (enc_offsets xs) acc = (None, acc @ xs)"
proof (induction xs arbitrary: n acc)
  case Nil
  then show ?case by (cases n) (simp_all add: enc_offsets_def read_u64_def read_exact_def)
next
  case (Cons x xs)
  then obtain k where n: "n = Suc k" by (cases n) auto
  with Cons show ?case by (simp add: enc_offsets_def)
qed

lemma read_header_bytes:
  assumes "n_sound < 2 ^ 32" "n_lean < 2 ^ 32" "n_v2 < 2 ^ 32"
  shows "read_exact 4 (mnt_header_bytes base n_sound n_lean n_v2 @ f) =
     Some (mnt_magic, le_bytes 4 2 @ le_bytes 4 0 @ le_bytes 8 (unat base) @ le_bytes 4 n_sound @ le_bytes 4 n_lean @ le_bytes 4 n_v2 @ le_bytes 4 0 @ f)"
    and "read_header (le_bytes 4 2 @ le_bytes 4 0 @ le_bytes 8 (unat base) @ le_bytes 4 n_sound @ le_bytes 4 n_lean @ le_bytes 4 n_v2 @ le_bytes 4 0 @ f) =
     Some (\<lparr>h_version = 2, h_default_policy = 0, h_image_base = base, h_n_sound = of_nat n_sound, h_n_lean_extra = of_nat n_lean,
            h_n_v2_extra = of_nat n_v2, h_reserved = 0\<rparr>, f)"
proof -
  show "read_exact 4 (mnt_header_bytes base n_sound n_lean n_v2 @ f) =
     Some (mnt_magic, le_bytes 4 2 @ le_bytes 4 0 @ le_bytes 8 (unat base) @ le_bytes 4 n_sound @ le_bytes 4 n_lean @ le_bytes 4 n_v2 @ le_bytes 4 0 @ f)"
    by (simp add: read_exact_def mnt_header_bytes_def mnt_magic_def)
  show "read_header (le_bytes 4 2 @ le_bytes 4 0 @ le_bytes 8 (unat base) @ le_bytes 4 n_sound @ le_bytes 4 n_lean @ le_bytes 4 n_v2 @ le_bytes 4 0 @ f) =
     Some (\<lparr>h_version = 2, h_default_policy = 0, h_image_base = base, h_n_sound = of_nat n_sound, h_n_lean_extra = of_nat n_lean,
            h_n_v2_extra = of_nat n_v2, h_reserved = 0\<rparr>, f)"
    using assms unfolding read_header_def by (simp del: le_bytes.simps)
qed

text \<open>
  C31. Round trip of the binary format: a file with three tiers of offsets is read completely, and the table
  of the image becomes its old entries together with the sound tier and the tier of the policy, sorted.
\<close>

theorem mnt_file_roundtrip:
  assumes "length sound < 2 ^ 32" "length lean < 2 ^ 32" "length v2 < 2 ^ 32"
    and "file_bytes V path = Some (mnt_header_bytes base (length sound) (length lean) (length v2)
           @ enc_offsets sound @ enc_offsets lean @ enc_offsets v2)"
  shows "load_mnt_bin V path im pol =
     (True, im\<lparr>file_image_base := base,
               mnt_sorted := sort (mnt_sorted im @ sound @ (if pol = POLICY_LEAN then lean else [])
                                   @ (if pol = POLICY_V2_PERPC then v2 else []))\<rparr>)"
proof -
  have n: "unat (of_nat (length xs) :: UINT32) = length xs" if "length xs < 2 ^ 32" for xs :: "UINT64 list"
    using that by (simp add: unat_of_nat take_bit_nat_eq_self)
  show ?thesis
    using assms(4) read_header_bytes[OF assms(1-3), of base] n[OF assms(1)] n[OF assms(2)] n[OF assms(3)]
    by (simp add: load_mnt_bin_def read_body_def read_tier_bytes read_tier_bytes[where f = "[]", simplified] del: le_bytes.simps)
qed

theorem mnt_file_roundtrip_witness:
  "\<exists>V. load_mnt_bin V ''a.mnt.bin'' \<lparr>img_name = ''a'', img_low = 0, img_high = 9, file_image_base = 0, mnt_sorted = []\<rparr> POLICY_LEAN
     = (True, \<lparr>img_name = ''a'', img_low = 0, img_high = 9, file_image_base = 0x100000, mnt_sorted = [3, 5, 8]\<rparr>)"
proof -
  let ?f = "mnt_header_bytes 0x100000 (length [8, 5 :: UINT64]) (length [3 :: UINT64]) (length [7 :: UINT64])
    @ enc_offsets [8, 5] @ enc_offsets [3] @ enc_offsets [7]"
  let ?V = "\<lparr>getenv = (\<lambda>_. None), realpath = (\<lambda>_. None), file_bytes = (\<lambda>_. Some ?f)\<rparr>"
  let ?im = "\<lparr>img_name = ''a'', img_low = 0, img_high = 9, file_image_base = 0, mnt_sorted = []\<rparr>"
  have "load_mnt_bin ?V ''a.mnt.bin'' ?im POLICY_LEAN =
    (True, ?im\<lparr>file_image_base := 0x100000, mnt_sorted := sort (mnt_sorted ?im @ [8, 5] @ (if POLICY_LEAN = POLICY_LEAN then [3] else [])
       @ (if POLICY_LEAN = POLICY_V2_PERPC then [7] else []))\<rparr>)"
    by (rule mnt_file_roundtrip) simp_all
  then show ?thesis by (intro exI[of _ ?V]) simp
qed

text \<open>
  A truncated file is not discarded: the reader reports failure, but the entries it read before the end
  of the file stay in the table of the image, in file order, and the search goes on with the next candidate
  on top of them.
\<close>

theorem truncated_file_leaves_entries:
  assumes "length xs < n" "n < 2 ^ 32"
    and "file_bytes V path = Some (mnt_header_bytes base n 0 0 @ enc_offsets xs)"
  shows "load_mnt_bin V path im pol = (False, im\<lparr>file_image_base := base, mnt_sorted := mnt_sorted im @ xs\<rparr>)"
proof -
  have n: "unat (of_nat n :: UINT32) = n" using assms(2) by (simp add: unat_of_nat take_bit_nat_eq_self)
  show ?thesis
    using assms(3) read_header_bytes[of n 0 0 base] assms(2) read_tier_short[OF assms(1)] n
    by (simp add: load_mnt_bin_def read_body_def del: le_bytes.simps)
qed

theorem truncated_file_leaves_entries_witness:
  "\<exists>V. try_candidates V [''a.mnt.bin''] \<lparr>img_name = ''a'', img_low = 0, img_high = 9, file_image_base = 0, mnt_sorted = []\<rparr> POLICY_SOUND
     = \<lparr>img_name = ''a'', img_low = 0, img_high = 9, file_image_base = 0x100000, mnt_sorted = [8, 5]\<rparr>"
proof -
  let ?V = "\<lparr>getenv = (\<lambda>_. None), realpath = (\<lambda>_. None),
    file_bytes = (\<lambda>_. Some (mnt_header_bytes 0x100000 3 0 0 @ enc_offsets [8, 5]))\<rparr>"
  show ?thesis
    using truncated_file_leaves_entries[of "[8, 5]" 3 ?V "''a.mnt.bin''" "0x100000"] by (intro exI[of _ ?V]) simp
qed

end
