(* ===== verification/Sdft_Correct.thy ===== *)
theory Sdft_Correct
  imports Sdft_Hook Summaries_Correct Mnt_Correct Sources
begin

text \<open>
  The shape handlers at the level of offset sets: what a summarised call does to the taint of memory and of
  the caller-saved registers, and the proof that the handlers implement it without a fault.
\<close>

section \<open>Specification\<close>

definition clobber_spec :: "nat \<Rightarrow> taint \<Rightarrow> taint" where
  "clobber_spec dc T = T\<lparr>treg := (treg T)(dc := (\<lambda>row b.
     if row \<in> set caller_saved \<and> b < TAGS_PER_GPR then {} else treg T dc row b))\<rparr>"

definition row_spec :: "nat \<Rightarrow> nat \<Rightarrow> nat \<Rightarrow> nat set \<Rightarrow> taint \<Rightarrow> taint" where
  "row_spec dc row n X T = T\<lparr>treg := (treg T)(dc := (\<lambda>r b. if r = row \<and> b < n then X else treg T dc r b))\<rparr>"

abbreviation "rax_spec dc \<equiv> row_spec dc DFT_REG_RAX 8"

text \<open>The byte ranges that a value is computed from, and the rows of the argument registers.\<close>

definition value_spans :: "dr_env \<Rightarrow> ADDRINT list \<Rightarrow> Ref \<Rightarrow> int list \<Rightarrow> (ADDRINT \<times> nat) list" where
  "value_spans E av lenref is =
     map (\<lambda>i. (av ! nat i, unat (capped_len E lenref av (av ! nat i))))
       (filter (\<lambda>i. \<not> (i < 0 \<or> i > 5) \<and> av ! nat i \<noteq> 0) is)"

definition scalar_rows :: "int list \<Rightarrow> nat list" where
  "scalar_rows as = map (\<lambda>a. nat (arg_to_reg a)) (filter (\<lambda>a. \<not> arg_to_reg a < 0) as)"

text \<open>The three values of a pointer-to-pointer summary: source, destination and length.\<close>

definition copy_params :: "dr_env \<Rightarrow> ADDRINT list \<Rightarrow> Summary \<Rightarrow> ADDRINT \<times> ADDRINT \<times> nat" where
  "copy_params E av sm =
     (let src = av ! nat (hd (sum_src sm))
      in (src, if ref_kind (sum_dst sm) = REF_RET then 0 else resolve_ptr (sum_dst sm) av,
          unat (capped_len E (sum_len sm) av src)))"

definition spec_copy :: "nat \<Rightarrow> ADDRINT \<times> ADDRINT \<times> nat \<Rightarrow> taint \<Rightarrow> taint" where
  "spec_copy dc p T =
     (case p of (src, dst, n) \<Rightarrow>
        let T1 = (if dst \<noteq> 0 \<and> src \<noteq> 0 then copy_spec dc n (mem_cells dst) (mem_cells src) T else T)
        in if dst \<noteq> 0 \<and> n > 0 then rax_spec dc (tmem T1 dst) (clobber_spec dc T1) else clobber_spec dc T1)"

definition spec_summary :: "dr_env \<Rightarrow> nat \<Rightarrow> ADDRINT list \<Rightarrow> Summary \<Rightarrow> taint \<Rightarrow> taint" where
  "spec_summary E dc av sm T =
     (case sum_shape sm of
        SHAPE_PROP_PTR2PTR \<Rightarrow>
          if sum_src sm = [] then clobber_spec dc T else spec_copy dc (copy_params E av sm) T
      | SHAPE_PROP_PTR2VAL \<Rightarrow>
          rax_spec dc (\<Union>(p, n) \<in> set (value_spans E av (sum_len sm) (sum_src sm)). \<Union>i < n. tmem T (p + of_nat i)) (clobber_spec dc T)
      | SHAPE_PROP_SCALAR \<Rightarrow>
          rax_spec dc (\<Union>row \<in> set (scalar_rows (sum_args sm)). \<Union>b < 8. treg T dc row b) (clobber_spec dc T)
      | SHAPE_INVALID \<Rightarrow> T
      | _ \<Rightarrow> clobber_spec dc T)"

definition summary_cost :: "dr_env \<Rightarrow> ADDRINT list \<Rightarrow> Summary \<Rightarrow> nat" where
  "summary_cost E av sm =
     (case sum_shape sm of
        SHAPE_PROP_PTR2VAL \<Rightarrow> sum_list (map snd (value_spans E av (sum_len sm) (sum_src sm)))
      | SHAPE_PROP_SCALAR \<Rightarrow> 8 * length (scalar_rows (sum_args sm))
      | _ \<Rightarrow> 0)"

text \<open>The pointers must point into the shadowed addresses, and a copy must not overlap itself forwards.\<close>

definition summary_safe :: "dr_env \<Rightarrow> ADDRINT list \<Rightarrow> Summary \<Rightarrow> bool" where
  "summary_safe E av sm =
     (case sum_shape sm of
        SHAPE_PROP_PTR2PTR \<Rightarrow>
          sum_src sm = [] \<or>
          0 \<le> hd (sum_src sm) \<and> hd (sum_src sm) < 6
          \<and> (case copy_params E av sm of (src, dst, n) \<Rightarrow>
               n = 0 \<or> dst = 0 \<or> mem_ok dst n \<and> (src = 0 \<or> mem_ok src n \<and> (unat dst \<le> unat src \<or> unat src + n \<le> unat dst)))
      | SHAPE_PROP_PTR2VAL \<Rightarrow> list_all (\<lambda>(p, n). n = 0 \<or> mem_ok p n) (value_spans E av (sum_len sm) (sum_src sm))
      | _ \<Rightarrow> True)"

section \<open>Registers\<close>

lemma assign_row: "assign dc n (CReg row) (\<lambda>_. X) T = row_spec dc row n X T"
proof (induction n)
  case 0
  then show ?case by (simp add: row_spec_def)
next
  case (Suc n)
  then show ?case by (auto simp: assign_Suc row_spec_def fun_eq_iff less_Suc_eq)
qed

lemma clear_rows:
  "fold (\<lambda>row. row_spec dc row n {}) rows T =
     T\<lparr>treg := (treg T)(dc := (\<lambda>r b. if r \<in> set rows \<and> b < n then {} else treg T dc r b))\<rparr>"
proof (induction rows arbitrary: T)
  case Nil
  then show ?case by simp
next
  case (Cons row rows)
  show ?case unfolding fold_Cons o_apply Cons.IH by (auto simp: row_spec_def fun_eq_iff)
qed

lemma caller_saved_less: "i < length caller_saved \<Longrightarrow> caller_saved ! i < GRP_NUM"
proof -
  have "list_all (\<lambda>r. r < GRP_NUM) caller_saved" by (simp add: caller_saved_def GRP_NUM_def reg_row_defs)
  then show "i < length caller_saved \<Longrightarrow> caller_saved ! i < GRP_NUM" by (simp add: list_all_length)
qed

lemma cell_wr_row: "(\<lambda>b. cell_wr dc (CReg row b) t) = (\<lambda>b. gpr_wr dc row b t)"
  by (intro ext) simp

lemma row_clear_refines:
  assumes "row < GRP_NUM"
  shows "refines dc (for_upto TAGS_PER_GPR (\<lambda>b. gpr_wr dc row b cleared_val)) 0 (row_spec dc row TAGS_PER_GPR {})"
proof -
  have "refines dc (for_upto TAGS_PER_GPR (\<lambda>b. cell_wr dc (CReg row b) cleared_val)) 0
      (assign dc TAGS_PER_GPR (CReg row) (\<lambda>_. {}))"
    by (rule refines_clear_loop) (use assms in simp)
  then show ?thesis unfolding cell_wr_row by (rule refines_cong) (rule assign_row)
qed

lemma clobber_refines: "refines dc (clobber_caller_saved dc) 0 (clobber_spec dc)"
proof -
  have "refines dc (clobber_caller_saved dc) (length caller_saved * 0)
      (fold (\<lambda>i. row_spec dc (caller_saved ! i) TAGS_PER_GPR {}) [0..<length caller_saved])"
    unfolding clobber_caller_saved_def by (rule refines_upto) (rule row_clear_refines, rule caller_saved_less)
  moreover have "fold (\<lambda>i. row_spec dc (caller_saved ! i) TAGS_PER_GPR {}) [0..<length caller_saved] T = clobber_spec dc T" for T
  proof -
    have "fold (\<lambda>i. row_spec dc (caller_saved ! i) TAGS_PER_GPR {}) [0..<length caller_saved] T =
        fold (\<lambda>row. row_spec dc row TAGS_PER_GPR {}) (map ((!) caller_saved) [0..<length caller_saved]) T"
      by (simp add: fold_map o_def)
    then show ?thesis by (simp only: map_nth clear_rows clobber_spec_def)
  qed
  ultimately show ?thesis unfolding mult_0_right by (rule refines_cong)
qed

lemma rax_set_all_ok:
  assumes "engine_ok s" "live dc s" "valid_tag (tables s) t"
  shows "\<exists>s'. rax_set_all dc t s = Inr s' \<and> engine_ok s' \<and> live dc s' \<and> tables s' = tables s \<and> side s' = side s
     \<and> taint_of s' = rax_spec dc (label_set (tables s) t) (taint_of s)"
proof -
  have f: "fold (\<lambda>i. tset dc (CReg DFT_REG_RAX i) X) [0..<0 + 8] T = rax_spec dc X T" for X T
    using assign_row[of dc 8 DFT_REG_RAX X T] by (simp only: assign_def add_0)
  have "\<exists>s'. for_loop 0 8 (\<lambda>i. cell_wr dc (CReg DFT_REG_RAX i) t) s = Inr s' \<and> engine_ok s' \<and> live dc s' \<and> tables s' = tables s
     \<and> side s' = side s \<and> taint_of s' = fold (\<lambda>i. tset dc (CReg DFT_REG_RAX i) (label_set (tables s) t)) [0..<0 + 8] (taint_of s)"
    by (rule write_loop_ok[OF assms]) (simp add: DFT_REG_RAX_def GRP_NUM_def TAGS_PER_GPR_def)
  then show ?thesis unfolding rax_set_all_def for_upto_def cell_wr_row f by simp
qed

lemma rax_from_mem_refines:
  assumes "file_tag_testb dst"
  shows "refines dc (rax_from_mem dc dst) 0 (\<lambda>T. rax_spec dc (tmem T dst) T)"
proof (rule refinesI)
  fix s :: "'a engine_scheme" and k
  assume s: "engine_ok s" "live dc s" "room (0 + k) (tables s)"
  obtain t where t: "cell_rd dc (CMem dst) s = Inr t" "valid_tag (tables s) t" "label_set (tables s) t = tget dc (CMem dst) (taint_of s)"
    by (rule cell_rd_ok[OF s(1,2), of "CMem dst"]) (use assms in auto)
  with rax_set_all_ok[OF s(1,2) t(2)] s(3)
  show "\<exists>s'. rax_from_mem dc dst s = Inr s' \<and> engine_ok s' \<and> live dc s' \<and> room k (tables s') \<and> side s' = side s
     \<and> taint_of s' = rax_spec dc (tmem (taint_of s) dst) (taint_of s) \<and> extends (tables s) (tables s')"
    by (auto simp: rax_from_mem_def)
qed

section \<open>Pointer to pointer\<close>

lemma copy_bytes_refines:
  assumes "n = 0 \<or> mem_ok d n \<and> mem_ok a n \<and> (unat d \<le> unat a \<or> unat a + n \<le> unat d)"
  shows "refines dc (copy_bytes d a n) 0 (copy_spec dc n (mem_cells d) (mem_cells a))"
proof (cases "n = 0")
  case True
  then show ?thesis by (simp add: copy_bytes_def copy_spec_def assign_def refines_def for_upto_def)
next
  case False
  with assms show ?thesis using m2m_xfer_refines[of d n a dc] unfolding m2m_xfer_def copy_bytes_def by simp
qed

lemma clobber_after_rax: "clobber_spec dc (rax_spec dc X T) = clobber_spec dc T"
  by (auto simp: clobber_spec_def row_spec_def fun_eq_iff caller_saved_def TAGS_PER_GPR_def)

lemma refines_if: "(b \<Longrightarrow> refines dc f c g) \<Longrightarrow> (\<not> b \<Longrightarrow> refines dc f' c g') \<Longrightarrow>
    refines dc (\<lambda>s. if b then f s else f' s) c (\<lambda>T. if b then g T else g' T)"
  by (cases b) simp_all

lemma ptr2ptr_refines:
  assumes "sum_src sm = i # is" "0 \<le> i" "i < 6" and p: "copy_params E av sm = (src, dst, n)"
    and ok: "n = 0 \<or> dst = 0 \<or> mem_ok dst n \<and> (src = 0 \<or> mem_ok src n \<and> (unat dst \<le> unat src \<or> unat src + n \<le> unat dst))"
  shows "refines dc (handle_prop_ptr2ptr E dc av sm) 0 (spec_copy dc (src, dst, n))"
proof -
  let ?copy = "copy_spec dc n (mem_cells dst) (mem_cells src)"
  have t: "file_tag_testb dst" if "0 < n" "dst \<noteq> 0" using ok that by (auto simp add: mem_ok_def file_tag_testb_def word_less_nat_alt max_addr_def)
  have rax: "refines dc (\<lambda>s. if 0 < n then rax_from_mem dc dst s else Inr s) 0 (\<lambda>T. if 0 < n then rax_spec dc (tmem T dst) T else T)" if "dst \<noteq> 0"
    by (rule refines_if) (use that in \<open>auto intro: rax_from_mem_refines t refines_skip\<close>)
  have first: "refines dc (\<lambda>s. if dst \<noteq> 0 \<and> src \<noteq> 0 then
        rbind (copy_bytes dst src n s) (\<lambda>s1. if 0 < n then rax_from_mem dc dst s1 else Inr s1) else Inr s) (0 + 0)
      (\<lambda>T. if dst \<noteq> 0 \<and> src \<noteq> 0 then (if 0 < n then rax_spec dc (tmem (?copy T) dst) (?copy T) else ?copy T) else T)"
    by (rule refines_if, rule refines_seq) (use ok in \<open>auto intro: copy_bytes_refines rax refines_skip\<close>)
  have last: "refines dc (\<lambda>s. if dst \<noteq> 0 \<and> 0 < n then rax_from_mem dc dst s else Inr s) 0
      (\<lambda>T. if dst \<noteq> 0 \<and> 0 < n then rax_spec dc (tmem T dst) T else T)"
    by (rule refines_if) (auto intro: rax_from_mem_refines t refines_skip)
  note seq = refines_seq[OF first refines_seq[OF clobber_refines last]]
  have pos: "n = unat (capped_len E (sum_len sm) av src)" "src = av ! nat i"
    "dst = (if ref_kind (sum_dst sm) = REF_RET then 0 else resolve_ptr (sum_dst sm) av)"
    using p assms(1) by (auto simp: copy_params_def Let_def)
  have z: "0 < capped_len E (sum_len sm) av src \<longleftrightarrow> 0 < n" using pos(1) by (simp add: word_less_nat_alt)
  have "handle_prop_ptr2ptr E dc av sm s =
      rbind (if dst \<noteq> 0 \<and> src \<noteq> 0 then
        rbind (copy_bytes dst src n s) (\<lambda>s1. if 0 < n then rax_from_mem dc dst s1 else Inr s1) else Inr s)
      (\<lambda>s. rbind (clobber_caller_saved dc s) (\<lambda>s. if dst \<noteq> 0 \<and> 0 < n then rax_from_mem dc dst s else Inr s))" for s
    using assms(1-3) by (simp add: handle_prop_ptr2ptr_def arg_at_def Let_def z flip: pos)
  then have "refines dc (handle_prop_ptr2ptr E dc av sm) (0 + 0 + (0 + 0)) (\<lambda>T. (\<lambda>T. (\<lambda>T. if dst \<noteq> 0 \<and> 0 < n then rax_spec dc (tmem T dst) T else T) (clobber_spec dc T))
      ((\<lambda>T. if dst \<noteq> 0 \<and> src \<noteq> 0 then (if 0 < n then rax_spec dc (tmem (?copy T) dst) (?copy T) else ?copy T) else T) T))"
    by (intro refines_step_cong[OF seq])
  then show ?thesis unfolding add_0
    by (rule refines_cong) (auto simp: spec_copy_def Let_def clobber_after_rax, simp_all add: clobber_spec_def)
qed

section \<open>Values computed from memory and from registers\<close>

text \<open>The state of an accumulation: what \<open>union_loop_ok\<close> gives, as one predicate.\<close>

definition accumulates :: "nat \<Rightarrow> 'a engine_scheme \<Rightarrow> tag_t \<Rightarrow> nat \<Rightarrow> nat set \<Rightarrow> (tag_t \<times> 'a engine_scheme) res \<Rightarrow> bool" where
  "accumulates dc s u k X r \<longleftrightarrow>
     (\<exists>u' s'. r = Inr (u', s') \<and> engine_ok s' \<and> live dc s' \<and> room k (tables s') \<and> side s' = side s
        \<and> taint_of s' = taint_of s \<and> valid_tag (tables s') u' \<and> label_set (tables s') u' = label_set (tables s) u \<union> X
        \<and> extends (tables s) (tables s'))"

lemma union_cells:
  assumes "engine_ok s" "live dc s" "room (n + k) (tables s)" "valid_tag (tables s) u"
    and "\<And>i. i < n \<Longrightarrow> readable (x i)"
  shows "accumulates dc s u k (\<Union>i < n. tget dc (x i) (taint_of s))
    (for_upto n (\<lambda>i (u, s). rbind (cell_rd dc (x i) s) (\<lambda>t. combine_tags u t s)) (u, s))"
proof -
  obtain u' s' where "union_loop 0 n (\<lambda>i. cell_rd dc (x i)) (u, s) = Inr (u', s')" "engine_ok s'" "live dc s'"
    "room k (tables s')" "side s' = side s" "taint_of s' = taint_of s" "valid_tag (tables s') u'"
    "label_set (tables s') u' = label_set (tables s) u \<union> (\<Union>i \<in> {0..<0 + n}. tget dc (x i) (taint_of s))"
    "extends (tables s) (tables s')"
    by (rule union_loop_ok[OF assms(1-4), of 0 x]) (use assms(5) in auto)
  then show ?thesis unfolding accumulates_def union_loop_def for_upto_def by (simp add: lessThan_atLeast0)
qed

lemma accumulates_bind:
  assumes "accumulates dc s u k X r"
    and "\<And>u' s'. engine_ok s' \<Longrightarrow> live dc s' \<Longrightarrow> room k (tables s') \<Longrightarrow> valid_tag (tables s') u' \<Longrightarrow>
      taint_of s' = taint_of s \<Longrightarrow> accumulates dc s' u' k' Y (f (u', s'))"
  shows "accumulates dc s u k' (X \<union> Y) (rbind r f)"
proof -
  obtain u' s' where 1: "r = Inr (u', s')" "engine_ok s'" "live dc s'" "room k (tables s')" "side s' = side s"
    "taint_of s' = taint_of s" "valid_tag (tables s') u'" "label_set (tables s') u' = label_set (tables s) u \<union> X"
    "extends (tables s) (tables s')"
    using assms(1) unfolding accumulates_def by blast
  then have "accumulates dc s' u' k' Y (f (u', s'))" by (intro assms(2)) auto
  with 1 show ?thesis unfolding accumulates_def by (auto simp: Un_assoc intro: labels.grows_trans)
qed

lemma union_bytes_ok:
  assumes "engine_ok s" "live dc s" "room (n + k) (tables s)" "valid_tag (tables s) u" "n = 0 \<or> mem_ok p n"
  shows "accumulates dc s u k (\<Union>i < n. tmem (taint_of s) (p + of_nat i)) (union_bytes p n (u, s))"
proof -
  have "accumulates dc s u k (\<Union>i < n. tget dc (mem_cells p i) (taint_of s))
    (for_upto n (\<lambda>i (u, s). rbind (cell_rd dc (mem_cells p i) s) (\<lambda>t. combine_tags u t s)) (u, s))"
    by (rule union_cells[OF assms(1-4)]) (use assms(5) in \<open>simp add: mem_ok_testb\<close>)
  then show ?thesis by (simp add: union_bytes_def)
qed

lemma union_row_ok:
  assumes "engine_ok s" "live dc s" "room (8 + k) (tables s)" "valid_tag (tables s) u" "row \<le> GRP_NUM"
  shows "accumulates dc s u k (\<Union>b < 8. treg (taint_of s) dc row b) (union_row dc row (u, s))"
proof -
  have "accumulates dc s u k (\<Union>i < 8. tget dc (CReg row i) (taint_of s))
    (for_upto 8 (\<lambda>i (u, s). rbind (cell_rd dc (CReg row i) s) (\<lambda>t. combine_tags u t s)) (u, s))"
    by (rule union_cells[OF assms(1-4)]) (use assms(5) in \<open>simp add: TAGS_PER_GPR_def\<close>)
  then show ?thesis by (simp add: union_row_def)
qed

lemma value_spans_Cons:
  "value_spans E av lenref (i # is) =
     (if (i < 0 \<or> i > 5) \<or> av ! nat i = 0 then value_spans E av lenref is
      else (av ! nat i, unat (capped_len E lenref av (av ! nat i))) # value_spans E av lenref is)"
  by (simp add: value_spans_def)

lemma scalar_rows_Cons:
  "scalar_rows (a # as) = (if arg_to_reg a < 0 then scalar_rows as else nat (arg_to_reg a) # scalar_rows as)"
  by (simp add: scalar_rows_def)

lemma accumulates_nothing: "engine_ok s \<Longrightarrow> live dc s \<Longrightarrow> room k (tables s) \<Longrightarrow> valid_tag (tables s) u \<Longrightarrow>
    accumulates dc s u k {} (Inr (u, s))"
  using labels.grows_refl by (simp add: accumulates_def)

lemma union_srcs_ok:
  assumes "engine_ok s" "live dc s" "room (sum_list (map snd (value_spans E av lenref is)) + k) (tables s)"
    "valid_tag (tables s) u" "list_all (\<lambda>(p, n). n = 0 \<or> mem_ok p n) (value_spans E av lenref is)"
  shows "accumulates dc (s :: 'a engine_scheme) u k
    (\<Union>(p, n) \<in> set (value_spans E av lenref is). \<Union>i < n. tmem (taint_of s) (p + of_nat i)) (union_srcs E av lenref is (u, s))"
  using assms
proof (induction "is" arbitrary: s u)
  case Nil
  then show ?case by (simp add: accumulates_nothing value_spans_def)
next
  case (Cons i "is")
  show ?case
  proof (cases "(i < 0 \<or> i > 5) \<or> av ! nat i = 0")
    case True
    then have "union_srcs E av lenref (i # is) (u, s) = union_srcs E av lenref is (u, s)" by (auto simp: Let_def)
    with Cons.IH[of s u] Cons.prems True show ?thesis by (simp only: value_spans_Cons if_True)
  next
    case False
    let ?p = "av ! nat i" let ?n = "unat (capped_len E lenref av ?p)"
    let ?X = "\<Union>(p, n) \<in> set (value_spans E av lenref is). \<Union>i < n. tmem (taint_of s) (p + of_nat i)"
    let ?k = "sum_list (map snd (value_spans E av lenref is)) + k"
    have vs: "value_spans E av lenref (i # is) = (?p, ?n) # value_spans E av lenref is"
      using False by (simp only: value_spans_Cons if_False)
    have "accumulates dc s u ?k (\<Union>i < ?n. tmem (taint_of s) (?p + of_nat i)) (union_bytes ?p ?n (u, s))"
      using Cons.prems unfolding vs by (intro union_bytes_ok) (simp_all add: add.assoc)
    then have "accumulates dc s u k ((\<Union>i < ?n. tmem (taint_of s) (?p + of_nat i)) \<union> ?X)
        (rbind (union_bytes ?p ?n (u, s)) (union_srcs E av lenref is))"
    proof (rule accumulates_bind)
      fix u' and s' :: "'a engine_scheme"
      assume "engine_ok s'" "live dc s'" "room ?k (tables s')" "valid_tag (tables s') u'" and t: "taint_of s' = taint_of s"
      then show "accumulates dc s' u' k ?X (union_srcs E av lenref is (u', s'))"
        using Cons.IH[of s' u'] Cons.prems(5) unfolding vs by (simp add: t)
    qed
    moreover have "union_srcs E av lenref (i # is) (u, s) = rbind (union_bytes ?p ?n (u, s)) (union_srcs E av lenref is)"
      using False by (simp add: Let_def)
    ultimately show ?thesis unfolding vs by simp
  qed
qed

lemma arg_row_le: "\<not> arg_to_reg a < 0 \<Longrightarrow> nat (arg_to_reg a) \<le> GRP_NUM"
  by (simp add: arg_to_reg_def GRP_NUM_def reg_row_defs split: if_splits)

lemma union_args_ok:
  assumes "engine_ok s" "live dc s" "room (8 * length (scalar_rows as) + k) (tables s)" "valid_tag (tables s) u"
  shows "accumulates dc (s :: 'a engine_scheme) u k (\<Union>row \<in> set (scalar_rows as). \<Union>b < 8. treg (taint_of s) dc row b) (union_args dc as (u, s))"
  using assms
proof (induction as arbitrary: s u)
  case Nil
  then show ?case by (simp add: accumulates_nothing scalar_rows_def)
next
  case (Cons a as)
  show ?case
  proof (cases "arg_to_reg a < 0")
    case True
    with Cons.IH[of s u] Cons.prems show ?thesis by (simp add: scalar_rows_Cons Let_def)
  next
    case False
    let ?X = "\<Union>row \<in> set (scalar_rows as). \<Union>b < 8. treg (taint_of s) dc row b"
    let ?k = "8 * length (scalar_rows as) + k"
    have "accumulates dc s u ?k (\<Union>b < 8. treg (taint_of s) dc (nat (arg_to_reg a)) b) (union_row dc (nat (arg_to_reg a)) (u, s))"
      using Cons.prems False by (intro union_row_ok arg_row_le) (simp_all add: scalar_rows_Cons add.assoc)
    then have "accumulates dc s u k ((\<Union>b < 8. treg (taint_of s) dc (nat (arg_to_reg a)) b) \<union> ?X)
        (rbind (union_row dc (nat (arg_to_reg a)) (u, s)) (union_args dc as))"
    proof (rule accumulates_bind)
      fix u' and s' :: "'a engine_scheme"
      assume "engine_ok s'" "live dc s'" "room ?k (tables s')" "valid_tag (tables s') u'" and t: "taint_of s' = taint_of s"
      then show "accumulates dc s' u' k ?X (union_args dc as (u', s'))"
        using Cons.IH[of s' u'] by (simp add: t)
    qed
    then show ?thesis using False by (simp add: scalar_rows_Cons Let_def)
  qed
qed

lemma gpr_wr_tables: "gpr_wr dc row b t s = Inr s' \<Longrightarrow> tables s' = tables s"
  by (auto simp: gpr_wr_def split: option.splits if_splits)

lemma clobber_frame:
  assumes "engine_ok s" "live dc s"
  shows "\<exists>s'. clobber_caller_saved dc s = Inr s' \<and> engine_ok s' \<and> live dc s' \<and> side s' = side s \<and> tables s' = tables s
     \<and> taint_of s' = clobber_spec dc (taint_of s)"
proof -
  have "room (0 + 0) (tables s)" using assms(1) by (simp add: room_def engine_ok_def tables_ok_def)
  from refinesD[OF clobber_refines assms this] obtain s' where s': "clobber_caller_saved dc s = Inr s'" "engine_ok s'" "live dc s'"
    "side s' = side s" "taint_of s' = clobber_spec dc (taint_of s)" by blast
  moreover have "tables s' = tables s"
  proof (rule for_upto_partial[OF s'(1)[unfolded clobber_caller_saved_def], where P = "\<lambda>_ u. tables u = tables s"])
    fix i u v
    assume u: "tables u = tables s" and v: "for_upto TAGS_PER_GPR (\<lambda>b. gpr_wr dc (caller_saved ! i) b cleared_val) u = Inr v"
    show "tables v = tables s"
      by (rule for_upto_partial[OF v, where P = "\<lambda>_ w. tables w = tables s"]) (auto simp: u dest: gpr_wr_tables)
  qed simp
  ultimately show ?thesis by blast
qed

text \<open>An accumulated value, the caller-saved registers cleared, the value in all of \<^verbatim>\<open>RAX\<close>.\<close>

lemma accumulate_refines:
  assumes "\<And>s k. engine_ok s \<Longrightarrow> live dc s \<Longrightarrow> room (c + k) (tables s) \<Longrightarrow>
      accumulates dc s cleared_val k (X (taint_of s)) (f (cleared_val, s))"
  shows "refines dc (\<lambda>s. rbind (f (cleared_val, s)) (\<lambda>(u, s1). rbind (clobber_caller_saved dc s1) (rax_set_all dc u)))
     c (\<lambda>T. rax_spec dc (X T) (clobber_spec dc T))"
proof (rule refinesI)
  fix s :: "'a engine_scheme" and k
  assume s: "engine_ok s" "live dc s" "room (c + k) (tables s)"
  obtain u s1 where 1: "f (cleared_val, s) = Inr (u, s1)" "engine_ok s1" "live dc s1" "room k (tables s1)" "side s1 = side s"
    "taint_of s1 = taint_of s" "valid_tag (tables s1) u" "label_set (tables s1) u = label_set (tables s) cleared_val \<union> X (taint_of s)"
    "extends (tables s) (tables s1)"
    using assms[OF s] unfolding accumulates_def by blast
  obtain s2 where 2: "clobber_caller_saved dc s1 = Inr s2" "engine_ok s2" "live dc s2" "side s2 = side s1" "tables s2 = tables s1"
    "taint_of s2 = clobber_spec dc (taint_of s1)"
    using clobber_frame[OF 1(2,3)] by blast
  have c: "label_set (tables s) cleared_val = {}" using s(1) label_set_0 by (simp add: engine_ok_def cleared_val_def)
  from 1 2 have "valid_tag (tables s2) u" by simp
  from rax_set_all_ok[OF 2(2,3) this] 1 2 c
  show "\<exists>s'. rbind (f (cleared_val, s)) (\<lambda>(u, s1). rbind (clobber_caller_saved dc s1) (rax_set_all dc u)) = Inr s'
     \<and> engine_ok s' \<and> live dc s' \<and> room k (tables s') \<and> side s' = side s
     \<and> taint_of s' = rax_spec dc (X (taint_of s)) (clobber_spec dc (taint_of s)) \<and> extends (tables s) (tables s')"
    by auto
qed

lemma cleared_valid: "engine_ok s \<Longrightarrow> valid_tag (tables s) cleared_val"
  using label_set_0 by (simp add: engine_ok_def cleared_val_def)

lemma ptr2val_refines:
  assumes "list_all (\<lambda>(p, n). n = 0 \<or> mem_ok p n) (value_spans E av (sum_len sm) (sum_src sm))"
  shows "refines dc (handle_prop_ptr2val E dc av sm) (sum_list (map snd (value_spans E av (sum_len sm) (sum_src sm))))
     (\<lambda>T. rax_spec dc (\<Union>(p, n) \<in> set (value_spans E av (sum_len sm) (sum_src sm)). \<Union>i < n. tmem T (p + of_nat i)) (clobber_spec dc T))"
  unfolding handle_prop_ptr2val_def[abs_def]
  by (rule accumulate_refines, rule union_srcs_ok) (use assms cleared_valid in auto)

lemma scalar_refines:
  "refines dc (handle_prop_scalar dc sm) (8 * length (scalar_rows (sum_args sm)))
     (\<lambda>T. rax_spec dc (\<Union>row \<in> set (scalar_rows (sum_args sm)). \<Union>b < 8. treg T dc row b) (clobber_spec dc T))"
  unfolding handle_prop_scalar_def[abs_def]
  by (rule accumulate_refines, rule union_args_ok) (use cleared_valid in auto)

lemma dispatch_refines:
  assumes "summary_safe E av sm"
  shows "refines dc (sdft_dispatch E dc av sm) (summary_cost E av sm) (spec_summary E dc av sm)"
proof (cases "sum_shape sm")
  case SHAPE_PROP_PTR2PTR
  show ?thesis
  proof (cases "sum_src sm")
    case Nil
    with SHAPE_PROP_PTR2PTR show ?thesis
      using clobber_refines[of dc] by (simp add: handle_prop_ptr2ptr_def sdft_dispatch_def[abs_def] summary_cost_def spec_summary_def[abs_def])
  next
    case (Cons i "is")
    obtain src dst n where p: "copy_params E av sm = (src, dst, n)" by (metis surj_pair)
    from assms SHAPE_PROP_PTR2PTR Cons p
    have "refines dc (handle_prop_ptr2ptr E dc av sm) 0 (spec_copy dc (src, dst, n))"
      by (intro ptr2ptr_refines) (auto simp: summary_safe_def)
    with SHAPE_PROP_PTR2PTR Cons p show ?thesis
      by (simp add: sdft_dispatch_def[abs_def] summary_cost_def spec_summary_def[abs_def])
  qed
next
  case SHAPE_PROP_PTR2VAL
  with assms ptr2val_refines[of E av sm dc] show ?thesis
    by (simp add: summary_safe_def sdft_dispatch_def[abs_def] summary_cost_def spec_summary_def[abs_def])
next
  case SHAPE_PROP_SCALAR
  with scalar_refines[of dc sm] show ?thesis
    by (simp add: sdft_dispatch_def[abs_def] summary_cost_def spec_summary_def[abs_def])
qed (use clobber_refines[of dc] refines_skip[of dc] in
  \<open>simp_all add: sdft_dispatch_def[abs_def] handle_clobber_def summary_cost_def spec_summary_def[abs_def]\<close>)

section \<open>A summarised call\<close>

text \<open>A sample state: the sources' sample state with no modules and no summaries loaded.\<close>

definition sample_dft :: dft_state where
  "sample_dft =
     \<lparr>tables = tables sample_engine, tag_dir = tag_dir sample_engine, tls_idx = 0, threads = threads sample_engine,
      out_file = None, out_lea_file = None, limit_offset = 30, g_opcode_sinks = (\<lambda>_. []), g_pc_ranges = [],
      g_pending_func_sinks = [], sink_log = [], fdset = {5}, filename = ''in.bin'', flag = 1, mmap_type = False,
      g_src_events = 0, g_src_bytes = 0, syscall_desc = syscall_desc_table (\<lambda>_. 16), os_log = [],
      mnt = mnt_start,
      sdft = sdft_start, s_active = False, s_wrapped = {}, dr_wraps = [], s_intercepted_rtns = 0,
      s_calls_per_shape = (\<lambda>_. 0), s_ifunc_resolved = 0\<rparr>"

lemma engine_ok_cong:
  assumes "tables s = tables u" "tag_dir s = tag_dir u" "tls_idx s = tls_idx u" "threads s = threads u"
  shows "engine_ok s = engine_ok u" "live dc s = live dc u" "taint_of s = taint_of u"
    "libdft_get_thread_ctx dc s = libdft_get_thread_ctx dc u"
proof -
  show g: "libdft_get_thread_ctx dc s = libdft_get_thread_ctx dc u" for dc by (simp add: libdft_get_thread_ctx_def assms)
  show "engine_ok s = engine_ok u" "live dc s = live dc u" "taint_of s = taint_of u"
    by (simp_all add: engine_ok_def live_def taint_of_def g assms cong: option.case_cong)
qed

lemma sample_dft_ok: "engine_ok sample_dft" "live 7 sample_dft" "tables sample_dft = sample_tables"
  "taint_of sample_dft = taint_of sample_engine"
proof -
  have c: "tables sample_dft = tables sample_engine" "tag_dir sample_dft = tag_dir sample_engine"
    "tls_idx sample_dft = tls_idx sample_engine" "threads sample_dft = threads sample_engine"
    by (simp_all add: sample_dft_def sample_engine_def)
  from engine_ok_cong[OF c] c sample_engine_ok
  show "engine_ok sample_dft" "live 7 sample_dft" "tables sample_dft = sample_tables" "taint_of sample_dft = taint_of sample_engine"
    by simp_all
qed

lemma count_call_ok [simp]:
  "engine_ok (count_call sm s) = engine_ok s" "live dc (count_call sm s) = live dc s"
  "tables (count_call sm s) = tables s" "taint_of (count_call sm s) = taint_of s"
  using engine_ok_cong[of "count_call sm s" s] by (simp_all add: count_call_def)

lemma sdft_pre_sound_step:
  assumes "engine_ok s" "live (cur_drcontext E) s" "summary_safe E (map args [0..<6]) sm"
    and "room (summary_cost E (map args [0..<6]) sm + k) (tables s)"
  shows "\<exists>s'. sdft_pre E args (Some sm) s = Inr s' \<and> engine_ok s' \<and> live (cur_drcontext E) s' \<and> room k (tables s')
     \<and> side s' = side (count_call sm s) \<and> taint_of s' = spec_summary E (cur_drcontext E) (map args [0..<6]) sm (taint_of s)
     \<and> extends (tables s) (tables s')"
proof -
  obtain tc where "libdft_get_thread_ctx (cur_drcontext E) s = Some tc" using assms(2) by (auto simp: live_def)
  then have "sdft_pre E args (Some sm) s = sdft_dispatch E (cur_drcontext E) (map args [0..<6]) sm (count_call sm s)"
    by (simp add: sdft_pre_def)
  moreover have "room (summary_cost E (map args [0..<6]) sm + k) (tables (count_call sm s))" using assms(4) by simp
  ultimately show ?thesis
    using refinesD[OF dispatch_refines[OF assms(3)], where s = "count_call sm s" and dc = "cur_drcontext E"] assms(1,2)
    by (metis count_call_ok(1,2,3,4))
qed

text \<open>
  C9. A summarised call. Take any well-formed state, any summary and any six argument values, where the
  pointers that the summary follows are shadowed, a pointer-to-pointer copy does not overwrite bytes that it
  has still to read, and the label table has ids left for the unions. The callback at the entry of the
  function returns without a fault and leaves a well-formed engine; the caller-saved registers are clean
  except \<^verbatim>\<open>RAX\<close>, which holds what the shape says (the set of the first destination byte, or the union over
  the pointed-to bytes or over the argument registers), the destination of a copy holds the sets of its
  source byte by byte, and the set of every other byte is the one from before.
\<close>

theorem sdft_pre_sound:
  assumes "engine_ok s" "live (cur_drcontext E) s" "summary_safe E (map args [0..<6]) sm"
    and "room (summary_cost E (map args [0..<6]) sm + k) (tables s)"
  shows "\<exists>s'. sdft_pre E args (Some sm) s = Inr s' \<and> engine_ok s' \<and> live (cur_drcontext E) s' \<and> room k (tables s')
     \<and> side s' = side (count_call sm s) \<and> taint_of s' = spec_summary E (cur_drcontext E) (map args [0..<6]) sm (taint_of s)"
  using sdft_pre_sound_step[OF assms] by blast

theorem sdft_pre_sound_witness:
  "\<exists>s'. sdft_pre (sample_env 0) (\<lambda>i. [0x2000, 0x1000, 4, 0, 0, 0] ! i) (Some memcpy_summary) sample_dft = Inr s'
     \<and> tmem (taint_of s') 0x2000 = {3} \<and> treg (taint_of s') 7 DFT_REG_RAX 5 = {3}"
proof -
  let ?E = "sample_env 0" let ?av = "[0x2000, 0x1000, 4, 0, 0, 0] :: ADDRINT list"
  have m: "map (\<lambda>i. ?av ! i) [0..<6] = ?av" by (simp add: upt_rec)
  have e: "cur_drcontext ?E = 7" by (simp add: sample_env_def)
  have c: "copy_params ?E ?av memcpy_summary = (0x1000, 0x2000, 4)"
    by (simp add: copy_params_def memcpy_summary_def resolve_ptr_def capped_len_def resolve_len_def MAX_PROP_BYTES_def Let_def)
  have "summary_safe ?E ?av memcpy_summary" "summary_cost ?E ?av memcpy_summary = 0"
    using c by (simp_all add: summary_safe_def summary_cost_def memcpy_summary_def mem_ok_def)
  then obtain s' where s': "sdft_pre ?E (\<lambda>i. ?av ! i) (Some memcpy_summary) sample_dft = Inr s'"
    "taint_of s' = spec_summary ?E 7 ?av memcpy_summary (taint_of sample_engine)"
    using sdft_pre_sound[of sample_dft ?E "\<lambda>i. ?av ! i" memcpy_summary 0] sample_dft_ok sample_room[of 0] sample_engine_ok(3)
    unfolding m e by auto
  have t: "taint_of s' = spec_copy 7 (0x1000, 0x2000, 4) (taint_of sample_engine)"
    unfolding s'(2) using c by (simp add: spec_summary_def memcpy_summary_def)
  have "tget 7 (mem_cells 0x2000 0) (copy_spec 7 4 (mem_cells 0x2000) (mem_cells 0x1000) (taint_of sample_engine)) = {3}"
    unfolding copy_spec_def
  proof (subst tget_assign[of 0 4])
    fix j :: nat assume "0 < j" "j < 4"
    then have "j = 1 \<or> j = 2 \<or> j = 3" by arith
    then show "mem_cells 0x2000 j \<noteq> mem_cells 0x2000 0" by auto
  qed (use sample_taint in \<open>simp_all add: file_tag_testb_def max_addr_def\<close>)
  then have m3: "tmem (copy_spec 7 4 (mem_cells 0x2000) (mem_cells 0x1000) (taint_of sample_engine)) 0x2000 = {3}" by simp
  have "tmem (taint_of s') 0x2000 = {3}" "treg (taint_of s') 7 DFT_REG_RAX 5 = {3}"
    unfolding t spec_copy_def using m3 by (simp_all add: Let_def row_spec_def clobber_spec_def)
  with s'(1) show ?thesis by blast
qed

section \<open>The conservative policy\<close>

lemma parse_line_default: "s_conservative_default (parse_line l d) = s_conservative_default d"
  by (auto simp: parse_line_def parse_policy_def parse_alias_def parse_func_def Let_def split: list.splits option.splits prod.splits)

lemma fold_parse_line_default: "s_conservative_default (fold parse_line ls d) = s_conservative_default d"
  by (induction ls arbitrary: d) (simp_all add: parse_line_default)

lemma loaded_default:
  assumes "sdft_load fs conf_path sdft_start = (True, d)"
  shows "sum_shape (s_conservative_default d) = SHAPE_PROP_PTR2VAL" "ref_kind (sum_len (s_conservative_default d)) = REF_NONE"
  using assms by (auto simp: sdft_load_def set_default_def fold_parse_line_default sdft_start_def new_Summary_def new_Ref_def split: option.splits)

text \<open>
  C34. The conservative default over-taints nothing. Whatever the configuration file, the summary that the
  conservative policy gives to every function that has none is a pointer-to-value summary without a length.
  A call under it therefore reads no byte of its arguments: for any argument values it returns with the
  result register clean, in the state the call of a \<^verbatim>\<open>CLOBBER_ONLY\<close> function leaves.
\<close>

theorem conservative_default_never_taints:
  assumes "sdft_load fs conf_path sdft_start = (True, d)" "engine_ok s" "live (cur_drcontext E) s" "b < TAGS_PER_GPR"
  shows "\<exists>s'. sdft_pre E args (Some (s_conservative_default d)) s = Inr s' \<and> engine_ok s'
     \<and> taint_of s' = clobber_spec (cur_drcontext E) (taint_of s) \<and> treg (taint_of s') (cur_drcontext E) DFT_REG_RAX b = {}"
proof -
  let ?sm = "s_conservative_default d" let ?av = "map args [0..<6]"
  note l = loaded_default[OF assms(1)]
  have z: "n = 0" if "(p, n) \<in> set (value_spans E ?av (sum_len ?sm) (sum_src ?sm))" for p n
    using that l(2) by (auto simp: value_spans_def capped_len_def resolve_len_def Let_def)
  have 1: "summary_safe E ?av ?sm" using l(1) z by (fastforce simp: summary_safe_def list_all_iff)
  have 2: "summary_cost E ?av ?sm = 0" using l(1) z by (fastforce simp: summary_cost_def)
  have 3: "spec_summary E dc ?av ?sm T = rax_spec dc {} (clobber_spec dc T)" for dc T
  proof -
    have "(\<Union>(p, n) \<in> set (value_spans E ?av (sum_len ?sm) (sum_src ?sm)). \<Union>i < n. tmem T (p + of_nat i)) = {}"
      using z by fastforce
    then show ?thesis using l(1) by (simp add: spec_summary_def)
  qed
  have 4: "rax_spec dc {} (clobber_spec dc T) = clobber_spec dc T" for dc T
    by (auto simp: clobber_spec_def row_spec_def fun_eq_iff caller_saved_def TAGS_PER_GPR_def)
  have "room (0 + 0) (tables s)" using assms(2) by (simp add: room_def engine_ok_def tables_ok_def)
  with sdft_pre_sound_step[OF assms(2,3) 1, of 0] 2
  obtain s' where "sdft_pre E args (Some ?sm) s = Inr s'" "engine_ok s'" "taint_of s' = clobber_spec (cur_drcontext E) (taint_of s)"
    unfolding 3 4 by auto
  with assms(4) show ?thesis by (auto simp: clobber_spec_def caller_saved_def)
qed

text \<open>A configuration that consists of the conservative policy.\<close>

theorem conservative_default_never_taints_witness:
  "\<exists>s'. sdft_pre (sample_env 0) (\<lambda>_. 0x1000)
      (Some (s_conservative_default (snd (sdft_load (\<lambda>_. Some ''POLICY conservative'') ''sdft.conf'' sdft_start)))) sample_dft = Inr s'
     \<and> treg (taint_of s') 7 DFT_REG_RAX 0 = {}"
proof -
  let ?l = "sdft_load (\<lambda>_. Some ''POLICY conservative'') ''sdft.conf'' sdft_start"
  have l: "?l = (True, snd ?l)" by (simp only: sdft_load_def option.case snd_conv)
  have e: "cur_drcontext (sample_env 0) = 7" by (simp add: sample_env_def)
  have "0 < TAGS_PER_GPR" by (simp add: TAGS_PER_GPR_def)
  from conservative_default_never_taints[OF l sample_dft_ok(1), of "sample_env 0" 0 "\<lambda>_. 0x1000", unfolded e, OF sample_dft_ok(2) this]
  show ?thesis by blast
qed

section \<open>The scans for a terminator\<close>

text \<open>An element that ends a scan: it cannot be read, or it is zero.\<close>

definition scan_stop :: "dr_env \<Rightarrow> nat \<Rightarrow> ADDRINT \<Rightarrow> nat \<Rightarrow> bool" where
  "scan_stop E w p i = (case safe_read E (p + of_nat (i * w)) w of None \<Rightarrow> True | Some c \<Rightarrow> c = 0)"

lemma scan_len_first:
  "n \<le> bound \<Longrightarrow> (\<And>i. i < n \<Longrightarrow> \<not> scan_stop E w p i) \<Longrightarrow>
     scan_len E w p bound n \<le> bound \<and> (\<forall>i < scan_len E w p bound n. \<not> scan_stop E w p i)
     \<and> (scan_len E w p bound n = bound \<or> scan_stop E w p (scan_len E w p bound n))"
proof (induction E w p bound n rule: scan_len.induct)
  case (1 E w p bound n)
  show ?case
  proof (cases "n < bound \<and> \<not> scan_stop E w p n")
    case True
    then obtain c where c: "safe_read E (p + of_nat (n * w)) w = Some c" "c \<noteq> 0"
      by (auto simp: scan_stop_def split: option.splits)
    with True have "scan_len E w p bound n = scan_len E w p bound (n + 1)" by (subst scan_len.simps) simp
    moreover have "\<not> scan_stop E w p i" if "i < n + 1" for i using that 1(3) True by (auto simp: less_Suc_eq)
    ultimately show ?thesis using 1(1)[OF _ c] True by auto
  next
    case False
    then have "scan_len E w p bound n = n" by (subst scan_len.simps) (auto simp: scan_stop_def split: option.splits)
    with False 1(2,3) show ?thesis by auto
  qed
qed

text \<open>
  C40. The scans for the end of a string return, whatever the application's memory holds: \<^verbatim>\<open>safe_strlen\<close> stops at
  the first byte that is zero or cannot be read, after 256 KiB at the latest, and returns the number of
  bytes before it; \<^verbatim>\<open>safe_wcslen_bytes\<close> does so for wide characters of 4 bytes within the same 256 KiB.
\<close>

theorem scans_stop:
  "unat (safe_strlen E p) \<le> 262144 \<and> unat (safe_wcslen_bytes E p) \<le> 262144
   \<and> (if p = 0 then safe_strlen E p = 0 \<and> safe_wcslen_bytes E p = 0
      else (\<exists>n. unat (safe_strlen E p) = n \<and> (\<forall>i < n. \<not> scan_stop E 1 p i) \<and> (n = 262144 \<or> scan_stop E 1 p n))
         \<and> (\<exists>n. unat (safe_wcslen_bytes E p) = 4 * n \<and> (\<forall>i < n. \<not> scan_stop E 4 p i) \<and> (n = 65536 \<or> scan_stop E 4 p n)))"
proof (cases "p = 0")
  case True
  then show ?thesis by (simp add: safe_strlen_def safe_wcslen_bytes_def)
next
  case False
  have b: "unat MAX_PROP_BYTES = 262144" "unat (MAX_PROP_BYTES div 4) = 65536" by (simp_all add: MAX_PROP_BYTES_def unat_div_distrib)
  define k where "k = scan_len E 1 p 262144 0"
  define m where "m = scan_len E 4 p 65536 0"
  have k: "k \<le> 262144" "\<forall>i < k. \<not> scan_stop E 1 p i" "k = 262144 \<or> scan_stop E 1 p k"
    using scan_len_first[of 0 262144 E 1 p] by (simp_all add: k_def)
  have m: "m \<le> 65536" "\<forall>i < m. \<not> scan_stop E 4 p i" "m = 65536 \<or> scan_stop E 4 p m"
    using scan_len_first[of 0 65536 E 4 p] by (simp_all add: m_def)
  have u: "unat (of_nat n :: UINT64) = n" if "n \<le> 262144" for n
    using that by (simp add: unat_of_nat take_bit_nat_eq_self)
  have "unat (safe_strlen E p) = k" unfolding safe_strlen_def b k_def[symmetric] using False k(1) u by simp
  moreover have "unat (safe_wcslen_bytes E p) = 4 * m"
    unfolding safe_wcslen_bytes_def b m_def[symmetric] using False m(1) u[of "m * 4"] by simp
  ultimately show ?thesis using False k m by auto
qed

text \<open>The bytes \<^verbatim>\<open>abc\<close> and a zero at 0x1000; nothing else is readable.\<close>

definition sample_text :: dr_env where
  "sample_text = (sample_env 0)\<lparr>safe_read := (\<lambda>a n. if n = 1 then map_of [(0x1000, 0x61), (0x1001, 0x62), (0x1002, 0x63), (0x1003, 0)] a else None)\<rparr>"

theorem scans_stop_witness: "unat (safe_strlen sample_text 0x1000) = 3 \<and> safe_strlen sample_text 0 = 0 \<and> safe_wcslen_bytes sample_text 0x1000 = 0"
proof -
  have stop: "scan_stop sample_text 1 0x1000 3" "scan_stop sample_text 4 0x1000 0"
    "\<not> scan_stop sample_text 1 0x1000 0" "\<not> scan_stop sample_text 1 0x1000 1" "\<not> scan_stop sample_text 1 0x1000 2"
    by (simp_all add: scan_stop_def sample_text_def)
  obtain n where n: "unat (safe_strlen sample_text 0x1000) = n" "\<forall>i < n. \<not> scan_stop sample_text 1 0x1000 i"
    "n = 262144 \<or> scan_stop sample_text 1 0x1000 n"
    using scans_stop[where E = sample_text and p = "0x1000"] by auto
  have "n \<le> 3" using n(2) stop(1) by (meson not_less)
  with n(3) stop(3-5) have "n = 3" by (auto simp: numeral_3_eq_3 le_Suc_eq numeral_2_eq_2)
  moreover obtain m where "unat (safe_wcslen_bytes sample_text 0x1000) = 4 * m" "\<forall>i < m. \<not> scan_stop sample_text 4 0x1000 i"
    using scans_stop[where E = sample_text and p = "0x1000"] by auto
  with stop(2) have "unat (safe_wcslen_bytes sample_text 0x1000) = 0" by (metis gr0I mult_0_right)
  then have "safe_wcslen_bytes sample_text 0x1000 = 0" by (simp add: unat_eq_0)
  ultimately show ?thesis using n(1) scans_stop[where E = sample_text and p = 0] by simp
qed

end
