(* ===== verification/Api_Runs.thy ===== *)
theory Api_Runs
  imports Tag_Api
begin

text \<open>
  The calls of the client interface as steps of a run: what each of them needs, that it returns then, and
  what it leaves behind. The unions over memory need no thread here, other than in \<open>Tag_Api\<close>, since a
  client may ask for them at process exit.
\<close>

section \<open>Tags without a thread\<close>

lemma ewah_ones_label:
  assumes "tables_ok T" "valid_tag T t"
  shows "ewah_ones (g_sets T ! unat t) = sorted_list_of_set (label_set T t)"
proof -
  have inv: "ewah_inv (g_sets T ! unat t)" using tables_ok_inv[OF assms] .
  then have "ewah_ones (g_sets T ! unat t) = sorted_list_of_set (offsets (g_sets T ! unat t))"
    using ewah_ones_sorted set_ewah_ones strict_sorted_equal_Uniq
    by (metis ewah_inv_def sorted_list_of_set.idem_if_sorted_distinct strict_sorted_iff)
  then show ?thesis using assms(2) by (simp add: label_set_def)
qed

lemma make_tag_ok:
  assumes "tables_ok (tables s)" "room (Suc k) (tables s)"
  obtains t T where "make_tag l s = (from_raw t, s\<lparr>tables := T\<rparr>)" "tables_ok T" "room k T" "extends (tables s) T"
    "valid_tag T t" "label_set T t = {unat l}"
proof -
  obtain t T where d: "dft_label_set l (tables s) = (t, T)" by fastforce
  have "room 1 (tables s)" using assms(2) by (simp add: room_def)
  from dft_label_set_spec[OF assms(1) this d] show ?thesis
    using that[of t T] assms(2) d by (simp add: make_tag_def to_public_def room_def)
qed

lemma combine_ok:
  assumes "tables_ok (tables s)" "room (Suc k) (tables s)" "valid_tag (tables s) a" "valid_tag (tables s) b"
  obtains t T where "combine (from_raw a) (from_raw b) s = Inr (from_raw t, s\<lparr>tables := T\<rparr>)" "tables_ok T" "room k T"
    "extends (tables s) T" "valid_tag T t" "label_set T t = label_set (tables s) a \<union> label_set (tables s) b"
  using labels.combine_law[OF assms] that
  by (auto simp: combine_def combine_tags_def to_internal_def to_public_def)

lemma union_steps:
  assumes "tables_ok (tables s)" "room (n + k) (tables s)" "\<And>i. i < n \<Longrightarrow> file_tag_testb (va + of_nat i)"
    and "\<And>i. i < n \<Longrightarrow> valid_tag (tables s) (shadow_of (tag_dir s) (va + of_nat i))"
  shows "\<exists>u T. for_upto n (union_step va) (0, s) = Inr (u, s\<lparr>tables := T\<rparr>) \<and> tables_ok T \<and> room k T \<and> extends (tables s) T
     \<and> valid_tag T u \<and> label_set T u = (\<Union>i < n. label_set (tables s) (shadow_of (tag_dir s) (va + of_nat i)))"
  using assms
proof (induction n arbitrary: k)
  case 0
  then show ?case using label_set_0[OF assms(1)] by (intro exI[of _ 0] exI[of _ "tables s"]) simp
next
  case (Suc n)
  let ?x = "shadow_of (tag_dir s) (va + of_nat n)"
  obtain u T where u: "for_upto n (union_step va) (0, s) = Inr (u, s\<lparr>tables := T\<rparr>)" "tables_ok T" "room (Suc k) T"
    "extends (tables s) T" "valid_tag T u" "label_set T u = (\<Union>i < n. label_set (tables s) (shadow_of (tag_dir s) (va + of_nat i)))"
    using Suc.IH[of "Suc k"] Suc.prems by auto
  have x: "valid_tag (tables s) ?x" "file_tag_testb (va + of_nat n)" using Suc.prems(3,4)[of n] by simp_all
  obtain c T' where c: "tag_combine u ?x T = Inr (c, T')" "tables_ok T'" "room k T'" "extends T T'" "valid_tag T' c"
    "label_set T' c = label_set T u \<union> label_set T ?x"
    using labels.combine_law[OF u(2,3,5) extends_valid[OF u(4) x(1)]] by blast
  have "for_upto (Suc n) (union_step va) (0, s) = Inr (c, s\<lparr>tables := T'\<rparr>)"
    using u(1) c(1) x(2) by (simp add: for_upto_Suc union_step_def mem_rd_def combine_tags_def)
  with c extends_trans[OF u(4) c(4)] u(6) extends_label[OF u(4) x(1)] show ?case by (auto simp: lessThan_Suc)
qed

lemma mem_range_ok:
  assumes "tables_ok (tables s)" "room (n + k) (tables s)" "\<And>i. i < n \<Longrightarrow> file_tag_testb (va + of_nat i)"
    and "\<And>i. i < n \<Longrightarrow> valid_tag (tables s) (shadow_of (tag_dir s) (va + of_nat i))"
  obtains u T where "get_mem_tag_range va n s = Inr (from_raw u, s\<lparr>tables := T\<rparr>)" "tables_ok T" "room k T" "extends (tables s) T"
    "valid_tag T u" "label_set T u = (\<Union>i < n. label_set (tables s) (shadow_of (tag_dir s) (va + of_nat i)))"
  using union_steps[OF assms] by (auto simp: get_mem_tag_range_def to_public_def)

lemma get_mem_tag_eq: "file_tag_testb va \<Longrightarrow> get_mem_tag va s = Inr (from_raw (shadow_of (tag_dir s) va))"
  by (simp add: get_mem_tag_def mem_rd_def to_public_def)

section \<open>Calls of the interface\<close>

text \<open>The calls that a client makes; those without a result give the empty tag.\<close>

datatype api_op =
    Make_tag UINT32
  | Combine pub_tag pub_tag
  | Get_mem ADDRINT
  | Get_mem_range ADDRINT nat
  | Set_mem ADDRINT pub_tag
  | Clear_mem ADDRINT UINT64
  | Get_reg dr_regs reg_id
  | Get_reg_byte dr_regs reg_id nat
  | Get_reg_range dr_regs reg_id
  | Set_reg dr_regs reg_id pub_tag
  | Set_reg_byte dr_regs reg_id nat pub_tag
  | Paint_range ADDRINT nat UINT32
  | Clear_range ADDRINT UINT64

definition no_result :: "'a engine_scheme res \<Rightarrow> (pub_tag \<times> 'a engine_scheme) res" where
  "no_result r = rbind r (\<lambda>s. Inr (empty_tag, s))"

fun run_api :: "dr_env \<Rightarrow> api_op \<Rightarrow> 'a engine_scheme \<Rightarrow> (pub_tag \<times> 'a engine_scheme) res" where
  "run_api E (Make_tag l) s = Inr (make_tag l s)"
| "run_api E (Combine a b) s = combine a b s"
| "run_api E (Get_mem va) s = rbind (get_mem_tag va s) (\<lambda>t. Inr (t, s))"
| "run_api E (Get_mem_range va n) s = get_mem_tag_range va n s"
| "run_api E (Set_mem va t) s = no_result (Inr (set_mem_tag va t s))"
| "run_api E (Clear_mem va n) s = no_result (Inr (clear_mem va n s))"
| "run_api E (Get_reg R reg) s = rbind (get_reg_tag R E reg s) (\<lambda>t. Inr (t, s))"
| "run_api E (Get_reg_byte R reg i) s = rbind (get_reg_tag_byte R E reg i s) (\<lambda>t. Inr (t, s))"
| "run_api E (Get_reg_range R reg) s = get_reg_tag_range R E reg s"
| "run_api E (Set_reg R reg t) s = no_result (set_reg_tag R E reg t s)"
| "run_api E (Set_reg_byte R reg i t) s = no_result (set_reg_tag_byte R E reg i t s)"
| "run_api E (Paint_range va n l) s = no_result (paint_range va n l s)"
| "run_api E (Clear_range va n) s = no_result (Inr (clear_range va n s))"

text \<open>
  When a call is allowed: the tags that the client passes are tags it holds (\<open>H\<close>), the memory that it reads
  is shadowed, and the label table has ids left for the new sets.
\<close>

fun api_ok :: "pub_tag set \<Rightarrow> api_op \<Rightarrow> 'a engine_scheme \<Rightarrow> bool" where
  "api_ok H (Make_tag l) s = room 1 (tables s)"
| "api_ok H (Combine a b) s = (a \<in> H \<and> b \<in> H \<and> room 1 (tables s))"
| "api_ok H (Get_mem va) s = file_tag_testb va"
| "api_ok H (Get_mem_range va n) s = (list_all (\<lambda>i. file_tag_testb (va + of_nat i)) [0..<n] \<and> room n (tables s))"
| "api_ok H (Set_mem va t) s = (t \<in> H)"
| "api_ok H (Clear_mem va n) s = True"
| "api_ok H (Get_reg R reg) s = dr_regs_ok R"
| "api_ok H (Get_reg_byte R reg i) s = dr_regs_ok R"
| "api_ok H (Get_reg_range R reg) s = (dr_regs_ok R \<and> room 8 (tables s))"
| "api_ok H (Set_reg R reg t) s = (dr_regs_ok R \<and> t \<in> H)"
| "api_ok H (Set_reg_byte R reg i t) s = (dr_regs_ok R \<and> t \<in> H)"
| "api_ok H (Paint_range va n l) s = room n (tables s)"
| "api_ok H (Clear_range va n) s = True"

text \<open>The labels that a call brings into the library.\<close>

fun api_labels :: "api_op \<Rightarrow> nat set" where
  "api_labels (Make_tag l) = {unat l}"
| "api_labels (Paint_range va n l) = {unat l}"
| "api_labels _ = {}"

section \<open>Specification\<close>

text \<open>
  The set that a call returns and the taint that it leaves, in terms of offset sets only: \<open>D\<close> gives the sets
  of the client's tags and \<open>L\<close> the threads that have a register file.
\<close>

fun spec_result :: "(pub_tag \<Rightarrow> nat set) \<Rightarrow> dr_env \<Rightarrow> api_op \<Rightarrow> taint \<Rightarrow> nat set" where
  "spec_result D E (Make_tag l) T = {unat l}"
| "spec_result D E (Combine a b) T = D a \<union> D b"
| "spec_result D E (Get_mem va) T = tmem T va"
| "spec_result D E (Get_mem_range va n) T = (\<Union>i < n. tmem T (va + of_nat i))"
| "spec_result D E (Get_reg R reg) T =
     (case reg_span R reg of None \<Rightarrow> {} | Some (row, start, n) \<Rightarrow> treg T (cur_drcontext E) row start)"
| "spec_result D E (Get_reg_byte R reg i) T =
     (case reg_span R reg of None \<Rightarrow> {}
      | Some (row, start, n) \<Rightarrow> if i \<ge> n then {} else treg T (cur_drcontext E) row (start + i))"
| "spec_result D E (Get_reg_range R reg) T =
     (case reg_span R reg of None \<Rightarrow> {} | Some (row, start, n) \<Rightarrow> \<Union>k < n. treg T (cur_drcontext E) row (start + k))"
| "spec_result D E _ T = {}"

fun spec_api :: "nat set \<Rightarrow> (pub_tag \<Rightarrow> nat set) \<Rightarrow> dr_env \<Rightarrow> api_op \<Rightarrow> taint \<Rightarrow> taint" where
  "spec_api L D E (Set_mem va t) T = tset (cur_drcontext E) (CMem va) (D t) T"
| "spec_api L D E (Clear_mem va n) T = apply_effect (Clear_span va (unat n mod 2 ^ 32)) T"
| "spec_api L D E (Clear_range va n) T = apply_effect (Clear_span va (unat n mod 2 ^ 32)) T"
| "spec_api L D E (Set_reg R reg t) T =
     (case reg_span R reg of None \<Rightarrow> T
      | Some (row, start, n) \<Rightarrow>
          if cur_drcontext E \<in> L then assign (cur_drcontext E) n (reg_cells row start) (\<lambda>_. D t) T else T)"
| "spec_api L D E (Set_reg_byte R reg i t) T =
     (case reg_span R reg of None \<Rightarrow> T
      | Some (row, start, n) \<Rightarrow>
          if i < n \<and> cur_drcontext E \<in> L then tset (cur_drcontext E) (CReg row (start + i)) (D t) T else T)"
| "spec_api L D E (Paint_range va n l) T = assign (cur_drcontext E) n (mem_cells va) (\<lambda>_. {unat l}) T"
| "spec_api L D E _ T = T"

text \<open>The sets of tags, and the outcome of a call: the set X returned and the taint T left.\<close>

abbreviation tag_set :: "'a engine_scheme \<Rightarrow> pub_tag \<Rightarrow> nat set" where
  "tag_set s t \<equiv> label_set (tables s) (raw t)"

definition api_step :: "nat set \<Rightarrow> taint \<Rightarrow> 'a engine_scheme \<Rightarrow> (pub_tag \<times> 'a engine_scheme) res \<Rightarrow> bool" where
  "api_step X T s r \<longleftrightarrow> (\<exists>t s'. r = Inr (t, s') \<and> engine_ok s' \<and> side s' = side s \<and> extends (tables s) (tables s')
     \<and> valid_tag (tables s') (raw t) \<and> tag_set s' t = X \<and> taint_of s' = T)"

text \<open>A tag of the table whose set lies in A.\<close>

definition held :: "nat set \<Rightarrow> pub_tag \<Rightarrow> 'a engine_scheme \<Rightarrow> bool" where
  "held A t s \<longleftrightarrow> valid_tag (tables s) (raw t) \<and> tag_set s t \<subseteq> A"

lemma held_mono: "held A t s \<Longrightarrow> A \<subseteq> B \<Longrightarrow> held B t s"
  by (auto simp: held_def)

lemma held_extends: "held A t s \<Longrightarrow> extends (tables s) (tables s') \<Longrightarrow> held A t s'"
  unfolding held_def using extends_valid extends_label by metis

lemma empty_tag_ok: "engine_ok s \<Longrightarrow> valid_tag (tables s) (raw empty_tag) \<and> tag_set s empty_tag = {}"
  using label_set_0 by (simp add: empty_tag_def engine_ok_def)

lemma held_empty: "engine_ok s \<Longrightarrow> held A empty_tag s"
  by (simp add: empty_tag_ok held_def)

section \<open>Steps\<close>

lemma api_step_read:
  assumes "engine_ok s" "valid_tag (tables s) t" "label_set (tables s) t = X"
  shows "api_step X (taint_of s) s (Inr (from_raw t, s))"
  using assms labels.grows_refl by (auto simp: api_step_def)

lemma api_step_empty: "engine_ok s \<Longrightarrow> api_step {} (taint_of s) s (Inr (empty_tag, s))"
  using api_step_read[of s 0 "{}"] empty_tag_ok[of s] by (simp add: empty_tag_def)

lemma api_step_table:
  assumes "engine_ok s" "tables_ok T" "extends (tables s) T" "valid_tag T t" "label_set T t = X"
  shows "api_step X (taint_of s) s (Inr (from_raw t, s\<lparr>tables := T\<rparr>))"
  using assms engine_ok_grow[OF assms(1-3)] by (auto simp: api_step_def side_def)

lemma api_step_write:
  assumes "engine_ok s'" "side s' = side s" "extends (tables s) (tables s')"
  shows "api_step {} (taint_of s') s (no_result (Inr s'))"
  using assms empty_tag_ok[OF assms(1)] by (auto simp: api_step_def no_result_def)

lemma api_step_nothing: "engine_ok s \<Longrightarrow> api_step {} (taint_of s) s (no_result (Inr s))"
  using api_step_write[of s s] labels.grows_refl by simp

lemma tset_offsets: "all_offsets T \<subseteq> A \<Longrightarrow> X \<subseteq> A \<Longrightarrow> all_offsets (tset dc c X T) \<subseteq> A"
  unfolding all_offsets_le by (cases c) auto

lemma assign_offsets: "all_offsets T \<subseteq> A \<Longrightarrow> X \<subseteq> A \<Longrightarrow> all_offsets (assign dc n y (\<lambda>_. X) T) \<subseteq> A"
  by (induction n) (simp_all add: assign_Suc tset_offsets)

lemma clear_api_step:
  assumes "engine_ok s"
  shows "api_step {} (apply_effect (Clear_span va (unat n mod 2 ^ 32)) (taint_of s)) s
     (no_result (Inr (s\<lparr>tag_dir := file_tagmap_clrn va (ucast (n :: UINT64)) (tag_dir s)\<rparr>)))"
proof -
  let ?s = "s\<lparr>tag_dir := file_tagmap_clrn va (ucast n) (tag_dir s)\<rparr>"
  have "unat (ucast n :: UINT32) = unat n mod 2 ^ 32" by (simp add: unsigned_ucast_eq take_bit_eq_mod)
  with clrn_ok[OF assms, of va "ucast n"] api_step_write[of ?s s] labels.grows_refl show ?thesis by (simp add: side_def)
qed

lemma paint_range_ok:
  assumes "engine_ok s" "room n (tables s)"
  shows "api_step {} (assign dc n (mem_cells va) (\<lambda>_. {unat l}) (taint_of s)) s (no_result (paint_range va n l s))"
proof -
  let ?P = "\<lambda>j u. engine_ok u \<and> room (n - j) (tables u) \<and> side u = side s \<and> extends (tables s) (tables u)
     \<and> taint_of u = assign dc j (mem_cells va) (\<lambda>_. {unat l}) (taint_of s)"
  have "\<exists>s'. paint_range va n l s = Inr s' \<and> ?P n s'"
    unfolding paint_range_def
  proof (rule for_upto_total[where P = ?P])
    fix j u assume j: "j < n" and u: "?P j u"
    have r: "room (Suc (n - Suc j)) (tables u)" using u j by (simp add: Suc_diff_Suc)
    have ok: "tables_ok (tables u)" using u by (simp add: engine_ok_def)
    obtain t T where t: "make_tag l u = (from_raw t, u\<lparr>tables := T\<rparr>)" "tables_ok T" "room (n - Suc j) T" "extends (tables u) T"
      "valid_tag T t" "label_set T t = {unat l}" by (rule make_tag_ok[OF ok r])
    have d: "dft_label_set l (tables u) = (t, T)"
      using t(1) by (auto simp: make_tag_def to_public_def split: prod.splits) (metis engine.select_convs(1) engine.update_convs(1) engine.surjective)
    note g = engine_ok_grow[OF conjunct1[OF u] t(2,4)]
    have v: "valid_tag (tables (u\<lparr>tables := T\<rparr>)) t" using t(5) by simp
    note w = mem_wr_ok[OF g(1) v, where a = "va + of_nat j"]
    have "taint_of (mem_wr (va + of_nat j) t (u\<lparr>tables := T\<rparr>)) = assign dc (Suc j) (mem_cells va) (\<lambda>_. {unat l}) (taint_of s)"
      unfolding w(5)[where dc' = dc] using u g(2) t(6) by (simp add: assign_Suc del: tset.simps)
    moreover have "side (mem_wr (va + of_nat j) t (u\<lparr>tables := T\<rparr>)) = side s" using w(4) u by (simp add: side_def)
    ultimately have "?P (Suc j) (mem_wr (va + of_nat j) t (u\<lparr>tables := T\<rparr>))"
      using w(1,3) t(3,4) u labels.grows_trans by auto
    then show "\<exists>u'. (let (t, T) = dft_label_set l (tables u) in Inr (mem_wr (va + of_nat j) t (u\<lparr>tables := T\<rparr>))) = (Inr u' :: 'a engine_scheme res) \<and> ?P (Suc j) u'"
      by (simp add: d)
  qed (use assms labels.grows_refl in auto)
  then obtain s' where "paint_range va n l s = Inr s'" "?P n s'" by blast
  with api_step_write[of s' s] show ?thesis by (simp add: no_result_def)
qed

lemma set_row_ok:
  assumes "engine_ok s" "libdft_get_thread_ctx dc s = Some tc" "row < GRP_NUM" "start + n \<le> 8" "valid_tag (tables s) t"
  shows "api_step {} (assign dc n (reg_cells row start) (\<lambda>_. label_set (tables s) t) (taint_of s)) s
     (no_result (for_upto n (\<lambda>k. gpr_wr dc row (start + k) t) s))"
proof -
  have l: "live dc s" using assms(2) by (simp add: live_def)
  have w: "\<And>j. 0 \<le> j \<Longrightarrow> j < 0 + n \<Longrightarrow> writable (CReg row (start + j))" using assms(3,4) by (auto simp: TAGS_PER_GPR_def)
  obtain s' where s': "for_upto n (\<lambda>k. cell_wr dc (CReg row (start + k)) t) s = Inr s'" "engine_ok s'" "tables s' = tables s"
    "side s' = side s" "taint_of s' = fold (\<lambda>j. tset dc (CReg row (start + j)) (label_set (tables s) t)) [0..<0 + n] (taint_of s)"
    using write_loop_ok[OF assms(1) l assms(5), of 0 n "\<lambda>j. CReg row (start + j)"] w unfolding for_upto_def by blast
  have "for_upto n (\<lambda>k. gpr_wr dc row (start + k) t) s = Inr s'" using s'(1) unfolding cell_wr.simps .
  moreover have "taint_of s' = assign dc n (reg_cells row start) (\<lambda>_. label_set (tables s) t) (taint_of s)"
    unfolding s'(5) assign_def by simp
  ultimately show ?thesis using api_step_write[of s' s] s'(2-4) labels.grows_refl by (simp add: no_result_def)
qed

lemma reg_range_ok:
  assumes "engine_ok s" "libdft_get_thread_ctx dc s = Some tc" "row < GRP_NUM" "start + n \<le> 8" "room n (tables s)"
  shows "api_step (\<Union>k < n. treg (taint_of s) dc row (start + k)) (taint_of s) s
     (rbind (for_upto n (reg_union_step dc row start) (0, s)) (\<lambda>(acc, s'). Inr (to_public acc, s')))"
proof -
  have l: "live dc s" using assms(2) by (simp add: live_def)
  have z: "valid_tag (tables s) 0" "label_set (tables s) 0 = {}" using assms(1) label_set_0 by (auto simp: engine_ok_def)
  have r: "room (n + 0) (tables s)" using assms(5) by simp
  obtain u s' where s': "union_loop 0 n (\<lambda>i. cell_rd dc (CReg row (start + i))) (0, s) = Inr (u, s')" "engine_ok s'" "live dc s'"
    "room 0 (tables s')" "side s' = side s" "taint_of s' = taint_of s" "valid_tag (tables s') u"
    "label_set (tables s') u = label_set (tables s) 0 \<union> (\<Union>i \<in> {0..<0 + n}. tget dc (CReg row (start + i)) (taint_of s))"
    "extends (tables s) (tables s')"
    by (rule union_loop_ok[OF assms(1) l r z(1), of 0 "\<lambda>i. CReg row (start + i)"])
       (use assms(3,4) in \<open>simp_all add: TAGS_PER_GPR_def\<close>)
  then show ?thesis using z(2) by (simp add: reg_union_loop api_step_def to_public_def atLeast0LessThan)
qed

section \<open>Every call meets its specification\<close>

lemma reg_byte_step:
  assumes "engine_ok s" "libdft_get_thread_ctx dc s = Some tc"
  shows "api_step (treg (taint_of s) dc row b) (taint_of s) s (Inr (from_raw (gpr_file tc row b), s))"
  using assms by (intro api_step_read) (auto simp: engine_ok_def taint_of_def)

lemma dead_reg: "libdft_get_thread_ctx dc s = None \<Longrightarrow> treg (taint_of s) dc row b = {}"
  by (simp add: taint_of_def)

text \<open>
  Every allowed call returns, keeps the engine well-formed and the set of every tag, returns a tag of the
  specified set and leaves the specified taint.
\<close>

lemma run_api_spec:
  assumes "engine_ok s" "\<And>t. t \<in> H \<Longrightarrow> valid_tag (tables s) (raw t)" "api_ok H op s"
  shows "api_step (spec_result (tag_set s) E op (taint_of s)) (spec_api {dc. live dc s} (tag_set s) E op (taint_of s)) s (run_api E op s)"
proof -
  let ?dc = "cur_drcontext E"
  have T: "tables_ok (tables s)" using assms(1) by (simp add: engine_ok_def)
  note empty = api_step_empty[OF assms(1)] and stay = api_step_nothing[OF assms(1)] and spans = reg_span_bounds
  show ?thesis
  proof (cases op)
    case (Make_tag l)
    have r: "room (Suc 0) (tables s)" using assms(3) Make_tag by simp
    obtain t T' where "make_tag l s = (from_raw t, s\<lparr>tables := T'\<rparr>)" "tables_ok T'" "room 0 T'" "extends (tables s) T'"
      "valid_tag T' t" "label_set T' t = {unat l}" by (rule make_tag_ok[OF T r])
    with api_step_table[OF assms(1)] Make_tag show ?thesis by simp
  next
    case (Combine a b)
    have r: "room (Suc 0) (tables s)" using assms(3) Combine by simp
    obtain t T' where "combine (from_raw (raw a)) (from_raw (raw b)) s = Inr (from_raw t, s\<lparr>tables := T'\<rparr>)" "tables_ok T'" "room 0 T'"
      "extends (tables s) T'" "valid_tag T' t" "label_set T' t = label_set (tables s) (raw a) \<union> label_set (tables s) (raw b)"
      by (rule combine_ok[OF T r, of "raw a" "raw b"]) (use assms(2,3) Combine in auto)
    with api_step_table[OF assms(1)] Combine show ?thesis by simp
  next
    case (Get_mem va)
    with assms(1,3) api_step_read[OF assms(1), of "shadow_of (tag_dir s) va"] show ?thesis
      by (simp add: get_mem_tag_eq tmem_taint_of engine_ok_def)
  next
    case (Get_mem_range va n)
    obtain u T' where u: "get_mem_tag_range va n s = Inr (from_raw u, s\<lparr>tables := T'\<rparr>)" "tables_ok T'" "room 0 T'" "extends (tables s) T'"
      "valid_tag T' u" "label_set T' u = (\<Union>i < n. label_set (tables s) (shadow_of (tag_dir s) (va + of_nat i)))"
      by (rule mem_range_ok[OF T, of n 0 va]) (use assms(1,3) Get_mem_range in \<open>auto simp: engine_ok_def list_all_iff\<close>)
    with api_step_table[OF assms(1) u(2,4,5,6)] Get_mem_range show ?thesis by (simp add: tmem_taint_of)
  next
    case (Set_mem va t)
    have h: "valid_tag (tables s) (raw t)" using assms(2,3) Set_mem by simp
    note w = mem_wr_ok[OF assms(1) h, where a = va]
    from api_step_write[OF w(1,4)] w(3) w(5)[where dc' = ?dc] labels.grows_refl Set_mem show ?thesis
      by (simp add: set_mem_tag_def to_internal_def del: tset.simps)
  next
    case (Get_reg R reg)
    with assms(3) empty reg_byte_step[OF assms(1), of ?dc] spans[of R reg] show ?thesis
      by (auto simp: get_reg_tag_def cur_ctx_def gpr_rd_def TAGS_PER_GPR_def to_public_def dead_reg split: option.split)
  next
    case (Get_reg_byte R reg i)
    with assms(3) empty reg_byte_step[OF assms(1), of ?dc] spans[of R reg] show ?thesis
      by (auto simp: get_reg_tag_byte_def cur_ctx_def gpr_rd_def TAGS_PER_GPR_def to_public_def dead_reg split: option.split)
  next
    case (Get_reg_range R reg)
    have m: "room n (tables s)" if "n \<le> 8" for n using assms(3) Get_reg_range that by (simp add: room_def)
    from Get_reg_range assms(3) empty reg_range_ok[OF assms(1) _ _ _ m, of ?dc] spans[of R reg] show ?thesis
      by (auto simp: get_reg_tag_range_def cur_ctx_def dead_reg split: option.split)
  next
    case (Set_reg R reg t)
    have "api_step {} (assign ?dc n (reg_cells row start) (\<lambda>_. tag_set s t) (taint_of s)) s
        (no_result (for_upto n (\<lambda>k. gpr_wr ?dc row (start + k) (raw t)) s))"
      if "reg_span R reg = Some (row, start, n)" "libdft_get_thread_ctx ?dc s = Some tc" for row start n tc
      using set_row_ok[OF assms(1) that(2), of row start n "raw t"] assms(2,3) Set_reg that spans[of R reg row start n] by simp
    with Set_reg show ?thesis
      by (auto simp: set_reg_tag_def cur_ctx_def to_internal_def live_def split: option.split intro!: stay)
  next
    case (Set_reg_byte R reg i t)
    have one: "for_upto (Suc 0) (\<lambda>k. gpr_wr ?dc row (b + k) v) s = gpr_wr ?dc row b v s" for row b v
      by (simp add: for_upto_def rbind_def split: sum.split)
    have "api_step {} (tset ?dc (CReg row (start + i)) (tag_set s t) (taint_of s)) s (no_result (gpr_wr ?dc row (start + i) (raw t) s))"
      if "reg_span R reg = Some (row, start, n)" "i < n" "libdft_get_thread_ctx ?dc s = Some tc" for row start n tc
      using set_row_ok[OF assms(1) that(3), of row "start + i" "Suc 0" "raw t"] assms(2,3) Set_reg_byte that spans[of R reg row start n]
      by (simp add: one assign_Suc)
    with Set_reg_byte stay show ?thesis
      by (auto simp: set_reg_tag_byte_def cur_ctx_def to_internal_def live_def simp del: tset.simps split: option.split)
  next
    case (Paint_range va n l)
    with paint_range_ok[OF assms(1)] assms(3) show ?thesis by simp
  qed (use clear_api_step[OF assms(1)] in \<open>simp_all add: clear_mem_def clear_range_def\<close>)
qed

text \<open>No call brings other offsets into the library than its own label.\<close>

lemma spec_api_offsets:
  assumes "all_offsets T \<subseteq> A" "\<And>t. t \<in> H \<Longrightarrow> D t \<subseteq> A" "api_ok H op s" "api_labels op \<subseteq> A"
  shows "spec_result D E op T \<subseteq> A" "all_offsets (spec_api L D E op T) \<subseteq> A"
proof -
  have "treg T dc row b \<subseteq> A" "tmem T a \<subseteq> A" for dc row b a using assms(1) unfolding all_offsets_le by blast+
  note c = this[THEN subsetD]
  then show "spec_result D E op T \<subseteq> A" using assms(2-4) by (cases op) (auto dest: c split: option.splits if_splits)
  have "all_offsets (apply_effect (Clear_span va n) T) \<subseteq> A" for va n using assms(1) by (auto simp: all_offsets_le)
  then show "all_offsets (spec_api L D E op T) \<subseteq> A"
    using assms by (cases op) (simp_all add: tset_offsets assign_offsets del: tset.simps apply_effect.simps split: option.split)
qed

end
