(* ===== verification/Whole_Run.thy ===== *)
theory Whole_Run
  imports Lifecycle Instrument_Safety Sdft_Correct Api_Runs
begin

text \<open>
  The components together: an initialised library under any sequence of the events that DynamoRIO and the
  application produce. Every allowed event returns, the engine stays well-formed, and every offset found
  in a register or memory byte, in a tag of the client or in a record was painted before, by a system call
  on a tracked file or by the client.
\<close>

section \<open>Events\<close>

text \<open>
  A translated instruction (\<open>EvBuild\<close>) only inserts clean calls; \<open>EvRun\<close> executes the calls that were
  inserted for some instruction before. \<open>EvSummary\<close> and \<open>EvFuncSink\<close> are the two callbacks at the entry
  of a wrapped function. \<open>EvApi\<close> is a call of the client interface from any callback of the client,
  \<open>EvRegister\<close> a registration of a sink or of the tracked file, which a client may make at any time.
\<close>

datatype registration =
    Reg_sink opcode_class sink_cb
  | Reg_pc_range ADDRINT ADDRINT sink_cb
  | Reg_func string string sink_cb
  | Reg_func_pc ADDRINT sink_cb
  | Reg_file file_source_options_t

fun run_registration :: "registration \<Rightarrow> 'a sys_state_scheme \<Rightarrow> 'a sys_state_scheme" where
  "run_registration (Reg_sink cls cb) s = register_sink cls cb s"
| "run_registration (Reg_pc_range l h cb) s = register_pc_range_sink l h cb s"
| "run_registration (Reg_func f m cb) s = snd (register_func_sink f m cb s)"
| "run_registration (Reg_func_pc pc cb) s = register_func_sink_pc pc cb s"
| "run_registration (Reg_file opts) s = register_file_source opts s"

datatype app_event =
    EvThreadInit nat
  | EvThreadExit nat
  | EvBuild dr_insert instr
  | EvRun dr_env "clean_call list"
  | EvSyscall os_env os_env nat int
  | EvSummary dr_env "nat \<Rightarrow> ADDRINT" Summary
  | EvFuncSink ADDRINT
  | EvModuleLoad module_data
  | EvModuleUnload module_data
  | EvApi dr_env api_op
  | EvRegister registration

fun run_event :: "lib_env \<Rightarrow> 'a lib_state_ext dft_state_ext client_hooks \<Rightarrow> app_event \<Rightarrow> 'a lib_state_scheme \<Rightarrow> 'a lib_state_scheme res" where
  "run_event L client (EvThreadInit dc) s = Inr (event_thread_init dc s)"
| "run_event L client (EvThreadExit dc) s = Inr (event_thread_exit dc s)"
| "run_event L client (EvBuild D i) s = Inr (snd (event_bb_insn D i [] s))"
| "run_event L client (EvRun E cs) s = run_trace (map (Pair E) cs) s"
| "run_event L client (EvSyscall K K' dc n) s = run_syscall client K K' dc n s"
| "run_event L client (EvSummary E args sm) s = sdft_pre E args (Some sm) s"
| "run_event L client (EvFuncSink pc) s = Inr (func_sink_pre pc s)"
| "run_event L client (EvModuleLoad info) s = Inr (module_loaded L info s)"
| "run_event L client (EvModuleUnload info) s = Inr (module_unloaded info s)"
| "run_event L client (EvRegister r) s = Inr (run_registration r s)"
| "run_event L client (EvApi E op) s = rbind (run_api E op s) (\<lambda>(t, s'). Inr s')"

text \<open>The effects of a system call, as in \<open>Sources\<close>; none when the filter lets the call pass by.\<close>

definition event_effects :: "os_env \<Rightarrow> os_env \<Rightarrow> nat \<Rightarrow> int \<Rightarrow> 'a sys_state_scheme \<Rightarrow> effect list res" where
  "event_effects K K' dc n s =
     (if event_filter_syscall n s then
        case cur_thread_ctx dc s of
          None \<Rightarrow> Inl NullDeref
        | Some tc \<Rightarrow>
            let d = syscall_desc s ! nat n
            in syscall_effects K' d ((saved_args K d n (syscall_ctx tc))\<lparr>ret := syscall_get_result K'\<rparr>) s
      else Inr [])"

fun effect_offsets :: "effect \<Rightarrow> nat set" where
  "effect_offsets (Paint buf off n) = (\<lambda>i. unat (off + of_nat i) mod 2 ^ 32) ` {..<n}"
| "effect_offsets _ = {}"

fun painted :: "app_event \<Rightarrow> 'a sys_state_scheme \<Rightarrow> nat set" where
  "painted (EvSyscall K K' dc n) s =
     (case event_effects K K' dc n s of Inl _ \<Rightarrow> {} | Inr es \<Rightarrow> \<Union>(set (map effect_offsets es)))"
| "painted (EvApi E op) s = api_labels op"
| "painted _ s = {}"

text \<open>The inserted calls of all instructions translated so far.\<close>

fun built :: "app_event \<Rightarrow> 'a dft_state_scheme \<Rightarrow> clean_call list set \<Rightarrow> clean_call list set" where
  "built (EvBuild D i) s C = insert (calls_of (fst (event_bb_insn D i [] s))) C"
| "built _ s C = C"

text \<open>The tags that the client holds: the interface handed them out.\<close>

fun handed :: "app_event \<Rightarrow> 'a engine_scheme \<Rightarrow> pub_tag set \<Rightarrow> pub_tag set" where
  "handed (EvApi E op) s H = (case run_api E op s of Inl _ \<Rightarrow> H | Inr (t, s') \<Rightarrow> insert t H)"
| "handed _ s H = H"

text \<open>
  When an event is allowed: a thread that runs has a context, the memory that calls, summaries and reads
  touch is shadowed, the label table has ids left for the new sets of this event, the mmap hook
  does not end the process, and the client passes tags that it got from the library. Every decodable instruction may be translated.
\<close>

fun ev_ok :: "clean_call list set \<Rightarrow> pub_tag set \<Rightarrow> app_event \<Rightarrow> 'a sys_state_scheme \<Rightarrow> bool" where
  "ev_ok C H (EvBuild D i) s = (dr_regs_ok (regs D) \<and> instr_ok (regs D) i)"
| "ev_ok C H (EvRun E cs) s =
     (cs \<in> C \<and> live (cur_drcontext E) s \<and> list_all (mems_ok E) cs \<and> room (trace_cost (map (Pair E) cs)) (tables s))"
| "ev_ok C H (EvSyscall K K' dc n) s =
     (case event_effects K K' dc n s of
        Inl _ \<Rightarrow> False
      | Inr es \<Rightarrow> list_all effect_ok es \<and> room (sum_list (map effect_cost es)) (tables s))"
| "ev_ok C H (EvSummary E args sm) s =
     (live (cur_drcontext E) s \<and> summary_safe E (map args [0..<6]) sm
      \<and> room (summary_cost E (map args [0..<6]) sm) (tables s))"
| "ev_ok C H (EvApi E op) s = api_ok H op s"
| "ev_ok C H _ s = True"

text \<open>
  Reachable configurations. The client may have registered sources and sinks before \<^verbatim>\<open>init\<close>; the shadow
  memory and the outputs are empty then. \<open>C\<close> collects the inserted calls, \<open>H\<close> the tags that the client got
  and \<open>P\<close> the offsets that were painted.
\<close>

definition pristine :: "(os_type \<Rightarrow> nat) \<Rightarrow> 'a lib_state_scheme \<Rightarrow> bool" where
  "pristine Z s \<longleftrightarrow> \<not> g_initialized s \<and> tag_dir s = empty_dir \<and> syscall_desc s = syscall_desc_table Z
     \<and> (out_file s = None \<or> out_file s = Some []) \<and> (out_lea_file s = None \<or> out_lea_file s = Some []) \<and> sink_log s = []"

inductive lib_reach ::
  "lib_env \<Rightarrow> 'a lib_state_ext dft_state_ext client_hooks \<Rightarrow> (os_type \<Rightarrow> nat) \<Rightarrow>
   clean_call list set \<Rightarrow> pub_tag set \<Rightarrow> nat set \<Rightarrow> 'a lib_state_scheme \<Rightarrow> bool"
  for L client Z where
  initialised: "pristine Z s0 \<Longrightarrow> lib_init L opts s0 = Inr (r, s) \<Longrightarrow> lib_reach L client Z {} {empty_tag} {} s"
| event: "lib_reach L client Z C H P s \<Longrightarrow> ev_ok C H e s \<Longrightarrow> run_event L client e s = Inr s' \<Longrightarrow>
    lib_reach L client Z (built e s C) (handed e s H) (P \<union> painted e s) s'"

definition run_inv :: "(os_type \<Rightarrow> nat) \<Rightarrow> clean_call list set \<Rightarrow> pub_tag set \<Rightarrow> nat set \<Rightarrow> 'a sys_state_scheme \<Rightarrow> bool" where
  "run_inv Z C H P s \<longleftrightarrow> engine_ok s \<and> tls_idx s \<noteq> - 1 \<and> syscall_desc s = syscall_desc_table Z
     \<and> (\<forall>cs \<in> C. list_all regs_ok cs) \<and> all_offsets (taint_of s) \<subseteq> P
     \<and> (\<forall>t \<in> H. held P t s) \<and> records_ok P s"

text \<open>One step: the rest follows when the table grows and the outputs grow by genuine records.\<close>

lemma run_inv_step:
  assumes "run_inv Z C H P s" "engine_ok s'" "tls_idx s' = tls_idx s" "syscall_desc s' = syscall_desc s"
    and "extends (tables s) (tables s')" "logs (all_offsets (taint_of s)) s s'" "all_offsets (taint_of s') \<subseteq> P \<union> Q"
  shows "run_inv Z C H (P \<union> Q) s'"
proof -
  have h: "held (P \<union> Q) t s'" if "t \<in> H" for t
    using held_mono[OF held_extends[OF _ assms(5)]] assms(1) that unfolding run_inv_def by blast
  have "records_ok P s'" using records_ok_logs logs_mono[OF assms(6)] assms(1) unfolding run_inv_def by blast
  then have "records_ok (P \<union> Q) s'" by (rule records_ok_mono) simp
  with assms h show ?thesis by (simp add: run_inv_def)
qed

section \<open>Events that leave the engine alone\<close>

text \<open>\<open>same_core s s'\<close>: the same engine, descriptor table and outputs.\<close>

definition same_core :: "'a sys_state_scheme \<Rightarrow> 'a sys_state_scheme \<Rightarrow> bool" where
  "same_core s s' \<longleftrightarrow> tables s' = tables s \<and> tag_dir s' = tag_dir s \<and> tls_idx s' = tls_idx s \<and> threads s' = threads s
     \<and> syscall_desc s' = syscall_desc s \<and> outputs s' = outputs s"

lemma same_core_trans: "same_core s s1 \<Longrightarrow> same_core s1 s2 \<Longrightarrow> same_core s s2"
  by (simp add: same_core_def)

lemma run_inv_core:
  assumes "same_core s s'" "run_inv Z C H P s"
  shows "run_inv Z C H P s'"
proof -
  have c: "tables s' = tables s" "tag_dir s' = tag_dir s" "tls_idx s' = tls_idx s" "threads s' = threads s"
    "syscall_desc s' = syscall_desc s" "outputs s' = outputs s" using assms(1) by (simp_all add: same_core_def)
  note e = engine_ok_cong[OF c(1-4)]
  have "run_inv Z C H (P \<union> {}) s'"
    by (rule run_inv_step[OF assms(2)]) (use c e assms(2) logs_same labels.grows_refl in \<open>simp_all add: run_inv_def\<close>)
  then show ?thesis by simp
qed

lemma registration_core: "same_core s (run_registration r s)"
  by (cases r) (simp_all add: same_core_def outputs_def register_sink_def register_pc_range_sink_def register_func_sink_def
      register_func_sink_pc_def register_file_source_def)

lemma same_core_tables: "same_core s s' \<Longrightarrow> extends (tables s) (tables s')"
  using labels.grows_refl by (simp add: same_core_def)

lemma bb_core: "same_core s (snd (event_bb_insn D i b s))"
  by (auto simp: same_core_def outputs_def event_bb_insn_def Let_def split: prod.splits)

lemma enum_sym_core: "same_core s (enum_sym_cb base pa info s)"
  by (simp add: same_core_def outputs_def enum_sym_cb_def Let_def split: option.splits)

lemma fold_core: "(\<And>x u. same_core u (f x u)) \<Longrightarrow> same_core s (fold f xs s)"
proof (induction xs arbitrary: s)
  case Nil
  then show ?case by (simp add: same_core_def)
next
  case (Cons x xs)
  from same_core_trans[OF Cons.prems Cons.IH[OF Cons.prems]] show ?case by simp
qed

lemma same_core_refl: "same_core s s"
  by (simp add: same_core_def)

lemma module_cb_core: "same_core s (run_module_cb L info cb s)"
proof (cases cb)
  case Event_module_load
  have "same_core s (fold (enum_sym_cb base pa) xs s)" for base pa xs by (rule fold_core) (rule enum_sym_core)
  with Event_module_load show ?thesis by (simp add: sdft_event_module_load_def same_core_refl split: option.splits)
qed (simp_all add: same_core_def outputs_def func_sink_on_module_load_def Let_def split: prod.splits)

lemma module_core: "same_core s (module_loaded L info s)" "same_core s (module_unloaded info s)"
proof -
  show "same_core s (module_loaded L info s)" unfolding module_loaded_def by (rule fold_core) (rule module_cb_core)
  show "same_core s (module_unloaded info s)" by (simp add: module_unloaded_def same_core_def outputs_def)
qed

section \<open>Offsets\<close>

lemma thread_init_inv:
  assumes "run_inv Z C H P s"
  shows "run_inv Z C H P (event_thread_init dc s)" "run_inv Z C H P (event_thread_exit dc s)"
proof -
  have z: "valid_tag (tables s) 0" "label_set (tables s) 0 = {}"
    using assms label_set_0 by (auto simp: run_inv_def engine_ok_def)
  have init: "libdft_get_thread_ctx d (event_thread_init dc s) =
      (if d = dc \<and> tls_idx s \<noteq> - 1 then Some new_thread_ctx else libdft_get_thread_ctx d s)" for d
    by (simp add: libdft_get_thread_ctx_def event_thread_init_def)
  have exit: "libdft_get_thread_ctx d (event_thread_exit dc s) = (if d = dc then None else libdft_get_thread_ctx d s)" for d
    by (simp add: libdft_get_thread_ctx_def event_thread_exit_def)
  have u: "tables (event_thread_init dc s) = tables s" "tag_dir (event_thread_init dc s) = tag_dir s"
    "tables (event_thread_exit dc s) = tables s" "tag_dir (event_thread_exit dc s) = tag_dir s"
    by (simp_all add: event_thread_init_def event_thread_exit_def)
  have "engine_ok (event_thread_init dc s)" "engine_ok (event_thread_exit dc s)"
    using assms z by (auto simp: run_inv_def engine_ok_def init exit u new_thread_ctx_def cleared_val_def)
  moreover have "all_offsets (taint_of (event_thread_init dc s)) \<subseteq> all_offsets (taint_of s)"
    "all_offsets (taint_of (event_thread_exit dc s)) \<subseteq> all_offsets (taint_of s)"
    using z(2) by (auto simp: all_offsets_def taint_of_def init exit u new_thread_ctx_def split: if_splits option.splits)
  moreover have "outputs (event_thread_init dc s) = outputs s" "outputs (event_thread_exit dc s) = outputs s"
    "tls_idx (event_thread_init dc s) = tls_idx s" "tls_idx (event_thread_exit dc s) = tls_idx s"
    "syscall_desc (event_thread_init dc s) = syscall_desc s" "syscall_desc (event_thread_exit dc s) = syscall_desc s"
    by (simp_all add: event_thread_init_def event_thread_exit_def outputs_def)
  ultimately have "run_inv Z C H (P \<union> {}) (event_thread_init dc s)" "run_inv Z C H (P \<union> {}) (event_thread_exit dc s)"
    using assms u labels.grows_refl
    by - (rule run_inv_step[OF assms _ _ _ _ logs_same]; fastforce simp: run_inv_def)+
  then show "run_inv Z C H P (event_thread_init dc s)" "run_inv Z C H P (event_thread_exit dc s)" by simp_all
qed

lemma row_spec_offsets: "X \<subseteq> A \<Longrightarrow> all_offsets T \<subseteq> A \<Longrightarrow> all_offsets (row_spec dc row n X T) \<subseteq> A"
  unfolding all_offsets_le row_spec_def by auto

lemma clobber_offsets: "all_offsets T \<subseteq> A \<Longrightarrow> all_offsets (clobber_spec dc T) \<subseteq> A"
  unfolding all_offsets_le clobber_spec_def by auto

lemma tmem_offsets: "all_offsets T \<subseteq> A \<Longrightarrow> tmem T a \<subseteq> A" "all_offsets T \<subseteq> A \<Longrightarrow> treg T dc row b \<subseteq> A"
  unfolding all_offsets_le by blast+

lemma copy_spec_offsets: "all_offsets T \<subseteq> A \<Longrightarrow> all_offsets (copy_spec dc n y x T) \<subseteq> A"
  using all_offsets_assign[where T = T, OF tget_all] unfolding copy_spec_def by fast

lemma spec_copy_offsets: "all_offsets T \<subseteq> A \<Longrightarrow> all_offsets (spec_copy dc p T) \<subseteq> A"
proof (cases p)
  case (fields src dst n)
  assume T: "all_offsets T \<subseteq> A"
  define T1 where "T1 = (if dst \<noteq> 0 \<and> src \<noteq> 0 then copy_spec dc n (mem_cells dst) (mem_cells src) T else T)"
  have eq: "spec_copy dc p T = (if dst \<noteq> 0 \<and> n > 0 then rax_spec dc (tmem T1 dst) (clobber_spec dc T1) else clobber_spec dc T1)"
    by (simp only: spec_copy_def fields prod.case Let_def T1_def)
  have "all_offsets T1 \<subseteq> A" using T copy_spec_offsets by (simp add: T1_def)
  then show ?thesis unfolding eq by (simp add: row_spec_offsets clobber_offsets tmem_offsets)
qed

lemma spec_summary_offsets: "all_offsets T \<subseteq> A \<Longrightarrow> all_offsets (spec_summary E dc av sm T) \<subseteq> A"
  unfolding spec_summary_def
  by (cases "sum_shape sm")
     (simp_all add: row_spec_offsets clobber_offsets spec_copy_offsets tmem_offsets UN_subset_iff split: prod.split)

lemma effect_offsets_le: "all_offsets T \<subseteq> A \<Longrightarrow> effect_ok e \<Longrightarrow> all_offsets (apply_effect e T) \<subseteq> A \<union> effect_offsets e"
proof (cases e)
  case (Paint buf off n)
  assume T: "all_offsets T \<subseteq> A"
  have "unat (off + (x - buf)) mod 2 ^ 32 \<in> effect_offsets e" if "unat (x - buf) < n" for x
    using that by (force simp: Paint intro!: image_eqI[where x = "unat (x - buf)"])
  with T show ?thesis unfolding all_offsets_le Paint apply_effect.simps by (simp del: effect_offsets.simps) blast
qed (auto simp: all_offsets_le)

lemma effects_offsets: "all_offsets T \<subseteq> A \<Longrightarrow> list_all effect_ok es \<Longrightarrow>
    all_offsets (fold apply_effect es T) \<subseteq> A \<union> \<Union>(set (map effect_offsets es))"
proof (induction es arbitrary: T A)
  case (Cons e es)
  from Cons.IH[OF effect_offsets_le[OF Cons.prems(1), of e]] Cons.prems(2) show ?case by (simp add: Un_assoc)
qed simp

section \<open>Every event keeps the invariant\<close>

lemma setup_core: "same_core u (setup_mnt L u)" "same_core u (setup_sdft L u)" "same_core u (libdft_core_init L u)"
  by (simp_all add: same_core_def outputs_def setup_mnt_def setup_sdft_def sdft_init_def libdft_core_init_def Let_def split: prod.splits bool.splits)

lemma init_inv:
  assumes "pristine Z s0" "lib_init L opts s0 = Inr (r, s)"
  shows "run_inv Z {} {empty_tag} {} s"
proof -
  note k = setup_core[where L = L]
  define s1 where "s1 = s0\<lparr>environ := set_opaque (opaque_modules opts) (environ s0),
      mmap_type := (mmap_paint_method opts \<noteq> 0), limit_offset := max_offset_per_byte opts,
      tls_idx := tls_slot L, threads := (\<lambda>_. None), tables := tagmap_alloc, engine_events := engine_events s0 + 1\<rparr>"
  have slot: "tls_slot L \<noteq> - 1" and s: "s = (let s3 = libdft_core_init L (setup_sdft L (setup_mnt L s1))
      in s3\<lparr>exit_events := exit_events s3 + 1, g_initialized := True\<rparr>)"
    using assms by (auto simp: pristine_def lib_init_def libdft_setup_def libdft_die_def Let_def s1_def split: if_splits)
  have "same_core s1 s"
    using same_core_trans[OF same_core_trans[OF k(1,2)] k(3), of s1] unfolding s Let_def by (simp add: same_core_def outputs_def)
  moreover have "run_inv Z {} {empty_tag} {} s1"
  proof -
    have t: "tables s1 = tagmap_alloc" "tag_dir s1 = empty_dir" "threads s1 = (\<lambda>_. None)" "tls_idx s1 = tls_slot L"
      "syscall_desc s1 = syscall_desc_table Z" using assms(1) by (simp_all add: s1_def pristine_def)
    have z: "valid_tag tagmap_alloc 0" "label_set tagmap_alloc 0 = {}" using label_set_0[OF tagmap_alloc_ok] by simp_all
    have "engine_ok s1" using tagmap_alloc_ok z by (simp add: engine_ok_def t libdft_get_thread_ctx_def)
    moreover have "all_offsets (taint_of s1) = {}" using z by (simp add: all_offsets_def taint_of_def t libdft_get_thread_ctx_def)
    moreover have "records_ok {} s1" using assms(1) by (simp add: records_ok_def s1_def pristine_def all_lines_fresh)
    ultimately show ?thesis using slot held_empty[of s1 "{}"] by (simp add: run_inv_def t)
  qed
  ultimately show ?thesis by (rule run_inv_core)
qed

lemma built_regs_ok:
  assumes "dr_regs_ok (regs D)" "instr_ok (regs D) i"
  shows "list_all regs_ok (calls_of (fst (event_bb_insn D i [] s)))"
proof -
  have "list_all regs_ok (calls_of (ins_inspect_dr D i []))"
    using ins_inspect_good[OF assms, of "[]"] by (auto simp: good_def list_all_iff)
  then show ?thesis by (simp add: event_bb_insn_def Let_def dr_insert_clean_call_def split: prod.splits)
qed

lemma run_calls_inv:
  assumes "run_inv Z C H P s" "ev_ok C H (EvRun E cs) s"
  shows "\<exists>s'. run_trace (map (Pair E) cs) s = Inr s' \<and> run_inv Z C H P s' \<and> extends (tables s) (tables s')"
proof -
  have ok: "live (cur_drcontext E') s \<and> call_ok E' c" if "(E', c) \<in> set (map (Pair E) cs)" for E' c
    using that assms by (auto simp: run_inv_def call_ok_split list_all_iff)
  obtain s' where s': "run_trace (map (Pair E) cs) s = Inr s'" "engine_ok s'" "rest s' = rest s"
    "taint_of s' = spec_trace (map (Pair E) cs) (taint_of s)" "logs (all_offsets (taint_of s)) s s'" "extends (tables s) (tables s')"
    using run_trace_refines[where k = 0 and tr = "map (Pair E) cs", OF _ ok] assms by (auto simp: run_inv_def)
  have t: "tls_idx s' = tls_idx s" "syscall_desc s' = syscall_desc s"
    using s'(3) by (simp_all add: rest_def) (cases s; cases s'; simp)
  have "run_inv Z C H (P \<union> {}) s'"
    by (rule run_inv_step[OF assms(1) s'(2) t s'(6,5)])
       (use s'(4) assms(1) spec_trace_offsets[of "map (Pair E) cs" "taint_of s"] in \<open>auto simp: run_inv_def\<close>)
  with s'(1,6) show ?thesis by auto
qed

lemma summary_inv:
  fixes s :: "'a dft_state_scheme"
  assumes "run_inv Z C H P s" "ev_ok C H (EvSummary E args sm) s"
  shows "\<exists>s'. sdft_pre E args (Some sm) s = Inr s' \<and> run_inv Z C H P s' \<and> extends (tables s) (tables s')"
proof -
  obtain s' where s': "sdft_pre E args (Some sm) s = Inr s'" "engine_ok s'" "side s' = side (count_call sm s)"
    "taint_of s' = spec_summary E (cur_drcontext E) (map args [0..<6]) sm (taint_of s)" "extends (tables s) (tables s')"
    using sdft_pre_sound_step[of s E args sm 0] assms by (auto simp: run_inv_def)
  have t: "tls_idx s' = tls_idx s" "syscall_desc s' = syscall_desc s" "outputs s' = outputs s"
    using side_kept[OF s'(3)] by (simp_all add: count_call_def outputs_def)
  have "run_inv Z C H (P \<union> {}) s'"
    by (rule run_inv_step[OF assms(1) s'(2) t(1,2) s'(5) logs_same[OF t(3)]])
       (use s'(4) assms(1) spec_summary_offsets[of "taint_of s" P] in \<open>simp add: run_inv_def\<close>)
  with s'(1,5) show ?thesis by auto
qed

lemma syscall_inv:
  fixes s :: "'a sys_state_scheme"
  assumes "run_inv Z C H P s" "\<And>t. Z t < 2 ^ 32" "ev_ok C H (EvSyscall K K' dc n) s"
  shows "\<exists>s'. run_syscall client K K' dc n s = Inr s' \<and> run_inv Z C H (P \<union> painted (EvSyscall K K' dc n) s) s'
     \<and> extends (tables s) (tables s')"
proof (cases "event_filter_syscall n s")
  case True
  define d where "d = syscall_desc s ! nat n"
  obtain tc es where tc: "cur_thread_ctx dc s = Some tc"
    and es: "syscall_effects K' d ((saved_args K d n (syscall_ctx tc))\<lparr>ret := syscall_get_result K'\<rparr>) s = Inr es"
      "list_all effect_ok es" "room (sum_list (map effect_cost es)) (tables s)"
    and ev: "event_effects K K' dc n s = Inr es"
    using assms(3) True by (auto simp: event_effects_def d_def Let_def split: option.splits sum.splits)
  have inv: "engine_ok s" "syscall_desc s = syscall_desc_table Z" using assms(1) by (simp_all add: run_inv_def)
  obtain s' where s': "run_syscall client K K' dc n s = Inr s'" "engine_ok s'" "tls_idx s' = tls_idx s" "syscall_desc s' = syscall_desc s"
    "taint_of s' = fold apply_effect es (taint_of s)" "outputs s' = outputs s" "extends (tables s) (tables s')"
    using run_syscall_ok[OF inv(1) tc True d_def table_entry[OF inv(2) assms(2) True d_def] refl es(1,2), of 0 client] es(3) by auto
  have "run_inv Z C H (P \<union> painted (EvSyscall K K' dc n) s) s'"
    by (rule run_inv_step[OF assms(1) s'(2,3,4,7) logs_same[OF s'(6)]])
       (use s'(5) assms(1) effects_offsets[of "taint_of s" P es] es(2) ev in \<open>simp add: run_inv_def\<close>)
  with s'(1,7) show ?thesis by blast
next
  case False
  with assms(1) labels.grows_refl show ?thesis by (simp add: run_syscall_def event_effects_def)
qed

lemma api_inv:
  fixes s :: "'a sys_state_scheme"
  assumes "run_inv Z C H P s" "ev_ok C H (EvApi E op) s"
  shows "\<exists>t s'. run_api E op s = Inr (t, s') \<and> run_inv Z C (insert t H) (P \<union> api_labels op) s'
     \<and> extends (tables s) (tables s')"
proof -
  let ?A = "P \<union> api_labels op"
  have h: "valid_tag (tables s) (raw t)" "tag_set s t \<subseteq> ?A" if "t \<in> H" for t
    using assms(1) that unfolding run_inv_def held_def by blast+
  have ok: "api_ok H op s" "engine_ok s" "all_offsets (taint_of s) \<subseteq> ?A" using assms by (auto simp: run_inv_def)
  obtain t s' where s': "run_api E op s = Inr (t, s')" "engine_ok s'" "side s' = side s" "extends (tables s) (tables s')"
    "valid_tag (tables s') (raw t)" "tag_set s' t = spec_result (tag_set s) E op (taint_of s)"
    "taint_of s' = spec_api {dc. live dc s} (tag_set s) E op (taint_of s)"
    using run_api_spec[OF ok(2) h(1) ok(1)] unfolding api_step_def by blast
  have o: "held ?A t s'" "all_offsets (taint_of s') \<subseteq> ?A"
    using spec_api_offsets[where D = "tag_set s", OF ok(3) h(2) ok(1)] s'(5) unfolding held_def s'(6,7) by auto
  have k: "tls_idx s' = tls_idx s" "syscall_desc s' = syscall_desc s" "outputs s' = outputs s" using side_kept[OF s'(3)] by simp_all
  have "run_inv Z C H ?A s'" by (rule run_inv_step[OF assms(1) s'(2) k(1,2) s'(4) logs_same[OF k(3)] o(2)])
  then have "run_inv Z C (insert t H) ?A s'" using o(1) by (simp add: run_inv_def)
  with s'(1,4) show ?thesis by blast
qed

lemma func_sink_inv:
  assumes "run_inv Z C H P s"
  shows "run_inv Z C H P (func_sink_pre pc s)"
proof -
  let ?s = "func_sink_pre pc s"
  have c: "tables ?s = tables s" "tag_dir ?s = tag_dir s" "tls_idx ?s = tls_idx s" "threads ?s = threads s"
    "syscall_desc ?s = syscall_desc s" by (simp_all add: func_sink_pre_def)
  have l: "logs X s ?s" for X by (auto simp: logs_def func_sink_pre_def appended_refl list_all_iff)
  have "run_inv Z C H (P \<union> {}) ?s"
    by (rule run_inv_step[OF assms _ c(3,5) _ l])
       (use c engine_ok_cong[OF c(1-4)] labels.grows_refl assms in \<open>simp_all add: run_inv_def\<close>)
  then show ?thesis by simp
qed

lemma run_event_inv:
  assumes "run_inv Z C H P s" "\<And>t. Z t < 2 ^ 32" "ev_ok C H e s"
  shows "\<exists>s'. run_event L client e s = Inr s' \<and> run_inv Z (built e s C) (handed e s H) (P \<union> painted e s) s'
     \<and> extends (tables s) (tables s')"
proof (cases e)
  case (EvBuild D i)
  with assms run_inv_core[OF bb_core, of Z C H P s D i "[]"] built_regs_ok[of D i s] same_core_tables[OF bb_core[of s D i "[]"]]
  show ?thesis by (simp add: run_inv_def)
next
  case (EvFuncSink pc)
  then show ?thesis using func_sink_inv[OF assms(1)] labels.grows_refl by (simp add: func_sink_pre_def)
next
  case (EvRun E cs)
  then show ?thesis using run_calls_inv[OF assms(1)] assms(3) by simp
next
  case (EvSummary E args sm)
  then show ?thesis using summary_inv[OF assms(1)] assms(3) by simp
next
  case (EvSyscall K K' dc n)
  then show ?thesis using syscall_inv[OF assms(1,2), of K K' dc n] assms(3) by simp
next
  case (EvApi E op)
  obtain t s' where s': "run_api E op s = Inr (t, s')" "run_inv Z C (insert t H) (P \<union> api_labels op) s'" "extends (tables s) (tables s')"
    using api_inv[OF assms(1)] assms(3) EvApi by blast
  then show ?thesis by (simp add: EvApi)
next
  case (EvRegister r)
  with run_inv_core[OF registration_core assms(1)] same_core_tables[OF registration_core] show ?thesis by simp
next
  case (EvModuleLoad info)
  with run_inv_core[OF module_core(1) assms(1)] same_core_tables[OF module_core(1)] show ?thesis by simp
next
  case (EvModuleUnload info)
  with run_inv_core[OF module_core(2) assms(1)] same_core_tables[OF module_core(2)] show ?thesis by simp
qed (use thread_init_inv[OF assms(1)] labels.grows_refl in \<open>auto simp: event_thread_init_def event_thread_exit_def\<close>)

lemma reach_inv:
  assumes "lib_reach L client Z C H P s" "\<And>t. Z t < 2 ^ 32"
  shows "run_inv Z C H P s"
  using assms(1)
proof (induction rule: lib_reach.induct)
  case (initialised s0 opts r s)
  then show ?case by (rule init_inv)
next
  case (event C H P s e s')
  from run_event_inv[OF event.IH assms(2) event.hyps(2), of L client] event.hyps(3) show ?case by auto
qed

section \<open>Properties\<close>

text \<open>A library without modules and summaries, initialised, with one thread and descriptor 5 tracked.\<close>

definition sample_lib_env :: lib_env where
  "sample_lib_env =
     \<lparr>tls_slot = 0, drsym_starts = False, mnt_files = \<lparr>getenv = Map.empty, realpath = Map.empty, file_bytes = Map.empty\<rparr>,
      conf_files = Map.empty, dr_internal = (\<lambda>_. False), proc_addr = (\<lambda>_. Map.empty), symbols_of = (\<lambda>_. []),
      lookup_symbol = (\<lambda>_. Map.empty), drwrap_wrap = (\<lambda>_ _. True)\<rparr>"

definition sample_options :: init_options_t where
  "sample_options =
     \<lparr>single_threaded = True, opaque_modules = [], reg_file_size = 0, mmap_paint_method = 1, max_offset_per_byte = 4\<rparr>"

definition sample_lib :: lib_state where
  "sample_lib = (lib_start (\<lambda>_. 16) [''VUZZER_SDFT'' \<mapsto> ''off'', ''VUZZER_MNT_POLICY'' \<mapsto> ''off''])\<lparr>fdset := {5}\<rparr>"

definition sample_run :: lib_state where
  "sample_run =
     (case lib_init sample_lib_env sample_options sample_lib of Inr (r, s) \<Rightarrow> event_thread_init 7 s | Inl _ \<Rightarrow> sample_lib)"

lemma sample_run_reach:
  shows "lib_reach sample_lib_env client (\<lambda>_. 16) {} {empty_tag} {} sample_run"
    and "cur_thread_ctx 7 sample_run = Some new_thread_ctx" "fdset sample_run = {5}" "tables sample_run = tagmap_alloc"
    "syscall_desc sample_run = syscall_desc_table (\<lambda>_. 16)"
proof -
  obtain s where s: "lib_init sample_lib_env sample_options sample_lib = Inr (True, s)" "fdset s = {5}" "tables s = tagmap_alloc"
      "syscall_desc s = syscall_desc_table (\<lambda>_. 16)"
    by (simp add: lib_init_def libdft_setup_def setup_mnt_def mnt_init_def parse_policy_env_def setup_sdft_def libdft_core_init_def
        set_opaque_def sample_options_def sample_lib_env_def sample_lib_def lib_start_def mnt_start_def Let_def)
  have r: "sample_run = event_thread_init 7 s" by (simp add: sample_run_def s(1))
  have p: "pristine (\<lambda>_. 16) sample_lib" by (simp add: pristine_def sample_lib_def lib_start_def)
  have "lib_reach sample_lib_env client (\<lambda>_. 16) {} {empty_tag} {} s" using p s(1) by (rule lib_reach.initialised)
  from lib_reach.event[OF this, of "EvThreadInit 7"] show "lib_reach sample_lib_env client (\<lambda>_. 16) {} {empty_tag} {} sample_run"
    by (simp add: r)
  show "cur_thread_ctx 7 sample_run = Some new_thread_ctx" "fdset sample_run = {5}" "tables sample_run = tagmap_alloc"
    "syscall_desc sample_run = syscall_desc_table (\<lambda>_. 16)"
    by (simp_all add: r s event_thread_init_def cur_thread_ctx_def)
qed

text \<open>The thread reads four bytes at file position 6 of the tracked file.\<close>

abbreviation sample_read :: app_event where
  "sample_read \<equiv> EvSyscall (sample_os [5, 0x2000, 4] 0 0) (sample_os [] 4 10) 7 0"

lemma sample_read_effects:
  "event_effects (sample_os [5, 0x2000, 4] 0 0) (sample_os [] 4 10) 7 0 sample_run = Inr [Paint 0x2000 6 4]"
proof -
  let ?d = "syscall_desc sample_run ! nat 0"
  have d: "?d = desc 3 1 1 [0, 0, 0, 0, 0, 0] NULL Post_read_hook"
    by (simp add: sample_run_reach(5) syscall_desc_table_def syscall_desc_0_def)
  have f: "event_filter_syscall 0 sample_run"
    using d by (simp add: event_filter_syscall_def SYSCALL_MAX_def wants_args_def desc_def)
  have "(saved_args (sample_os [5, 0x2000, 4] 0 0) ?d 0 (syscall_ctx new_thread_ctx))\<lparr>ret := syscall_get_result (sample_os [] 4 10)\<rparr>
      = \<lparr>nr = 0, arg = (\<lambda>i. if i < 3 then [5, 0x2000, 4] ! i else 0), ret = 4\<rparr>"
    unfolding d by (auto simp: saved_args_def desc_def sample_os_def new_thread_ctx_def fun_eq_iff)
  then show ?thesis using f d
    by (simp add: event_effects_def sample_run_reach(2,3) syscall_effects_def desc_def read_effect_def to_ssize_def to_int_def sample_os_def Let_def)
qed

lemma sample_read_ok: "ev_ok {} {empty_tag} sample_read sample_run" "painted sample_read sample_run = {6, 7, 8, 9}"
proof -
  have "file_tag_testb (0x2000 + of_nat i)" if "i < 4" for i :: nat
  proof -
    from that consider "i = 0" | "i = 1" | "i = 2" | "i = 3" by arith
    then show ?thesis by cases (simp_all add: file_tag_testb_def max_addr_def)
  qed
  moreover have "room 4 (tables sample_run)" by (simp add: sample_run_reach(4) room_def tagmap_alloc_def)
  ultimately show "ev_ok {} {empty_tag} sample_read sample_run" by (simp add: sample_read_effects)
  have "{..<4} = {0, 1, 2, 3 :: nat}" by auto
  then show "painted sample_read sample_run = {6, 7, 8, 9}" by (simp add: sample_read_effects)
qed

text \<open>
  C3. The library never faults. Start it with any options and environment, after any registrations by the
  client, and let the application run: threads start and exit, instructions are translated and their clean
  calls executed in any interleaving, system calls enter and leave, modules are loaded and unloaded, summarised
  functions are entered, the client calls its interface and registers sinks and files. From every configuration reached this way, every event that is allowed there returns a
  result, and the engine it leaves is well-formed.
\<close>

theorem library_never_faults:
  assumes "lib_reach L client Z C H P s" "\<And>t. Z t < 2 ^ 32" "ev_ok C H e s"
  shows "\<exists>s'. run_event L client e s = Inr s' \<and> engine_ok s' \<and> lib_reach L client Z (built e s C) (handed e s H) (P \<union> painted e s) s'"
proof -
  obtain s' where s': "run_event L client e s = Inr s'" "run_inv Z (built e s C) (handed e s H) (P \<union> painted e s) s'"
    using run_event_inv[OF reach_inv[OF assms(1,2)] assms(2,3), of L client] by blast
  with lib_reach.event[OF assms(1,3) s'(1)] show ?thesis by (simp add: run_inv_def)
qed

theorem library_never_faults_witness:
  "\<exists>s'. run_event sample_lib_env (\<lambda>_ _ _ _. Inl NullDeref) sample_read sample_run = Inr s' \<and> engine_ok s'"
  using library_never_faults[OF sample_run_reach(1) _ sample_read_ok(1)] by auto

text \<open>
  C4. All taint has a source. In every configuration that the running library reaches, each offset in the
  set of a register byte of a live thread or of a memory byte is one that some read, pread or mmap of a
  tracked file, or a call of the client interface with that label, painted earlier in the run: neither propagation nor a function summary, a thread start or a
  module load makes up an offset.
\<close>

theorem taint_has_a_source:
  assumes "lib_reach L client Z C H P s" "\<And>t. Z t < 2 ^ 32"
  shows "engine_ok s \<and> all_offsets (taint_of s) \<subseteq> P"
  using reach_inv[OF assms] by (simp add: run_inv_def)

theorem taint_has_a_source_witness:
  "\<exists>s. run_event sample_lib_env (\<lambda>_ _ _ _. Inl NullDeref) sample_read sample_run = Inr s \<and> all_offsets (taint_of s) \<subseteq> {6, 7, 8, 9}"
proof -
  obtain s where s: "run_event sample_lib_env (\<lambda>_ _ _ _. Inl NullDeref) sample_read sample_run = Inr s"
    using run_event_inv[OF reach_inv[OF sample_run_reach(1)] _ sample_read_ok(1)] by fastforce
  have "lib_reach sample_lib_env (\<lambda>_ _ _ _. Inl NullDeref) (\<lambda>_. 16) {} {empty_tag} {6, 7, 8, 9} s"
    using lib_reach.event[OF sample_run_reach(1) sample_read_ok(1) s] by (simp only: sample_read_ok(2) built.simps handed.simps Un_empty_left)
  from taint_has_a_source[OF this] s show ?thesis by auto
qed

section \<open>Records\<close>

text \<open>
  C5. All records have a source. In every configuration that the running library reaches, \<^verbatim>\<open>cmp.out\<close> and
  \<^verbatim>\<open>lea.out\<close> consist of complete lines of their documented form, no line has an operand byte beyond the
  offset limit, and every line, like every record handed to a sink, names at least one offset and only
  offsets that were painted earlier in the run.
\<close>

theorem records_have_sources:
  assumes "lib_reach L client Z C H P s" "\<And>t. Z t < 2 ^ 32"
  shows "all_lines (cmp_line P (limit_offset s)) (out_file s) \<and> all_lines (lea_line P (limit_offset s)) (out_lea_file s)
     \<and> list_all (event_genuine P) (sink_log s)"
  using reach_inv[OF assms] by (simp add: run_inv_def records_ok_def)

text \<open>A comparison of the byte at \<^verbatim>\<open>[rbx]\<close> with 0x41, in a library with one comparison sink; the byte is painted.\<close>

definition sample_cmp :: instr where
  "sample_cmp = \<lparr>instr_opcode = OP_cmp, dsts = [], srcs = [OpBaseDisp (REG_64 RBX) DR_REG_NULL 1 0 1, OpImm 0x41],
     app_pc = 0, predicate = PRED_OTHER, is_app = True\<rparr>"

abbreviation sample_cmp_calls :: "clean_call list" where
  "sample_cmp_calls \<equiv> [Call_cmp_i2m 0 (OpBaseDisp (REG_64 RBX) DR_REG_NULL 1 0 1) 0x41 1]"

definition sample_sink_lib :: lib_state where
  "sample_sink_lib = sample_lib\<lparr>g_opcode_sinks := (\<lambda>c. if c = CMP then [1] else [])\<rparr>"

lemma sample_sink_reach:
  obtains s :: lib_state where "lib_reach sample_lib_env client (\<lambda>_. 16) {sample_cmp_calls} {empty_tag} {} s"
    "live 7 s" "tables s = tagmap_alloc" "g_opcode_sinks s CMP = [1]" "sink_log s = []"
proof -
  obtain s0 where s0: "lib_init sample_lib_env sample_options sample_sink_lib = Inr (True, s0)" "tls_idx s0 = 0" "tables s0 = tagmap_alloc"
      "g_opcode_sinks s0 CMP = [1]" "sink_log s0 = []"
    by (simp add: lib_init_def libdft_setup_def setup_mnt_def mnt_init_def parse_policy_env_def setup_sdft_def libdft_core_init_def
        set_opaque_def sample_options_def sample_lib_env_def sample_lib_def sample_sink_lib_def lib_start_def mnt_start_def Let_def)
  have p: "pristine (\<lambda>_. 16) sample_sink_lib" by (simp add: pristine_def sample_lib_def sample_sink_lib_def lib_start_def)
  have r0: "lib_reach sample_lib_env client (\<lambda>_. 16) {} {empty_tag} {} s0" using p s0(1) by (rule lib_reach.initialised)
  let ?s = "event_thread_init 7 s0"
  have r1: "lib_reach sample_lib_env client (\<lambda>_. 16) {} {empty_tag} {} ?s"
    using lib_reach.event[OF r0, of "EvThreadInit 7"] by simp
  have calls: "calls_of (ins_inspect_dr sample_insert sample_cmp []) = sample_cmp_calls" by code_simp
  have "ev_ok {} {empty_tag} (EvBuild sample_insert sample_cmp) ?s"
    using sample_insert_ok(3) by (simp add: instr_ok_def sample_cmp_def narrow_ops_def)
  from lib_reach.event[OF r1 this, of ?s] calls
  have "lib_reach sample_lib_env client (\<lambda>_. 16) {sample_cmp_calls} {empty_tag} {} ?s"
    by (simp add: event_bb_insn_def sample_cmp_def)
  from that[OF this] s0 show ?thesis
    by (simp add: event_thread_init_def live_def libdft_get_thread_ctx_def)
qed

theorem records_have_sources_witness:
  "\<exists>(s :: lib_state) fs. lib_reach sample_lib_env (\<lambda>_ _ _ _. Inl NullDeref) (\<lambda>_. 16) {sample_cmp_calls} {empty_tag} {6} s
     \<and> legacy_fields (case sink_log s of [OpcodeSink cb cls pc pl] \<Rightarrow> pl) = fs \<and> length (sink_log s) = 1 \<and> cmp_genuine {6} fs"
proof -
  let ?client = "\<lambda>_ _ _ _. Inl NullDeref"
  obtain s :: lib_state where s: "lib_reach sample_lib_env ?client (\<lambda>_. 16) {sample_cmp_calls} {empty_tag} {} s"
    "live 7 s" "tables s = tagmap_alloc" "g_opcode_sinks s CMP = [1]" "sink_log s = []" by (rule sample_sink_reach[of ?client])
  have rm: "room (Suc 0) (tables s)" by (simp add: s(3) room_def tagmap_alloc_def)
  obtain t T where t: "make_tag 6 s = (from_raw t, s\<lparr>tables := T\<rparr>)" "tables_ok T" "room 0 T" "extends (tables s) T"
    "valid_tag T t" "label_set T t = {unat (6 :: UINT32)}"
    by (rule make_tag_ok[OF _ rm, where l = 6]) (simp_all add: s(3) tagmap_alloc_ok)
  define s1 where "s1 = mem_wr 0x2000 t (s\<lparr>tables := T\<rparr>)"
  have d: "dft_label_set 6 (tables s) = (t, T)"
    using t(1) by (cases "dft_label_set 6 (tables s)") (simp add: make_tag_def to_public_def, metis engine.select_convs(1) engine.update_convs(1) engine.surjective)
  have run1: "run_api E (Paint_range 0x2000 1 6) s = Inr (empty_tag, s1)" for E
    using d by (simp add: no_result_def paint_range_def for_upto_def s1_def)
  have r1: "lib_reach sample_lib_env ?client (\<lambda>_. 16) {sample_cmp_calls} {empty_tag} {6} s1"
    using lib_reach.event[OF s(1), of "EvApi (sample_env 0) (Paint_range 0x2000 1 6)" s1] run1 rm by simp
  have tag: "file_tag_testb 0x2000" by (simp add: file_tag_testb_def max_addr_def)
  have "t \<noteq> 0" using label_set_0[OF t(2)] t(6) by auto
  then have m: "mem_tags 0x2000 1 s1 = [t]" "list_ex tag_count [t]" "live 7 s1" "g_opcode_sinks s1 CMP = [1]" "sink_log s1 = []" "room 0 (tables s1)"
    using tag s t(3) by (simp_all add: mem_tags_def s1_def mem_wr_def live_def libdft_get_thread_ctx_def tag_count_def split: if_splits)
  obtain pl where run2: "run_trace (map (Pair (sample_env 0x2000)) sample_cmp_calls) s1 = Inr (s1\<lparr>sink_log := [OpcodeSink 1 CMP 0 pl]\<rparr>)"
    using cmp_i2m_eq[of "0x2000" 1 "sample_env 0x2000" 0 "0x41" s1] tag m
    by (simp add: sample_env_def mem_ok_def report_cmp_def emit_cmp_def has_sink_def dispatch_sink_def)
  have "ev_ok {sample_cmp_calls} {empty_tag} (EvRun (sample_env 0x2000) sample_cmp_calls) s1"
    using m tag by (simp add: sample_env_def trace_cost_def mem_ok_def)
  from lib_reach.event[OF r1 this, of "s1\<lparr>sink_log := [OpcodeSink 1 CMP 0 pl]\<rparr>"] run2
  have r2: "lib_reach sample_lib_env ?client (\<lambda>_. 16) {sample_cmp_calls} {empty_tag} {6} (s1\<lparr>sink_log := [OpcodeSink 1 CMP 0 pl]\<rparr>)" by simp
  from records_have_sources[OF this] have "cmp_genuine {6} (legacy_fields pl)" by simp
  with r2 show ?thesis by (intro exI[of _ "s1\<lparr>sink_log := [OpcodeSink 1 CMP 0 pl]\<rparr>"]) simp
qed

section \<open>Tags of the client\<close>

text \<open>A run that goes on from a configuration.\<close>

inductive lib_steps ::
  "lib_env \<Rightarrow> 'a lib_state_ext dft_state_ext client_hooks \<Rightarrow> clean_call list set \<Rightarrow> pub_tag set \<Rightarrow> 'a lib_state_scheme \<Rightarrow>
   clean_call list set \<Rightarrow> pub_tag set \<Rightarrow> 'a lib_state_scheme \<Rightarrow> bool"
  for L client C H s where
  here: "lib_steps L client C H s C H s"
| further: "lib_steps L client C H s C1 H1 s1 \<Longrightarrow> ev_ok C1 H1 e s1 \<Longrightarrow> run_event L client e s1 = Inr s2 \<Longrightarrow>
    lib_steps L client C H s (built e s1 C1) (handed e s1 H1) s2"

lemma lib_steps_inv:
  assumes "lib_steps L client C H s C' H' s'" "run_inv Z C H P s" "\<And>t. Z t < 2 ^ 32"
  shows "\<exists>P'. run_inv Z C' H' P' s' \<and> H \<subseteq> H' \<and> extends (tables s) (tables s')"
  using assms(1)
proof (induction rule: lib_steps.induct)
  case here
  then show ?case using assms(2) labels.grows_refl by blast
next
  case (further C1 H1 s1 e s2)
  then obtain P1 where 1: "run_inv Z C1 H1 P1 s1" "H \<subseteq> H1" "extends (tables s) (tables s1)" by blast
  have h: "H1 \<subseteq> handed e s1 H1" by (cases e) (auto split: sum.split)
  from run_event_inv[OF 1(1) assms(3) further.hyps(2), of L client] further.hyps(3)
  have "run_inv Z (built e s1 C1) (handed e s1 H1) (P1 \<union> painted e s1) s2" "extends (tables s1) (tables s2)" by auto
  with 1 h labels.grows_trans show ?case by blast
qed

lemma same_set_same_walk:
  assumes "tables_ok T" "tables_ok T'" "extends T T'" "valid_tag T t"
  shows "tag_walk t fn u T' = tag_walk t fn u T" "tag_sprint t T' = tag_sprint t T"
proof -
  note l = extends_label[OF assms(3,4)] and v = extends_valid[OF assms(3,4)]
  have "ewah_ones (g_sets T' ! unat t) = ewah_ones (g_sets T ! unat t)"
    using ewah_ones_label[OF assms(1,4)] ewah_ones_label[OF assms(2) v] l by simp
  with v assms(4) show "tag_walk t fn u T' = tag_walk t fn u T" by (simp add: tag_walk_def valid_tag_def)
  show "tag_sprint t T' = tag_sprint t T"
    using tag_sprint_set[OF assms(1,4)] tag_sprint_set[OF assms(2) v] l by simp
qed

text \<open>
  C14. A tag means the same set for ever. Whatever events follow, in any number, a tag that the library has
  handed to the client names the set that it named then, of offsets painted before: it prints as the same
  string, and every visitor sees the same labels in the same order.
\<close>

theorem handed_tags_are_stable:
  assumes "lib_reach L client Z C H P s" "\<And>t. Z t < 2 ^ 32" "t \<in> H" "lib_steps L client C H s C' H' s'"
  shows "label_set (tables s') (raw t) = label_set (tables s) (raw t) \<and> label_set (tables s) (raw t) \<subseteq> P
     \<and> to_string t s' = to_string t s \<and> enumerate t fn u s' = enumerate t fn u s"
proof -
  have inv: "run_inv Z C H P s" by (rule reach_inv[OF assms(1,2)])
  then obtain P' where s': "run_inv Z C' H' P' s'" "extends (tables s) (tables s')"
    using lib_steps_inv[OF assms(4) inv assms(2)] by blast
  have h: "valid_tag (tables s) (raw t)" "label_set (tables s) (raw t) \<subseteq> P"
    using inv assms(3) unfolding run_inv_def held_def by blast+
  have ok: "tables_ok (tables s)" "tables_ok (tables s')" using inv s'(1) by (simp_all add: run_inv_def engine_ok_def)
  from same_set_same_walk(1)[OF ok s'(2) h(1), where fn = fn and u = u] same_set_same_walk(2)[OF ok s'(2) h(1)] extends_label[OF s'(2) h(1)] h(2) show ?thesis
    by (simp add: to_string_def enumerate_def to_internal_def)
qed

theorem handed_tags_are_stable_witness:
  "\<exists>t s. run_api (sample_env 0) (Make_tag 42) sample_run = Inr (t, s) \<and> label_set (tables (snd (make_tag 7 s))) (raw t) = {42}
     \<and> to_string t (snd (make_tag 7 s)) = to_string t s"
proof -
  let ?client = "\<lambda>_ _ _ _. Inl NullDeref"
  have rm: "room (Suc (Suc 0)) (tables sample_run)" by (simp add: sample_run_reach(4) room_def tagmap_alloc_def)
  obtain t T where t: "make_tag 42 sample_run = (from_raw t, sample_run\<lparr>tables := T\<rparr>)" "tables_ok T" "room (Suc 0) T"
    "extends (tables sample_run) T" "valid_tag T t" "label_set T t = {unat (42 :: UINT32)}"
    by (rule make_tag_ok[OF _ rm, where l = 42]) (simp_all add: sample_run_reach(4) tagmap_alloc_ok)
  let ?s = "sample_run\<lparr>tables := T\<rparr>"
  have r: "lib_reach sample_lib_env ?client (\<lambda>_. 16) {} {from_raw t, empty_tag} {42} ?s"
    using lib_reach.event[OF sample_run_reach(1)[of ?client], of "EvApi (sample_env 0) (Make_tag 42)" ?s] t(1) rm by (simp add: room_def)
  obtain t' s' where s': "make_tag 7 ?s = (t', s')" by fastforce
  then have "lib_steps sample_lib_env ?client {} {from_raw t, empty_tag} ?s {} {t', from_raw t, empty_tag} s'"
    using lib_steps.further[OF lib_steps.here, where e = "EvApi (sample_env 0) (Make_tag 7)" and L = sample_lib_env and client = ?client
      and C = "{}" and H = "{from_raw t, empty_tag}" and s = ?s] t(3)
    by simp
  from handed_tags_are_stable[where u = "()" and t = "from_raw t", OF r _ _ this] t(1,6) s' show ?thesis by simp
qed

section \<open>Skipped instructions\<close>

text \<open>
  An instruction of the application whose pc the filter skips gets no instrumentation at all, every other
  one gets what the router inserts and, in a registered range, the call of the pc sink; the filter answers
  the same afterwards.
\<close>

theorem bb_instruments_unless_skipped:
  assumes "mnt_ok (mnt s)" "is_app i" "app_pc i \<noteq> 0" "event_bb_insn D i b s = (b', s')"
  shows "b' = (if skips (mnt s) (app_pc i) then b
      else ins_inspect_dr D i b @ (if has_pc_range_sink_at (app_pc i) s then [CleanCall (Call_pc_range_sink (app_pc i))] else []))"
    and "mnt_ok (mnt s')" "skips (mnt s') = skips (mnt s)"
proof -
  obtain r m where q: "is_mnt (app_pc i) (mnt s) = (r, m)" by fastforce
  note l = mntset.query_law[OF assms(1) q]
  show "b' = (if skips (mnt s) (app_pc i) then b
      else ins_inspect_dr D i b @ (if has_pc_range_sink_at (app_pc i) s then [CleanCall (Call_pc_range_sink (app_pc i))] else []))"
    "mnt_ok (mnt s')" "skips (mnt s') = skips (mnt s)"
    using assms(2-4) l q by (auto simp: event_bb_insn_def dr_insert_clean_call_def has_pc_range_sink_at_def Let_def split: if_splits)
qed

text \<open>The body of a summarised function that was wrapped at its symbol is skipped from then on.\<close>

theorem wrapped_body_is_skipped:
  assumes "mnt_ok (mnt s)" "sym_ok info" "sym_name info \<noteq> []" "sdft_find (sym_name info) (sdft s) = Some sm"
    and "pa (sym_name info) = None" "base + start_offs info \<notin> s_wrapped s" "start_offs info < end_offs info"
    and "fresh_range (base + start_offs info) (base + end_offs info) (mnt s)"
    and "base + start_offs info \<le> pc" "pc < base + end_offs info"
  shows "fst (is_mnt pc (mnt (enum_sym_cb base pa info s)))"
proof -
  have "mnt (enum_sym_cb base pa info s) = add_rtn_range (base + start_offs info) (base + end_offs info) (mnt s)"
    using assms(2-7) by (simp add: enum_sym_cb_def Let_def)
  with mntset.added_is_skipped[OF assms(1,8-10)] show ?thesis by simp
qed

section \<open>Restarting\<close>

text \<open>
  \<^verbatim>\<open>shutdown\<close> only resets the flag that guards \<^verbatim>\<open>init\<close>. A later \<^verbatim>\<open>init\<close> empties the label table and keeps the
  shadow memory, so every tag that is left there is the id of no set.
\<close>

theorem restart_leaves_dangling_tags:
  assumes "lib_init L opts (lib_shutdown s) = Inr (r, s')" "shadow_of (tag_dir s) a \<noteq> 0"
  shows "\<not> valid_tag (tables s') (shadow_of (tag_dir s') a) \<and> \<not> engine_ok s'"
proof -
  have "tables s' = tagmap_alloc" "tag_dir s' = tag_dir s"
    using assms(1)
    by (auto simp: lib_init_def lib_shutdown_def libdft_setup_def libdft_die_def Let_def setup_core[unfolded same_core_def] split: if_splits)
  moreover from assms(2) have "\<not> valid_tag tagmap_alloc (shadow_of (tag_dir s) a)"
    by (simp add: valid_tag_def tagmap_alloc_def unat_eq_0)
  ultimately show ?thesis by (auto simp: engine_ok_def)
qed

end
