(* ===== verification/Client_Records.thy ===== *)
theory Client_Records
  imports Clients Whole_Run
begin

text \<open>
  The client \<^verbatim>\<open>vuzzer_cmp_sink\<close> against the built-in writer. Two libraries run side by side: one without
  sinks, which writes \<^verbatim>\<open>cmp.out\<close> and \<^verbatim>\<open>lea.out\<close> itself, and one whose CMP and LEA sinks are the client's
  callbacks. The interface between the library and such a client is a locale: what a callback has to do to
  its files for a record of the library. The simulation is proved in it once, through all handlers,
  system call hooks, function summaries and module events.
\<close>

named_theorems match_intros \<open>rules that relate two computations step by step\<close>

text \<open>The code of the hooks of a program that registers none, and a sequence of events.\<close>

definition no_hooks :: "'a client_hooks" where
  "no_hooks = (\<lambda>_ _ _ _. Inl NullDeref)"

fun run_events :: "lib_env \<Rightarrow> app_event list \<Rightarrow> 'a lib_state_scheme \<Rightarrow> 'a lib_state_scheme res" where
  "run_events L [] s = Inr s"
| "run_events L (e # es) s = rbind (run_event L no_hooks e s) (run_events L es)"

text \<open>Registrations that would replace one of the two writers of records.\<close>

fun registers_sink :: "app_event \<Rightarrow> bool" where
  "registers_sink (EvRegister (Reg_sink cls cb)) = (cls = CMP \<or> cls = LEA)"
| "registers_sink _ = False"

section \<open>Related results\<close>

definition rel_res :: "('a \<Rightarrow> 'b \<Rightarrow> bool) \<Rightarrow> 'a res \<Rightarrow> 'b res \<Rightarrow> bool" where
  "rel_res Q x y = (case (x, y) of (Inl e, Inl e') \<Rightarrow> e = e' | (Inr a, Inr b) \<Rightarrow> Q a b | _ \<Rightarrow> False)"

lemma rel_res_simps [simp]:
  "rel_res Q (Inl e) (Inl e') \<longleftrightarrow> e = e'" "rel_res Q (Inr a) (Inr b) \<longleftrightarrow> Q a b"
  "\<not> rel_res Q (Inl e) (Inr b)" "\<not> rel_res Q (Inr a) (Inl e)"
  by (simp_all add: rel_res_def)

lemma rel_res_bind:
  assumes "rel_res Q x y" "\<And>a b. Q a b \<Longrightarrow> rel_res R (f a) (g b)"
  shows "rel_res R (rbind x f) (rbind y g)"
  using assms by (cases x; cases y) auto

lemma rel_res_value:
  assumes "x = y" "\<And>a. x = Inr a \<Longrightarrow> rel_res R (f a) (g a)"
  shows "rel_res R (rbind x f) (rbind y g)"
  using assms by (cases y) auto

lemma rel_res_mono: "rel_res Q x y \<Longrightarrow> (\<And>a b. Q a b \<Longrightarrow> R a b) \<Longrightarrow> rel_res R x y"
  by (cases x; cases y) auto

lemma rel_res_for_loop:
  assumes "Q s t" "\<And>j a b. Q a b \<Longrightarrow> rel_res Q (f j a) (g j b)"
  shows "rel_res Q (for_loop i k f s) (for_loop i k g t)"
  using assms(1)
proof (induction k arbitrary: i s t)
  case (Suc k)
  from rel_res_bind[OF assms(2)[OF Suc.prems] Suc.IH] show ?case by simp
qed simp

lemma rel_res_for_upto:
  assumes "Q s t" "\<And>j a b. Q a b \<Longrightarrow> rel_res Q (f j a) (g j b)"
  shows "rel_res Q (for_upto n f s) (for_upto n g t)"
  unfolding for_upto_def using assms by (rule rel_res_for_loop)

section \<open>Lengths of records\<close>

lemma vec_set_length: "vec_set i x xs = Inr ys \<Longrightarrow> length ys = length xs"
  by (auto simp: vec_set_def split: if_splits)

lemma put_field_length: "put_field i v st = Inr st' \<Longrightarrow> length (snd st') = length (snd st)"
  by (auto simp: put_field_def rbind_eq_Inr_iff dest: vec_set_length)

lemma mark_length:
  "mark_once ins p st = Inr st' \<Longrightarrow> length (snd st') = length (snd st)"
  "mark_always ins p st = Inr st' \<Longrightarrow> length (snd st') = length (snd st)"
  by (auto simp: mark_once_def mark_always_def rbind_eq_Inr_iff dest: vec_set_length split: prod.splits if_splits)

lemma cmp_fields_length:
  "cmp_fields2 ins mark_once p sz dest src s = Inr st \<Longrightarrow> length (snd st) = 21"
  "cmp_fields2 ins mark_always p sz dest src s = Inr st \<Longrightarrow> length (snd st) = 21"
  "cmp_fields1 ins sz dest s = Inr st \<Longrightarrow> length (snd st) = 21"
  unfolding cmp_fields2_def cmp_fields1_def
  by (erule for_upto_partial[where P = "\<lambda>_ st. length (snd st) = 21"],
      auto simp: no_fields_def rbind_eq_Inr_iff dest!: put_field_length mark_length)+

lemma lea_fields_length: "lea_fields sz ts s = Inr fs \<Longrightarrow> length fs = 10"
  unfolding lea_fields_def
  by (erule for_upto_partial[where P = "\<lambda>_ fs. length fs = 10"]) (auto simp: rbind_eq_Inr_iff dest!: vec_set_length)

lemma val_fields_length [simp]:
  "length (val_fields sz d v fs) = length fs" "length (val_fields32 sz d v fs) = length fs"
  by (simp_all add: val_fields32_def val_fields_def)

section \<open>The contract of a client that writes records\<close>

text \<open>The effect of the built-in writer on a file: the fields \<open>ks\<close> are checked, n fields are written.\<close>

definition legacy_out :: "nat list \<Rightarrow> nat \<Rightarrow> int \<Rightarrow> string list \<Rightarrow> string option \<Rightarrow> string option" where
  "legacy_out ks n lim fs f =
     map_option (\<lambda>content. if field_limit_hit ks lim fs then content else content @ record_line n fs) f"

lemma legacy_write_out:
  "legacy_write_cmp fs s = s\<lparr>out_file := legacy_out [3..<19] 21 (limit_offset s) fs (out_file s)\<rparr>"
  "legacy_write_lea fs s = s\<lparr>out_lea_file := legacy_out [2..<10] 10 (limit_offset s) fs (out_lea_file s)\<rparr>"
  by (simp_all add: legacy_write_cmp_def legacy_write_lea_def legacy_out_def split: option.split)

lemma run_callbacks_append:
  "run_callbacks cb (es @ fs) c = rbind (run_callbacks cb es c) (run_callbacks cb fs)"
proof (induction es arbitrary: c)
  case (Cons e es)
  then show ?case by (cases "cb e c") auto
qed simp

locale record_client =
  fixes callback :: "sink_event \<Rightarrow> 'c \<Rightarrow> 'c res"
    and cmp_file lea_file :: "'c \<Rightarrow> string option"
    and limit :: "'c \<Rightarrow> int"
    and ccb lcb :: sink_cb
  assumes cmp_law: "length fs = 21 \<Longrightarrow> \<exists>c'. callback (OpcodeSink ccb CMP pc \<lparr>legacy_fields = fs, operand_tags = ts\<rparr>) c = Inr c'
      \<and> cmp_file c' = legacy_out [3..<19] 21 (limit c) fs (cmp_file c) \<and> lea_file c' = lea_file c \<and> limit c' = limit c"
    and lea_law: "length fs = 10 \<Longrightarrow> \<exists>c'. callback (OpcodeSink lcb LEA pc \<lparr>legacy_fields = fs, operand_tags = ts\<rparr>) c = Inr c'
      \<and> cmp_file c' = cmp_file c \<and> lea_file c' = legacy_out [2..<10] 10 (limit c) fs (lea_file c) \<and> limit c' = limit c"
    and other_law: "callback (PcRangeSink cb pc) c = Inr c" "callback (FuncSink cb pc) c = Inr c"
begin

text \<open>
  The relation: \<open>s\<close> is the library with the client, \<open>t\<close> the one without; the client that started as \<open>c0\<close> has
  the files of \<open>t\<close> after its callbacks for the log of \<open>s\<close>. The extensions of the two engines are \<open>m\<close> and \<open>m'\<close>.
\<close>

definition served :: "'c \<Rightarrow> 'a engine_scheme \<Rightarrow> 'b engine_scheme \<Rightarrow> bool" where
  "served c0 s t \<longleftrightarrow> (\<exists>c. run_callbacks callback (sink_log s) c0 = Inr c
     \<and> cmp_file c = out_file t \<and> lea_file c = out_lea_file t \<and> limit c = limit_offset t)"

definition eng :: "'c \<Rightarrow> 'a \<Rightarrow> 'b \<Rightarrow> 'a engine_scheme \<Rightarrow> 'b engine_scheme \<Rightarrow> bool" where
  "eng c0 m m' s t \<longleftrightarrow> tables t = tables s \<and> tag_dir t = tag_dir s \<and> tls_idx t = tls_idx s \<and> threads t = threads s
     \<and> limit_offset t = limit_offset s \<and> g_pc_ranges t = g_pc_ranges s
     \<and> g_pending_func_sinks t = g_pending_func_sinks s
     \<and> g_opcode_sinks s CMP = [ccb] \<and> g_opcode_sinks s LEA = [lcb] \<and> g_opcode_sinks t CMP = [] \<and> g_opcode_sinks t LEA = []
     \<and> engine.more s = m \<and> engine.more t = m' \<and> served c0 s t"

lemma served_step:
  assumes "served c0 s t" "sink_log s' = sink_log s @ es"
    and "\<And>c. cmp_file c = out_file t \<Longrightarrow> lea_file c = out_lea_file t \<Longrightarrow> limit c = limit_offset t \<Longrightarrow>
      \<exists>c'. run_callbacks callback es c = Inr c' \<and> cmp_file c' = out_file t' \<and> lea_file c' = out_lea_file t' \<and> limit c' = limit_offset t'"
  shows "served c0 s' t'"
  using assms unfolding served_def by (auto simp: run_callbacks_append)

lemma eng_emit_cmp:
  assumes "eng c0 m m' s t" "length fs = 21"
  shows "eng c0 m m' (emit_cmp fs ins d r s) (emit_cmp fs ins d r t)"
proof -
  let ?e = "OpcodeSink ccb CMP ins \<lparr>legacy_fields = fs, operand_tags = d @ r\<rparr>"
  define s' where "s' = s\<lparr>sink_log := sink_log s @ [?e]\<rparr>"
  define t' where "t' = t\<lparr>out_file := legacy_out [3..<19] 21 (limit_offset t) fs (out_file t)\<rparr>"
  have eq: "emit_cmp fs ins d r s = s'" "emit_cmp fs ins d r t = t'"
    using assms(1) by (simp_all add: eng_def emit_cmp_def has_sink_def dispatch_sink_def legacy_write_out s'_def t'_def)
  have "served c0 s' t'"
  proof (rule served_step)
    show "served c0 s t" using assms(1) by (simp add: eng_def)
    show "sink_log s' = sink_log s @ [?e]" by (simp add: s'_def)
    fix c assume "cmp_file c = out_file t" "lea_file c = out_lea_file t" "limit c = limit_offset t"
    moreover obtain c' where "callback ?e c = Inr c'" "cmp_file c' = legacy_out [3..<19] 21 (limit c) fs (cmp_file c)"
      "lea_file c' = lea_file c" "limit c' = limit c" using cmp_law[OF assms(2)] by blast
    ultimately show "\<exists>c'. run_callbacks callback [?e] c = Inr c' \<and> cmp_file c' = out_file t' \<and> lea_file c' = out_lea_file t' \<and> limit c' = limit_offset t'"
      by (simp add: t'_def)
  qed
  with assms(1) show ?thesis unfolding eq by (simp add: eng_def s'_def t'_def)
qed

lemma eng_emit_lea:
  assumes "eng c0 m m' s t" "length fs = 10"
  shows "eng c0 m m' (emit_lea fs ins d s) (emit_lea fs ins d t)"
proof -
  let ?e = "OpcodeSink lcb LEA ins \<lparr>legacy_fields = fs, operand_tags = d\<rparr>"
  define s' where "s' = s\<lparr>sink_log := sink_log s @ [?e]\<rparr>"
  define t' where "t' = t\<lparr>out_lea_file := legacy_out [2..<10] 10 (limit_offset t) fs (out_lea_file t)\<rparr>"
  have eq: "emit_lea fs ins d s = s'" "emit_lea fs ins d t = t'"
    using assms(1) by (simp_all add: eng_def emit_lea_def has_sink_def dispatch_sink_def legacy_write_out s'_def t'_def)
  have "served c0 s' t'"
  proof (rule served_step)
    show "served c0 s t" using assms(1) by (simp add: eng_def)
    show "sink_log s' = sink_log s @ [?e]" by (simp add: s'_def)
    fix c assume "cmp_file c = out_file t" "lea_file c = out_lea_file t" "limit c = limit_offset t"
    moreover obtain c' where "callback ?e c = Inr c'" "lea_file c' = legacy_out [2..<10] 10 (limit c) fs (lea_file c)"
      "cmp_file c' = cmp_file c" "limit c' = limit c" using lea_law[OF assms(2)] by blast
    ultimately show "\<exists>c'. run_callbacks callback [?e] c = Inr c' \<and> cmp_file c' = out_file t' \<and> lea_file c' = out_lea_file t' \<and> limit c' = limit_offset t'"
      by (simp add: t'_def)
  qed
  with assms(1) show ?thesis unfolding eq by (simp add: eng_def s'_def t'_def)
qed

lemma callbacks_others:
  "run_callbacks callback (map (\<lambda>e. PcRangeSink (f e) pc) es) c = Inr c"
  "run_callbacks callback (map (\<lambda>e. FuncSink (g e) pc) fs) c = Inr c"
proof -
  show "run_callbacks callback (map (\<lambda>e. PcRangeSink (f e) pc) es) c = Inr c" by (induction es) (simp_all add: other_law)
  show "run_callbacks callback (map (\<lambda>e. FuncSink (g e) pc) fs) c = Inr c" by (induction fs) (simp_all add: other_law)
qed

lemma eng_other_sinks:
  assumes "eng c0 m m' s t"
  shows "eng c0 m m' (dispatch_pc_range_sink pc s) (dispatch_pc_range_sink pc t)" "eng c0 m m' (func_sink_pre pc s) (func_sink_pre pc t)"
proof -
  have "served c0 s t" using assms by (simp add: eng_def)
  then have "served c0 (dispatch_pc_range_sink pc s) (dispatch_pc_range_sink pc t)" "served c0 (func_sink_pre pc s) (func_sink_pre pc t)"
    by (auto simp: served_def dispatch_pc_range_sink_def func_sink_pre_def run_callbacks_append callbacks_others)
  with assms show "eng c0 m m' (dispatch_pc_range_sink pc s) (dispatch_pc_range_sink pc t)" "eng c0 m m' (func_sink_pre pc s) (func_sink_pre pc t)"
    by (auto simp: eng_def dispatch_pc_range_sink_def func_sink_pre_def)
qed

text \<open>Updates that the sinks cannot see.\<close>

lemma eng_updates:
  assumes "eng c0 m m' s t"
  shows "eng c0 m m' (s\<lparr>tables := T\<rparr>) (t\<lparr>tables := T\<rparr>)" "eng c0 m m' (s\<lparr>tag_dir := D\<rparr>) (t\<lparr>tag_dir := D\<rparr>)"
    "eng c0 m m' (s\<lparr>threads := H\<rparr>) (t\<lparr>threads := H\<rparr>)"
  using assms by (auto simp: eng_def served_def)

lemma eng_reads:
  assumes "eng c0 m m' s t"
  shows "tables t = tables s" "tag_dir t = tag_dir s" "threads t = threads s" "limit_offset t = limit_offset s"
    "libdft_get_thread_ctx dc t = libdft_get_thread_ctx dc s" "gpr_rd dc r b t = gpr_rd dc r b s" "mem_rd a t = mem_rd a s"
    "fill_reg_tags dc r b n t = fill_reg_tags dc r b n s" "fill_mem_tags a n t = fill_mem_tags a n s"
proof -
  show l: "libdft_get_thread_ctx dc t = libdft_get_thread_ctx dc s" for dc
    using assms by (simp add: eng_def libdft_get_thread_ctx_def)
  show g: "gpr_rd dc r b t = gpr_rd dc r b s" for dc r b by (simp add: gpr_rd_def l)
  show m: "mem_rd a t = mem_rd a s" for a using assms by (simp add: eng_def mem_rd_def)
  show "fill_reg_tags dc r b n t = fill_reg_tags dc r b n s" "fill_mem_tags a n t = fill_mem_tags a n s"
    by (simp_all add: fill_reg_tags_def fill_mem_tags_def g m)
qed (use assms in \<open>simp_all add: eng_def\<close>)

section \<open>The handlers\<close>

lemma rel_gpr_rd [match_intros]:
  "eng c0 m m' s t \<Longrightarrow> (\<And>x. rel_res Q (f x) (g x)) \<Longrightarrow> rel_res Q (rbind (gpr_rd dc r b s) f) (rbind (gpr_rd dc r b t) g)"
  by (rule rel_res_value) (simp_all add: eng_reads)

lemma rel_mem_rd [match_intros]:
  "eng c0 m m' s t \<Longrightarrow> (\<And>x. rel_res Q (f x) (g x)) \<Longrightarrow> rel_res Q (rbind (mem_rd a s) f) (rbind (mem_rd a t) g)"
  by (rule rel_res_value) (simp_all add: eng_reads)

lemma rel_fill [match_intros]:
  "eng c0 m m' s t \<Longrightarrow> (\<And>x. rel_res Q (f x) (g x)) \<Longrightarrow>
     rel_res Q (rbind (fill_reg_tags dc r b n s) f) (rbind (fill_reg_tags dc r b n t) g)"
  "eng c0 m m' s t \<Longrightarrow> (\<And>x. rel_res Q (f x) (g x)) \<Longrightarrow>
     rel_res Q (rbind (fill_mem_tags a n s) f) (rbind (fill_mem_tags a n t) g)"
  "eng c0 m m' s t \<Longrightarrow> (\<And>x. rel_res Q (f x) (g x)) \<Longrightarrow>
     rel_res Q (rbind (fill_tags n (\<lambda>i. gpr_rd dc r (b + i) s)) f) (rbind (fill_tags n (\<lambda>i. gpr_rd dc r (b + i) t)) g)"
  "eng c0 m m' s t \<Longrightarrow> (\<And>x. rel_res Q (f x) (g x)) \<Longrightarrow>
     rel_res Q (rbind (fill_tags n (\<lambda>i. mem_rd (a + of_nat i) s)) f) (rbind (fill_tags n (\<lambda>i. mem_rd (a + of_nat i) t)) g)"
  by (rule rel_res_value; simp add: eng_reads)+

lemma rel_fields [match_intros]:
  "eng c0 m m' s t \<Longrightarrow> (\<And>x. length (snd x) = 21 \<Longrightarrow> rel_res Q (f x) (g x)) \<Longrightarrow>
     rel_res Q (rbind (cmp_fields1 ins n d s) f) (rbind (cmp_fields1 ins n d t) g)"
  "eng c0 m m' s t \<Longrightarrow> (\<And>x. length (snd x) = 21 \<Longrightarrow> rel_res Q (f x) (g x)) \<Longrightarrow>
     rel_res Q (rbind (cmp_fields2 ins mark_once p n d r s) f) (rbind (cmp_fields2 ins mark_once p n d r t) g)"
  "eng c0 m m' s t \<Longrightarrow> (\<And>x. length (snd x) = 21 \<Longrightarrow> rel_res Q (f x) (g x)) \<Longrightarrow>
     rel_res Q (rbind (cmp_fields2 ins mark_always p n d r s) f) (rbind (cmp_fields2 ins mark_always p n d r t) g)"
  "eng c0 m m' s t \<Longrightarrow> (\<And>fs. length fs = 10 \<Longrightarrow> rel_res Q (h fs) (k fs)) \<Longrightarrow>
     rel_res Q (rbind (lea_fields n d s) h) (rbind (lea_fields n d t) k)"
  by (rule rel_res_value; simp add: eng_reads cmp_fields_length lea_fields_length cmp_fields1_def cmp_fields2_def lea_fields_def; fail)+

lemma eng_mem_wr [match_intros]: "eng c0 m m' s t \<Longrightarrow> eng c0 m m' (mem_wr a x s) (mem_wr a x t)"
  using eng_updates(2)[of c0 m m' s t] by (simp add: mem_wr_def eng_reads)

lemma rel_mem_wr [match_intros]: "eng c0 m m' s t \<Longrightarrow> rel_res (eng c0 m m') (Inr (mem_wr a x s)) (Inr (mem_wr a x t))"
  by (simp add: eng_mem_wr)

lemma rel_clrn [match_intros]:
  assumes "eng c0 m m' s t"
  shows "rel_res (eng c0 m m') (Inr (s\<lparr>tag_dir := file_tagmap_clrn a k (tag_dir s)\<rparr>)) (Inr (t\<lparr>tag_dir := file_tagmap_clrn a k (tag_dir t)\<rparr>))"
  using eng_updates(2)[OF assms] by (simp add: eng_reads(2)[OF assms])

lemma rel_if [match_intros]: "(b \<Longrightarrow> rel_res Q x y) \<Longrightarrow> (\<not> b \<Longrightarrow> rel_res Q x' y') \<Longrightarrow> rel_res Q (if b then x else x') (if b then y else y')"
  by simp

lemma rel_Inr [match_intros]: "eng c0 m m' s t \<Longrightarrow> rel_res (eng c0 m m') (Inr s) (Inr t)"
  by simp

lemma rel_gpr_wr [match_intros]:
  assumes "eng c0 m m' s t"
  shows "rel_res (eng c0 m m') (gpr_wr dc r b x s) (gpr_wr dc r b x t)"
  using eng_updates(3)[OF assms] by (auto simp: gpr_wr_def eng_reads[OF assms] split: option.splits)

lemma rel_combine [match_intros]:
  assumes "eng c0 m m' s t" "\<And>u s t. eng c0 m m' s t \<Longrightarrow> rel_res Q (f u s) (g u t)"
  shows "rel_res Q (rbind (combine_tags a b s) (\<lambda>(u, s). f u s)) (rbind (combine_tags a b t) (\<lambda>(u, s). g u s))"
  using assms eng_updates(1)[OF assms(1)]
  by (cases "tag_combine a b (tables s)") (auto simp: combine_tags_def eng_reads[OF assms(1)] split: prod.splits)

lemma rel_seq [match_intros]:
  "rel_res (eng c0 m m') x y \<Longrightarrow> (\<And>s t. eng c0 m m' s t \<Longrightarrow> rel_res Q (f s) (g t)) \<Longrightarrow> rel_res Q (rbind x f) (rbind y g)"
  by (rule rel_res_bind)

lemma rel_loops [match_intros]:
  "eng c0 m m' s t \<Longrightarrow> (\<And>i s t. eng c0 m m' s t \<Longrightarrow> rel_res (eng c0 m m') (f i s) (g i t)) \<Longrightarrow>
     rel_res (eng c0 m m') (for_upto n f s) (for_upto n g t)"
  "eng c0 m m' s t \<Longrightarrow> (\<And>i s t. eng c0 m m' s t \<Longrightarrow> rel_res (eng c0 m m') (f i s) (g i t)) \<Longrightarrow>
     rel_res (eng c0 m m') (for_loop j n f s) (for_loop j n g t)"
  by (rule rel_res_for_upto rel_res_for_loop; assumption)+

lemma rel_with_tc [match_intros]:
  assumes "eng c0 m m' s t" "\<And>dc. rel_res (eng c0 m m') (f dc s) (g dc t)"
  shows "rel_res (eng c0 m m') (with_tc E f s) (with_tc E g t)"
  using assms by (auto simp: with_tc_def eng_reads[OF assms(1)] split: option.splits)

lemma rel_combine_into [match_intros]:
  "eng c0 m m' s t \<Longrightarrow> rel_res (eng c0 m m') (combine_into dc r b x s) (combine_into dc r b x t)"
  unfolding combine_into_def by (assumption | rule match_intros)+

lemma rel_moves:
  assumes "eng c0 m m' s t"
  shows "rel_res (eng c0 m m') (r2r_xfer E dr ds sr ss n s) (r2r_xfer E dr ds sr ss n t)"
    "rel_res (eng c0 m m') (r_clr E dr ds n s) (r_clr E dr ds n t)"
    "rel_res (eng c0 m m') (mov_m2r E dr ds a n s) (mov_m2r E dr ds a n t)"
    "rel_res (eng c0 m m') (mov_r2m E a dr ds n s) (mov_r2m E a dr ds n t)"
    "rel_res (eng c0 m m') (m2m_xfer b a n s) (m2m_xfer b a n t)"
    "rel_res (eng c0 m m') (mov_clr_mem a k s) (mov_clr_mem a k t)"
    "rel_res (eng c0 m m') (xchg_r2r E dr ds sr ss n s) (xchg_r2r E dr ds sr ss n t)"
    "rel_res (eng c0 m m') (xchg_m2r E a dr ds n s) (xchg_m2r E a dr ds n t)"
    "rel_res (eng c0 m m') (cmov_r2r E p dr ds sr ss n s) (cmov_r2r E p dr ds sr ss n t)"
    "rel_res (eng c0 m m') (cmov_m2r E p dr ds a n s) (cmov_m2r E p dr ds a n t)"
    "rel_res (eng c0 m m') (movbe_m2r E dr ds a n s) (movbe_m2r E dr ds a n t)"
    "rel_res (eng c0 m m') (movbe_r2m E a dr ds n s) (movbe_r2m E a dr ds n t)"
    "rel_res (eng c0 m m') (bswap_reg E dr ds n s) (bswap_reg E dr ds n t)"
  unfolding r2r_xfer_def r_clr_def mov_m2r_def mov_r2m_def m2m_xfer_def mov_clr_mem_def xchg_r2r_def xchg_m2r_def
      cmov_r2r_def cmov_m2r_def movbe_m2r_def movbe_r2m_def bswap_reg_def
  by (rule assms | assumption | rule match_intros)+

lemma rel_vec_get [match_intros]:
  "(\<And>x. rel_res Q (f x) (g x)) \<Longrightarrow> rel_res Q (rbind (vec_get i xs) f) (rbind (vec_get i xs) g)"
  by (rule rel_res_value) simp_all

lemma rel_ternary [match_intros]:
  assumes "eng c0 m m' s t"
  shows "rel_res (eng c0 m m') (ternary_combine dc xs n s) (ternary_combine dc xs n t)"
  unfolding ternary_combine_def by (rule assms | assumption | rule match_intros)+

lemma rel_arith:
  assumes "eng c0 m m' s t"
  shows "rel_res (eng c0 m m') (ternary_r2r E sr ss n s) (ternary_r2r E sr ss n t)"
    "rel_res (eng c0 m m') (ternary_m2r E a n s) (ternary_m2r E a n t)"
    "rel_res (eng c0 m m') (binary_r2r E dr ds sr ss n s) (binary_r2r E dr ds sr ss n t)"
    "rel_res (eng c0 m m') (binary_m2r E dr ds a n s) (binary_m2r E dr ds a n t)"
    "rel_res (eng c0 m m') (binary_r2m E a sr ss n s) (binary_r2m E a sr ss n t)"
    "rel_res (eng c0 m m') (movzx_r2r E dr sr ss k n s) (movzx_r2r E dr sr ss k n t)"
    "rel_res (eng c0 m m') (movzx_m2r E dr a k n s) (movzx_m2r E dr a k n t)"
    "rel_res (eng c0 m m') (movsx_r2r E dr sr ss k n s) (movsx_r2r E dr sr ss k n t)"
    "rel_res (eng c0 m m') (movsx_m2r E dr a k n s) (movsx_m2r E dr a k n t)"
    "rel_res (eng c0 m m') (cmpxchg_mem E a sr ss ar as n s) (cmpxchg_mem E a sr ss ar as n t)"
    "rel_res (eng c0 m m') (cmpxchg_reg E dr ds sr ss ar as n s) (cmpxchg_reg E dr ds sr ss ar as n t)"
    "rel_res (eng c0 m m') (xadd_r2r E dr ds sr ss n s) (xadd_r2r E dr ds sr ss n t)"
    "rel_res (eng c0 m m') (xadd_m2r E a sr ss n s) (xadd_m2r E a sr ss n t)"
  unfolding ternary_r2r_def ternary_m2r_def binary_r2r_def binary_m2r_def binary_r2m_def movzx_r2r_def movzx_m2r_def
    movsx_r2r_def movsx_m2r_def cmpxchg_mem_def cmpxchg_reg_def xadd_r2r_def xadd_m2r_def
  by (rule assms | assumption | rule match_intros)+

text \<open>Loops that carry a tag along with the state.\<close>

definition tag_eng :: "'c \<Rightarrow> 'a \<Rightarrow> 'b \<Rightarrow> 't \<times> 'a engine_scheme \<Rightarrow> 't \<times> 'b engine_scheme \<Rightarrow> bool" where
  "tag_eng c0 m m' x y \<longleftrightarrow> fst x = fst y \<and> eng c0 m m' (snd x) (snd y)"

lemma tag_eng_pair [match_intros]: "eng c0 m m' s t \<Longrightarrow> tag_eng c0 m m' (u, s) (u, t)"
  by (simp add: tag_eng_def)

lemma rel_tag_seq [match_intros]:
  assumes "rel_res (tag_eng c0 m m') x y" "\<And>u s t. eng c0 m m' s t \<Longrightarrow> rel_res Q (f u s) (g u t)"
  shows "rel_res Q (rbind x (\<lambda>(u, s). f u s)) (rbind y (\<lambda>(u, s). g u s))"
  using assms(1) by (rule rel_res_bind) (use assms(2) in \<open>auto simp: tag_eng_def\<close>)

lemma rel_tag_combine [match_intros]:
  assumes "eng c0 m m' s t"
  shows "rel_res (tag_eng c0 m m') (combine_tags a b s) (combine_tags a b t)"
  using eng_updates(1)[OF assms]
  by (cases "tag_combine a b (tables s)") (auto simp: combine_tags_def eng_reads[OF assms] tag_eng_def)

lemma rel_tag_case [match_intros]:
  assumes "tag_eng c0 m m' x y" "\<And>u s t. eng c0 m m' s t \<Longrightarrow> rel_res Q (f u s) (g u t)"
  shows "rel_res Q (case x of (u, s) \<Rightarrow> f u s) (case y of (u, s) \<Rightarrow> g u s)"
  using assms by (auto simp: tag_eng_def split: prod.splits)

lemma rel_tag_loops [match_intros]:
  "tag_eng c0 m m' x y \<Longrightarrow> (\<And>i x y. tag_eng c0 m m' x y \<Longrightarrow> rel_res (tag_eng c0 m m') (f i x) (g i y)) \<Longrightarrow>
     rel_res (tag_eng c0 m m') (for_loop j n f x) (for_loop j n g y)"
  "tag_eng c0 m m' x y \<Longrightarrow> (\<And>i x y. tag_eng c0 m m' x y \<Longrightarrow> rel_res (tag_eng c0 m m') (f i x) (g i y)) \<Longrightarrow>
     rel_res (tag_eng c0 m m') (for_upto n f x) (for_upto n g y)"
  by (rule rel_res_for_upto rel_res_for_loop; assumption)+

lemma rel_union_loop [match_intros]:
  assumes "tag_eng c0 m m' x y"
  shows "rel_res (tag_eng c0 m m') (union_loop i k (\<lambda>j. gpr_rd dc r (b + j)) x) (union_loop i k (\<lambda>j. gpr_rd dc r (b + j)) y)"
    "rel_res (tag_eng c0 m m') (union_loop i k (\<lambda>j. mem_rd (a + of_nat j)) x) (union_loop i k (\<lambda>j. mem_rd (a + of_nat j)) y)"
  unfolding union_loop_def by (rule assms | assumption | rule match_intros)+

lemma rel_tag_bind [match_intros]:
  "rel_res (tag_eng c0 m m') x y \<Longrightarrow> (\<And>a b. tag_eng c0 m m' a b \<Longrightarrow> rel_res Q (f a) (g b)) \<Longrightarrow> rel_res Q (rbind x f) (rbind y g)"
  by (rule rel_res_bind)

lemma rel_shifts:
  assumes "eng c0 m m' s t"
  shows "rel_res (eng c0 m m') (shift_r E dr ds n s) (shift_r E dr ds n t)"
    "rel_res (eng c0 m m') (shift_m a n s) (shift_m a n t)"
    "rel_res (eng c0 m m') (shld_r2r E dr ds sr ss n s) (shld_r2r E dr ds sr ss n t)"
  unfolding shift_r_def shift_m_def shld_r2r_def by (rule assms | assumption | rule match_intros)+

lemma rel_emit [match_intros]:
  assumes "eng c0 m m' s t"
  shows "length fs = 21 \<Longrightarrow> rel_res (eng c0 m m') (Inr (emit_cmp fs ins d r s)) (Inr (emit_cmp fs ins d r t))"
  using eng_emit_cmp[OF assms] by simp

lemma rel_emit_lea [match_intros]:
  "eng c0 m m' s t \<Longrightarrow> length fs = 10 \<Longrightarrow> eng c0 m m' (if p then emit_lea fs ins d s else s) (if p then emit_lea fs ins d t else t)"
  by (simp add: eng_emit_lea)

lemma rel_pair_case [match_intros]:
  "(\<And>a b. x = (a, b) \<Longrightarrow> rel_res Q (f a b) (g a b)) \<Longrightarrow> rel_res Q (case x of (a, b) \<Rightarrow> f a b) (case x of (a, b) \<Rightarrow> g a b)"
  by (cases x) simp

lemma rel_let [match_intros]:
  "rel_res Q (f v) (g v) \<Longrightarrow> rel_res Q (let x = v in f x) (let x = v in g x)"
  by simp

lemma rel_records:
  assumes "eng c0 m m' s t"
  shows "rel_res (eng c0 m m') (lea_prop E ins dr br bs ir is n s) (lea_prop E ins dr br bs ir is n t)"
    "rel_res (eng c0 m m') (cmp_r2r E ins dr ds dv sr ss sv n s) (cmp_r2r E ins dr ds dv sr ss sv n t)"
    "rel_res (eng c0 m m') (cmp_m2r E ins dr ds dv a n s) (cmp_m2r E ins dr ds dv a n t)"
    "rel_res (eng c0 m m') (cmp_i2r E ins dr ds dv imm n s) (cmp_i2r E ins dr ds dv imm n t)"
    "rel_res (eng c0 m m') (cmp_r2m E ins a sr ss sv n s) (cmp_r2m E ins a sr ss sv n t)"
    "rel_res (eng c0 m m') (cmp_i2m E ins a imm n s) (cmp_i2m E ins a imm n t)"
    "rel_res (eng c0 m m') (cmp_m2m E ins a b n s) (cmp_m2m E ins a b n t)"
  unfolding lea_prop_def cmp_r2r_def cmp_m2r_def cmp_i2r_def cmp_r2m_def cmp_i2m_def cmp_m2m_def eng_reads(1,4)[OF assms]
  by (rule assms | assumption | rule match_intros | (simp; fail))+

lemma rel_run_call: "eng c0 m m' s t \<Longrightarrow> rel_res (eng c0 m m') (run_call E c s) (run_call E c t)"
  by (cases c) (simp_all only: run_call.simps rel_moves rel_arith rel_shifts rel_records eng_other_sinks rel_res_simps)

lemma rel_run_trace: "eng c0 m m' s t \<Longrightarrow> rel_res (eng c0 m m') (run_trace tr s) (run_trace tr t)"
proof (induction tr arbitrary: s t)
  case (Cons x tr)
  obtain E c where x: "x = (E, c)" by (cases x)
  show ?case unfolding x run_trace.simps by (rule rel_seq[OF rel_run_call[OF Cons.prems] Cons.IH])
qed simp

section \<open>System calls\<close>

text \<open>The globals of the source layer agree too, but for \<open>flag\<close>, which nothing reads.\<close>

definition sysr :: "'c \<Rightarrow> 'a \<Rightarrow> 'b \<Rightarrow> 'a sys_state_scheme \<Rightarrow> 'b sys_state_scheme \<Rightarrow> bool" where
  "sysr c0 n n' s t \<longleftrightarrow> eng c0 (engine.more s) (engine.more t) s t \<and> fdset t = fdset s \<and> filename t = filename s
     \<and> mmap_type t = mmap_type s \<and> g_src_events t = g_src_events s \<and> g_src_bytes t = g_src_bytes s
     \<and> syscall_desc t = syscall_desc s \<and> os_log t = os_log s \<and> sys_state.more s = n \<and> sys_state.more t = n'"

lemma same_more:
  fixes s s' :: "'x sys_state_scheme"
  assumes "engine.more s' = engine.more s"
  shows "fdset s' = fdset s" "filename s' = filename s" "mmap_type s' = mmap_type s" "g_src_events s' = g_src_events s"
    "g_src_bytes s' = g_src_bytes s" "syscall_desc s' = syscall_desc s" "os_log s' = os_log s" "flag s' = flag s"
    "sys_state.more s' = sys_state.more s"
  using assms by (cases s; cases s'; simp)+

lemma sysr_eng: "sysr c0 n n' s t \<Longrightarrow> eng c0 (engine.more s) (engine.more t) s t"
  by (simp add: sysr_def)

lemma sysr_lift:
  assumes "sysr c0 n n' s t" "eng c0 (engine.more s) (engine.more t) s' t'"
  shows "sysr c0 n n' s' t'"
proof -
  have "engine.more s' = engine.more s" "engine.more t' = engine.more t" using assms(2) by (simp_all add: eng_def)
  with same_more[OF this(1)] same_more[OF this(2)] assms show ?thesis by (simp add: sysr_def)
qed

lemma sysr_lift_res:
  assumes "sysr c0 n n' s t" "rel_res (eng c0 (engine.more s) (engine.more t)) x y"
  shows "rel_res (sysr c0 n n') x y"
  using assms(2) by (rule rel_res_mono) (rule sysr_lift[OF assms(1)])

lemma rel_paint_loop:
  "eng c0 m m' s t \<Longrightarrow> rel_res (eng c0 m m') (paint_loop a off k s) (paint_loop a off k t)"
  unfolding paint_loop_def
proof (rule rel_loops(1), assumption)
  fix i s t assume st: "eng c0 m m' s t"
  obtain u T where u: "dft_label_set (ucast (off + of_nat i)) (tables s) = (u, T)" by fastforce
  show "rel_res (eng c0 m m') (paint_byte (a + of_nat i) (off + of_nat i) s) (paint_byte (a + of_nat i) (off + of_nat i) t)"
    using eng_updates(1)[OF st, of T] by (simp add: paint_byte_def rel_mem_rd[OF st] eng_reads(1)[OF st] u eng_mem_wr)
qed

lemma rel_clear_loop:
  "eng c0 m m' s t \<Longrightarrow> rel_res (eng c0 m m') (clear_loop a k s) (clear_loop a k t)"
  unfolding clear_loop_def
proof (rule rel_loops(1), assumption)
  fix i s t assume st: "eng c0 m m' s t"
  show "rel_res (eng c0 m m') (Inr (clear_byte (a + of_nat i) s)) (Inr (clear_byte (a + of_nat i) t))"
    using eng_updates(2)[OF st] by (simp add: clear_byte_def eng_reads(2)[OF st])
qed

lemma sysr_updates:
  assumes "sysr c0 n n' s t"
  shows "sysr c0 n n' (s\<lparr>fdset := F\<rparr>) (t\<lparr>fdset := F\<rparr>)" "sysr c0 n n' (s\<lparr>flag := k\<rparr>) (t\<lparr>flag := k'\<rparr>)"
    "sysr c0 n n' (s\<lparr>os_log := l\<rparr>) (t\<lparr>os_log := l\<rparr>)" "sysr c0 n n' (count_source w s) (count_source w t)"
    "fdset t = fdset s" "filename t = filename s" "mmap_type t = mmap_type s" "syscall_desc t = syscall_desc s"
    "os_log t = os_log s" "threads t = threads s"
  using assms by (simp_all add: sysr_def eng_def served_def count_source_def) auto

text \<open>A hook returns the context that it may have changed and the state.\<close>

definition ctx_sysr :: "'c \<Rightarrow> 'a \<Rightarrow> 'b \<Rightarrow> 'v \<times> 'a sys_state_scheme \<Rightarrow> 'v \<times> 'b sys_state_scheme \<Rightarrow> bool" where
  "ctx_sysr c0 n n' x y \<longleftrightarrow> fst x = fst y \<and> sysr c0 n n' (snd x) (snd y)"

lemma ctx_sysr_pair [simp]: "ctx_sysr c0 n n' (v, s) (v', t) \<longleftrightarrow> v = v' \<and> sysr c0 n n' s t"
  by (simp add: ctx_sysr_def)

lemma rel_ctx_pair:
  "rel_res (sysr c0 n n') x y \<Longrightarrow> rel_res (ctx_sysr c0 n n') (rbind x (\<lambda>s. Inr (v, s))) (rbind y (\<lambda>s. Inr (v, s)))"
  by (erule rel_res_bind) simp

lemma sysr_loops:
  assumes "sysr c0 n n' s t"
  shows "rel_res (sysr c0 n n') (paint_loop a off k s) (paint_loop a off k t)"
    "rel_res (sysr c0 n n') (clear_loop a k s) (clear_loop a k t)"
  by (rule sysr_lift_res[OF assms rel_paint_loop[OF sysr_eng[OF assms]]]) (rule sysr_lift_res[OF assms rel_clear_loop[OF sysr_eng[OF assms]]])

lemma rel_read_hooks:
  assumes "sysr c0 n n' s t"
  shows "rel_res (sysr c0 n n') (post_read_hook K ctx s) (post_read_hook K ctx t)"
    "rel_res (sysr c0 n n') (post_pread64_hook ctx s) (post_pread64_hook ctx t)"
    "rel_res (sysr c0 n n') (post_munmap_hook ctx s) (post_munmap_hook ctx t)"
  using assms sysr_loops[OF assms] sysr_loops(1)[OF sysr_updates(4)[OF assms]]
  by (simp_all add: post_read_hook_def post_pread64_hook_def post_munmap_hook_def sysr_updates(5)[OF assms] Let_def)

lemma rel_mmap_hook:
  assumes "sysr c0 n n' s t"
  shows "rel_res (ctx_sysr c0 n n') (post_mmap_hook K ctx s) (post_mmap_hook K ctx t)"
proof -
  note u = sysr_updates[OF assms]
  have v: "rel_res (sysr c0 n n') (paint_loop a off k (count_source w (s\<lparr>os_log := l\<rparr>))) (paint_loop a off k (count_source w (t\<lparr>os_log := l\<rparr>)))" for a off k w l
    by (rule sysr_loops(1)[OF sysr_updates(4)[OF u(3)]])
  have w: "rel_res (ctx_sysr c0 n n') (rbind (mmap_offset K fd buf fo) f) (rbind (mmap_offset K fd buf fo) g)"
    if "\<And>x. rel_res (ctx_sysr c0 n n') (f x) (g x)" for fd buf fo f g
    by (rule rel_res_value[OF refl]) (rule that)
  show ?thesis
    using assms sysr_loops(2)[OF assms] sysr_loops(1)[OF u(4)] v
    by (simp add: post_mmap_hook_def u(5,7,9) Let_def rel_ctx_pair w)
qed

lemma rel_fd_hooks:
  assumes "sysr c0 n n' s t"
  shows "sysr c0 n n' (post_open_hook K ctx s) (post_open_hook K ctx t)" "sysr c0 n n' (post_dup_hook ctx s) (post_dup_hook ctx t)"
    "sysr c0 n n' (post_dup2_hook ctx s) (post_dup2_hook ctx t)" "sysr c0 n n' (post_dup3_hook ctx s) (post_dup3_hook ctx t)"
    "sysr c0 n n' (post_close_hook ctx s) (post_close_hook ctx t)"
  using assms sysr_updates(1)[OF assms] sysr_updates(2)[OF sysr_updates(1)[OF assms]]
  by (simp_all add: post_open_hook_def post_dup_hook_def post_dup2_hook_def post_dup3_hook_def post_close_hook_def
      in_dtracker_whitelist_def sysr_updates(5,6)[OF assms] Let_def)

text \<open>Neither program registers hooks of its own.\<close>

lemma rel_call_hook:
  assumes "sysr c0 n n' s t"
  shows "rel_res (ctx_sysr c0 n n') (call_hook no_hooks h K ctx s) (call_hook no_hooks h K ctx t)"
  by (cases h) (simp_all add: no_hooks_def rel_ctx_pair rel_read_hooks[OF assms] rel_mmap_hook[OF assms] rel_fd_hooks[OF assms] post_openat_hook_def)

lemma sysr_set_ctx: "sysr c0 n n' s t \<Longrightarrow> sysr c0 n n' (set_syscall_ctx dc ctx s) (set_syscall_ctx dc ctx t)"
  by (rule sysr_lift, assumption)
     (simp add: set_syscall_ctx_def sysr_updates(10) eng_updates(3)[OF sysr_eng])

lemma rel_pre_syscall:
  assumes "sysr c0 n n' s t"
  shows "rel_res (ctx_sysr c0 n n') (event_pre_syscall no_hooks K dc k s) (event_pre_syscall no_hooks K dc k t)"
proof -
  have hook: "rel_res (ctx_sysr c0 n n') (rbind (call_hook no_hooks h K ctx s') (\<lambda>(ctx', u). Inr (True, set_syscall_ctx dc ctx' u)))
      (rbind (call_hook no_hooks h K ctx t') (\<lambda>(ctx', u). Inr (True, set_syscall_ctx dc ctx' u)))"
    if "sysr c0 n n' s' t'" for h ctx s' t'
    by (rule rel_res_bind[OF rel_call_hook[OF that]]) (auto simp: sysr_set_ctx)
  have save: "rel_res (ctx_sysr c0 n n') (rbind x f) (rbind x g)" if "\<And>v. rel_res (ctx_sysr c0 n n') (f v) (g v)" for x :: "syscall_ctx_t res" and f g
    by (rule rel_res_value[OF refl]) (rule that)
  show ?thesis
    using assms
    by (auto simp: event_pre_syscall_def cur_thread_ctx_def sysr_updates(8,10)[OF assms] Let_def sysr_set_ctx hook
        intro!: save split: option.splits)
qed

lemma rel_post_syscall:
  assumes "sysr c0 n n' s t"
  shows "rel_res (sysr c0 n n') (event_post_syscall no_hooks K dc k s) (event_post_syscall no_hooks K dc k t)"
proof -
  have hook: "rel_res (sysr c0 n n') (rbind (call_hook no_hooks h K ctx s') (\<lambda>(ctx', u). Inr (set_syscall_ctx dc ctx' u)))
      (rbind (call_hook no_hooks h K ctx t') (\<lambda>(ctx', u). Inr (set_syscall_ctx dc ctx' u)))"
    if "sysr c0 n n' s' t'" for h ctx s' t'
    by (rule rel_res_bind[OF rel_call_hook[OF that]]) (auto simp: sysr_set_ctx)
  have arg: "rel_res (eng c0 m m') (clear_arg d ctx i u) (clear_arg d ctx i v)" if "eng c0 m m' u v"
    for d ctx i m m' and u :: "'d engine_scheme" and v :: "'e engine_scheme"
    using that eng_updates(2)[OF that] by (simp add: clear_arg_def eng_reads(2)[OF that])
  have args: "rel_res (eng c0 m m') (clear_args d ctx u) (clear_args d ctx v)" if "eng c0 m m' u v"
    for d ctx m m' and u :: "'d engine_scheme" and v :: "'e engine_scheme"
    unfolding clear_args_def by (intro rel_if rel_Inr rel_loops(1) arg that)
  have clear: "rel_res (sysr c0 n n') (clear_args d ctx s') (clear_args d ctx t')" if "sysr c0 n n' s' t'" for d ctx s' t'
    by (rule sysr_lift_res[OF that args[OF sysr_eng[OF that]]])
  show ?thesis
    using assms
    by (auto simp: event_post_syscall_def cur_thread_ctx_def sysr_updates(8,10)[OF assms] Let_def sysr_set_ctx hook clear
        split: option.splits)
qed

lemma rel_run_syscall:
  assumes "sysr c0 n n' s t"
  shows "rel_res (sysr c0 n n') (run_syscall no_hooks K K' dc k s) (run_syscall no_hooks K K' dc k t)"
proof -
  have f: "event_filter_syscall k t = event_filter_syscall k s" by (simp add: event_filter_syscall_def sysr_updates(8)[OF assms])
  show ?thesis unfolding run_syscall_def f
    by (rule rel_if, rule rel_res_bind[OF rel_pre_syscall[OF assms]]) (use assms in \<open>auto simp: rel_post_syscall\<close>)
qed

section \<open>Function summaries\<close>

lemma rel_tag_Inr [match_intros]: "tag_eng c0 m m' x y \<Longrightarrow> rel_res (tag_eng c0 m m') (Inr x) (Inr y)"
  by simp

lemma rel_clobber [match_intros]:
  assumes "eng c0 m m' s t"
  shows "rel_res (eng c0 m m') (clobber_caller_saved dc s) (clobber_caller_saved dc t)"
    "rel_res (eng c0 m m') (rax_set_all dc x s) (rax_set_all dc x t)"
    "rel_res (eng c0 m m') (rax_from_mem dc a s) (rax_from_mem dc a t)"
    "rel_res (eng c0 m m') (copy_bytes a b k s) (copy_bytes a b k t)"
  unfolding clobber_caller_saved_def rax_from_mem_def rax_set_all_def copy_bytes_def
  by (rule assms | assumption | rule match_intros)+

lemma rel_union_bytes [match_intros]:
  assumes "tag_eng c0 m m' x y"
  shows "rel_res (tag_eng c0 m m') (union_bytes p k x) (union_bytes p k y)" "rel_res (tag_eng c0 m m') (union_row dc r x) (union_row dc r y)"
  unfolding union_bytes_def union_row_def by (rule assms | assumption | rule match_intros)+

lemma rel_union_srcs [match_intros]:
  "tag_eng c0 m m' x y \<Longrightarrow> rel_res (tag_eng c0 m m') (union_srcs E av lenref is x) (union_srcs E av lenref is y)"
proof (induction "is" arbitrary: x y)
  case (Cons i "is")
  then show ?case unfolding union_srcs.simps Let_def
    by (intro rel_if Cons.IH rel_res_bind[OF rel_union_bytes(1)]) simp_all
qed simp

lemma rel_union_args [match_intros]:
  "tag_eng c0 m m' x y \<Longrightarrow> rel_res (tag_eng c0 m m') (union_args dc as x) (union_args dc as y)"
proof (induction "as" arbitrary: x y)
  case (Cons a "as")
  then show ?case unfolding union_args.simps Let_def
    by (intro rel_if Cons.IH rel_res_bind[OF rel_union_bytes(2)]) simp_all
qed simp

lemma rel_list_case [match_intros]:
  "rel_res Q x y \<Longrightarrow> (\<And>a as. rel_res Q (f a as) (g a as)) \<Longrightarrow>
     rel_res Q (case l of [] \<Rightarrow> x | a # as \<Rightarrow> f a as) (case l of [] \<Rightarrow> y | a # as \<Rightarrow> g a as)"
  by (cases l) simp_all

lemma rel_arg_at [match_intros]:
  "(\<And>x. rel_res Q (f x) (g x)) \<Longrightarrow> rel_res Q (rbind (arg_at av i) f) (rbind (arg_at av i) g)"
  by (rule rel_res_value) simp_all

lemma rel_sdft_dispatch:
  assumes "eng c0 m m' s t"
  shows "rel_res (eng c0 m m') (sdft_dispatch E dc av sm s) (sdft_dispatch E dc av sm t)"
proof -
  have "rel_res (eng c0 m m') (handle_prop_ptr2ptr E dc av sm s) (handle_prop_ptr2ptr E dc av sm t)"
    "rel_res (eng c0 m m') (handle_prop_ptr2val E dc av sm s) (handle_prop_ptr2val E dc av sm t)"
    "rel_res (eng c0 m m') (handle_prop_scalar dc sm s) (handle_prop_scalar dc sm t)"
    unfolding handle_prop_ptr2ptr_def handle_prop_ptr2val_def handle_prop_scalar_def
    by (rule assms | assumption | rule match_intros)+
  then show ?thesis
    using assms rel_clobber(1)[OF assms] by (simp add: sdft_dispatch_def handle_clobber_def split: Shape.split)
qed

section \<open>Whole runs\<close>

text \<open>Everything else agrees, but for \<open>g_initialized\<close> and the number of exit events, which only \<^verbatim>\<open>init\<close> uses.\<close>

definition dftr :: "'c \<Rightarrow> 'a \<Rightarrow> 'b \<Rightarrow> 'a dft_state_scheme \<Rightarrow> 'b dft_state_scheme \<Rightarrow> bool" where
  "dftr c0 k k' s t \<longleftrightarrow> sysr c0 (sys_state.more s) (sys_state.more t) s t \<and> mnt t = mnt s \<and> sdft t = sdft s
     \<and> s_active t = s_active s \<and> s_wrapped t = s_wrapped s \<and> dr_wraps t = dr_wraps s
     \<and> s_intercepted_rtns t = s_intercepted_rtns s \<and> s_calls_per_shape t = s_calls_per_shape s
     \<and> s_ifunc_resolved t = s_ifunc_resolved s \<and> dft_state.more s = k \<and> dft_state.more t = k'"

definition libr :: "'c \<Rightarrow> 'a lib_state_scheme \<Rightarrow> 'b lib_state_scheme \<Rightarrow> bool" where
  "libr c0 s t \<longleftrightarrow> dftr c0 (dft_state.more s) (dft_state.more t) s t \<and> environ t = environ s \<and> load_events t = load_events s
     \<and> unload_events t = unload_events s \<and> engine_events t = engine_events s \<and> bb_events t = bb_events s
     \<and> func_wraps t = func_wraps s"

lemma same_more_dft:
  fixes s s' :: "'x dft_state_scheme"
  assumes "sys_state.more s' = sys_state.more s"
  shows "mnt s' = mnt s" "sdft s' = sdft s" "s_active s' = s_active s" "s_wrapped s' = s_wrapped s" "dr_wraps s' = dr_wraps s"
    "s_intercepted_rtns s' = s_intercepted_rtns s" "s_calls_per_shape s' = s_calls_per_shape s" "s_ifunc_resolved s' = s_ifunc_resolved s"
    "dft_state.more s' = dft_state.more s"
  using assms by (cases s; cases s'; simp)+

lemma same_more_lib:
  fixes s s' :: "'x lib_state_scheme"
  assumes "dft_state.more s' = dft_state.more s"
  shows "environ s' = environ s" "load_events s' = load_events s" "unload_events s' = unload_events s"
    "engine_events s' = engine_events s" "bb_events s' = bb_events s" "func_wraps s' = func_wraps s"
  using assms by (cases s; cases s'; simp)+

lemma dftr_lift:
  assumes "dftr c0 k k' s t" "sysr c0 (sys_state.more s) (sys_state.more t) s' t'"
  shows "dftr c0 k k' s' t'"
proof -
  have "sys_state.more s' = sys_state.more s" "sys_state.more t' = sys_state.more t" using assms(2) by (simp_all add: sysr_def)
  with same_more_dft[OF this(1)] same_more_dft[OF this(2)] assms show ?thesis by (simp add: dftr_def)
qed

lemma libr_lift:
  assumes "libr c0 s t" "dftr c0 (dft_state.more s) (dft_state.more t) s' t'"
  shows "libr c0 s' t'"
proof -
  have "dft_state.more s' = dft_state.more s" "dft_state.more t' = dft_state.more t" using assms(2) by (simp_all add: dftr_def)
  with same_more_lib[OF this(1)] same_more_lib[OF this(2)] assms show ?thesis by (simp add: libr_def)
qed

lemma libr_parts:
  assumes "libr c0 s t"
  shows "dftr c0 (dft_state.more s) (dft_state.more t) s t" "sysr c0 (sys_state.more s) (sys_state.more t) s t"
    "eng c0 (engine.more s) (engine.more t) s t"
  using assms sysr_eng by (auto simp: libr_def dftr_def)

lemma libr_lift_res:
  assumes "libr c0 s t"
  shows "rel_res (dftr c0 (dft_state.more s) (dft_state.more t)) x y \<Longrightarrow> rel_res (libr c0) x y"
    "rel_res (sysr c0 (sys_state.more s) (sys_state.more t)) x y \<Longrightarrow> rel_res (libr c0) x y"
    "rel_res (eng c0 (engine.more s) (engine.more t)) x y \<Longrightarrow> rel_res (libr c0) x y"
  by (erule rel_res_mono, use libr_lift[OF assms] dftr_lift[OF libr_parts(1)[OF assms]] sysr_lift[OF libr_parts(2)[OF assms]] in blast)+

lemma dftr_updates:
  assumes "dftr c0 k k' s t"
  shows "dftr c0 k k' (s\<lparr>mnt := m\<rparr>) (t\<lparr>mnt := m\<rparr>)" "dftr c0 k k' (s\<lparr>s_wrapped := w\<rparr>) (t\<lparr>s_wrapped := w\<rparr>)"
    "dftr c0 k k' (s\<lparr>s_intercepted_rtns := v\<rparr>) (t\<lparr>s_intercepted_rtns := v\<rparr>)" "dftr c0 k k' (s\<lparr>s_ifunc_resolved := v\<rparr>) (t\<lparr>s_ifunc_resolved := v\<rparr>)"
    "dftr c0 k k' (s\<lparr>dr_wraps := d\<rparr>) (t\<lparr>dr_wraps := d\<rparr>)" "dftr c0 k k' (s\<lparr>s_calls_per_shape := f\<rparr>) (t\<lparr>s_calls_per_shape := f\<rparr>)"
  using assms by (simp_all add: dftr_def sysr_def eng_def served_def) auto

lemma dftr_reads:
  assumes "dftr c0 k k' s t"
  shows "mnt t = mnt s" "sdft t = sdft s" "s_wrapped t = s_wrapped s" "dr_wraps t = dr_wraps s" "s_intercepted_rtns t = s_intercepted_rtns s"
    "s_calls_per_shape t = s_calls_per_shape s" "s_ifunc_resolved t = s_ifunc_resolved s" "g_pc_ranges t = g_pc_ranges s"
    "libdft_get_thread_ctx dc t = libdft_get_thread_ctx dc s"
  using assms by (simp_all add: dftr_def sysr_def eng_def libdft_get_thread_ctx_def)

lemma dftr_enum_sym:
  assumes "dftr c0 k k' s t"
  shows "dftr c0 k k' (enum_sym_cb base pa info s) (enum_sym_cb base pa info t)"
proof -
  note u = dftr_updates
  have "dftr c0 k k' (s\<lparr>s_wrapped := w, s_intercepted_rtns := v\<rparr>) (t\<lparr>s_wrapped := w, s_intercepted_rtns := v\<rparr>)" for w v
    by (rule u(3)[OF u(2)[OF assms]])
  with assms show ?thesis
    by (auto simp: enum_sym_cb_def dftr_reads[OF assms] Let_def split: option.split intro!: u(1,4,5))
qed

lemma dftr_fold:
  "(\<And>x s t. dftr c0 k k' s t \<Longrightarrow> dftr c0 k k' (f x s) (g x t)) \<Longrightarrow> dftr c0 k k' s t \<Longrightarrow> dftr c0 k k' (fold f xs s) (fold g xs t)"
  by (induction xs arbitrary: s t) simp_all

lemma libr_func_sinks:
  assumes "libr c0 s t"
  shows "libr c0 (func_sink_on_module_load L info s) (func_sink_on_module_load L info t)"
proof -
  have r: "g_pending_func_sinks t = g_pending_func_sinks s" "func_wraps t = func_wraps s"
    using assms by (simp_all add: libr_def dftr_def sysr_def eng_def)
  have "libr c0 (s\<lparr>g_pending_func_sinks := p, func_wraps := w\<rparr>) (t\<lparr>g_pending_func_sinks := p, func_wraps := w\<rparr>)" for p w
    using assms by (simp add: libr_def dftr_def sysr_def eng_def served_def) auto
  then show ?thesis by (simp add: func_sink_on_module_load_def r Let_def split: prod.split)
qed

lemma libr_module_cb:
  assumes "libr c0 s t"
  shows "libr c0 (run_module_cb L info cb s) (run_module_cb L info cb t)"
proof (cases cb)
  case On_module_load
  have r: "environ t = environ s" "mnt t = mnt s" using assms by (simp_all add: libr_def dftr_def)
  show ?thesis unfolding On_module_load run_module_cb.simps r
    by (rule libr_lift[OF assms dftr_updates(1)[OF libr_parts(1)[OF assms]]])
next
  case Event_module_load
  have "dftr c0 (dft_state.more s) (dft_state.more t) (sdft_event_module_load i pa sy info s) (sdft_event_module_load i pa sy info t)" for i pa sy
    using libr_parts(1)[OF assms] dftr_fold[OF dftr_enum_sym libr_parts(1)[OF assms]]
    by (auto simp: sdft_event_module_load_def split: option.split)
  then show ?thesis unfolding Event_module_load run_module_cb.simps by (rule libr_lift[OF assms])
next
  case Func_sink_on_module_load
  then show ?thesis using libr_func_sinks[OF assms] by simp
qed

lemma libr_module_loaded:
  assumes "libr c0 s t"
  shows "libr c0 (module_loaded L info s) (module_loaded L info t)"
proof -
  have "libr c0 (fold (run_module_cb L info) cbs u) (fold (run_module_cb L info) cbs v)"
    if "libr c0 u v" for cbs and u :: "'a lib_state_scheme" and v :: "'b lib_state_scheme"
    using that by (induction cbs arbitrary: u v) (simp_all add: libr_module_cb)
  moreover have "load_events t = load_events s" using assms by (simp add: libr_def)
  ultimately show ?thesis using assms by (simp add: module_loaded_def)
qed

lemma libr_module_unloaded:
  assumes "libr c0 s t"
  shows "libr c0 (module_unloaded info s) (module_unloaded info t)"
proof -
  have r: "unload_events t = unload_events s" "mnt t = mnt s" using assms by (simp_all add: libr_def dftr_def)
  show ?thesis using assms libr_lift[OF assms dftr_updates(1)[OF libr_parts(1)[OF assms]]] by (simp add: module_unloaded_def r)
qed

lemma libr_built:
  assumes "libr c0 s t"
  shows "libr c0 (snd (event_bb_insn D i b s)) (snd (event_bb_insn D i b t))"
proof -
  have r: "mnt t = mnt s" using assms by (simp add: libr_def dftr_def)
  show ?thesis using assms libr_lift[OF assms dftr_updates(1)[OF libr_parts(1)[OF assms]]]
    by (auto simp: event_bb_insn_def r Let_def split: prod.split)
qed

lemma rel_sdft_pre:
  assumes "dftr c0 k k' s t"
  shows "rel_res (dftr c0 k k') (sdft_pre E args sm s) (sdft_pre E args sm t)"
proof -
  have "rel_res (dftr c0 k k') (sdft_dispatch E dc av x (count_call x s)) (sdft_dispatch E dc av x (count_call x t))" for dc av x
  proof -
    have c: "dftr c0 k k' (count_call x s) (count_call x t)"
      using dftr_updates(6)[OF assms] by (simp add: count_call_def dftr_reads[OF assms])
    then have e: "sysr c0 (sys_state.more (count_call x s)) (sys_state.more (count_call x t)) (count_call x s) (count_call x t)"
      by (simp add: dftr_def)
    show ?thesis
      by (rule rel_res_mono[OF sysr_lift_res[OF e rel_sdft_dispatch[OF sysr_eng[OF e]]]]) (rule dftr_lift[OF c])
  qed
  with assms show ?thesis by (simp add: sdft_pre_def dftr_reads[OF assms] split: option.split)
qed

lemma rel_tag_value [match_intros]: "eng c0 m m' s t \<Longrightarrow> rel_res (tag_eng c0 m m') (Inr (u, s)) (Inr (u, t))"
  by (simp add: tag_eng_def)

lemma rel_no_result [match_intros]:
  "rel_res (eng c0 m m') x y \<Longrightarrow> rel_res (tag_eng c0 m m') (no_result x) (no_result y)"
  unfolding no_result_def by (rule rel_res_bind) (simp_all add: tag_eng_def)

lemma rel_union_step:
  "tag_eng c0 m m' x y \<Longrightarrow> rel_res (tag_eng c0 m m') (union_step va i x) (union_step va i y)"
  "tag_eng c0 m m' x y \<Longrightarrow> rel_res (tag_eng c0 m m') (reg_union_step dc row b i x) (reg_union_step dc row b i y)"
  unfolding union_step_def reg_union_step_def by (assumption | rule match_intros)+

lemma rel_paint_range:
  assumes "eng c0 m m' s t"
  shows "rel_res (eng c0 m m') (paint_range va n l s) (paint_range va n l t)"
  unfolding paint_range_def
proof (rule rel_loops(1)[OF assms])
  fix i and s :: "'a engine_scheme" and t :: "'b engine_scheme"
  assume st: "eng c0 m m' s t"
  obtain u T where u: "dft_label_set l (tables s) = (u, T)" by fastforce
  show "rel_res (eng c0 m m') (let (t, T) = dft_label_set l (tables s) in Inr (mem_wr (va + of_nat i) t (s\<lparr>tables := T\<rparr>)))
    (let (u, T) = dft_label_set l (tables t) in Inr (mem_wr (va + of_nat i) u (t\<lparr>tables := T\<rparr>)))"
    using eng_updates(1)[OF st, of T] by (simp add: eng_reads(1)[OF st] u eng_mem_wr)
qed

lemma rel_run_api:
  assumes "eng c0 m m' s t"
  shows "rel_res (tag_eng c0 m m') (run_api E op s) (run_api E op t)"
proof -
  note r = eng_reads[OF assms] and v = tag_eng_pair[OF assms]
  have set: "rel_res (eng c0 m m') (for_upto n (\<lambda>k. gpr_wr dc row (b + k) x) s) (for_upto n (\<lambda>k. gpr_wr dc row (b + k) x) t)" for n dc row b x
    by (rule rel_loops(1)[OF assms]) (rule rel_gpr_wr)
  have range: "rel_res (tag_eng c0 m m') (rbind (for_upto n (f :: nat \<Rightarrow> _) (0, s)) (\<lambda>(acc, s'). Inr (to_public acc, s')))
      (rbind (for_upto n (g :: nat \<Rightarrow> _) (0, t)) (\<lambda>(acc, s'). Inr (to_public acc, s')))"
    if "\<And>i x y. tag_eng c0 m m' x y \<Longrightarrow> rel_res (tag_eng c0 m m') (f i x) (g i y)" for n f g
    by (rule rel_tag_seq[OF rel_tag_loops(2)[OF tag_eng_pair[OF assms]]]) (rule that, assumption, rule rel_tag_value)
  note mem_range = range[of "union_step va" "union_step va" for va, OF rel_union_step(1)]
    and reg_range = range[of "reg_union_step dc row b" "reg_union_step dc row b" for dc row b, OF rel_union_step(2)]
  show ?thesis
  proof (cases op)
    case (Make_tag l)
    then show ?thesis using eng_updates(1)[OF assms]
      by (simp add: make_tag_def r tag_eng_def split: prod.split)
  next
    case (Combine a b)
    show ?thesis unfolding Combine run_api.simps combine_def
      by (rule rel_combine[OF assms]) (rule rel_tag_value)
  next
    case (Get_mem_range va n)
    then show ?thesis using mem_range by (simp add: get_mem_tag_range_def)
  next
    case (Get_reg_range R reg)
    then show ?thesis using reg_range v
      by (auto simp: get_reg_tag_range_def cur_ctx_def r split: option.split)
  next
    case (Set_reg R reg x)
    then show ?thesis using rel_no_result[OF set] rel_no_result[OF rel_Inr[OF assms]]
      by (auto simp: set_reg_tag_def cur_ctx_def r split: option.split)
  next
    case (Set_reg_byte R reg i x)
    then show ?thesis using rel_no_result[OF rel_gpr_wr[OF assms]] rel_no_result[OF rel_Inr[OF assms]]
      by (auto simp: set_reg_tag_byte_def cur_ctx_def r split: option.split)
  next
    case (Paint_range va n l)
    then show ?thesis using rel_no_result[OF rel_paint_range[OF assms]] by simp
  next
    case (Get_mem va)
    then show ?thesis unfolding run_api.simps
      by (simp, intro rel_res_value) (simp_all add: get_mem_tag_def r v)
  next
    case (Get_reg R reg)
    then show ?thesis unfolding run_api.simps
      by (simp, intro rel_res_value) (simp_all add: get_reg_tag_def cur_ctx_def r v cong: option.case_cong)
  next
    case (Get_reg_byte R reg i)
    then show ?thesis unfolding run_api.simps
      by (simp, intro rel_res_value) (simp_all add: get_reg_tag_byte_def cur_ctx_def r v split: option.split)
  qed (use rel_no_result[OF rel_clrn[OF assms]] rel_no_result[OF rel_mem_wr[OF assms]] in
    \<open>simp_all add: clear_mem_def clear_range_def set_mem_tag_def\<close>)
qed

lemma eng_threads:
  assumes "eng c0 m m' s t"
  shows "eng c0 m m' (event_thread_init dc s) (event_thread_init dc t)" "eng c0 m m' (event_thread_exit dc s) (event_thread_exit dc t)"
  using eng_updates(3)[OF assms] by (simp_all add: event_thread_init_def event_thread_exit_def eng_reads(3)[OF assms])

lemma rel_registration:
  assumes "libr c0 s t" "\<not> registers_sink (EvRegister r)"
  shows "libr c0 (run_registration r s) (run_registration r t)"
proof -
  note p = libr_parts[OF assms(1)]
  have "sysr c0 (sys_state.more s) (sys_state.more t) (run_registration r s) (run_registration r t)"
    using p(2) assms(2)
    by (cases r) (auto simp: sysr_def eng_def served_def register_sink_def register_pc_range_sink_def register_func_sink_def
        register_func_sink_pc_def register_file_source_def)
  then show ?thesis by (rule libr_lift[OF assms(1) dftr_lift[OF p(1)]])
qed

theorem rel_run_event:
  assumes "libr c0 s t" "\<not> registers_sink e"
  shows "rel_res (libr c0) (run_event L no_hooks e s) (run_event L no_hooks e t)"
proof -
  note l = libr_lift_res[OF assms(1)] and p = libr_parts[OF assms(1)]
  show ?thesis
  proof (cases e)
    case (EvRun E cs)
    show ?thesis unfolding EvRun run_event.simps by (rule l(3)[OF rel_run_trace[OF p(3)]])
  next
    case (EvSyscall K K' dc n)
    show ?thesis unfolding EvSyscall run_event.simps by (rule l(2)[OF rel_run_syscall[OF p(2)]])
  next
    case (EvSummary E args sm)
    show ?thesis unfolding EvSummary run_event.simps by (rule l(1)[OF rel_sdft_pre[OF p(1)]])
  next
    case (EvFuncSink pc)
    show ?thesis unfolding EvFuncSink run_event.simps by (rule l(3)) (simp add: eng_other_sinks(2)[OF p(3)])
  next
    case (EvThreadInit dc)
    show ?thesis unfolding EvThreadInit run_event.simps by (rule l(3)) (simp add: eng_threads(1)[OF p(3)])
  next
    case (EvThreadExit dc)
    show ?thesis unfolding EvThreadExit run_event.simps by (rule l(3)) (simp add: eng_threads(2)[OF p(3)])
  next
    case (EvApi E op)
    have "rel_res (eng c0 (engine.more s) (engine.more t)) (rbind (run_api E op s) (\<lambda>(u, s'). Inr s')) (rbind (run_api E op t) (\<lambda>(u, s'). Inr s'))"
      by (rule rel_tag_seq[OF rel_run_api[OF p(3)]]) simp
    then show ?thesis unfolding EvApi run_event.simps by (rule l(3))
  next
    case (EvRegister r)
    then show ?thesis using rel_registration[OF assms(1)] assms(2) by simp
  qed (simp_all add: libr_built[OF assms(1)] libr_module_loaded[OF assms(1)] libr_module_unloaded[OF assms(1)])
qed

theorem rel_run_events: "libr c0 s t \<Longrightarrow> list_all (\<lambda>e. \<not> registers_sink e) es \<Longrightarrow> rel_res (libr c0) (run_events L es s) (run_events L es t)"
proof (induction es arbitrary: s t)
  case (Cons e es)
  have e: "\<not> registers_sink e" "list_all (\<lambda>e. \<not> registers_sink e) es" using Cons.prems(2) by simp_all
  show ?case unfolding run_events.simps by (rule rel_res_bind[OF rel_run_event[OF Cons.prems(1) e(1)] Cons.IH[OF _ e(2)]])
qed simp

lemma libr_end:
  assumes "libr c0 s t"
  shows "served c0 s t \<and> finish_report s = finish_report t"
  using assms libr_parts(3)[OF assms]
  by (simp add: eng_def libr_def dftr_def sysr_def finish_report_def hook_log_summary_def shape_line_def[abs_def])

end

section \<open>The client keeps the contract\<close>

lemma any_wide_eq: "i + n \<le> length fs \<Longrightarrow> any_wide i n lim fs = Inr (field_limit_hit [i..<i + n] lim fs)"
proof (induction n arbitrary: i)
  case (Suc n)
  then have "any_wide (Suc i) n lim fs = Inr (field_limit_hit [Suc i..<Suc i + n] lim fs)" by simp
  moreover have "[i..<i + Suc n] = i # [Suc i..<Suc i + n]" by (simp add: upt_conv_Cons)
  ultimately show ?case using Suc.prems by (simp add: vec_get_def)
qed simp

lemma record_line_all: "length fs = n \<Longrightarrow> record_line n fs = concat (map (\<lambda>f. f @ '' '') fs) @ [CHR 0x0A]"
  using map_nth[of fs] by (auto simp: record_line_def simp flip: map_map[unfolded comp_def, of "\<lambda>f. f @ '' ''" "nth fs"])

lemma write_record_eq:
  assumes "length fs = n" "a \<le> b" "b \<le> n"
  shows "write_record f fs a b lim = Inr (legacy_out [a..<b] n lim fs f)"
  using assms any_wide_eq[of a "b - a" fs lim] record_line_all[OF assms(1)]
  by (auto simp: write_record_def legacy_out_def split: option.split)

interpretation vuzzer: record_client vuzzer_callback g_out g_out_lea g_maxoff cmp_cb lea_cb
proof
  fix fs :: "string list" and pc ts c
  show "\<exists>c'. vuzzer_callback (OpcodeSink cmp_cb CMP pc \<lparr>legacy_fields = fs, operand_tags = ts\<rparr>) c = Inr c'
      \<and> g_out c' = legacy_out [3..<19] 21 (g_maxoff c) fs (g_out c) \<and> g_out_lea c' = g_out_lea c \<and> g_maxoff c' = g_maxoff c"
    if "length fs = 21" using that by (simp add: on_cmp_sink_def legacy_record_def write_record_eq)
  show "\<exists>c'. vuzzer_callback (OpcodeSink lea_cb LEA pc \<lparr>legacy_fields = fs, operand_tags = ts\<rparr>) c = Inr c'
      \<and> g_out c' = g_out c \<and> g_out_lea c' = legacy_out [2..<10] 10 (g_maxoff c) fs (g_out_lea c) \<and> g_maxoff c' = g_maxoff c"
    if "length fs = 10" using that by (simp add: on_lea_sink_def legacy_record_def write_record_eq cmp_cb_def lea_cb_def)
qed simp_all

section \<open>Two front ends\<close>

text \<open>What \<^verbatim>\<open>libdft_setup\<close> does, as one update whose values depend only on the state of the subsystems.\<close>

definition sdft_values :: "lib_env \<Rightarrow> (string \<Rightarrow> string option) \<Rightarrow> sdft_state \<Rightarrow> bool \<Rightarrow> sdft_state \<times> bool \<times> module_cb list" where
  "sdft_values L env d act =
     (if env ''VUZZER_SDFT'' = Some ''off'' \<or> \<not> drsym_starts L then (d, act, [])
      else case sdft_load (conf_files L) (sdft_conf env) d of
             (True, d') \<Rightarrow> (d', True, [Event_module_load]) | (False, d') \<Rightarrow> (d', act, []))"

lemma setup_mnt_eq:
  "setup_mnt L s =
     (let m = mnt_init ((mnt_files L)\<lparr>getenv := environ s\<rparr>) (mnt s); q = s_inited (mnt s) \<or> s_policy m = POLICY_OFF
      in s\<lparr>mnt := m, load_events := load_events s @ (if q then [] else [On_module_load]),
           unload_events := unload_events s + (if q then 0 else 1)\<rparr>)"
  by (simp add: setup_mnt_def Let_def)

lemma setup_sdft_eq:
  "setup_sdft L s =
     (case sdft_values L (environ s) (sdft s) (s_active s) of (d, a, l) \<Rightarrow>
        s\<lparr>sdft := d, s_active := a, load_events := load_events s @ l\<rparr>)"
  by (simp add: setup_sdft_def sdft_values_def sdft_init_def split: prod.split bool.split)

lemma core_init_eq:
  "libdft_core_init L s =
     s\<lparr>bb_events := bb_events s + 1,
       load_events := load_events s @ (if g_pending_func_sinks s = [] then [] else [Func_sink_on_module_load]),
       func_wraps := fold (wrap_pc_sink L) (g_pending_func_sinks s) (func_wraps s)\<rparr>"
  by (simp add: libdft_core_init_def Let_def)

lemmas setup_eqs = libdft_setup_def setup_mnt_eq setup_sdft_eq core_init_eq

lemma both_start:
  fixes s0 :: "'a lib_state_scheme"
  assumes "\<not> g_initialized s0" "g_opcode_sinks s0 CMP = []" "g_opcode_sinks s0 LEA = []" "sink_log s0 = []"
    and "tool_main opens opt L s0 = Inr (w, t)"
  shows "\<exists>c s. vuzzer_main opens opt L s0 = Inr (c, w, s) \<and> vuzzer.libr c s t"
proof -
  have slot: "tls_slot L \<noteq> - 1" using assms(5) by (auto simp: tool_main_def libdft_setup_def libdft_die_def Let_def)
  define c where "c = \<lparr>g_out = dr_open_file opens (op_cmpfile opt), g_out_lea = dr_open_file opens (op_leafile opt), g_maxoff = op_maxoff opt\<rparr>"
  obtain d a l where sd: "sdft_values L (environ s0) (sdft s0) (s_active s0) = (d, a, l)" by (cases "sdft_values L (environ s0) (sdft s0) (s_active s0)")
  define up where "up = (\<lambda>u :: 'a lib_state_scheme. let m = mnt_init ((mnt_files L)\<lparr>getenv := environ s0\<rparr>) (mnt s0);
       q = s_inited (mnt s0) \<or> s_policy m = POLICY_OFF
     in u\<lparr>tls_idx := tls_slot L, threads := (\<lambda>_. None), tables := tagmap_alloc, engine_events := engine_events s0 + 1, mnt := m,
          unload_events := unload_events s0 + (if q then 0 else 1), sdft := d, s_active := a, bb_events := bb_events s0 + 1,
          load_events := ((load_events s0 @ (if q then [] else [On_module_load])) @ l) @
             (if g_pending_func_sinks s0 = [] then [] else [Func_sink_on_module_load]),
          func_wraps := fold (wrap_pc_sink L) (g_pending_func_sinks s0) (func_wraps s0), exit_events := exit_events u + 1\<rparr>)"
  have set: "set_opaque [] env = env" for env by (simp add: set_opaque_def)
  have t: "w = start_watchdog opt" "t = up (s0\<lparr>out_file := dr_open_file opens (op_cmpfile opt),
      out_lea_file := dr_open_file opens (op_leafile opt), filename := op_filename opt, limit_offset := op_maxoff opt, mmap_type := (op_mmap opt \<noteq> 0)\<rparr>)"
    using assms(5) slot by (simp_all add: tool_main_def setup_eqs Let_def sd up_def split del: if_split)
  define s where "s = register_sink LEA lea_cb (register_sink CMP cmp_cb (register_file_source (default_file_source (op_filename opt))
     (up (s0\<lparr>exit_events := exit_events s0 + 1, mmap_type := (op_mmap opt \<noteq> 0), limit_offset := op_maxoff opt\<rparr>)\<lparr>g_initialized := True\<rparr>)))"
  have v: "vuzzer_main opens opt L s0 = Inr (c, w, s)"
    using assms(1) slot
    by (simp add: vuzzer_main_def lib_init_def default_init_options_def set setup_eqs Let_def sd c_def t(1) s_def up_def split del: if_split)
  have "vuzzer.libr c s t"
    using assms(2-4)
    by (simp add: vuzzer.libr_def vuzzer.dftr_def vuzzer.sysr_def vuzzer.eng_def vuzzer.served_def s_def t(2) up_def register_sink_def
        register_file_source_def default_file_source_def c_def Let_def)
  with v show ?thesis by blast
qed

text \<open>
  C6. The client \<^verbatim>\<open>vuzzer_cmp_sink\<close> is the front end \<^verbatim>\<open>libdft-dta-dr\<close>, byte for byte. Start both programs with the
  same options in the same process state; if the front end starts, so does the client. Then let the same
  events happen to both: threads, translated instructions and their clean calls, system calls, function
  summaries, modules, calls of the client interface, registrations (other than of another sink for the
  records). Both stop with the same fault, or both go on and the files the client has written are, at every moment,
  the cmp.out and lea.out of the front end; the library reports the same counters in both.
\<close>

theorem vuzzer_matches_tool:
  assumes "\<not> g_initialized s0" "g_opcode_sinks s0 CMP = []" "g_opcode_sinks s0 LEA = []" "sink_log s0 = []"
    and "tool_main opens opt L s0 = Inr (w, t)" "list_all (\<lambda>e. \<not> registers_sink e) es"
  shows "\<exists>c s. vuzzer_main opens opt L s0 = Inr (c, w, s) \<and>
     (case run_events L es t of
        Inl e \<Rightarrow> run_events L es s = Inl e
      | Inr t' \<Rightarrow> \<exists>s' c'. run_events L es s = Inr s' \<and> vuzzer_callbacks (sink_log s') c = Inr c' \<and> vuzzer_event_exit c' = fst (finish t')
             \<and> finish_report s' = snd (finish t'))"
proof -
  obtain c s where s: "vuzzer_main opens opt L s0 = Inr (c, w, s)" "vuzzer.libr c s t" using both_start[OF assms(1-5)] by blast
  have "rel_res (vuzzer.libr c) (run_events L es s) (run_events L es t)" by (rule vuzzer.rel_run_events[OF s(2) assms(6)])
  with s(1) show ?thesis
    by (cases "run_events L es s"; cases "run_events L es t")
       (auto simp: vuzzer.served_def vuzzer_callbacks_def vuzzer_event_exit_def finish_def dest!: vuzzer.libr_end)
qed

definition sample_fuzz :: fuzz_options where
  "sample_fuzz =
     \<lparr>op_cmpfile = ''cmp.out'', op_leafile = ''lea.out'', op_filename = ''input'', op_timeout = 5, op_maxoff = 4, op_mmap = 1\<rparr>"

theorem vuzzer_matches_tool_witness:
  "\<exists>t c s. tool_main (\<lambda>_. True) sample_fuzz sample_lib_env sample_lib = Inr (Some 5000, t)
     \<and> vuzzer_main (\<lambda>_. True) sample_fuzz sample_lib_env sample_lib = Inr (c, Some 5000, s)
     \<and> (case run_events sample_lib_env [EvThreadInit 7, sample_read] t of
          Inl e \<Rightarrow> run_events sample_lib_env [EvThreadInit 7, sample_read] s = Inl e
        | Inr t' \<Rightarrow> \<exists>s' c'. run_events sample_lib_env [EvThreadInit 7, sample_read] s = Inr s'
            \<and> vuzzer_callbacks (sink_log s') c = Inr c' \<and> vuzzer_event_exit c' = fst (finish t')
             \<and> finish_report s' = snd (finish t'))"
proof -
  have i: "\<not> g_initialized sample_lib" "g_opcode_sinks sample_lib CMP = []" "g_opcode_sinks sample_lib LEA = []" "sink_log sample_lib = []"
    by (simp_all add: sample_lib_def lib_start_def)
  have "start_watchdog sample_fuzz = Some 5000" "tls_slot sample_lib_env \<noteq> - 1"
    by (simp_all add: start_watchdog_def watchdog_thread_def sample_fuzz_def sample_lib_env_def)
  then obtain t where t: "tool_main (\<lambda>_. True) sample_fuzz sample_lib_env sample_lib = Inr (Some 5000, t)"
    by (simp add: tool_main_def libdft_setup_def Let_def)
  with vuzzer_matches_tool[OF i t, of "[EvThreadInit 7, sample_read]"] show ?thesis by simp
qed

end
