(* ===== verification/Client_Checks.thy ===== *)
theory Client_Checks
  imports Client_Records
begin

text \<open>
  The other clients: all checks of \<^verbatim>\<open>synthetic_unit\<close> pass in every library that has room for its labels, the
  dump of \<^verbatim>\<open>file_introspect\<close> prints the sets of the two regions, and what \<^verbatim>\<open>egress_sanitizer\<close> does with a
  tainted buffer, with the two ways in which it fails: it registers its sink too late to be wrapped, and a
  long alert is written from beyond the end of its line buffer.
\<close>

section \<open>The unit tests\<close>

lemma enumerate_two:
  assumes "tables_ok (tables s)" "valid_tag (tables s) t" "label_set (tables s) t = {7, 42}"
  shows "enumerate (from_raw t) unit_visitor (0, 0, 0) s = (1, 1, 2)"
proof -
  have "sorted_list_of_set {7, 42 :: nat} = [7, 42]" using sorted_list_of_set.idem_if_sorted_distinct[of "[7, 42 :: nat]"] by simp
  then have o: "ewah_ones (g_sets (tables s) ! unat t) = [7, 42]" using ewah_ones_label[OF assms(1,2)] assms(3) by simp
  have "t \<noteq> 0" using label_set_0[OF assms(1)] assms(3) by auto
  then show ?thesis using assms(2) o
    by (simp add: enumerate_def to_internal_def tag_walk_def valid_tag_def unit_visitor_def)
qed

lemma to_string_42:
  assumes "tables_ok (tables s)" "valid_tag (tables s) t" "label_set (tables s) t = {42}"
  shows "str_contains ''42'' (to_string (from_raw t) s)"
proof -
  have "dec_str 42 = ''42''" by code_simp
  then show ?thesis using tag_sprint_set[OF assms(1,2)] assms(3) by (simp add: to_string_def to_internal_def print_set_def)
qed

lemma tag_nonempty: "tables_ok T \<Longrightarrow> valid_tag T t \<Longrightarrow> label_set T t \<noteq> {} \<Longrightarrow> \<not> tag_empty (from_raw t)"
  using label_set_0 by (auto simp: tag_empty_def)

lemma EXPECT_True: "EXPECT True k = k\<lparr>g_pass := g_pass k + 1\<rparr>"
  by (simp add: EXPECT_def)

lemma combine_trivial:
  "combine t t s = Inr (t, s)" "combine t empty_tag s = Inr (t, s)" "combine empty_tag t s = Inr (t, s)"
  by (cases t; simp add: combine_def combine_tags_def tag_combine_def to_internal_def to_public_def empty_tag_def)+

text \<open>The two tags of the tests and their union.\<close>

lemma unit_tags:
  assumes "tables_ok (tables s)" "room (4 + k) (tables s)"
  obtains a b u T1 T2 T3 T where "make_tag 42 s = (from_raw a, s\<lparr>tables := T1\<rparr>)"
    "make_tag 7 (s\<lparr>tables := T1\<rparr>) = (from_raw b, s\<lparr>tables := T2\<rparr>)"
    "combine (from_raw a) (from_raw b) (s\<lparr>tables := T2\<rparr>) = Inr (from_raw u, s\<lparr>tables := T3\<rparr>)"
    "combine (from_raw b) (from_raw a) (s\<lparr>tables := T3\<rparr>) = Inr (from_raw u, s\<lparr>tables := T\<rparr>)"
    "tables_ok T1" "valid_tag T1 a" "label_set T1 a = {42}"
    "tables_ok T" "room k T" "extends (tables s) T" "valid_tag T a" "valid_tag T b" "valid_tag T u"
    "label_set T a = {42}" "label_set T b = {7}" "label_set T u = {7, 42}"
proof -
  let ?s = "\<lambda>T. s\<lparr>tables := T\<rparr>"
  have r: "room (Suc (Suc (Suc (Suc k)))) (tables s)" using assms(2) by (simp add: numeral_eq_Suc)
  obtain a T1 where 1: "make_tag 42 s = (from_raw a, ?s T1)" "tables_ok T1" "room (Suc (Suc (Suc k))) T1" "extends (tables s) T1"
    "valid_tag T1 a" "label_set T1 a = {unat (42 :: UINT32)}" by (rule make_tag_ok[OF assms(1) r])
  obtain b T2 where 2: "make_tag 7 (?s T1) = (from_raw b, ?s T2)" "tables_ok T2" "room (Suc (Suc k)) T2" "extends T1 T2"
    "valid_tag T2 b" "label_set T2 b = {unat (7 :: UINT32)}" 
    by (rule make_tag_ok[where s = "?s T1" and k = "Suc (Suc k)" and l = 7]) (use 1 in simp_all)
  have a2: "valid_tag T2 a" "label_set T2 a = {42}" using 1(5,6) extends_valid[OF 2(4)] extends_label[OF 2(4)] by simp_all
  obtain u T3 where 3: "combine (from_raw a) (from_raw b) (?s T2) = Inr (from_raw u, ?s T3)" "tables_ok T3" "room (Suc k) T3"
    "extends T2 T3" "valid_tag T3 u" "label_set T3 u = {7, 42}"
    by (rule combine_ok[where s = "?s T2" and k = "Suc k" and a = a and b = b]) (use 2 a2 in auto)
  have e3: "valid_tag T3 a" "valid_tag T3 b" "label_set T3 a = {42}" "label_set T3 b = {7}"
    using a2 2(5,6) extends_valid[OF 3(4)] extends_label[OF 3(4)] by simp_all
  obtain v T where 4: "combine (from_raw b) (from_raw a) (?s T3) = Inr (from_raw v, ?s T)" "tables_ok T" "room k T"
    "extends T3 T" "valid_tag T v" "label_set T v = {7, 42}"
    by (rule combine_ok[where s = "?s T3" and k = k and a = b and b = a]) (use 3 e3 in auto)
  have e4: "valid_tag T a" "valid_tag T b" "valid_tag T u" "label_set T a = {42}" "label_set T b = {7}" "label_set T u = {7, 42}"
    using e3 3(5,6) extends_valid[OF 4(4)] extends_label[OF 4(4)] by simp_all
  have "u = v" using label_set_inject[OF 4(2) e4(3) 4(5)] 4(6) e4(6) by simp
  moreover have "extends (tables s) T" by (rule extends_trans[OF extends_trans[OF 1(4) 2(4)] extends_trans[OF 3(4) 4(4)]])
  ultimately show ?thesis using that[of a T1 b T2 u T3 T] 1 2(1) 3(1) 4 e4 by simp
qed

lemma shadow_clear_mem:
  assumes "file_tag_testb x"
  shows "shadow_of (tag_dir (clear_mem va n s)) x =
     (if unat va \<le> unat x \<and> unat x < unat va + unat n mod 2 ^ 32 then 0 else shadow_of (tag_dir s) x)"
proof -
  have "unat (ucast n :: UINT32) = unat n mod 2 ^ 32" by (simp add: unsigned_ucast_eq take_bit_eq_mod)
  then show ?thesis
    using getb_clrn[of va "ucast n" "tag_dir s" x] assms
    by (auto simp: clear_mem_def shadow_of_def file_tag_testb_def cleared_val_def split: if_splits)
qed

text \<open>The shadow bytes of the test buffer after the two writes, and that the tests clean up behind them.\<close>

lemma unit_memory:
  assumes "tables_ok T" "room 8 T" "valid_tag T a" "valid_tag T b" "label_set T a = {42}" "label_set T b = {7}"
    and "\<And>i. i < 16 \<Longrightarrow> file_tag_testb (buf + of_nat i) \<and> shadow_of (tag_dir s) (buf + of_nat i) = 0"
  defines "sb \<equiv> set_mem_tag (buf + 4) (from_raw b) (set_mem_tag buf (from_raw a) (s\<lparr>tables := T\<rparr>))"
  obtains u T' where "get_mem_tag_range buf 8 sb = Inr (from_raw u, sb\<lparr>tables := T'\<rparr>)" "tables_ok T'" "extends T T'"
    "valid_tag T' u" "label_set T' u = {7, 42}"
proof -
  have t: "file_tag_testb buf" "file_tag_testb (buf + 4)" using assms(7)[of 0] assms(7)[of 4] by simp_all
  have sh: "shadow_of (tag_dir sb) x = (if x = buf + 4 then b else if x = buf then a else shadow_of (tag_dir s) x)" for x
    using t by (simp add: sb_def set_mem_tag_def mem_wr_def to_internal_def)
  have ts: "tables sb = T" by (simp add: sb_def set_mem_tag_def mem_wr_def)
  have cell: "shadow_of (tag_dir sb) (buf + of_nat i) = (if i = 0 then a else if i = 4 then b else 0)" if "i < 8" for i
  proof -
    have "of_nat i = (0 :: ADDRINT) \<longleftrightarrow> i = 0" "of_nat i = (4 :: ADDRINT) \<longleftrightarrow> i = 4"
      using that of_nat_inverse[of i "of_nat i :: ADDRINT"] by (auto simp: unat_of_nat take_bit_nat_eq_self word_unat_eq_iff)
    then show ?thesis using assms(7)[of i] that by (simp add: sh)
  qed
  have z: "valid_tag T 0" "label_set T 0 = {}" using label_set_0[OF assms(1)] by simp_all
  obtain u T' where u: "get_mem_tag_range buf 8 sb = Inr (from_raw u, sb\<lparr>tables := T'\<rparr>)" "tables_ok T'" "room 0 T'" "extends T T'"
    "valid_tag T' u" "label_set T' u = (\<Union>i < 8. label_set T (shadow_of (tag_dir sb) (buf + of_nat i)))"
    by (rule mem_range_ok[where s = sb and n = 8 and k = 0 and va = buf]) (use assms ts cell z in auto)
  have "(\<Union>i < 8. label_set T (shadow_of (tag_dir sb) (buf + of_nat i))) = (\<Union>i < 8 :: nat. if i = 0 then {42} else if i = 4 then {7} else {})"
    using cell assms(5,6) z by (intro SUP_cong) auto
  also have "\<dots> = {7, 42}" by (auto split: if_splits)
  finally show ?thesis using that u by simp
qed

lemma buffer_range:
  fixes buf :: ADDRINT
  assumes "\<And>i. i < 16 \<Longrightarrow> file_tag_testb (buf + of_nat i)" "i < 16"
  shows "unat (buf + of_nat i) = unat buf + i"
proof -
  have "file_tag_testb buf" using assms(1)[of 0] by simp
  then have "unat buf \<le> 0x7fffffffffff" by (simp add: file_tag_testb_def max_addr_def word_le_nat_alt not_less split: if_splits)
  then show ?thesis using assms(2) by (simp add: unat_word_ariths unat_of_nat take_bit_nat_eq_self)
qed

lemma sample_run_dir: "tag_dir sample_run = empty_dir"
  by (simp add: sample_run_def lib_init_def libdft_setup_def setup_mnt_def mnt_init_def parse_policy_env_def setup_sdft_def libdft_core_init_def
        set_opaque_def sample_options_def sample_lib_env_def sample_lib_def lib_start_def mnt_start_def event_thread_init_def Let_def)

text \<open>
  C35. All fifteen checks of the unit-test client pass, in every library with a well-formed label table, twelve
  free labels and an untainted, shadowed test buffer; afterwards every shadow byte is what it was before.
\<close>

theorem unit_tests_pass:
  assumes "tables_ok (tables s)" "room 12 (tables s)"
    and "\<And>i. i < 16 \<Longrightarrow> file_tag_testb (buf + of_nat i) \<and> shadow_of (tag_dir s) (buf + of_nat i) = 0"
  shows "\<exists>s'. unit_event_exit buf \<lparr>g_pass = 0, g_fail = 0\<rparr> s = Inr (True, \<lparr>g_pass = 15, g_fail = 0\<rparr>, s')
     \<and> shadow_of (tag_dir s') = shadow_of (tag_dir s)"
proof -
  have r: "room (4 + 8) (tables s)" using assms(2) by simp
  obtain a b u T1 T2 T3 T where t: "make_tag 42 s = (from_raw a, s\<lparr>tables := T1\<rparr>)"
    "make_tag 7 (s\<lparr>tables := T1\<rparr>) = (from_raw b, s\<lparr>tables := T2\<rparr>)"
    "combine (from_raw a) (from_raw b) (s\<lparr>tables := T2\<rparr>) = Inr (from_raw u, s\<lparr>tables := T3\<rparr>)"
    "combine (from_raw b) (from_raw a) (s\<lparr>tables := T3\<rparr>) = Inr (from_raw u, s\<lparr>tables := T\<rparr>)"
    and T1: "tables_ok T1" "valid_tag T1 a" "label_set T1 a = {42}"
    and T: "tables_ok T" "room 8 T" "extends (tables s) T" "valid_tag T a" "valid_tag T b" "valid_tag T u"
    "label_set T a = {42}" "label_set T b = {7}" "label_set T u = {7, 42}"
    by (rule unit_tags[OF assms(1) r])
  define sb where "sb = set_mem_tag (buf + 4) (from_raw b) (set_mem_tag buf (from_raw a) (s\<lparr>tables := T\<rparr>))"
  obtain v T' where v: "get_mem_tag_range buf 8 sb = Inr (from_raw v, sb\<lparr>tables := T'\<rparr>)" "tables_ok T'" "extends T T'"
    "valid_tag T' v" "label_set T' v = {7, 42}"
    unfolding sb_def by (rule unit_memory[OF T(1,2,4,5,7,8) assms(3)])
  have uv: "v = u"
    using label_set_inject[OF v(2,4) extends_valid[OF v(3) T(6)]] v(5) extends_label[OF v(3) T(6)] T(9) by simp
  define sz where "sz = clear_mem buf 16 (sb\<lparr>tables := T'\<rparr>)"
  have test: "file_tag_testb buf" "file_tag_testb (buf + 4)" using assms(3)[of 0] assms(3)[of 4] by simp_all
  have zero: "shadow_of (tag_dir sz) x = shadow_of (tag_dir s) x" for x
  proof (cases "file_tag_testb x")
    case True
    have sb: "shadow_of (tag_dir sb) x = (if x = buf + 4 then b else if x = buf then a else shadow_of (tag_dir s) x)"
      using test by (simp add: sb_def set_mem_tag_def mem_wr_def to_internal_def)
    have sz: "shadow_of (tag_dir sz) x = (if unat buf \<le> unat x \<and> unat x < unat buf + 16 then 0 else shadow_of (tag_dir sb) x)"
      using shadow_clear_mem[OF True, of buf 16 "sb\<lparr>tables := T'\<rparr>"] by (simp add: sz_def)
    show ?thesis
    proof (cases "unat buf \<le> unat x \<and> unat x < unat buf + 16")
      case True
      define i where "i = unat x - unat buf"
      have "x = buf + of_nat i" using True by (simp add: i_def word_unat_eq_iff unat_word_ariths unat_of_nat)
      moreover have "i < 16" using True unfolding i_def by linarith
      ultimately
      show ?thesis using assms(3)[of i] True sz by simp
    next
      case False
      moreover have "unat (buf + 4) = unat buf + 4" using buffer_range[of buf 4] assms(3) by simp
      ultimately show ?thesis using sz sb by auto
    qed
  qed (simp add: shadow_of_def dirstore.getb_view)
  have m: "get_mem_tag buf (set_mem_tag buf (from_raw a) (s\<lparr>tables := T\<rparr>)) = Inr (from_raw a)"
    "get_mem_tag buf sz = Inr empty_tag" "get_mem_tag (buf + 4) sz = Inr empty_tag"
    using test assms(3)[of 0] assms(3)[of 4]
    by (simp_all add: get_mem_tag_eq zero set_mem_tag_def mem_wr_def to_internal_def empty_tag_def)
  have k: "tag_empty empty_tag" "to_string empty_tag s = ''{}''" "\<not> tag_empty (from_raw a)"
    by (simp_all add: tag_empty_def empty_tag_def to_string_def to_internal_def tag_sprint_def)
       (use tag_nonempty[OF T1(1,2)] T1(3) in \<open>auto simp: tag_empty_def\<close>)
  have "str_contains ''42'' (to_string (from_raw a) (s\<lparr>tables := T1\<rparr>))" by (rule to_string_42) (use T1 in simp_all)
  moreover have "enumerate (from_raw u) unit_visitor (0, 0, 0) (s\<lparr>tables := T\<rparr>) = (1, 1, 2)" by (rule enumerate_two) (use T in simp_all)
  ultimately have "run_unit_tests buf \<lparr>g_pass = 0, g_fail = 0\<rparr> s = Inr (\<lparr>g_pass = 15, g_fail = 0\<rparr>, sz)"
    using m k v(1) uv
    by (simp add: run_unit_tests_def t combine_trivial EXPECT_True Let_def sb_def[symmetric] sz_def[symmetric])
  then show ?thesis using zero by (auto simp: unit_event_exit_def fun_eq_iff)
qed

theorem unit_tests_pass_witness:
  "\<exists>s'. unit_event_exit 0x1000 \<lparr>g_pass = 0, g_fail = 0\<rparr> sample_run = Inr (True, \<lparr>g_pass = 15, g_fail = 0\<rparr>, s')"
proof -
  have t: "tables_ok (tables sample_run)" "room 12 (tables sample_run)"
    using tagmap_alloc_ok by (simp_all add: sample_run_reach(4) room_def tagmap_alloc_def)
  have d: "tag_dir sample_run = empty_dir" by (simp add: sample_run_dir)
  have "file_tag_testb (0x1000 + of_nat i)" if "i < 16" for i
  proof -
    have "unat (0x1000 + of_nat i :: ADDRINT) = 0x1000 + i" using that by (simp add: unat_word_ariths unat_of_nat take_bit_nat_eq_self)
    then show ?thesis using that by (simp add: file_tag_testb_def max_addr_def word_le_nat_alt word_less_nat_alt)
  qed
  with unit_tests_pass[OF t, of "0x1000"] d show ?thesis by auto
qed

section \<open>Lengths of printed numbers and sets\<close>

lemma dec_str_length: "n < 10 ^ Suc k \<Longrightarrow> length (dec_str n) \<le> Suc k"
proof (induction k arbitrary: n)
  case (Suc k)
  have "n div 10 < 10 ^ Suc k" using Suc.prems by (simp add: less_mult_imp_div_less)
  from Suc.IH[OF this] show ?case by (simp add: dec_str.simps[of n])
qed (simp add: dec_str.simps)

lemma hex_str_length: "n < 16 ^ Suc k \<Longrightarrow> length (hex_str n) \<le> Suc k"
proof (induction k arbitrary: n)
  case (Suc k)
  have "n div 16 < 16 ^ Suc k" using Suc.prems by (simp add: less_mult_imp_div_less)
  from Suc.IH[OF this] show ?case by (simp add: hex_str.simps[of n])
qed (simp add: hex_str.simps)

lemma word_str_length:
  fixes w :: UINT64
  shows "length (dec_str (unat w)) \<le> 20" "length (hex_str (unat w)) \<le> 16"
proof -
  have "unat w < 2 ^ 64" using unsigned_less[of w, where ?'a = nat] by simp
  then show "length (dec_str (unat w)) \<le> 20" "length (hex_str (unat w)) \<le> 16"
    using dec_str_length[of "unat w" 19] hex_str_length[of "unat w" 15] by simp_all
qed

lemma dec_str_nonempty: "0 < length (dec_str n)"
  by (simp add: dec_str.simps)

lemma commas_length: "xs \<noteq> [] \<Longrightarrow> length (commas xs) + 1 = sum_list (map length xs) + length xs"
  by (induction xs rule: commas.induct) auto

lemma print_set_length:
  assumes "finite X" "X \<noteq> {}"
  shows "2 * card X + 1 \<le> length (print_set X)"
proof -
  let ?xs = "map dec_str (sorted_list_of_set X)"
  have ne: "?xs \<noteq> []" and c: "length ?xs = card X" using assms by auto
  have "length ys \<le> sum_list (map length (map dec_str ys))" for ys
  proof (induction ys)
    case (Cons y ys)
    then show ?case using dec_str_nonempty[of y] by (simp del: length_greater_0_conv)
  qed simp
  from this[of "sorted_list_of_set X"] have "length ?xs \<le> sum_list (map length ?xs)" by simp
  with commas_length[OF ne] c show ?thesis by (simp add: print_set_def)
qed

section \<open>The dump of file_introspect\<close>

definition region_line :: "string \<Rightarrow> ADDRINT \<Rightarrow> UINT64 \<Rightarrow> nat set \<Rightarrow> string" where
  "region_line label va n X =
     (if n = 0 \<or> va = 0 then []
      else label @ '' [0x'' @ hex_str (unat va) @ ''..+'' @ dec_str (unat n) @ ''] -> '' @ print_set X @ [CHR 0x0A])"

text \<open>What is needed of a region that is not skipped.\<close>

definition region_ok :: "ADDRINT \<Rightarrow> UINT64 \<Rightarrow> bool" where
  "region_ok va n \<longleftrightarrow> n = 0 \<or> va = 0 \<or> (\<forall>i < unat n. file_tag_testb (va + of_nat i))"

lemma engine_ok_tables:
  assumes "engine_ok s" "tables_ok T" "extends (tables s) T"
  shows "engine_ok (s\<lparr>tables := T\<rparr>)" "taint_of (s\<lparr>tables := T\<rparr>) = taint_of s"
  using engine_ok_grow[OF assms] by simp_all

lemma dump_region_ok:
  assumes "engine_ok s" "room (unat n + k) (tables s)" "region_ok va n" "length label = 9"
  shows "\<exists>T. dump_region label va n (f, s) =
       Inr (f @ region_line label va n (\<Union>i < unat n. tmem (taint_of s) (va + of_nat i)), s\<lparr>tables := T\<rparr>)
     \<and> engine_ok (s\<lparr>tables := T\<rparr>) \<and> room k T \<and> taint_of (s\<lparr>tables := T\<rparr>) = taint_of s"
proof (cases "n = 0 \<or> va = 0")
  case True
  then show ?thesis using assms(1,2) by (intro exI[of _ "tables s"]) (auto simp: dump_region_def region_line_def room_def)
next
  case False
  have t: "tables_ok (tables s)" "\<And>i. valid_tag (tables s) (shadow_of (tag_dir s) i)" using assms(1) by (simp_all add: engine_ok_def)
  obtain u T where u: "get_mem_tag_range va (unat n) s = Inr (from_raw u, s\<lparr>tables := T\<rparr>)" "tables_ok T" "room k T" "extends (tables s) T"
    "valid_tag T u" "label_set T u = (\<Union>i < unat n. label_set (tables s) (shadow_of (tag_dir s) (va + of_nat i)))"
    by (rule mem_range_ok[OF t(1) assms(2), of va]) (use assms(3) False t(2) in \<open>auto simp: region_ok_def\<close>)
  have "to_string (from_raw u) (s\<lparr>tables := T\<rparr>) = print_set (label_set T u)"
    using tag_sprint_set[OF u(2,5)] by (simp add: to_string_def to_internal_def)
  moreover have "length (label @ '' [0x'' @ hex_str (unat va) @ ''..+'' @ dec_str (unat n) @ ''] -> '') \<le> 127"
    using word_str_length[of va] word_str_length[of n] assms(4) by simp
  ultimately show ?thesis using False u engine_ok_tables[OF assms(1) u(2,4)]
    by (intro exI[of _ T]) (simp add: dump_region_def region_line_def snprintf_buf_def taint_of_def)
qed

text \<open>
  C36. A hit of the introspection client writes one header and, for each region that is given, one line with
  the union of the sets of its bytes; the line buffers are never too short for their headers, and looking
  changes no taint.
\<close>

theorem introspect_dump:
  assumes "engine_ok s" "room (unat (op_size1 opt) + unat (op_size2 opt)) (tables s)"
    and "region_ok (op_addr1 opt) (op_size1 opt)" "region_ok (op_addr2 opt) (op_size2 opt)"
  shows "\<exists>s'. on_pc_hit opt pc (Some f, s) = Inr (Some (f @ ''hit pc=0x'' @ hex_str (unat pc) @ [CHR 0x0A]
       @ region_line ''  region1'' (op_addr1 opt) (op_size1 opt) (\<Union>i < unat (op_size1 opt). tmem (taint_of s) (op_addr1 opt + of_nat i))
       @ region_line ''  region2'' (op_addr2 opt) (op_size2 opt) (\<Union>i < unat (op_size2 opt). tmem (taint_of s) (op_addr2 opt + of_nat i))), s')
     \<and> engine_ok s' \<and> taint_of s' = taint_of s"
proof -
  have hdr: "snprintf_buf 64 (''hit pc=0x'' @ hex_str (unat pc) @ [CHR 0x0A]) = ''hit pc=0x'' @ hex_str (unat pc) @ [CHR 0x0A]"
    using word_str_length(2)[of pc] by (simp add: snprintf_buf_def)
  define h where "h = f @ ''hit pc=0x'' @ hex_str (unat pc) @ [CHR 0x0A]"
  define l where "l = region_line ''  region1'' (op_addr1 opt) (op_size1 opt) (\<Union>i < unat (op_size1 opt). tmem (taint_of s) (op_addr1 opt + of_nat i))"
  have len: "length ''  region1'' = 9" "length ''  region2'' = 9" by simp_all
  obtain T1 where 1: "dump_region ''  region1'' (op_addr1 opt) (op_size1 opt) (h, s) = Inr (h @ l, s\<lparr>tables := T1\<rparr>)"
    "engine_ok (s\<lparr>tables := T1\<rparr>)" "room (unat (op_size2 opt)) T1" "taint_of (s\<lparr>tables := T1\<rparr>) = taint_of s"
    using dump_region_ok[OF assms(1,2,3) len(1), of h] unfolding l_def by blast
  have r: "room (unat (op_size2 opt) + 0) (tables (s\<lparr>tables := T1\<rparr>))" using 1(3) by simp
  define l2 where "l2 = region_line ''  region2'' (op_addr2 opt) (op_size2 opt) (\<Union>i < unat (op_size2 opt). tmem (taint_of s) (op_addr2 opt + of_nat i))"
  obtain T2 where 2: "dump_region ''  region2'' (op_addr2 opt) (op_size2 opt) (h @ l, s\<lparr>tables := T1\<rparr>) = Inr ((h @ l) @ l2, s\<lparr>tables := T2\<rparr>)"
    "engine_ok (s\<lparr>tables := T2\<rparr>)" "taint_of (s\<lparr>tables := T2\<rparr>) = taint_of s"
    using dump_region_ok[OF 1(2) r assms(4) len(2), of "h @ l"] unfolding 1(4) l2_def by auto
  have "on_pc_hit opt pc (Some f, s) = rbind (dump_region ''  region1'' (op_addr1 opt) (op_size1 opt) (h, s)) (\<lambda>st1.
      rbind (dump_region ''  region2'' (op_addr2 opt) (op_size2 opt) st1) (\<lambda>(f', s'). Inr (Some f', s')))"
    by (simp only: on_pc_hit_def prod.case option.case Let_def hdr h_def)
  also have "\<dots> = Inr (Some (h @ l @ l2), s\<lparr>tables := T2\<rparr>)" by (simp add: 1(1) 2(1))
  finally show ?thesis using 2(2,3) unfolding h_def l_def l2_def append_assoc by blast
qed

text \<open>A library in which 256 bytes at 0x2000 were read from the start of the tracked file.\<close>

definition sample_args :: "nat \<Rightarrow> ADDRINT" where
  "sample_args i = (if i = 0 then 1 else if i = 1 then 0x2000 else if i = 2 then 256 else 0)"

lemma sample_painted:
  "\<exists>s. paint_loop 0x2000 0 256 sample_run = Inr s \<and> engine_ok s \<and> room 1000 (tables s)
     \<and> (\<forall>i < 256. file_tag_testb (0x2000 + of_nat i) \<and> tmem (taint_of s) (0x2000 + of_nat i) = {i})"
proof -
  have u: "unat (0x2000 + of_nat i :: ADDRINT) = 0x2000 + i" "unat (of_nat i :: ADDRINT) = i" if "i < 256" for i
    using that by (simp_all add: unat_word_ariths unat_of_nat take_bit_nat_eq_self)
  then have t: "file_tag_testb (0x2000 + of_nat i)" if "i < 256" for i
    using that by (simp add: file_tag_testb_def max_addr_def word_le_nat_alt word_less_nat_alt)
  have "engine_ok sample_run" using reach_inv[OF sample_run_reach(1)] by (simp add: run_inv_def)
  moreover have "room (256 + 1000) (tables sample_run)" by (simp add: sample_run_reach(4) room_def tagmap_alloc_def)
  moreover have "effect_ok (Paint 0x2000 0 256)" using t by simp
  ultimately obtain s where s: "paint_loop 0x2000 0 256 sample_run = Inr s" "engine_ok s" "room 1000 (tables s)"
    "taint_of s = apply_effect (Paint 0x2000 0 256) (taint_of sample_run)" by (rule paint_loop_ok)
  have "tmem (taint_of s) (0x2000 + of_nat i) = {i}" if "i < 256" for i
    using that u(2)[OF that] by (simp add: s(4))
  with s t show ?thesis by blast
qed

lemma sample_digits:
  "digit_char 0 = CHR ''0''" "digit_char 1 = CHR ''1''" "digit_char (Suc 0) = CHR ''1''" "digit_char 2 = CHR ''2''" "digit_char 4 = CHR ''4''"
  by code_simp+

theorem introspect_dump_witness:
  "\<exists>s s'. paint_loop 0x2000 0 256 sample_run = Inr s
     \<and> on_pc_hit \<lparr>in_filename = [], op_lo = 0x400, op_hi = 0x500, op_addr1 = 0x2000, op_size1 = 2, op_addr2 = 0, op_size2 = 8, in_outfile = []\<rparr> 0x400 (Some [], s)
       = Inr (Some (''hit pc=0x400'' @ [CHR 0x0A] @ ''  region1 [0x2000..+2] -> {0,1}'' @ [CHR 0x0A]), s')"
proof -
  let ?opt = "\<lparr>in_filename = [], op_lo = 0x400, op_hi = 0x500, op_addr1 = 0x2000, op_size1 = 2, op_addr2 = 0, op_size2 = 8, in_outfile = []\<rparr> :: introspect_options"
  obtain s where s: "paint_loop 0x2000 0 256 sample_run = Inr s" "engine_ok s" "room 1000 (tables s)"
    "\<forall>i < 256. file_tag_testb (0x2000 + of_nat i) \<and> tmem (taint_of s) (0x2000 + of_nat i) = {i}" using sample_painted by blast
  have "tmem (taint_of s) 0x2000 = {0}" "tmem (taint_of s) (0x2000 + 1) = {1}" "file_tag_testb 0x2000" "file_tag_testb (0x2000 + 1)"
    using s(4)[rule_format, of 0] s(4)[rule_format, of 1] by simp_all
  moreover have "{..<2} = {0, 1 :: nat}" by auto
  ultimately have u: "(\<Union>i < 2. tmem (taint_of s) (0x2000 + of_nat i)) = {0, 1}" "\<forall>i < 2. file_tag_testb (0x2000 + of_nat i)"
    by (auto simp: less_2_cases_iff)
  have st: "hex_str 0x400 = ''400''" "hex_str 0x2000 = ''2000''" "dec_str 2 = ''2''" "dec_str 0 = ''0''" "dec_str 1 = ''1''"
    by (simp_all add: hex_str.simps dec_str.simps sample_digits)
  have "sorted_list_of_set {0, 1 :: nat} = [0, 1]" using sorted_list_of_set.idem_if_sorted_distinct[of "[0, 1 :: nat]"] by simp
  then have "print_set {0, 1} = ''{0,1}''" by (simp add: print_set_def st del: One_nat_def)
  then have l: "region_line ''  region1'' 0x2000 2 {0, 1} = ''  region1 [0x2000..+2] -> {0,1}'' @ [CHR 0x0A]" "region_line ''  region2'' 0 8 X = []" for X
    by (simp_all add: region_line_def st)
  have "room (unat (op_size1 ?opt) + unat (op_size2 ?opt)) (tables s)" "region_ok (op_addr1 ?opt) (op_size1 ?opt)" "region_ok (op_addr2 ?opt) (op_size2 ?opt)"
    using s(3) u(2) by (simp_all add: room_def region_ok_def)
  from introspect_dump[OF s(2) this, of "0x400" "[]"] s(1) show ?thesis by (auto simp: u(1) l l[unfolded One_nat_def] st)
qed

section \<open>The alerts of egress_sanitizer\<close>

lemma any_tainted_eq:
  assumes "\<And>j. i \<le> j \<Longrightarrow> j < i + n \<Longrightarrow> file_tag_testb (p + of_nat j)"
  shows "any_tainted p i n s = Inr (\<exists>j. i \<le> j \<and> j < i + n \<and> shadow_of (tag_dir s) (p + of_nat j) \<noteq> 0)"
  using assms
proof (induction n arbitrary: i)
  case (Suc n)
  have i: "mem_rd (p + of_nat i) s = Inr (shadow_of (tag_dir s) (p + of_nat i))" using Suc.prems[of i] by (simp add: mem_rd_def)
  show ?case
  proof (cases "shadow_of (tag_dir s) (p + of_nat i) = 0")
    case True
    have "(\<exists>j. Suc i \<le> j \<and> j < Suc i + n \<and> shadow_of (tag_dir s) (p + of_nat j) \<noteq> 0) \<longleftrightarrow>
        (\<exists>j. i \<le> j \<and> j < i + Suc n \<and> shadow_of (tag_dir s) (p + of_nat j) \<noteq> 0)"
      using True by (metis Suc_le_eq add_Suc_right add_Suc_shift le_eq_less_or_eq)
    then show ?thesis using Suc.IH[of "Suc i"] Suc.prems i True by simp
  next
    case False
    then show ?thesis using i by auto
  qed
qed simp

text \<open>The effect of one alert on the log file.\<close>

definition alert_written :: "string \<Rightarrow> string option \<Rightarrow> string option res" where
  "alert_written line out =
     (if length line \<ge> 2 ^ 31 then Inr out
      else case out of
        None \<Rightarrow> Inr None
      | Some f \<Rightarrow>
          if length line < 512 then Inr (Some (f @ line))
          else if length line = 512 then Inr (Some (f @ take 511 line @ [CHR 0x00]))
          else Inl OutOfRange)"

lemma write_step:
  "(if 0 < length (alert_line args ls) \<and> length (alert_line args ls) < 2 ^ 31 then
      (case out of None \<Rightarrow> Inr None
       | Some f \<Rightarrow> rbind (write_line (length (alert_line args ls)) (alert_line args ls) f) (\<lambda>f'. Inr (Some f')))
    else Inr out) = alert_written (alert_line args ls) out"
proof -
  let ?line = "alert_line args ls"
  have "take (length ?line) (snprintf_buf 512 ?line @ [CHR 0x00]) = (if length ?line < 512 then ?line else take 511 ?line @ [CHR 0x00])"
    if "length ?line \<le> 512" using that by (auto simp: snprintf_buf_def)
  moreover have "0 < length ?line" by (simp add: alert_line_def)
  ultimately show ?thesis by (auto simp: alert_written_def write_line_def not_le split: option.split)
qed

text \<open>
  C37. The exact behaviour of the egress sanitizer at a call of write, for a buffer of n bytes whose union of
  offsets is X. An untainted buffer is ignored. A tainted one is counted and the alert line, which lists
  all of X, is appended to the log if it fits into the line buffer of 512 bytes; a line that fills the
  buffer exactly loses its last character, and for a longer one the client writes the log from beyond the
  end of the buffer. No alert changes the taint.
\<close>

theorem egress_on_write:
  assumes "engine_ok s" "args 1 \<noteq> 0" "args 2 \<noteq> 0" "room (unat (args 2)) (tables s)"
    and "\<And>i. i < unat (args 2) \<Longrightarrow> file_tag_testb (args 1 + of_nat i)"
    and "X = (\<Union>i < unat (args 2). tmem (taint_of s) (args 1 + of_nat i))"
  shows "if X = {} then on_write args (c, s) = Inr (c, s)
     else case alert_written (alert_line args (print_set X)) (eg_out c) of
            Inl e \<Rightarrow> on_write args (c, s) = Inl e
          | Inr out \<Rightarrow> \<exists>s'. on_write args (c, s) = Inr (c\<lparr>eg_out := out, g_alerts := g_alerts c + 1\<rparr>, s')
              \<and> engine_ok s' \<and> taint_of s' = taint_of s"
proof -
  define n where "n = unat (args 2)"
  have n0: "n \<noteq> 0" using assms(3) by (simp add: n_def unat_eq_0)
  have t: "tables_ok (tables s)" "\<And>a. valid_tag (tables s) (shadow_of (tag_dir s) a)" using assms(1) by (simp_all add: engine_ok_def)
  have X: "X = (\<Union>i < n. label_set (tables s) (shadow_of (tag_dir s) (args 1 + of_nat i)))"
    by (simp add: assms(6) n_def taint_of_def)
  have any: "any_tainted (args 1) 0 n s = Inr (X \<noteq> {})"
  proof -
    have "label_set (tables s) (shadow_of (tag_dir s) a) = {} \<longleftrightarrow> shadow_of (tag_dir s) a = 0" for a
      using label_set_inject[OF t(1) t(2), of 0 a] label_set_0[OF t(1)] by auto
    then show ?thesis using any_tainted_eq[of 0 n "args 1" s] assms(5) by (auto simp: X n_def)
  qed
  have r: "room (n + 0) (tables s)" using assms(4) by (simp add: n_def)
  obtain u T where u: "for_upto n (union_step (args 1)) (0, s) = Inr (u, s\<lparr>tables := T\<rparr>)" "tables_ok T" "extends (tables s) T"
    "valid_tag T u" "label_set T u = X"
    using union_steps[OF t(1) r, of "args 1"] assms(5) t(2) by (auto simp: X n_def)
  have str: "to_string (from_raw u) (s\<lparr>tables := T\<rparr>) = print_set X"
    using tag_sprint_set[OF u(2,4)] u(5) by (simp add: to_string_def to_internal_def)
  let ?line = "alert_line args (print_set X)"
  have eq: "on_write args (c, s) = (if X = {} then Inr (c, s)
      else rbind (alert_written ?line (eg_out c)) (\<lambda>out. Inr (c\<lparr>eg_out := out, g_alerts := g_alerts c + 1\<rparr>, s\<lparr>tables := T\<rparr>)))"
    unfolding on_write_def sink_arg_def n_def[symmetric] arg_pointed_is_tainted_def arg_pointed_tag_def Let_def prod.case write_step
    using assms(2) n0 any u(1) by (simp add: str)
  show ?thesis
  proof (cases "X = {}")
    case False
    then show ?thesis using eq engine_ok_tables[OF assms(1) u(2,3)] by (cases "alert_written ?line (eg_out c)") auto
  qed (use eq in simp)
qed

lemma sum_le_const: "\<forall>x \<in> set xs. f x \<le> (k :: nat) \<Longrightarrow> sum_list (map f xs) \<le> k * length xs"
  by (induction xs) auto

lemma print_set_length_le:
  assumes "finite X" "X \<noteq> {}" "\<forall>x \<in> X. x < 10 ^ Suc k"
  shows "length (print_set X) \<le> Suc (Suc k) * card X + 1"
proof -
  let ?xs = "sorted_list_of_set X"
  have ne: "map dec_str ?xs \<noteq> []" and c: "length ?xs = card X" using assms by auto
  have "sum_list (map (\<lambda>x. length (dec_str x)) ?xs) \<le> Suc k * length ?xs"
    by (rule sum_le_const) (use assms(1,3) dec_str_length in auto)
  then show ?thesis using commas_length[OF ne] c by (simp add: print_set_def comp_def)
qed

theorem egress_on_write_witness:
  "\<exists>s. paint_loop 0x2000 0 256 sample_run = Inr s
     \<and> on_write sample_args (\<lparr>eg_out = Some [], g_alerts = 0\<rparr>, s) = Inl OutOfRange"
proof -
  obtain s where s: "paint_loop 0x2000 0 256 sample_run = Inr s" "engine_ok s" "room 1000 (tables s)"
    "\<forall>i < 256. file_tag_testb (0x2000 + of_nat i) \<and> tmem (taint_of s) (0x2000 + of_nat i) = {i}" using sample_painted by blast
  let ?X = "{..<256} :: nat set"
  have a: "sample_args 1 = 0x2000" "sample_args 2 = 256" "room (unat (sample_args 2)) (tables s)"
    using s(3) by (simp_all add: sample_args_def room_def)
  have X: "?X = (\<Union>i < unat (sample_args 2). tmem (taint_of s) (sample_args 1 + of_nat i))" using s(4) unfolding a by simp
  have "0 \<in> ?X" by simp
  then have ne: "?X \<noteq> {}" by blast
  have p: "513 \<le> length (print_set ?X)" "length (print_set ?X) \<le> 1025"
    using print_set_length[OF _ ne] print_set_length_le[OF _ ne, of 2] by simp_all
  have "length (alert_line sample_args ls) \<le> 100 + length ls" "length ls \<le> length (alert_line sample_args ls)" for ls
    using word_str_length[of "sample_args 1"] word_str_length[of "sample_args 2"]
      dec_str_length[of 1 0] by (simp_all add: alert_line_def int2str_def sample_args_def sink_arg_def)
  from this[of "print_set ?X"] p
  have "512 < length (alert_line sample_args (print_set ?X))" "length (alert_line sample_args (print_set ?X)) < 2147483648"
    by linarith+
  then have "alert_written (alert_line sample_args (print_set ?X)) (Some []) = Inl OutOfRange" by (simp add: alert_written_def)
  then show ?thesis using ne egress_on_write[OF s(2) _ _ a(3) _ X, of "\<lparr>eg_out = Some [], g_alerts = 0\<rparr>"] s(1,4) a by auto
qed

section \<open>Function sinks and modules\<close>

text \<open>The callbacks of the other subsystems leave the function sinks alone.\<close>

definition sinks_kept :: "'a lib_state_scheme \<Rightarrow> 'a lib_state_scheme \<Rightarrow> bool" where
  "sinks_kept u v \<longleftrightarrow> func_wraps v = func_wraps u \<and> load_events v = load_events u
     \<and> g_pending_func_sinks v = g_pending_func_sinks u \<and> sink_log v = sink_log u"

lemma other_cb_keeps:
  assumes "cb \<noteq> Func_sink_on_module_load"
  shows "sinks_kept u (run_module_cb L info cb u)"
proof -
  have "sinks_kept v (fold (enum_sym_cb b pa) xs v)" for b pa xs and v :: "'a lib_state_scheme"
    by (induction xs arbitrary: v) (auto simp: sinks_kept_def enum_sym_cb_def Let_def split: option.split)
  with assms show ?thesis by (cases cb) (auto simp: sinks_kept_def sdft_event_module_load_def split: option.split)
qed

lemma module_loaded_no_sinks:
  assumes "Func_sink_on_module_load \<notin> set (load_events s)"
  shows "sinks_kept s (module_loaded L info s)"
proof -
  have "sinks_kept u (fold (run_module_cb L info) cbs u)"
    if "Func_sink_on_module_load \<notin> set cbs" for cbs and u :: "'a lib_state_scheme"
    using that
  proof (induction cbs arbitrary: u)
    case (Cons cb cbs)
    then have "cb \<noteq> Func_sink_on_module_load" by auto
    with other_cb_keeps[OF this, of u L info] Cons show ?case by (simp add: sinks_kept_def)
  qed (simp add: sinks_kept_def)
  with assms show ?thesis by (simp add: module_loaded_def)
qed

lemma modules_loaded_no_sinks:
  "Func_sink_on_module_load \<notin> set (load_events s) \<Longrightarrow> sinks_kept s (fold (module_loaded L) infos s)"
proof (induction infos arbitrary: s)
  case (Cons i infos)
  from Cons.IH[of "module_loaded L i s"] module_loaded_no_sinks[OF Cons.prems, of L i] Cons.prems show ?case by (simp add: sinks_kept_def)
qed (simp add: sinks_kept_def)

lemma init_func_sinks:
  assumes "\<not> g_initialized s" "lib_init L opts s = Inr (r, s')"
  shows "r" "g_pending_func_sinks s' = g_pending_func_sinks s"
    "func_wraps s' = fold (wrap_pc_sink L) (g_pending_func_sinks s) (func_wraps s)"
    "Func_sink_on_module_load \<in> set (load_events s') \<longleftrightarrow>
       Func_sink_on_module_load \<in> set (load_events s) \<or> g_pending_func_sinks s \<noteq> []"
proof -
  define s1 where "s1 = s\<lparr>environ := set_opaque (opaque_modules opts) (environ s), mmap_type := (mmap_paint_method opts \<noteq> 0),
      limit_offset := max_offset_per_byte opts\<rparr>"
  obtain s2 where 2: "libdft_setup L s1 = Inr s2" "r" "s' = s2\<lparr>g_initialized := True\<rparr>"
    using assms by (auto simp: lib_init_def s1_def Let_def rbind_eq_Inr_iff)
  obtain d a l where sd: "sdft_values L (environ s1) (sdft s1) (s_active s1) = (d, a, l)"
    by (cases "sdft_values L (environ s1) (sdft s1) (s_active s1)")
  then have l: "Func_sink_on_module_load \<notin> set l" by (auto simp: sdft_values_def split: if_splits prod.splits bool.splits)
  have k: "g_pending_func_sinks s1 = g_pending_func_sinks s" "func_wraps s1 = func_wraps s" "load_events s1 = load_events s"
    by (simp_all add: s1_def)
  have "tls_slot L \<noteq> - 1" using 2(1) by (auto simp: libdft_setup_def libdft_die_def Let_def)
  then have "g_pending_func_sinks s2 = g_pending_func_sinks s1" "func_wraps s2 = fold (wrap_pc_sink L) (g_pending_func_sinks s1) (func_wraps s1)"
    "set (load_events s2) = set (load_events s1) \<union> (if s_inited (mnt s1) \<or> s_policy (mnt_init ((mnt_files L)\<lparr>getenv := environ s1\<rparr>) (mnt s1)) = POLICY_OFF
        then {} else {On_module_load}) \<union> set l \<union> (if g_pending_func_sinks s1 = [] then {} else {Func_sink_on_module_load})"
    using 2(1) by (auto simp: setup_eqs Let_def sd)
  with 2(3) l k show "r" "g_pending_func_sinks s' = g_pending_func_sinks s"
    "func_wraps s' = fold (wrap_pc_sink L) (g_pending_func_sinks s) (func_wraps s)"
    "Func_sink_on_module_load \<in> set (load_events s') \<longleftrightarrow>
       Func_sink_on_module_load \<in> set (load_events s) \<or> g_pending_func_sinks s \<noteq> []"
    using 2(2) by auto
qed

text \<open>
  C38. The sanitizer never alerts: it registers its sink on write after \<^verbatim>\<open>init\<close>, which installs the module event
  that resolves function sinks only if one is already registered. From then on no module that is loaded
  makes the library wrap a function, and the callback of the client runs at no address.
\<close>

theorem egress_never_wraps:
  assumes "\<not> g_initialized s0" "g_pending_func_sinks s0 = []" "Func_sink_on_module_load \<notin> set (load_events s0)" "func_wraps s0 = {}"
    and "egress_main opens opt L s0 = Inr (c, s)"
  shows "func_wraps (fold (module_loaded L) infos s) = {}
     \<and> sink_log (func_sink_pre pc (fold (module_loaded L) infos s)) = sink_log (fold (module_loaded L) infos s)"
proof -
  obtain s2 where 2: "lib_init L default_init_options (s0\<lparr>exit_events := exit_events s0 + 1\<rparr>) = Inr (True, s2)"
    and s: "s = snd (register_func_sink ''write'' ''libc.so.6'' write_cb
        (if eg_filename opt \<noteq> [] then register_file_source (default_file_source (eg_filename opt)) s2 else s2))"
    using assms(5) by (auto simp: egress_main_def Let_def rbind_eq_Inr_iff split: if_split_asm)
  note i = init_func_sinks[OF _ 2]
  have s: "Func_sink_on_module_load \<notin> set (load_events s)" "func_wraps s = {}" "map sink_pc (g_pending_func_sinks s) = [0]"
    using s i assms(1-4) by (auto simp: register_func_sink_def register_file_source_def)
  define s' where "s' = fold (module_loaded L) infos s"
  have m: "func_wraps s' = {}" "map sink_pc (g_pending_func_sinks s') = [0]"
    using modules_loaded_no_sinks[OF s(1), of L infos] s(2,3) by (simp_all add: s'_def sinks_kept_def)
  then have "\<forall>e \<in> set (g_pending_func_sinks s'). sink_pc e = 0" by (cases "g_pending_func_sinks s'") auto
  then have "sink_log (func_sink_pre pc s') = sink_log s'" by (simp add: func_sink_pre_def filter_empty_conv)
  with m show ?thesis by (simp add: s'_def)
qed

definition sample_symbols :: lib_env where
  "sample_symbols = sample_lib_env\<lparr>lookup_symbol := (\<lambda>_ f. if f = ''write'' then Some 0x40 else None)\<rparr>"

definition sample_libc :: module_data where
  "sample_libc = \<lparr>full_path = Some ''libc.so.6'', mod_start = 0x7000, mod_end = 0x8000\<rparr>"

theorem egress_never_wraps_witness:
  "\<exists>c s. egress_main (\<lambda>_. True) \<lparr>eg_filename = ''secret'', eg_outfile = []\<rparr> sample_symbols sample_lib = Inr (c, s)
     \<and> func_wraps (module_loaded sample_symbols sample_libc s) = {}
     \<and> sink_log (func_sink_pre 0x7040 (module_loaded sample_symbols sample_libc s)) = sink_log (module_loaded sample_symbols sample_libc s)"
proof -
  have i: "\<not> g_initialized sample_lib" "g_pending_func_sinks sample_lib = []" "Func_sink_on_module_load \<notin> set (load_events sample_lib)"
    "func_wraps sample_lib = {}" by (simp_all add: sample_lib_def lib_start_def)
  have "tls_slot sample_symbols \<noteq> - 1" by (simp add: sample_symbols_def sample_lib_env_def)
  then obtain c s where e: "egress_main (\<lambda>_. True) \<lparr>eg_filename = ''secret'', eg_outfile = []\<rparr> sample_symbols sample_lib = Inr (c, s)"
    using i(1) by (simp add: egress_main_def lib_init_def libdft_setup_def Let_def)
  from egress_never_wraps[where infos = "[sample_libc]" and pc = "0x7040", OF i e] e show ?thesis by auto
qed

end
