(* ===== verification/Func_Sinks.thy ===== *)
theory Func_Sinks
  imports Client_Checks
begin

text \<open>
  Function sinks along whole runs: a sink that is registered by name before \<^verbatim>\<open>init\<close> waits for a module that
  has its name and defines its function; that module captures it, and from then on every call of the
  function runs the callback, whatever happens in between.
\<close>

section \<open>Capture by a module\<close>

text \<open>A pending sink after it was resolved to the address pc.\<close>

definition resolved :: "sink_cb \<Rightarrow> ADDRINT \<Rightarrow> 'a lib_state_scheme \<Rightarrow> bool" where
  "resolved cb pc s \<longleftrightarrow> pc \<in> func_wraps s \<and> (\<exists>e \<in> set (g_pending_func_sinks s). func_cb e = cb \<and> sink_pc e = pc)"

lemma resolve_sinks_mono:
  "resolve_sinks L path start es W = (es', W') \<Longrightarrow> W \<subseteq> W'
     \<and> (e \<in> set es \<longrightarrow> sink_pc e \<noteq> 0 \<longrightarrow> e \<in> set es')"
proof (induction es arbitrary: es' W W')
  case (Cons x xs)
  obtain x' W1 where x: "resolve_sink L path start x W = (x', W1)" by fastforce
  obtain xs' W2 where xs: "resolve_sinks L path start xs W1 = (xs', W2)" by fastforce
  have "W \<subseteq> W1" "sink_pc x \<noteq> 0 \<longrightarrow> x' = x"
    using x by (auto simp: resolve_sink_def Let_def split: if_splits option.splits)
  with Cons.IH[OF xs] Cons.prems x xs show ?case by auto
qed simp

lemma resolve_sinks_hit:
  assumes "resolve_sinks L path start es W = (es', W')" "e \<in> set es" "func_name e \<noteq> []" "sink_pc e = 0"
    and "module_basename e = [] \<or> module_basename e = basename_of path" "lookup_symbol L path (func_name e) = Some off" "off \<noteq> 0"
    and "\<And>W. drwrap_wrap L W (start + off)"
  shows "start + off \<in> W' \<and> (\<exists>e' \<in> set es'. func_cb e' = func_cb e \<and> sink_pc e' = start + off)"
  using assms(1,2)
proof (induction es arbitrary: es' W W')
  case (Cons x xs)
  obtain x' W1 where x: "resolve_sink L path start x W = (x', W1)" by fastforce
  obtain xs' W2 where xs: "resolve_sinks L path start xs W1 = (xs', W2)" by fastforce
  have r: "es' = x' # xs'" "W' = W2" using Cons.prems(1) x xs by auto
  show ?case
  proof (cases "e = x")
    case True
    then have "x' = x\<lparr>sink_pc := start + off\<rparr>" "start + off \<in> W1"
      using x assms(3-8) by (auto simp: resolve_sink_def Let_def)
    moreover have "W1 \<subseteq> W2" using resolve_sinks_mono[OF xs] by blast
    ultimately show ?thesis using r True by auto
  next
    case False
    with Cons.IH[OF xs] Cons.prems(2) r show ?thesis by auto
  qed
qed simp

lemma sinks_on_module_load:
  fixes u :: "'a lib_state_scheme"
  assumes "full_path info = Some path" "mod_start info + off \<noteq> 0" "u' = func_sink_on_module_load L info u"
  shows "e \<in> set (g_pending_func_sinks u) \<Longrightarrow> func_name e \<noteq> [] \<Longrightarrow> sink_pc e = 0 \<Longrightarrow>
      module_basename e = [] \<or> module_basename e = basename_of path \<Longrightarrow> lookup_symbol L path (func_name e) = Some off \<Longrightarrow>
      off \<noteq> 0 \<Longrightarrow> (\<And>W. drwrap_wrap L W (mod_start info + off)) \<Longrightarrow> resolved (func_cb e) (mod_start info + off) u'"
  using resolve_sinks_hit[of L path "mod_start info"] assms by (fastforce simp: func_sink_on_module_load_def resolved_def split: prod.split)

lemma resolved_module_load:
  fixes u :: "'a lib_state_scheme"
  assumes "resolved cb pc u" "pc \<noteq> 0"
  shows "resolved cb pc (func_sink_on_module_load L info u)"
proof -
  obtain x where x: "x \<in> set (g_pending_func_sinks u)" "func_cb x = cb" "sink_pc x = pc" "pc \<in> func_wraps u"
    using assms(1) by (auto simp: resolved_def)
  with resolve_sinks_mono[where e = x] assms(2) show ?thesis
    by (fastforce simp: func_sink_on_module_load_def resolved_def split: prod.split)
qed

text \<open>The callbacks for a loaded module: a captured sink stays captured, and a waiting one is captured if the module fits.\<close>

lemma module_loaded_resolved:
  fixes u :: "'a lib_state_scheme"
  assumes "resolved cb pc u \<or> Func_sink_on_module_load \<in> set (load_events u) \<and> P (g_pending_func_sinks u)" "pc \<noteq> 0"
    and "\<And>v :: 'a lib_state_scheme. P (g_pending_func_sinks v) \<Longrightarrow> resolved cb pc (func_sink_on_module_load L info v)"
  shows "resolved cb pc (module_loaded L info u)"
proof -
  have "resolved cb pc (fold (run_module_cb L info) cbs v)"
    if "resolved cb pc v \<or> Func_sink_on_module_load \<in> set cbs \<and> P (g_pending_func_sinks v)" for cbs and v :: "'a lib_state_scheme"
    using that
  proof (induction cbs arbitrary: v)
    case (Cons c cbs)
    show ?case
    proof (cases "c = Func_sink_on_module_load")
      case True
      with Cons.prems resolved_module_load[OF _ assms(2), of cb v L info] assms(3)[of v] Cons.IH[of "func_sink_on_module_load L info v"] show ?thesis by auto
    next
      case False
      from Cons.prems other_cb_keeps[OF False, of v L info] False Cons.IH show ?thesis by (auto simp: sinks_kept_def resolved_def)
    qed
  qed simp
  with assms(1) show ?thesis by (simp add: module_loaded_def)
qed

lemma module_loaded_events: "load_events (module_loaded L info s) = load_events s"
proof -
  have "load_events (fold (run_module_cb L info) cbs v) = load_events v" for cbs and v :: "'a lib_state_scheme"
  proof (induction cbs arbitrary: v)
    case (Cons c cbs)
    have "load_events (run_module_cb L info c v) = load_events v"
      using other_cb_keeps[of c v L info]
      by (cases "c = Func_sink_on_module_load") (auto simp: sinks_kept_def func_sink_on_module_load_def split: prod.split)
    with Cons show ?case by simp
  qed simp
  then show ?thesis by (simp add: module_loaded_def)
qed

section \<open>All other events\<close>

text \<open>What the function sinks rest on: the wrapped functions, the module events and the entries.\<close>

definition waits :: "'a lib_state_scheme \<Rightarrow> 'a lib_state_scheme \<Rightarrow> bool" where
  "waits s s' \<longleftrightarrow> func_wraps s' = func_wraps s \<and> load_events s' = load_events s
     \<and> set (g_pending_func_sinks s) \<subseteq> set (g_pending_func_sinks s')"

lemma waits_resolved: "waits s s' \<Longrightarrow> resolved cb pc s \<Longrightarrow> resolved cb pc s'"
  by (auto simp: waits_def resolved_def)

lemma waits_more:
  fixes s s' :: "'a lib_state_scheme"
  assumes "g_pending_func_sinks s' = g_pending_func_sinks s" "sys_state.more s' = sys_state.more s"
  shows "waits s s'"
  using assms by (cases s; cases s') (simp add: waits_def)

lemma waits_rest:
  fixes s s' :: "'a lib_state_scheme"
  shows "rest s' = rest s \<Longrightarrow> waits s s'"
  by (cases s; cases s') (simp add: waits_def rest_def)

lemma bb_waits: "waits s (snd (event_bb_insn D i b s))"
  by (auto simp: waits_def event_bb_insn_def Let_def split: prod.splits)

lemma event_waits:
  fixes s s' :: "'a lib_state_scheme"
  assumes "run_inv Z C H P s" "\<And>t. Z t < 2 ^ 32" "ev_ok C H e s" "run_event L client e s = Inr s'" "\<forall>info. e \<noteq> EvModuleLoad info"
  shows "waits s s'"
proof -
  have inv: "engine_ok s" "tls_idx s \<noteq> - 1" "syscall_desc s = syscall_desc_table Z" using assms(1) by (simp_all add: run_inv_def)
  show ?thesis
  proof (cases e)
    case (EvRun E cs)
    have ok: "live (cur_drcontext E') s \<and> call_ok E' c" if "(E', c) \<in> set (map (Pair E) cs)" for E' c
      using that assms(1,3) EvRun by (auto simp: run_inv_def call_ok_split list_all_iff)
    from run_trace_refines[where k = 0 and tr = "map (Pair E) cs", OF inv(1) ok] assms(3,4) EvRun waits_rest show ?thesis by auto
  next
    case (EvSummary E args sm)
    from sdft_pre_sound_step[of s E args sm 0] inv(1) assms(3,4) EvSummary
    have "side s' = side (count_call sm s)" by auto
    from waits_rest[OF rest_side[OF this]] show ?thesis by (simp add: waits_def count_call_def)
  next
    case (EvSyscall K K' dc n)
    show ?thesis
    proof (cases "event_filter_syscall n s")
      case True
      define d where "d = syscall_desc s ! nat n"
      obtain tc es where tc: "cur_thread_ctx dc s = Some tc"
        and es: "syscall_effects K' d ((saved_args K d n (syscall_ctx tc))\<lparr>ret := syscall_get_result K'\<rparr>) s = Inr es"
          "list_all effect_ok es" "room (sum_list (map effect_cost es)) (tables s)"
        using assms(3) EvSyscall True by (auto simp: event_effects_def d_def Let_def split: option.splits sum.splits)
      have "g_pending_func_sinks s' = g_pending_func_sinks s" "sys_state.more s' = sys_state.more s"
        using run_syscall_ok[OF inv(1) tc True d_def table_entry[OF inv(3) assms(2) True d_def] refl es(1,2), of 0 client] es(3)
          assms(4) EvSyscall by auto
      then show ?thesis by (rule waits_more)
    next
      case False
      then show ?thesis using EvSyscall assms(4) by (simp add: run_syscall_def waits_def)
    qed
  next
    case (EvApi E op)
    have a: "api_ok H op s" using assms(3) EvApi by simp
    have v: "\<And>t. t \<in> H \<Longrightarrow> valid_tag (tables s) (raw t)" using assms(1) by (auto simp: run_inv_def held_def)
    have "side s' = side s" using run_api_spec[OF inv(1) v a, of E] assms(4) EvApi by (auto simp: api_step_def)
    then show ?thesis by (rule waits_rest[OF rest_side])
  next
    case (EvRegister r)
    then show ?thesis using assms(4)
      by (cases r) (auto simp: waits_def register_sink_def register_pc_range_sink_def register_func_sink_def
          register_func_sink_pc_def register_file_source_def split: if_splits)
  next
    case (EvBuild D i)
    then show ?thesis using assms(4) bb_waits[of s D i "[]"] by simp
  qed (use assms(4,5) in \<open>auto simp: waits_def event_thread_init_def event_thread_exit_def func_sink_pre_def module_unloaded_def split: if_splits\<close>)
qed

lemma steps_resolved:
  fixes s s' :: "'a lib_state_scheme"
  assumes "lib_steps L client C H s C' H' s'" "run_inv Z C H P s" "\<And>t. Z t < 2 ^ 32" "pc \<noteq> 0"
  shows "(resolved cb pc s \<longrightarrow> resolved cb pc s') \<and> load_events s' = load_events s"
  using assms(1)
proof (induction rule: lib_steps.induct)
  case (further C1 H1 s1 e s2)
  obtain P1 where 1: "run_inv Z C1 H1 P1 s1" using lib_steps_inv[OF further.hyps(1) assms(2,3)] by blast
  show ?case
  proof (cases "\<exists>info. e = EvModuleLoad info")
    case True
    then obtain info where "s2 = module_loaded L info s1" using further.hyps(3) by auto
    with further.IH module_loaded_events[of L info s1] module_loaded_resolved[of cb pc s1 "\<lambda>_. False" L info] assms(4)
    show ?thesis by auto
  next
    case False
    then have "waits s1 s2" using event_waits[OF 1 assms(3) further.hyps(2,3)] by blast
    with further.IH waits_resolved[of s1 s2 cb pc] show ?thesis by (auto simp: waits_def)
  qed
qed simp

section \<open>The sink fires\<close>

text \<open>
  C39. A function sink that is registered by name before \<^verbatim>\<open>init\<close> works. Initialise the library, let any events
  follow, and load a module that has the name the sink asks for and defines its function, while the sink is
  still waiting, that is, no module loaded before has captured it. Let any events follow again, other modules
  included. In every configuration reached then the function is wrapped, and an entry to it adds a call of
  the callback to what the sinks are handed.
\<close>

theorem registered_func_sink_fires:
  assumes "pristine Z s0" "\<And>t. Z t < 2 ^ 32" "e \<in> set (g_pending_func_sinks s0)" "lib_init L opts s0 = Inr (r, s1)"
    and "lib_steps L client {} {empty_tag} s1 C2 H2 s2" "e \<in> set (g_pending_func_sinks s2)" "func_name e \<noteq> []" "sink_pc e = 0"
    and "full_path info = Some path" "module_basename e = [] \<or> module_basename e = basename_of path"
    and "lookup_symbol L path (func_name e) = Some off" "off \<noteq> 0" "pc = mod_start info + off" "pc \<noteq> 0" "\<And>W. drwrap_wrap L W pc"
    and "lib_steps L client C2 H2 (module_loaded L info s2) C3 H3 s3"
  shows "pc \<in> func_wraps s3
     \<and> (\<exists>s4 new. run_event L client (EvFuncSink pc) s3 = Inr s4 \<and> sink_log s4 = sink_log s3 @ new \<and> FuncSink (func_cb e) pc \<in> set new)"
proof -
  have "lib_reach L client Z {} {empty_tag} {} s1" by (rule lib_reach.initialised[OF assms(1,4)])
  then have 1: "run_inv Z {} {empty_tag} {} s1" by (rule reach_inv[OF _ assms(2)])
  obtain P2 where "run_inv Z C2 H2 P2 s2" using lib_steps_inv[OF assms(5) 1 assms(2)] by blast
  then have 2: "run_inv Z C2 H2 P2 (module_loaded L info s2)" by (rule run_inv_core[OF module_core(1)])
  have "\<not> g_initialized s0" using assms(1) by (simp add: pristine_def)
  then have "Func_sink_on_module_load \<in> set (load_events s1)" using init_func_sinks(4)[OF _ assms(4)] assms(3) by auto
  then have l: "Func_sink_on_module_load \<in> set (load_events s2)" using steps_resolved[OF assms(5) 1 assms(2,14)] by simp
  have "resolved (func_cb e) pc (module_loaded L info s2)"
    by (rule module_loaded_resolved[where P = "\<lambda>es. e \<in> set es", OF _ assms(14)])
       (use l assms(6) sinks_on_module_load[OF assms(9) _ refl _ assms(7,8,10,11,12)] assms(13-15) in auto)
  then have "resolved (func_cb e) pc s3" using steps_resolved[OF assms(16) 2 assms(2,14)] by blast
  then show ?thesis using assms(14) by (auto simp: resolved_def func_sink_pre_def image_iff)
qed

text \<open>The sink on write is registered, the library starts, a thread starts, libc is loaded, the thread exits.\<close>

theorem registered_func_sink_fires_witness:
  "\<exists>r s1 s4. lib_init sample_symbols sample_options (snd (register_func_sink ''write'' [] write_cb sample_lib)) = Inr (r, s1)
     \<and> run_events sample_symbols [EvThreadInit 7, EvModuleLoad sample_libc, EvThreadExit 7, EvFuncSink 0x7040] s1 = Inr s4
     \<and> FuncSink write_cb 0x7040 \<in> set (sink_log s4)"
proof -
  let ?s = "snd (register_func_sink ''write'' [] write_cb sample_lib)"
  let ?e = "\<lparr>func_name = ''write'', module_basename = [], sink_pc = 0, func_cb = write_cb\<rparr>"
  have p: "pristine (\<lambda>_. 16) ?s" by (simp add: pristine_def register_func_sink_def sample_lib_def lib_start_def)
  have i: "?e \<in> set (g_pending_func_sinks ?s)" "tls_slot sample_symbols \<noteq> - 1" "\<not> g_initialized ?s"
    by (simp_all add: register_func_sink_def sample_lib_def lib_start_def sample_symbols_def sample_lib_env_def)
  then obtain r s1 where s1: "lib_init sample_symbols sample_options ?s = Inr (r, s1)"
    by (auto simp: lib_init_def libdft_setup_def Let_def)
  let ?s2 = "event_thread_init 7 s1"
  let ?m = "module_loaded sample_symbols sample_libc ?s2"
  let ?s3 = "event_thread_exit 7 ?m"
  have l: "lookup_symbol sample_symbols ''libc.so.6'' ''write'' = Some 0x40" "full_path sample_libc = Some ''libc.so.6''"
    "mod_start sample_libc + 0x40 = 0x7040" "drwrap_wrap sample_symbols W q" for W q
    by (simp_all add: sample_symbols_def sample_lib_env_def sample_libc_def)
  have 2: "lib_steps sample_symbols no_hooks {} {empty_tag} s1 {} {empty_tag} ?s2"
    using lib_steps.further[OF lib_steps.here, where e = "EvThreadInit 7" and L = sample_symbols and client = no_hooks
        and C = "{}" and H = "{empty_tag}" and s = s1] by simp
  have 3: "lib_steps sample_symbols no_hooks {} {empty_tag} ?m {} {empty_tag} ?s3"
    using lib_steps.further[OF lib_steps.here, where e = "EvThreadExit 7" and L = sample_symbols and client = no_hooks
        and C = "{}" and H = "{empty_tag}" and s = ?m] by simp
  have w: "?e \<in> set (g_pending_func_sinks ?s2)" using init_func_sinks(2)[OF i(3) s1] i(1) by (simp add: event_thread_init_def)
  have "0x7040 \<in> func_wraps ?s3 \<and> (\<exists>s4 new. run_event sample_symbols no_hooks (EvFuncSink 0x7040) ?s3 = Inr s4
      \<and> sink_log s4 = sink_log ?s3 @ new \<and> FuncSink (func_cb ?e) 0x7040 \<in> set new)"
    by (rule registered_func_sink_fires[OF p _ i(1) s1 2 w _ _ l(2) _ _ _ _ _ _ 3, where off = "0x40"]) (simp_all add: l)
  then show ?thesis using s1 by auto
qed

end
