(* ===== verification/Descriptors.thy ===== *)
theory Descriptors
  imports Sources
begin

text \<open>
  The tracked descriptors against the kernel's descriptor table, along every sequence of open, openat, dup,
  dup2, dup3 and close calls, successful and failing ones: a descriptor of the taint source is never
  missed, and exactly which calls make the set too large.
\<close>

section \<open>The calls\<close>

text \<open>
  The kernel's descriptor table: the path that \<^verbatim>\<open>/proc/self/fd\<close> shows and whether it is a directory.
  A call comes with its arguments and its result, an error number as a negative value; an open also with
  the kernel's answers at its exit event, and a close with whether the descriptor was released (Linux
  releases it for some errors too).
\<close>

type_synonym fd_table = "int \<Rightarrow> (string \<times> bool) option"

datatype fd_call =
    Open_call os_env int
  | Openat_call os_env int
  | Dup_call int int
  | Dup2_call int int int
  | Dup3_call int int int
  | Close_call int int bool

definition fd_ctx :: "int \<Rightarrow> int \<Rightarrow> int \<Rightarrow> syscall_ctx_t" where
  "fd_ctx a0 a1 result = \<lparr>nr = 0, arg = (\<lambda>i. if i = 0 then of_int a0 else if i = 1 then of_int a1 else 0), ret = of_int result\<rparr>"

text \<open>The hook of a call.\<close>

fun fd_hook :: "fd_call \<Rightarrow> 'a sys_state_scheme \<Rightarrow> 'a sys_state_scheme" where
  "fd_hook (Open_call K r) s = post_open_hook K (fd_ctx 0 0 r) s"
| "fd_hook (Openat_call K r) s = post_openat_hook K (fd_ctx 0 0 r) s"
| "fd_hook (Dup_call old r) s = post_dup_hook (fd_ctx old 0 r) s"
| "fd_hook (Dup2_call old new r) s = post_dup2_hook (fd_ctx old new r) s"
| "fd_hook (Dup3_call old new r) s = post_dup3_hook (fd_ctx old new r) s"
| "fd_hook (Close_call fd r freed) s = post_close_hook (fd_ctx fd 0 r) s"

section \<open>The kernel\<close>

definition fd_ok :: "int \<Rightarrow> bool" where
  "fd_ok fd \<longleftrightarrow> 0 \<le> fd \<and> fd < 2 ^ 31"

definition is_int :: "int \<Rightarrow> bool" where
  "is_int v \<longleftrightarrow> - (2 ^ 31) \<le> v \<and> v < 2 ^ 31"

definition errno_ok :: "int \<Rightarrow> bool" where
  "errno_ok r \<longleftrightarrow> - 4096 < r \<and> r < 0"

text \<open>
  The results that the kernel gives: an error number, or a descriptor that was not open for open and dup,
  and the requested one for dup2 and dup3; a duplicated descriptor is open.
\<close>

fun fd_possible :: "fd_call \<Rightarrow> fd_table \<Rightarrow> bool" where
  "fd_possible (Open_call K r) F = (errno_ok r \<or> fd_ok r \<and> F r = None)"
| "fd_possible (Openat_call K r) F = (errno_ok r \<or> fd_ok r \<and> F r = None)"
| "fd_possible (Dup_call old r) F = (is_int old \<and> (errno_ok r \<or> fd_ok r \<and> F r = None \<and> F old \<noteq> None))"
| "fd_possible (Dup2_call old new r) F = (is_int old \<and> is_int new \<and> (errno_ok r \<or> fd_ok r \<and> r = new \<and> F old \<noteq> None))"
| "fd_possible (Dup3_call old new r) F = (is_int old \<and> is_int new \<and> (errno_ok r \<or> fd_ok r \<and> r = new \<and> F old \<noteq> None))"
| "fd_possible (Close_call fd r freed) F = (is_int fd \<and> (errno_ok r \<or> r = 0 \<and> freed))"

fun fd_kernel :: "fd_call \<Rightarrow> fd_table \<Rightarrow> fd_table" where
  "fd_kernel (Open_call K r) F = (if 0 \<le> r then F(r \<mapsto> (fdname K r, path_isdir K (fdname K r))) else F)"
| "fd_kernel (Openat_call K r) F = (if 0 \<le> r then F(r \<mapsto> (fdname K r, path_isdir K (fdname K r))) else F)"
| "fd_kernel (Dup_call old r) F = (if 0 \<le> r then F(r := F old) else F)"
| "fd_kernel (Dup2_call old new r) F = (if 0 \<le> r then F(new := F old) else F)"
| "fd_kernel (Dup3_call old new r) F = (if 0 \<le> r then F(new := F old) else F)"
| "fd_kernel (Close_call fd r freed) F = (if freed then F(fd := None) else F)"

text \<open>The descriptors that are open on the taint source.\<close>

definition tracks :: "string \<Rightarrow> string \<times> bool \<Rightarrow> bool" where
  "tracks name fl = (str_contains name (fst fl) \<and> \<not> snd fl)"

definition source_fds :: "fd_table \<Rightarrow> string \<Rightarrow> int set" where
  "source_fds F name = {fd. \<exists>fl. F fd = Some fl \<and> tracks name fl}"

text \<open>
  The calls after which the tracked set is exact if it was before. A dup2 or dup3 is not when it succeeds
  and replaces the source by another file, nor when it fails for a tracked descriptor and a target that is
  not tracked; a close is not when it fails and yet releases a tracked descriptor.
\<close>

definition dup2_exact :: "int \<Rightarrow> int \<Rightarrow> int \<Rightarrow> fd_table \<Rightarrow> 'a sys_state_scheme \<Rightarrow> bool" where
  "dup2_exact old new r F s =
     (if 0 \<le> r then new \<in> source_fds F (filename s) \<longrightarrow> old \<in> source_fds F (filename s)
      else old \<in> fdset s \<longrightarrow> new \<in> fdset s \<or> new < 0)"

fun fd_exact :: "fd_call \<Rightarrow> fd_table \<Rightarrow> 'a sys_state_scheme \<Rightarrow> bool" where
  "fd_exact (Dup2_call old new r) F s = dup2_exact old new r F s"
| "fd_exact (Dup3_call old new r) F s = dup2_exact old new r F s"
| "fd_exact (Close_call fd r freed) F s = (r < 0 \<and> freed \<longrightarrow> fd \<notin> fdset s)"
| "fd_exact _ F s = True"

text \<open>
  \<open>fd_reach x F s\<close>: the table F and the state s after some sequence of calls, each with its hook, from a
  state in which the source is not open; x tells whether all calls of the sequence were exact.
\<close>

inductive fd_reach :: "bool \<Rightarrow> fd_table \<Rightarrow> 'a sys_state_scheme \<Rightarrow> bool" where
  start: "fdset s = {} \<Longrightarrow> (\<And>fd fl. F fd = Some fl \<Longrightarrow> fd_ok fd \<and> \<not> tracks (filename s) fl) \<Longrightarrow> fd_reach True F s"
| call: "fd_reach x F s \<Longrightarrow> fd_possible c F \<Longrightarrow> fd_reach (x \<and> fd_exact c F s) (fd_kernel c F) (fd_hook c s)"

section \<open>One call\<close>

lemma to_int_of_int: "is_int v \<Longrightarrow> to_int (of_int v) = v"
  unfolding to_int_def is_int_def by (simp add: unsigned_of_int signed_of_int signed_take_bit_take_bit signed_take_bit_int_eq_self)

lemma fd_ctx_args [simp]:
  "is_int a \<Longrightarrow> to_int (arg (fd_ctx a b r) 0) = a" "is_int b \<Longrightarrow> to_int (arg (fd_ctx a b r) (Suc 0)) = b"
  "is_int r \<Longrightarrow> to_int (ret (fd_ctx a b r)) = r"
  by (simp_all add: fd_ctx_def to_int_of_int)

lemma result_is_int [simp]: "errno_ok r \<Longrightarrow> is_int r" "fd_ok r \<Longrightarrow> is_int r" "is_int 0"
  by (simp_all add: errno_ok_def fd_ok_def is_int_def)

lemma result_sign: "errno_ok r \<Longrightarrow> \<not> 0 \<le> r" "fd_ok r \<Longrightarrow> 0 \<le> r"
  by (simp_all add: errno_ok_def fd_ok_def)

text \<open>The tracked set after each hook.\<close>

lemma open_hook_fdset:
  "is_int r \<Longrightarrow> fdset (post_open_hook K (fd_ctx 0 0 r) s) =
     (if tracks (filename s) (fdname K r, path_isdir K (fdname K r)) then insert r (fdset s) else fdset s)"
  by (simp add: post_open_hook_def in_dtracker_whitelist_def tracks_def Let_def)

lemma dup_hook_fdset:
  "is_int old \<Longrightarrow> is_int r \<Longrightarrow>
     fdset (post_dup_hook (fd_ctx old 0 r) s) = (if old \<in> fdset s \<and> r \<noteq> - 1 then insert r (fdset s) else fdset s)"
  by (simp add: post_dup_hook_def Let_def)

lemma dup2_hook_fdset:
  assumes "is_int old" "is_int new"
  shows "fdset (post_dup2_hook (fd_ctx old new r) s) = (if old \<in> fdset s then insert new (fdset s) else fdset s)"
    "fdset (post_dup3_hook (fd_ctx old new r) s) = (if old \<in> fdset s then insert new (fdset s) else fdset s)"
  using assms by (simp_all add: post_dup2_hook_def post_dup3_hook_def Let_def)

lemma close_hook_fdset:
  "is_int fd \<Longrightarrow> is_int r \<Longrightarrow> fdset (post_close_hook (fd_ctx fd 0 r) s) = (if r < 0 then fdset s else fdset s - {fd})"
  by (simp add: post_close_hook_def Let_def)

lemmas hook_fdsets = open_hook_fdset dup_hook_fdset dup2_hook_fdset close_hook_fdset

lemma fd_hook_filename [simp]: "filename (fd_hook c s) = filename s"
  by (cases c) (simp_all add: post_open_hook_def post_openat_hook_def post_dup_hook_def post_dup2_hook_def
      post_dup3_hook_def post_close_hook_def Let_def)

lemma source_fds_upd: "source_fds (F(fd := v)) name =
    (if \<exists>fl. v = Some fl \<and> tracks name fl then insert fd (source_fds F name) else source_fds F name - {fd})"
  by (auto simp: source_fds_def simp del: split_paired_Ex)

lemma source_fds_self: "(\<exists>fl. F fd = Some fl \<and> tracks name fl) \<longleftrightarrow> fd \<in> source_fds F name"
  by (simp add: source_fds_def)

text \<open>
  \<open>fits x D S\<close>: the tracked set S contains the descriptors D of the source and, if x holds, no other
  descriptor; negative numbers in it are no descriptors.
\<close>

definition fits :: "bool \<Rightarrow> int set \<Rightarrow> int set \<Rightarrow> bool" where
  "fits x D S \<longleftrightarrow> D \<subseteq> S \<and> (\<forall>d \<in> D. 0 \<le> d) \<and> (x \<longrightarrow> (\<forall>d \<in> S. 0 \<le> d \<longrightarrow> d \<in> D))"

definition fds_match :: "bool \<Rightarrow> fd_table \<Rightarrow> 'a sys_state_scheme \<Rightarrow> bool" where
  "fds_match x F s \<longleftrightarrow> (\<forall>fd. F fd \<noteq> None \<longrightarrow> 0 \<le> fd) \<and> fits x (source_fds F (filename s)) (fdset s)"

lemma source_open: "fd \<in> source_fds F name \<Longrightarrow> F fd \<noteq> None"
  by (auto simp: source_fds_def)

lemma fds_match_call:
  assumes "fds_match x F s" "fd_possible c F"
  shows "fds_match (x \<and> fd_exact c F s) (fd_kernel c F) (fd_hook c s)"
proof -
  let ?D = "source_fds F (filename s)" and ?S = "fdset s"
  have dom: "\<And>fd. F fd \<noteq> None \<Longrightarrow> 0 \<le> fd" and f: "fits x ?D ?S" using assms(1) by (auto simp: fds_match_def)
  have "F fd = None \<or> 0 \<le> fd" for fd using dom by blast
  then have dom': "fd_kernel c F fd = None \<or> 0 \<le> fd" for fd using assms(2) result_sign by (cases c) auto
  have none: "F fd = None \<Longrightarrow> ?D - {fd} = ?D" for fd using source_open by blast
  have opn: "fits (x \<and> fd_exact c F s) (source_fds (fd_kernel c F) (filename s)) (fdset (fd_hook c s))"
    if "c = Open_call K r \<or> c = Openat_call K r" for K r
  proof -
    have r: "errno_ok r \<or> fd_ok r \<and> F r = None" using that assms(2) by auto
    let ?fl = "(fdname K r, path_isdir K (fdname K r))"
    have S: "fdset (fd_hook c s) = (if tracks (filename s) ?fl then insert r ?S else ?S)"
      and k: "fd_kernel c F = (if 0 \<le> r then F(r \<mapsto> ?fl) else F)" and e: "fd_exact c F s"
      using that r by (auto simp: hook_fdsets post_openat_hook_def)
    show ?thesis
    proof (cases "0 \<le> r")
      case True
      then have "F r = None" using r result_sign by auto
      then have "source_fds (fd_kernel c F) (filename s) = (if tracks (filename s) ?fl then insert r ?D else ?D)"
        using none[of r] True by (simp add: k source_fds_upd)
      then show ?thesis using f True unfolding S by (auto simp: fits_def)
    next
      case False
      then show ?thesis using f unfolding S k by (auto simp: fits_def)
    qed
  qed
  have dup2: "fits (x \<and> fd_exact c F s) (source_fds (fd_kernel c F) (filename s)) (fdset (fd_hook c s))"
    if c: "c = Dup2_call old new r \<or> c = Dup3_call old new r" for old new r
  proof -
    have r: "is_int old" "is_int new" "errno_ok r \<or> fd_ok r \<and> r = new \<and> F old \<noteq> None" using c assms(2) by auto
    have S: "fdset (fd_hook c s) = (if old \<in> ?S then insert new ?S else ?S)" and e: "fd_exact c F s = dup2_exact old new r F s"
      and k: "fd_kernel c F = (if 0 \<le> r then F(new := F old) else F)" using c r(1,2) by (auto simp: hook_fdsets)
    show ?thesis
    proof (cases "0 \<le> r")
      case True
      then have new: "F old \<noteq> None" "0 \<le> new" using r(3) result_sign by auto
      have D: "source_fds (fd_kernel c F) (filename s) = (if old \<in> ?D then insert new ?D else ?D - {new})"
        using True by (simp only: k if_True source_fds_upd source_fds_self)
      have "0 \<le> old" using dom new(1) .
      then show ?thesis using f new(2) True unfolding S D e dup2_exact_def fits_def by auto
    next
      case False
      then show ?thesis using f unfolding S e k dup2_exact_def fits_def by auto
    qed
  qed
  have "fits (x \<and> fd_exact c F s) (source_fds (fd_kernel c F) (filename s)) (fdset (fd_hook c s))"
  proof (cases c)
    case (Dup_call old r)
    then have r: "is_int old" "errno_ok r \<or> fd_ok r \<and> F r = None \<and> F old \<noteq> None" using assms(2) by auto
    then have S: "fdset (fd_hook c s) = (if old \<in> ?S \<and> r \<noteq> - 1 then insert r ?S else ?S)" using Dup_call by (auto simp: hook_fdsets)
    show ?thesis
    proof (cases "0 \<le> r")
      case True
      then have new: "F old \<noteq> None" "F r = None" using r(2) result_sign by auto
      have "0 \<le> old" using dom new(1) .
      moreover have D: "source_fds (fd_kernel c F) (filename s) = (if old \<in> ?D then insert r ?D else ?D)"
        using none[OF new(2)] True by (simp add: Dup_call source_fds_upd source_fds_self del: split_paired_Ex)
      ultimately show ?thesis using f True unfolding S D fits_def by auto
    next
      case False
      then have D: "fd_kernel c F = F" using Dup_call by simp
      show ?thesis using f False unfolding S D fits_def by auto
    qed
  next
    case (Close_call fd r freed)
    then have r: "is_int fd" "errno_ok r \<or> r = 0 \<and> freed" using assms(2) by auto
    then have S: "fdset (fd_hook c s) = (if r < 0 then ?S else ?S - {fd})" using Close_call by (auto simp: hook_fdsets)
    have D: "source_fds (fd_kernel c F) (filename s) = (if freed then ?D - {fd} else ?D)"
      and e: "fd_exact c F s \<longleftrightarrow> (r < 0 \<and> freed \<longrightarrow> fd \<notin> ?S)" by (simp_all add: Close_call source_fds_upd)
    from r(2) have "r < 0 \<or> \<not> r < 0 \<and> freed" by (auto simp: errno_ok_def)
    then show ?thesis using f unfolding S D e fits_def by auto
  qed (use opn dup2 in blast)+
  moreover have "\<forall>fd. fd_kernel c F fd \<noteq> None \<longrightarrow> 0 \<le> fd" using dom' by metis
  ultimately show ?thesis unfolding fds_match_def fd_hook_filename by blast
qed

section \<open>Whole sequences\<close>

lemma fd_reach_fits: "fd_reach x F s \<Longrightarrow> fds_match x F s"
proof (induction rule: fd_reach.induct)
  case (start s F)
  then have "source_fds F (filename s) = {}" by (auto simp: source_fds_def)
  with start show ?case by (auto simp: fds_match_def fits_def fd_ok_def)
next
  case (call x F s c)
  then show ?case by (intro fds_match_call)
qed

text \<open>
  C25. The engine never misses a descriptor of the taint source: after any sequence of open, openat, dup,
  dup2, dup3 and close calls with any results the kernel may give, failures included, every descriptor that
  is open on a file whose path contains the name of the source and is not a directory is in the tracked set.
  As long as every dup2, dup3 and close was exact in the sense above, the tracked set contains no other
  descriptor; failing open and dup calls may add negative numbers, which are no descriptors.
\<close>

theorem tracked_descriptors:
  assumes "fd_reach x F s"
  shows "source_fds F (filename s) \<subseteq> fdset s \<and> (x \<longrightarrow> {fd \<in> fdset s. 0 \<le> fd} = source_fds F (filename s))"
  using fd_reach_fits[OF assms] by (auto simp: fds_match_def fits_def)

text \<open>The source is opened and duplicated, a second dup fails because the table is full, and an open fails.\<close>

definition sample_calls :: "fd_call list" where
  "sample_calls = [Open_call (sample_os [] 0 0) 5, Dup_call 5 6, Dup_call 5 (- 24), Dup2_call 5 7 7, Close_call 6 0 True]"

theorem tracked_descriptors_witness:
  "{fd \<in> fdset (fold fd_hook sample_calls (sample_sys\<lparr>fdset := {}\<rparr>)). 0 \<le> fd} = {5, 7}"
proof -
  let ?s = "sample_sys\<lparr>fdset := {}\<rparr>" and ?K = "sample_os [] 0 0" and ?f = "(''/tmp/in.bin'', False)"
  have n: "fdname ?K 5 = ''/tmp/in.bin''" by (simp add: fdname_def sample_os_def PATH_MAX_def c_str_def)
  have d: "\<not> path_isdir ?K ''/tmp/in.bin''" by (simp add: path_isdir_def sample_os_def)
  note r = fd_ok_def errno_ok_def is_int_def
  have "fd_reach True Map.empty ?s" by (rule fd_reach.start) simp_all
  from fd_reach.call[OF this, of "Open_call ?K 5"]
  have "fd_reach True [5 \<mapsto> ?f] (fd_hook (Open_call ?K 5) ?s)" by (simp add: r n d)
  from fd_reach.call[OF this, of "Dup_call 5 6"]
  have "fd_reach True [5 \<mapsto> ?f, 6 \<mapsto> ?f] (fold fd_hook [Open_call ?K 5, Dup_call 5 6] ?s)" by (simp add: r)
  from fd_reach.call[OF this, of "Dup_call 5 (- 24)"]
  have "fd_reach True [5 \<mapsto> ?f, 6 \<mapsto> ?f] (fold fd_hook [Open_call ?K 5, Dup_call 5 6, Dup_call 5 (- 24)] ?s)" by (simp add: r)
  from fd_reach.call[OF this, of "Dup2_call 5 7 7"]
  have "fd_reach True [5 \<mapsto> ?f, 6 \<mapsto> ?f, 7 \<mapsto> ?f]
      (fold fd_hook [Open_call ?K 5, Dup_call 5 6, Dup_call 5 (- 24), Dup2_call 5 7 7] ?s)"
    by (simp add: r dup2_exact_def source_fds_def)
  from fd_reach.call[OF this, of "Close_call 6 0 True"]
  have t: "fd_reach True ([5 \<mapsto> ?f, 6 \<mapsto> ?f, 7 \<mapsto> ?f](6 := None)) (fold fd_hook sample_calls ?s)"
    by (simp add: r sample_calls_def)
  have "filename (fold fd_hook cs s) = filename s" for cs and s :: sys_state
    by (induction cs arbitrary: s) simp_all
  then have "filename (fold fd_hook sample_calls ?s) = ''in.bin''" by (simp add: sample_sys_def)
  then show ?thesis using tracked_descriptors[OF t] by (auto simp: source_fds_def tracks_def split: if_splits)
qed

text \<open>
  C26. The dup2 and dup3 calls that are set apart above do go wrong. When one of them replaces the source by
  another file, or fails for a tracked descriptor and an untracked target, its target is not open on the
  source and yet tracked: a read through it that returns bytes paints them with offsets at the position of
  that other file, where the bytes of an untracked file are to be cleared.
\<close>

theorem dup2_leaves_stale_descriptor:
  assumes "fd_reach x F s" "c = Dup2_call old new r \<or> c = Dup3_call old new r" "fd_possible c F" "\<not> fd_exact c F s"
    and "engine_ok s" "to_int (arg ctx 0) = new" "0 < to_ssize (ret ctx)" "n = unat (ucast (ret ctx) :: UINT32)"
    and "\<And>i. i < n \<Longrightarrow> file_tag_testb (arg ctx 1 + of_nat i)" "room n (tables s)"
  shows "new \<notin> source_fds (fd_kernel c F) (filename s)
     \<and> (\<exists>s'. post_read_hook K ctx (fd_hook c s) = Inr s' \<and> engine_ok s'
          \<and> (\<forall>i < n. tmem (taint_of s') (arg ctx 1 + of_nat i) = {unat (lseek_cur K new - of_nat n + of_nat i) mod 2 ^ 32}))"
proof
  let ?D = "source_fds F (filename s)"
  have D: "?D \<subseteq> fdset s" "\<And>fd. fd \<in> ?D \<Longrightarrow> F fd \<noteq> None" using fd_reach_fits[OF assms(1)] source_open by (auto simp: fds_match_def fits_def)
  have i: "is_int old" "is_int new" and e: "\<not> dup2_exact old new r F s"
    and k: "fd_kernel c F = (if 0 \<le> r then F(new := F old) else F)" using assms(2-4) by auto
  show "new \<notin> source_fds (fd_kernel c F) (filename s)"
    using e D(1) unfolding k dup2_exact_def
    by (auto simp: source_fds_upd source_fds_self simp del: split_paired_Ex split: if_splits)
  have S: "new \<in> fdset (fd_hook c s)" using e D(1) assms(2) i by (auto simp: hook_fdsets dup2_exact_def split: if_splits)
  have "achieves Keep n s (fd_hook c s)" using fd_hooks_keep(4,5)[OF assms(5,10)] assms(2) by auto
  then have ok: "engine_ok (fd_hook c s)" "room n (tables (fd_hook c s))" by (simp_all add: achieves_def)
  define w where "w = (ucast (ret ctx) :: UINT32)"
  let ?p = "Paint (arg ctx 1) (lseek_cur K new - of_nat n) n"
  have n: "of_nat n = (ucast w :: UINT64)" "n < 2 ^ 32" using assms(8) unsigned_less[of w] by (simp_all add: w_def)
  have h: "hook_effect Post_read_hook K ctx (fd_hook c s) = Inr ?p"
    using assms(6,7,8) S n(1) by (simp add: read_effect_def Let_def w_def)
  have p: "effect_ok ?p" "room (effect_cost ?p + 0) (tables (fd_hook c s))" using assms(9) n(2) ok(2) by simp_all
  obtain s' where s': "post_read_hook K ctx (fd_hook c s) = Inr s'" "engine_ok s'" "taint_of s' = apply_effect ?p (taint_of (fd_hook c s))"
    using post_read_hook_ok[OF ok(1) h p] by (auto simp: achieves_def)
  have "unat (of_nat i :: ADDRINT) = i" if "i < n" for i
    using that n(2) by (simp add: unat_of_nat take_bit_eq_mod)
  then have "\<forall>i < n. tmem (taint_of s') (arg ctx 1 + of_nat i) = {unat (lseek_cur K new - of_nat n + of_nat i) mod 2 ^ 32}"
    by (simp add: s'(3))
  with s' show "\<exists>s'. post_read_hook K ctx (fd_hook c s) = Inr s' \<and> engine_ok s'
      \<and> (\<forall>i < n. tmem (taint_of s') (arg ctx 1 + of_nat i) = {unat (lseek_cur K new - of_nat n + of_nat i) mod 2 ^ 32})" by blast
qed

text \<open>Descriptor 5 is the source and 8 another file; 8 is duplicated over 5 and two bytes are read through 5.\<close>

theorem dup2_leaves_stale_descriptor_witness:
  "\<exists>s'. post_read_hook (sample_os [] 0 10) \<lparr>nr = 0, arg = (\<lambda>i. if i = 0 then 5 else 0x3000), ret = 2\<rparr>
      (fold fd_hook [Open_call (sample_os [] 0 0) 5, Dup2_call 8 5 5] (sample_sys\<lparr>fdset := {}\<rparr>)) = Inr s'
     \<and> tmem (taint_of s') 0x3001 = {9}"
proof -
  let ?ctx = "\<lparr>nr = 0, arg = (\<lambda>i. if i = 0 then 5 else 0x3000), ret = 2\<rparr> :: syscall_ctx_t"
  let ?s = "sample_sys\<lparr>fdset := {}\<rparr>" and ?K = "sample_os [] 0 0" and ?f = "(''/tmp/in.bin'', False)" and ?g = "(''/etc/hosts'', False)"
  let ?s1 = "fd_hook (Open_call ?K 5) ?s"
  have n: "fdname ?K 5 = ''/tmp/in.bin''" by (simp add: fdname_def sample_os_def PATH_MAX_def c_str_def)
  have d: "\<not> path_isdir ?K ''/tmp/in.bin''" by (simp add: path_isdir_def sample_os_def)
  note r = fd_ok_def errno_ok_def is_int_def
  have f: "filename ?s1 = ''in.bin''" unfolding fd_hook_filename by (simp add: sample_sys_def)
  have "fd_reach True [8 \<mapsto> ?g] ?s" by (rule fd_reach.start) (auto simp: r tracks_def sample_sys_def split: if_splits)
  from fd_reach.call[OF this, of "Open_call ?K 5"]
  have t: "fd_reach True [8 \<mapsto> ?g, 5 \<mapsto> ?f] ?s1" by (simp add: r n d)
  have p: "fd_possible (Dup2_call 8 5 5) [8 \<mapsto> ?g, 5 \<mapsto> ?f]" by (simp add: r)
  have e: "\<not> fd_exact (Dup2_call 8 5 5) [8 \<mapsto> ?g, 5 \<mapsto> ?f] ?s1" 
    unfolding fd_exact.simps dup2_exact_def f by (simp add: source_fds_def tracks_def) blast
  have c: "to_int (arg ?ctx 0) = 5" "0 < to_ssize (ret ?ctx)" "2 = unat (ucast (ret ?ctx) :: UINT32)" by (simp_all add: to_int_def to_ssize_def)
  have a: "file_tag_testb (arg ?ctx 1 + of_nat i)" if "i < 2" for i :: nat
  proof -
    from that consider "i = 0" | "i = 1" by arith
    then show ?thesis by cases (simp_all add: file_tag_testb_def max_addr_def)
  qed
  have ok: "engine_ok ?s" "room 2 (tables ?s)" using sample_sys_ok(1) sample_room[of 2] by (simp_all add: sample_sys_def engine_ok_def libdft_get_thread_ctx_def)
  then have "achieves Keep 2 ?s ?s1" using fd_hooks_keep(1)[of ?s 2] by simp
  then have ok1: "engine_ok ?s1" "room 2 (tables ?s1)" by (simp_all add: achieves_def)
  from dup2_leaves_stale_descriptor[where K = "sample_os [] 0 10" and old = 8 and new = 5 and r = 5, OF t _ p e ok1(1) c a ok1(2)]
  obtain s' where s': "post_read_hook (sample_os [] 0 10) ?ctx (fd_hook (Dup2_call 8 5 5) ?s1) = Inr s'"
    and m: "\<forall>i < 2. tmem (taint_of s') (arg ?ctx 1 + of_nat i) = {unat (lseek_cur (sample_os [] 0 10) 5 - of_nat 2 + of_nat i) mod 2 ^ 32}"
    by auto
  from m[rule_format, of 1] have "tmem (taint_of s') 0x3001 = {9}" by (simp add: sample_os_def)
  with s' show ?thesis by auto
qed

end
