(* ===== verification/Taint_Order.thy ===== *)
theory Taint_Order
  imports Soundness
begin

text \<open>
  Taint states ordered pointwise, with their join. All propagation is a homomorphism of joins: an offset
  spreads as it would if no other offset were there, so the sets of a run are the unions of the runs that
  track each part of the input alone. Monotonicity follows.
\<close>

section \<open>Order and join of taint states\<close>

instantiation taint_ext :: (semilattice_sup) semilattice_sup
begin

definition less_eq_taint_ext :: "'a taint_ext \<Rightarrow> 'a taint_ext \<Rightarrow> bool" where
  "T \<le> U \<longleftrightarrow> treg T \<le> treg U \<and> tmem T \<le> tmem U \<and> taint.more T \<le> taint.more U"

definition less_taint_ext :: "'a taint_ext \<Rightarrow> 'a taint_ext \<Rightarrow> bool" where
  "T < U \<longleftrightarrow> T \<le> U \<and> \<not> U \<le> (T :: 'a taint_ext)"

definition sup_taint_ext :: "'a taint_ext \<Rightarrow> 'a taint_ext \<Rightarrow> 'a taint_ext" where
  "sup T U = taint_ext (sup (treg T) (treg U)) (sup (tmem T) (tmem U)) (sup (taint.more T) (taint.more U))"

instance
proof
  fix T U V :: "'a taint_ext"
  show "T < U \<longleftrightarrow> T \<le> U \<and> \<not> U \<le> T" by (rule less_taint_ext_def)
  show "T \<le> T" by (simp add: less_eq_taint_ext_def)
  show "T \<le> U \<Longrightarrow> U \<le> V \<Longrightarrow> T \<le> V" unfolding less_eq_taint_ext_def by (metis order_trans)
  show "T \<le> U \<Longrightarrow> U \<le> T \<Longrightarrow> T = U"
    unfolding less_eq_taint_ext_def by (intro taint.equality) (auto intro: antisym)
  show "T \<le> sup T U" "U \<le> sup T U" by (simp_all add: less_eq_taint_ext_def sup_taint_ext_def)
  show "T \<le> V \<Longrightarrow> U \<le> V \<Longrightarrow> sup T U \<le> V" by (simp add: less_eq_taint_ext_def sup_taint_ext_def)
qed

end

lemma sup_taint [simp]:
  "treg (sup T U) dc row b = treg T dc row b \<union> treg U dc row b" "tmem (sup T U) a = tmem T a \<union> tmem U a"
  by (simp_all add: sup_taint_ext_def)

lemma taint_le: "T \<le> U \<longleftrightarrow> (\<forall>dc row b. treg T dc row b \<subseteq> treg U dc row b) \<and> (\<forall>a. tmem T a \<subseteq> tmem (U :: taint) a)"
  by (auto simp: less_eq_taint_ext_def le_fun_def)

lemma sup_eqI:
  assumes "\<And>dc row b. treg V dc row b = treg T dc row b \<union> treg U dc row b" "\<And>a. tmem V a = tmem T a \<union> tmem U a"
  shows "V = sup T (U :: taint)"
  by (rule taint.equality) (simp_all add: fun_eq_iff assms)

section \<open>Additive steps\<close>

definition additive :: "(taint \<Rightarrow> taint) \<Rightarrow> bool" where
  "additive f \<longleftrightarrow> (\<forall>T U. f (sup T U) = sup (f T) (f U))"

definition additive_set :: "(taint \<Rightarrow> nat set) \<Rightarrow> bool" where
  "additive_set v \<longleftrightarrow> (\<forall>T U. v (sup T U) = v T \<union> v U)"

lemma additive_mono: "additive f \<Longrightarrow> T \<le> U \<Longrightarrow> f T \<le> f U"
  unfolding additive_def le_iff_sup by metis

lemma additive_id: "additive (\<lambda>T. T)" "additive id"
  by (simp_all add: additive_def)

lemma additive_comp: "additive f \<Longrightarrow> additive g \<Longrightarrow> additive (\<lambda>T. g (f T))"
  by (simp add: additive_def)

lemma additive_if: "additive f \<Longrightarrow> additive g \<Longrightarrow> additive (if b then f else g)"
  by simp

lemma additive_set_intros:
  "additive_set (\<lambda>_. X)" "additive_set (tget dc c)"
  "additive_set v \<Longrightarrow> additive_set w \<Longrightarrow> additive_set (\<lambda>T. v T \<union> w T)"
  "(\<And>i. i \<in> I \<Longrightarrow> additive_set (f i)) \<Longrightarrow> additive_set (\<lambda>T. \<Union>i \<in> I. f i T)"
  "additive_set v \<Longrightarrow> additive_set w \<Longrightarrow> additive_set (\<lambda>T. if b then v T else w T)"
proof -
  show "additive_set (tget dc c)" by (cases c) (simp_all add: additive_set_def)
qed (auto simp: additive_set_def)

lemma additive_set_cells: "additive_set (\<lambda>T. treg T dc row b)" "additive_set (\<lambda>T. tmem T a)"
  by (simp_all add: additive_set_def)

lemma tset_sup: "tset dc c (X \<union> Y) (sup T U) = sup (tset dc c X T) (tset dc c Y U)"
  by (rule sup_eqI; cases c) (auto split: if_splits)

lemma additive_tset: "additive_set v \<Longrightarrow> additive f \<Longrightarrow> additive (\<lambda>T. tset dc c (v T) (f T))"
  by (simp add: additive_def additive_set_def tset_sup)

lemma additive_assign:
  assumes "\<And>i. i < n \<Longrightarrow> additive_set (v i)"
  shows "additive (\<lambda>T. assign dc n y (\<lambda>i. v i T) T)"
  using assms by (induction n) (simp_all add: assign_Suc additive_id additive_tset)

lemma assign2_0: "assign2 dc 0 y v z w T = T"
  by (simp add: assign2_def)

lemma additive_assign2:
  assumes "\<And>i. i < n \<Longrightarrow> additive_set (v i)" "\<And>i. i < n \<Longrightarrow> additive_set (w i)"
  shows "additive (\<lambda>T. assign2 dc n y (\<lambda>i. v i T) z (\<lambda>i. w i T) T)"
  using assms by (induction n) (simp_all add: assign2_Suc assign2_0 additive_id additive_tset)

lemma additive_specs:
  "additive (copy_spec dc n y x)" "additive (union_spec dc n z x x')" "additive (swap_spec dc n x y)"
  "additive (smear_spec dc n x m y)"
  "(\<And>i. i < n \<Longrightarrow> additive_set (v i)) \<Longrightarrow> additive (both_spec dc n y z v)"
  "additive_set ext \<Longrightarrow> additive (extend_spec dc sn dn y x ext)"
  "(\<And>i. additive_set (v i)) \<Longrightarrow> additive (\<lambda>T. ternary_spec dc n (\<lambda>i. v i T) T)"
proof -
  note s = additive_set_intros
  show "additive (copy_spec dc n y x)" unfolding copy_spec_def[abs_def] by (rule additive_assign) (rule s)
  show "additive (union_spec dc n z x x')" unfolding union_spec_def[abs_def] by (rule additive_assign) (intro s)
  show "additive (swap_spec dc n x y)" unfolding swap_spec_def[abs_def] by (rule additive_assign2; rule s)
  show "additive (smear_spec dc n x m y)" unfolding smear_spec_def[abs_def] by (rule additive_assign) (intro s)
  show "(\<And>i. i < n \<Longrightarrow> additive_set (v i)) \<Longrightarrow> additive (both_spec dc n y z v)"
    unfolding both_spec_def[abs_def] by (rule additive_assign2)
  show "additive_set ext \<Longrightarrow> additive (extend_spec dc sn dn y x ext)"
    unfolding extend_spec_def[abs_def] by (rule additive_assign) (intro s)
  show "additive (\<lambda>T. ternary_spec dc n (\<lambda>i. v i T) T)" if v: "\<And>i. additive_set (v i)"
  proof (cases "n = 1")
    case True
    then show ?thesis unfolding ternary_spec_def by (simp only: simp_thms if_True) (rule additive_assign, intro s v)
  next
    case False
    then show ?thesis unfolding ternary_spec_def by (simp only: if_False) (rule additive_assign2; intro s v)
  qed
qed

lemma additive_spec_call: "additive (spec_call E dc c)"
proof (cases c)
  case (Call_r_clr r st n)
  then show ?thesis using additive_assign[OF additive_set_intros(1)] by simp
next
  case (Call_mov_clr_mem a n)
  then show ?thesis using additive_assign[OF additive_set_intros(1)] by simp
next
  case (Call_ternary_r2r r st n)
  show ?thesis unfolding Call_ternary_r2r spec_call.simps by (rule additive_specs, rule additive_set_intros)
next
  case (Call_ternary_m2r a n)
  show ?thesis unfolding Call_ternary_m2r spec_call.simps by (rule additive_specs, rule additive_set_intros)
qed (simp_all only: spec_call.simps split: if_split,
     (auto simp del: tget.simps intro!: additive_specs additive_set_intros additive_id additive_if)+)

lemma additive_spec_trace: "additive (spec_trace tr)"
proof (induction tr)
  case Nil
  then show ?case by (simp add: additive_def)
next
  case (Cons ec tr)
  with additive_comp[OF additive_spec_call Cons] show ?case by (cases ec) (simp add: additive_def)
qed

section \<open>Independence\<close>

lemma run_trace_spec:
  assumes "engine_ok s" "\<forall>(E, c) \<in> set tr. call_ok E c \<and> live (cur_drcontext E) s" "room (trace_cost tr) (tables s)"
  shows "\<exists>s'. run_trace tr s = Inr s' \<and> taint_of s' = spec_trace tr (taint_of s)"
  using run_trace_refines[of s tr 0] assms by auto

text \<open>
  C12. Offsets spread independently. Take three engines in which the threads of the calls are live, where the sets of the
  third are the unions of the sets of the first two, byte by byte, and let the same clean calls run in all
  three. They all return, and the sets of the third are again the unions of the sets of the first two: to
  track all offsets at once loses nothing and adds nothing against tracking them one at a time.
\<close>

theorem offsets_spread_independently:
  assumes "engine_ok s" "engine_ok u" "engine_ok w" "taint_of w = sup (taint_of s) (taint_of u)"
    and "\<forall>(E, c) \<in> set tr. call_ok E c \<and> live (cur_drcontext E) s \<and> live (cur_drcontext E) u \<and> live (cur_drcontext E) w"
    and "room (trace_cost tr) (tables s)" "room (trace_cost tr) (tables u)" "room (trace_cost tr) (tables w)"
  shows "\<exists>s' u' w'. run_trace tr s = Inr s' \<and> run_trace tr u = Inr u' \<and> run_trace tr w = Inr w'
     \<and> taint_of w' = sup (taint_of s') (taint_of u')"
proof -
  obtain s' u' w' where "run_trace tr s = Inr s'" "taint_of s' = spec_trace tr (taint_of s)"
    "run_trace tr u = Inr u'" "taint_of u' = spec_trace tr (taint_of u)"
    "run_trace tr w = Inr w'" "taint_of w' = spec_trace tr (taint_of w)"
    using run_trace_spec[OF assms(1) _ assms(6)] run_trace_spec[OF assms(2) _ assms(7)] run_trace_spec[OF assms(3) _ assms(8)]
      assms(5) by fastforce
  with assms(4) additive_spec_trace[of tr] show ?thesis by (simp add: additive_def)
qed

text \<open>The sample engine with one of its two register offsets only.\<close>

definition sample_part :: "nat \<Rightarrow> engine" where
  "sample_part row = sample_engine\<lparr>threads :=
     [7 \<mapsto> sample_thread\<lparr>gpr_file := (\<lambda>r b. if r = row then gpr_file sample_thread r b else 0)\<rparr>]\<rparr>"

lemma sample_part_ok: "engine_ok (sample_part row)" "live 7 (sample_part row)" "tables (sample_part row) = sample_tables"
  "treg (taint_of (sample_part row)) dc r b = (if r = row then treg (taint_of sample_engine) dc r b else {})"
  "tmem (taint_of (sample_part row)) = tmem (taint_of sample_engine)"
proof -
  have g: "libdft_get_thread_ctx dc (sample_part row) = (if dc = 7 then
      Some (sample_thread\<lparr>gpr_file := (\<lambda>r b. if r = row then gpr_file sample_thread r b else 0)\<rparr>) else None)" for dc
    by (simp add: sample_part_def libdft_get_thread_ctx_def sample_engine_def)
  have t: "tables (sample_part row) = tables sample_engine" "tag_dir (sample_part row) = tag_dir sample_engine"
    by (simp_all add: sample_part_def)
  have z: "valid_tag (tables sample_engine) 0" "label_set (tables sample_engine) 0 = {}"
    using sample_engine_ok(1) label_set_0 by (auto simp: engine_ok_def)
  have old: "valid_tag (tables sample_engine) (gpr_file sample_thread r b)" "gpr_file sample_thread GRP_NUM b = cleared_val" for r b
    using sample_engine_ok(1) sample_get[of 7] by (auto simp: engine_ok_def)
  show "engine_ok (sample_part row)"
    using sample_engine_ok(1) old z by (auto simp: engine_ok_def g t cleared_val_def split: if_splits)
  show "live 7 (sample_part row)" by (simp add: live_def g)
  show "tables (sample_part row) = sample_tables" using t sample_engine_ok(3) by simp
  show "treg (taint_of (sample_part row)) dc r b = (if r = row then treg (taint_of sample_engine) dc r b else {})"
    using z by (simp add: taint_of_def g t sample_get)
  show "tmem (taint_of (sample_part row)) = tmem (taint_of sample_engine)" by (simp add: taint_of_def t)
qed

theorem offsets_spread_independently_witness:
  "\<exists>s' u' w'. run_trace [(sample_env 0, Call_binary_r2r DFT_REG_RAX 0 DFT_REG_RBX 0 8)] (sample_part DFT_REG_RAX) = Inr s'
     \<and> run_trace [(sample_env 0, Call_binary_r2r DFT_REG_RAX 0 DFT_REG_RBX 0 8)] (sample_part DFT_REG_RBX) = Inr u'
     \<and> run_trace [(sample_env 0, Call_binary_r2r DFT_REG_RAX 0 DFT_REG_RBX 0 8)] sample_engine = Inr w'
     \<and> taint_of w' = sup (taint_of s') (taint_of u')"
proof (rule offsets_spread_independently)
  have "treg (taint_of sample_engine) dc r b = {}" if "r \<noteq> DFT_REG_RAX" "r \<noteq> DFT_REG_RBX" for dc r b
    using that sample_engine_ok(1) label_set_0 by (auto simp: taint_of_def sample_get sample_thread_def engine_ok_def)
  then show "taint_of sample_engine = sup (taint_of (sample_part DFT_REG_RAX)) (taint_of (sample_part DFT_REG_RBX))"
    by (intro sup_eqI) (auto simp: sample_part_ok)
  show "\<forall>(E, c) \<in> set [(sample_env 0, Call_binary_r2r DFT_REG_RAX 0 DFT_REG_RBX 0 8)]. call_ok E c \<and> live (cur_drcontext E) (sample_part DFT_REG_RAX)
     \<and> live (cur_drcontext E) (sample_part DFT_REG_RBX) \<and> live (cur_drcontext E) sample_engine"
    by (simp add: sample_env_def sample_part_ok sample_engine_ok dst_ok_def src_ok_def aligned_def DFT_REG_RAX_def DFT_REG_RBX_def GRP_NUM_def TAGS_PER_GPR_def)
qed (use sample_part_ok sample_engine_ok sample_room[of 8] in \<open>simp_all add: trace_cost_def\<close>)

end
