(* ===== verification/Simulation.thy ===== *)
theory Simulation
  imports Prelude
begin

text \<open>
  Forward simulation between a program that may fault and an abstract machine, event by event and then
  along whole runs: the contract of a single event as a locale, what it gives for a list of events, and
  the special case of an abstract machine that is a function.
\<close>

section \<open>Runs\<close>

fun run_list :: "('e \<Rightarrow> 's \<Rightarrow> 's res) \<Rightarrow> 'e list \<Rightarrow> 's \<Rightarrow> 's res" where
  "run_list run [] s = Inr s"
| "run_list run (e # es) s = rbind (run e s) (run_list run es)"

text \<open>Every event is allowed in the state in which it comes.\<close>

fun all_allowed :: "('e \<Rightarrow> 's \<Rightarrow> bool) \<Rightarrow> ('e \<Rightarrow> 's \<Rightarrow> 's res) \<Rightarrow> 'e list \<Rightarrow> 's \<Rightarrow> bool" where
  "all_allowed ok run [] s = True"
| "all_allowed ok run (e # es) s =
     (ok e s \<and> (case run e s of Inl _ \<Rightarrow> True | Inr s' \<Rightarrow> all_allowed ok run es s'))"

inductive spec_run :: "('e \<Rightarrow> 'm \<Rightarrow> 'm \<Rightarrow> bool) \<Rightarrow> 'm \<Rightarrow> 'e list \<Rightarrow> 'm \<Rightarrow> bool" for spec where
  spec_nil [simp, intro]: "spec_run spec m [] m"
| spec_cons [intro]: "spec e m m1 \<Longrightarrow> spec_run spec m1 es m' \<Longrightarrow> spec_run spec m (e # es) m'"

inductive_cases spec_run_nilE [elim!]: "spec_run spec m [] m'"
inductive_cases spec_run_consE [elim!]: "spec_run spec m (e # es) m'"

lemma spec_run_fold: "spec_run (\<lambda>e m m'. m' = f e m) m es m' \<longleftrightarrow> m' = fold f es m"
  by (induction es arbitrary: m) auto

section \<open>The contract\<close>

locale simulation =
  fixes run :: "'e \<Rightarrow> 's \<Rightarrow> 's res"
    and ok :: "'e \<Rightarrow> 's \<Rightarrow> bool"
    and inv :: "'s \<Rightarrow> bool"
    and view :: "'s \<Rightarrow> 'm"
    and spec :: "'e \<Rightarrow> 'm \<Rightarrow> 'm \<Rightarrow> bool"
  assumes step: "inv s \<Longrightarrow> ok e s \<Longrightarrow> \<exists>s'. run e s = Inr s' \<and> inv s' \<and> spec e (view s) (view s')"
begin

lemma run_list_simulated:
  "inv s \<Longrightarrow> all_allowed ok run es s \<Longrightarrow> \<exists>s'. run_list run es s = Inr s' \<and> inv s' \<and> spec_run spec (view s) es (view s')"
proof (induction es arbitrary: s)
  case (Cons e es)
  then obtain s1 where 1: "run e s = Inr s1" "inv s1" "spec e (view s) (view s1)" using step[of s e] by auto
  with Cons.prems(2) Cons.IH[of s1] show ?case by auto
qed auto

end

text \<open>An abstract machine that is a function of the event.\<close>

locale functional_simulation =
  fixes run :: "'e \<Rightarrow> 's \<Rightarrow> 's res"
    and ok :: "'e \<Rightarrow> 's \<Rightarrow> bool"
    and inv :: "'s \<Rightarrow> bool"
    and view :: "'s \<Rightarrow> 'm"
    and f :: "'e \<Rightarrow> 'm \<Rightarrow> 'm"
  assumes fun_step: "inv s \<Longrightarrow> ok e s \<Longrightarrow> \<exists>s'. run e s = Inr s' \<and> inv s' \<and> view s' = f e (view s)"

sublocale functional_simulation \<subseteq> simulation run ok inv view "\<lambda>e m m'. m' = f e m"
  by unfold_locales (rule fun_step)

context functional_simulation
begin

lemma run_list_fold:
  "inv s \<Longrightarrow> all_allowed ok run es s \<Longrightarrow> \<exists>s'. run_list run es s = Inr s' \<and> inv s' \<and> view s' = fold f es (view s)"
  using run_list_simulated[of s es] by (simp add: spec_run_fold)

end

end
