(* ===== verification/Taint_Machine.thy ===== *)
theory Taint_Machine
  imports Whole_Run Taint_Order Simulation
begin

text \<open>
  The abstract machine that the library implements: it keeps sets of offsets for register and memory bytes,
  the threads with a register file and the sets of the tags in the hands of the client, and nothing of
  labels, tables, page tables, files or caches. The library simulates it along every run.
\<close>

section \<open>The machine\<close>

text \<open>
  \<open>m_sources\<close> is what a system call would do to the sets: it depends on the tracked descriptors, which the
  machine does not follow, and may change with any event.
\<close>

record machine =
  m_taint :: taint
  m_live :: "nat set"
  m_tags :: "pub_tag \<Rightarrow> nat set option"
  m_sources :: "os_env \<Rightarrow> os_env \<Rightarrow> nat \<Rightarrow> int \<Rightarrow> effect list res"

definition tag_of :: "machine \<Rightarrow> pub_tag \<Rightarrow> nat set" where
  "tag_of M t = (case m_tags M t of None \<Rightarrow> {} | Some X \<Rightarrow> X)"

definition clear_regs :: "nat \<Rightarrow> taint \<Rightarrow> taint" where
  "clear_regs dc T = T\<lparr>treg := (treg T)(dc := (\<lambda>row b. {}))\<rparr>"

fun machine_taint :: "app_event \<Rightarrow> machine \<Rightarrow> taint" where
  "machine_taint (EvThreadInit dc) M = clear_regs dc (m_taint M)"
| "machine_taint (EvThreadExit dc) M = clear_regs dc (m_taint M)"
| "machine_taint (EvRun E cs) M = spec_trace (map (Pair E) cs) (m_taint M)"
| "machine_taint (EvSyscall K K' dc n) M =
     (case m_sources M K K' dc n of Inl _ \<Rightarrow> m_taint M | Inr es \<Rightarrow> fold apply_effect es (m_taint M))"
| "machine_taint (EvSummary E args sm) M = spec_summary E (cur_drcontext E) (map args [0..<6]) sm (m_taint M)"
| "machine_taint (EvApi E op) M = spec_api (m_live M) (tag_of M) E op (m_taint M)"
| "machine_taint _ M = m_taint M"

fun machine_live :: "app_event \<Rightarrow> nat set \<Rightarrow> nat set" where
  "machine_live (EvThreadInit dc) L = insert dc L"
| "machine_live (EvThreadExit dc) L = L - {dc}"
| "machine_live _ L = L"

text \<open>The client gets a tag for the specified set: a new one, or one that it had already for this set.\<close>

fun machine_tags :: "app_event \<Rightarrow> machine \<Rightarrow> (pub_tag \<Rightarrow> nat set option) \<Rightarrow> bool" where
  "machine_tags (EvApi E op) M D \<longleftrightarrow>
     (\<exists>t. let X = spec_result (tag_of M) E op (m_taint M)
          in (m_tags M t = None \<or> m_tags M t = Some X) \<and> D = (m_tags M)(t \<mapsto> X))"
| "machine_tags _ M D \<longleftrightarrow> D = m_tags M"

definition machine_step :: "app_event \<Rightarrow> machine \<Rightarrow> machine \<Rightarrow> bool" where
  "machine_step e M M' \<longleftrightarrow> m_taint M' = machine_taint e M \<and> m_live M' = machine_live e (m_live M) \<and> machine_tags e M (m_tags M')"

section \<open>The library as a system of events\<close>

text \<open>A configuration: the inserted calls, the tags handed out, and the state of the library.\<close>

type_synonym 'a config = "clean_call list set \<times> pub_tag set \<times> 'a lib_state_scheme"

definition config_step :: "lib_env \<Rightarrow> 'a lib_state_ext dft_state_ext client_hooks \<Rightarrow> app_event \<Rightarrow> 'a config \<Rightarrow> 'a config res" where
  "config_step L client e c =
     (case c of (C, H, s) \<Rightarrow> rbind (run_event L client e s) (\<lambda>s'. Inr (built e s C, handed e s H, s')))"

definition config_ok :: "app_event \<Rightarrow> 'a config \<Rightarrow> bool" where
  "config_ok e c = (case c of (C, H, s) \<Rightarrow> ev_ok C H e s)"

definition config_inv :: "lib_env \<Rightarrow> 'a lib_state_ext dft_state_ext client_hooks \<Rightarrow> 'a config \<Rightarrow> bool" where
  "config_inv L client c =
     (case c of (C, H, s) \<Rightarrow> \<exists>Z P. (\<forall>t. Z t < 2 ^ 32) \<and> lib_reach L client Z C H P s)"

definition machine_of :: "'a config \<Rightarrow> machine" where
  "machine_of c = (case c of (C, H, s) \<Rightarrow>
     \<lparr>m_taint = taint_of s, m_live = {dc. live dc s}, m_tags = (\<lambda>t. if t \<in> H then Some (tag_set s t) else None),
      m_sources = (\<lambda>K K' dc n. event_effects K K' dc n s)\<rparr>)"

lemma machine_of_simps [simp]:
  "m_taint (machine_of (C, H, s)) = taint_of s" "m_live (machine_of (C, H, s)) = {dc. live dc s}"
  "m_tags (machine_of (C, H, s)) = (\<lambda>t. if t \<in> H then Some (tag_set s t) else None)"
  "m_sources (machine_of (C, H, s)) K K' dc n = event_effects K K' dc n s"
  "tag_of (machine_of (C, H, s)) t = (if t \<in> H then tag_set s t else {})"
  by (simp_all add: machine_of_def tag_of_def)

section \<open>One event\<close>

lemma thread_init_spec:
  assumes "engine_ok s" "tls_idx s \<noteq> - 1"
  shows "taint_of (event_thread_init dc s) = clear_regs dc (taint_of s)" "live d (event_thread_init dc s) = (d = dc \<or> live d s)"
    "taint_of (event_thread_exit dc s) = clear_regs dc (taint_of s)" "live d (event_thread_exit dc s) = (d \<noteq> dc \<and> live d s)"
proof -
  have z: "label_set (tables s) 0 = {}" using assms(1) label_set_0 by (simp add: engine_ok_def)
  have init: "libdft_get_thread_ctx d (event_thread_init dc s) =
      (if d = dc then Some new_thread_ctx else libdft_get_thread_ctx d s)" for d
    using assms(2) by (simp add: libdft_get_thread_ctx_def event_thread_init_def)
  have exit: "libdft_get_thread_ctx d (event_thread_exit dc s) = (if d = dc then None else libdft_get_thread_ctx d s)" for d
    by (simp add: libdft_get_thread_ctx_def event_thread_exit_def)
  have u: "tables (event_thread_init dc s) = tables s" "tag_dir (event_thread_init dc s) = tag_dir s"
    "tables (event_thread_exit dc s) = tables s" "tag_dir (event_thread_exit dc s) = tag_dir s"
    by (simp_all add: event_thread_init_def event_thread_exit_def)
  show "taint_of (event_thread_init dc s) = clear_regs dc (taint_of s)" "taint_of (event_thread_exit dc s) = clear_regs dc (taint_of s)"
    using z by (simp_all add: taint_of_def clear_regs_def init exit u new_thread_ctx_def fun_eq_iff split: option.split)
  show "live d (event_thread_init dc s) = (d = dc \<or> live d s)" "live d (event_thread_exit dc s) = (d \<noteq> dc \<and> live d s)"
    by (simp_all add: live_def init exit)
qed

lemma same_core_spec: "same_core s s' \<Longrightarrow> taint_of s' = taint_of s \<and> live dc s' = live dc s"
  using engine_ok_cong[of s' s] by (simp add: same_core_def)

lemma spec_api_cong: "api_ok H op s \<Longrightarrow> (\<And>t. t \<in> H \<Longrightarrow> D t = D' t) \<Longrightarrow> spec_api L D E op T = spec_api L D' E op T"
  by (cases op) (simp_all del: tset.simps apply_effect.simps split: option.split prod.split)

lemma spec_result_cong: "api_ok H op s \<Longrightarrow> (\<And>t. t \<in> H \<Longrightarrow> D t = D' t) \<Longrightarrow> spec_result D E op T = spec_result D' E op T"
  by (cases op) simp_all

lemma event_spec:
  fixes s s' :: "'a lib_state_scheme"
  assumes "run_inv Z C H P s" "\<And>t. Z t < 2 ^ 32" "ev_ok C H e s" "run_event L client e s = Inr s'"
  shows "taint_of s' = machine_taint e (machine_of (C, H, s)) \<and> {dc. live dc s'} = machine_live e {dc. live dc s}"
proof -
  have inv: "engine_ok s" "tls_idx s \<noteq> - 1" "syscall_desc s = syscall_desc_table Z" using assms(1) by (simp_all add: run_inv_def)
  have core: "taint_of u = taint_of s \<and> {dc. live dc u} = {dc. live dc s}" if "same_core s u" for u :: "'a lib_state_scheme"
    using same_core_spec[OF that] by blast
  show ?thesis
  proof (cases e)
    case (EvRun E cs)
    have ok: "live (cur_drcontext E') s \<and> call_ok E' c" if "(E', c) \<in> set (map (Pair E) cs)" for E' c
      using that assms(1,3) EvRun by (auto simp: run_inv_def call_ok_split list_all_iff)
    from run_trace_refines[where k = 0 and tr = "map (Pair E) cs", OF inv(1) ok] assms(3,4) EvRun show ?thesis by auto
  next
    case (EvSummary E args sm)
    from sdft_pre_sound_step[of s E args sm 0] inv(1) assms(3,4) EvSummary live_side[of s' "count_call sm s"] show ?thesis by auto
  next
    case (EvSyscall K K' dc n)
    show ?thesis
    proof (cases "event_filter_syscall n s")
      case True
      define d where "d = syscall_desc s ! nat n"
      obtain tc es where tc: "cur_thread_ctx dc s = Some tc"
        and es: "syscall_effects K' d ((saved_args K d n (syscall_ctx tc))\<lparr>ret := syscall_get_result K'\<rparr>) s = Inr es"
          "list_all effect_ok es" "room (sum_list (map effect_cost es)) (tables s)"
        and ev: "event_effects K K' dc n s = Inr es"
        using assms(3) EvSyscall True by (auto simp: event_effects_def d_def Let_def split: option.splits sum.splits)
      have "taint_of s' = fold apply_effect es (taint_of s)" "dom (threads s') = dom (threads s)" "tls_idx s' = tls_idx s"
        using run_syscall_ok[OF inv(1) tc True d_def table_entry[OF inv(3) assms(2) True d_def] refl es(1,2), of 0 client] es(3)
          assms(4) EvSyscall by auto
      then show ?thesis using ev EvSyscall by (auto simp: live_def libdft_get_thread_ctx_def domIff set_eq_iff)
    next
      case False
      then show ?thesis using EvSyscall assms(4) by (simp add: run_syscall_def event_effects_def)
    qed
  next
    case (EvApi E op)
    have a: "api_ok H op s" using assms(3) EvApi by simp
    have v: "\<And>t. t \<in> H \<Longrightarrow> valid_tag (tables s) (raw t)" using assms(1) by (auto simp: run_inv_def held_def)
    have "taint_of s' = spec_api {dc. live dc s} (tag_set s) E op (taint_of s)" "side s' = side s"
      using run_api_spec[OF inv(1) v a, of E] assms(4) EvApi by (auto simp: api_step_def)
    with live_side[of s' s] spec_api_cong[OF a, of "tag_set s" "tag_of (machine_of (C, H, s))"] EvApi show ?thesis by auto
  next
    case (EvFuncSink pc)
    then have "taint_of s' = taint_of s" "live dc s' = live dc s" for dc
      using engine_ok_cong[of s' s] assms(4) by (auto simp: func_sink_pre_def)
    then show ?thesis using EvFuncSink by simp
  next
    case (EvThreadInit dc)
    with thread_init_spec[OF inv(1,2)] assms(4) show ?thesis by auto
  next
    case (EvThreadExit dc)
    with thread_init_spec[OF inv(1,2)] assms(4) show ?thesis by auto
  next
    case (EvBuild D i)
    with core[OF bb_core[of s D i "[]"]] assms(4) show ?thesis by simp
  next
    case (EvModuleLoad info)
    with core[OF module_core(1)[of s L info]] assms(4) show ?thesis by simp
  next
    case (EvModuleUnload info)
    with core[OF module_core(2)[of s info]] assms(4) show ?thesis by simp
  next
    case (EvRegister r)
    with core[OF registration_core[of s r]] assms(4) show ?thesis by simp
  qed
qed

lemma tags_spec:
  fixes s s' :: "'a lib_state_scheme"
  assumes "run_inv Z C H P s" "ev_ok C H e s" "run_event L client e s = Inr s'" "extends (tables s) (tables s')"
  shows "machine_tags e (machine_of (C, H, s)) (m_tags (machine_of (C', handed e s H, s')))"
proof -
  have keep: "tag_set s' t = tag_set s t" if "t \<in> H" for t
    using extends_label[OF assms(4)] assms(1) that unfolding run_inv_def held_def by blast
  show ?thesis
  proof (cases "\<exists>E op. e = EvApi E op")
    case True
    then obtain E op where e: "e = EvApi E op" by blast
    have a: "api_ok H op s" using assms(2) e by simp
    have v: "\<And>t. t \<in> H \<Longrightarrow> valid_tag (tables s) (raw t)" using assms(1) by (auto simp: run_inv_def held_def)
    have inv: "engine_ok s" using assms(1) by (simp add: run_inv_def)
    obtain t where t: "run_api E op s = Inr (t, s')" "tag_set s' t = spec_result (tag_set s) E op (taint_of s)"
      using run_api_spec[OF inv v a, of E] assms(3) e by (auto simp: api_step_def)
    define X where "X = spec_result (tag_of (machine_of (C, H, s))) E op (m_taint (machine_of (C, H, s)))"
    have X: "tag_set s' t = X"
      using spec_result_cong[OF a, of "tag_set s" "tag_of (machine_of (C, H, s))"] t(2) by (simp add: X_def)
    have "m_tags (machine_of (C', insert t H, s')) = (m_tags (machine_of (C, H, s)))(t \<mapsto> X)"
      using keep[of t] keep X by (auto simp: fun_eq_iff)
    moreover have "m_tags (machine_of (C, H, s)) t = None \<or> m_tags (machine_of (C, H, s)) t = Some X" using keep[of t] X by auto
    ultimately show ?thesis unfolding e machine_tags.simps Let_def X_def[symmetric] handed.simps t(1) sum.case prod.case by blast
  next
    case False
    then have "handed e s H = H" by (cases e) auto
    then have "m_tags (machine_of (C', handed e s H, s')) = m_tags (machine_of (C, H, s))" using keep by (auto simp: fun_eq_iff)
    then show ?thesis using False by (cases e) simp_all
  qed
qed

interpretation library: simulation "config_step L client" config_ok "config_inv L client" machine_of machine_step for L client
proof
  fix c :: "'a config" and e
  assume c: "config_inv L client c" "config_ok e c"
  obtain C H s where cs: "c = (C, H, s)" by (cases c)
  obtain Z P where r: "\<And>t. Z t < 2 ^ 32" "lib_reach L client Z C H P s" using c(1) by (auto simp: config_inv_def cs)
  have ok: "ev_ok C H e s" using c(2) by (simp add: config_ok_def cs)
  have inv: "run_inv Z C H P s" by (rule reach_inv[OF r(2,1)])
  obtain s' where s': "run_event L client e s = Inr s'" "extends (tables s) (tables s')"
    using run_event_inv[OF inv r(1) ok, of L client] by blast
  have "machine_step e (machine_of c) (machine_of (built e s C, handed e s H, s'))"
    using event_spec[OF inv r(1) ok s'(1)] tags_spec[OF inv ok s'] by (simp add: machine_step_def cs)
  moreover have "config_inv L client (built e s C, handed e s H, s')"
    using lib_reach.event[OF r(2) ok s'(1)] r(1) by (auto simp: config_inv_def)
  ultimately show "\<exists>s'. config_step L client e c = Inr s' \<and> config_inv L client s' \<and> machine_step e (machine_of c) (machine_of s')"
    using s'(1) by (simp add: config_step_def cs)
qed

text \<open>The propagation alone: with the clean calls as events, the machine of offset sets is a function.\<close>

definition call_allowed :: "dr_env \<times> clean_call \<Rightarrow> 'a engine_scheme \<Rightarrow> bool" where
  "call_allowed ec s =
     (case ec of (E, c) \<Rightarrow> live (cur_drcontext E) s \<and> call_ok E c \<and> room (trace_cost [(E, c)]) (tables s))"

interpretation calls: functional_simulation "\<lambda>(E, c). run_call E c" call_allowed engine_ok taint_of
  "\<lambda>(E, c). spec_call E (cur_drcontext E) c"
proof
  fix s :: "'a engine_scheme" and ec :: "dr_env \<times> clean_call"
  assume s: "engine_ok s" "call_allowed ec s"
  obtain E c where ec: "ec = (E, c)" by fastforce
  from run_trace_refines[of s "[(E, c)]" 0] s ec
  show "\<exists>s'. (case ec of (E, c) \<Rightarrow> run_call E c) s = Inr s' \<and> engine_ok s'
     \<and> taint_of s' = (case ec of (E, c) \<Rightarrow> spec_call E (cur_drcontext E) c) (taint_of s)"
    by (cases "run_call E c s") (auto simp: call_allowed_def)
qed

text \<open>A trace computes the fold of the specifications of its calls.\<close>

lemma allowed_calls_fold:
  fixes s :: "'a engine_scheme"
  assumes "engine_ok s" "all_allowed call_allowed (\<lambda>(E, c). run_call E c) tr s"
  shows "\<exists>s'. run_list (\<lambda>(E, c). run_call E c) tr s = Inr s' \<and> engine_ok s' \<and> taint_of s' = spec_trace tr (taint_of s)"
proof -
  have "spec_trace tr T = fold (\<lambda>(E, c). spec_call E (cur_drcontext E) c) tr T" for T
    by (induction tr arbitrary: T) auto
  then show ?thesis using calls.run_list_fold[OF assms] by simp
qed

section \<open>Whole runs\<close>

text \<open>
  C2. The library implements the abstract machine. Start it with any options and take any configuration
  that it reaches; let any events follow, each allowed when it comes. The whole run returns, and the
  sets of all register and memory bytes, the threads with registers, and the sets of the tags in the hands
  of the client develop as the machine prescribes, event by event.
\<close>

theorem library_simulates_machine:
  assumes "lib_reach L client Z C H P s" "\<And>t. Z t < 2 ^ 32" "all_allowed config_ok (config_step L client) es (C, H, s)"
  shows "\<exists>C' H' s'. run_list (config_step L client) es (C, H, s) = Inr (C', H', s')
     \<and> spec_run machine_step (machine_of (C, H, s)) es (machine_of (C', H', s'))"
proof -
  have "config_inv L client (C, H, s)" using assms(1,2) by (auto simp: config_inv_def)
  from library.run_list_simulated[OF this assms(3)] show ?thesis by auto
qed

text \<open>The sample run: four bytes of the tracked file are read, then the thread exits.\<close>

theorem library_simulates_machine_witness:
  "\<exists>C' H' s'. run_list (config_step sample_lib_env (\<lambda>_ _ _ _. Inl NullDeref)) [sample_read, EvThreadExit 7] ({}, {empty_tag}, sample_run) = Inr (C', H', s')
     \<and> spec_run machine_step (machine_of ({}, {empty_tag}, sample_run)) [sample_read, EvThreadExit 7] (machine_of (C', H', s'))"
proof (rule library_simulates_machine)
  show "lib_reach sample_lib_env (\<lambda>_ _ _ _. Inl NullDeref) (\<lambda>_. 16) {} {empty_tag} {} sample_run" by (rule sample_run_reach(1))
  show "all_allowed config_ok (config_step sample_lib_env (\<lambda>_ _ _ _. Inl NullDeref)) [sample_read, EvThreadExit 7] ({}, {empty_tag}, sample_run)"
    using sample_read_ok(1) by (simp add: config_ok_def config_step_def split: sum.split prod.split del: ev_ok.simps(1-5))
qed simp

end
