(* ===== verification/Spec2Isabelle.thy ===== *)
theory Spec2Isabelle
  imports Func_Sinks Descriptors Taint_Machine
begin

text \<open>
  \<^bold>\<open>A verification development of libdft-dr.\<close>

  libdft-dr is a dynamic taint engine for x86-64 programs under DynamoRIO. Every byte of the application's
  memory and registers carries a label, the id of an interned set of offsets of the input file. System calls
  that read the tracked file paint the bytes they return; every translated instruction gets clean calls to
  handlers that move and unite labels; comparisons and address computations report the sets of their
  operands. Functions of the C library can be summarised, and code that a static analyser proved untainted
  is skipped.

  \<^bold>\<open>The parts and their theories.\<close>

  \<^item> \<open>Prelude\<close>: machine types, the faults of the code and the result type that carries them, counted loops
    with their proof rules, number formatting.
  \<^item> \<open>Ewah\<close>, \<open>Ewah_Semantics\<close>: the compressed bitmap of \<^verbatim>\<open>src/third_party/EWAHBoolArray\<close> as far as
    \<^verbatim>\<open>src/tagmap.cpp\<close> calls it, and its meaning as a set of offsets; the interface \<open>offset_set\<close>.
  \<^item> \<open>Label_Table\<close>: the intern table and the memo of unions of \<^verbatim>\<open>src/tagmap.cpp\<close>; the interface
    \<open>label_algebra\<close>: ids are equal exactly when their sets are, \<^verbatim>\<open>tag_combine\<close> is union, the table only grows.
  \<^item> \<open>Shadow_Memory\<close>: the page table of three levels of \<^verbatim>\<open>src/tagmap.h\<close>; the interface \<open>shadow_store\<close> of a
    flat store.
  \<^item> \<open>Dr_Api\<close>, \<open>Engine\<close>, \<open>Handlers\<close>: the data of DynamoRIO's interface, the engine state (tables, shadow
    memory, thread contexts, output files, sinks of \<^verbatim>\<open>src/src/api_sinks.cpp\<close>) and every clean-call target of
    \<^verbatim>\<open>src/libdft_core_dr.cpp\<close>.
  \<^item> \<open>Taint\<close>, \<open>Propagation\<close>, \<open>Refine_Moves\<close>, \<open>Refine_Shifts\<close>, \<open>Refine_Records\<close>, \<open>Records\<close>, \<open>Soundness\<close>,
    \<open>Taint_Order\<close>: the abstract state (a set of offsets per register byte and memory byte), the specification of
    each handler, the refinement proofs, what the records and lines that leave the engine may contain, and
    soundness of sequences of clean calls of interleaved threads. \<open>Taint_Order\<close> makes taint states a
    semilattice and shows that propagation commutes with joins: offsets do not influence each other.
  \<^item> \<open>Instrumentation\<close>, \<open>Instrument_Safety\<close>: the inserters and the opcode router of \<^verbatim>\<open>src/libdft_core_dr.cpp\<close>;
    scratch registers are balanced, all register spans are in bounds, and what is inserted has the
    specified effect.
  \<^item> \<open>Syscall_Table\<close>, \<open>Syscalls\<close>, \<open>Sources\<close>, \<open>Descriptors\<close>: the descriptor table and the hooks of
    \<^verbatim>\<open>src/syscall_desc_dr.cpp\<close>, the file helpers of \<^verbatim>\<open>src/osutils_dr.cpp\<close>, the thread and system call events of
    \<^verbatim>\<open>src/libdft_api_dr.cpp\<close>; each system call has an effect on the offset sets and the events implement it;
    a descriptor of the source is never missed along any calls, failing ones included, and \<open>Descriptors\<close>
    says which calls make the tracked set too large.
  \<^item> \<open>Tag_Api\<close>, \<open>Api_Runs\<close>: the public functions of \<^verbatim>\<open>src/src/api_tag.cpp\<close>, \<^verbatim>\<open>src/src/api_sources.cpp\<close>, the
    accessors of sink contexts, and the names of \<^verbatim>\<open>src/include/libdft_dr/libdft64_compat.h\<close>; and every call of
    this interface as a step that returns, keeps the engine well-formed and the set of every tag.
  \<^item> \<open>Mnt\<close>, \<open>Mnt_Correct\<close>: the tables of instructions to skip of \<^verbatim>\<open>src/mnt_consumer_dr.cpp\<close>; the query
    decides membership in the specified set whatever the cache and the lazy sorting did before, and exactly
    what it answers for nested ranges; the file format is read back; the interface \<open>skip_filter\<close>.
  \<^item> \<open>Summaries\<close>, \<open>Summaries_Correct\<close>: the configuration parser and lookup of \<^verbatim>\<open>src/sdft_summaries_dr.cpp\<close>;
    a printed configuration is parsed back.
  \<^item> \<open>Sdft_Hook\<close>, \<open>Sdft_Correct\<close>: the shape handlers and the wrapping of symbols of \<^verbatim>\<open>src/sdft_hook_dr.cpp\<close>,
    against a specification of every shape.
  \<^item> \<open>Lifecycle\<close>, \<open>Whole_Run\<close>: \<^verbatim>\<open>init\<close>, \<^verbatim>\<open>shutdown\<close>, \<^verbatim>\<open>libdft_setup\<close>, the exit event, the event for every
    translated instruction and the function sinks; then all components under one relation of reachable
    configurations: every allowed event (calls of the client interface included) returns and keeps the
    engine well-formed, registrations of sinks and sources included; every offset found in a register, in
    memory, in a tag of the client, in the record files or in what a sink is handed was painted by a system
    call or by the client; tags keep their sets.
  \<^item> \<open>Simulation\<close>, \<open>Taint_Machine\<close>: the interfaces \<open>simulation\<close> and \<open>functional_simulation\<close> between a program
    that may fault and an abstract machine, event by event and along runs; and the machine that the library
    implements: sets of offsets for registers and memory, the threads, the sets of the client's tags. Labels,
    tables, pages, caches and files do not occur in it, and the library simulates it along every run.
  \<^item> \<open>Telemetry\<close>: \<^verbatim>\<open>finish\<close>, the report of the counters at exit.
  \<^item> \<open>Clients\<close>, \<open>Client_Records\<close>, \<open>Client_Checks\<close>, \<open>Func_Sinks\<close>: the front end \<^verbatim>\<open>src/tools/libdft-dta-dr.cpp\<close> and the four
    clients of \<^verbatim>\<open>src/clients\<close>. \<open>Client_Records\<close> relates two runs under the same events, one that writes the
    records itself and one with a client that writes what its sinks are handed; the interface
    \<open>record_client\<close> is what such a client has to promise, and \<^verbatim>\<open>vuzzer_cmp_sink\<close> keeps it, so its files are
    those of the front end. \<open>Client_Checks\<close> has the unit tests of \<^verbatim>\<open>synthetic_unit\<close>, the dump of
    \<^verbatim>\<open>file_introspect\<close>, the alerts of \<^verbatim>\<open>egress_sanitizer\<close>; \<open>Func_Sinks\<close> follows a function sink from its
    registration through any run to the calls of its callback.

  \<^bold>\<open>Conventions.\<close> State is passed explicitly: the records \<open>engine\<close>, \<open>sys_state\<close>, \<open>dft_state\<close> and \<open>lib_state\<close>
  extend one another in the order in which the components depend on each other. An operation that can
  dereference a null pointer, leave the bounds of an array or end the process returns a fault or a new
  state (\<open>'a res\<close>); a theorem that an operation works says that it returns a state. Addresses, labels and
  file offsets are words of their widths; \<^verbatim>\<open>size_t\<close> counters that cannot wrap are naturals. Loops of the code
  are recursion on the number of iterations, or on a measure: the scans for a terminator in \<open>Sdft_Hook\<close> and
  the bisections of \<open>Mnt\<close>. What is not in the repository is a parameter: DynamoRIO at
  run time (\<open>dr_env\<close>), while it translates (\<open>dr_insert\<close>, with \<open>drreg_ok\<close> and \<open>dr_regs_ok\<close> as the laws that
  the code relies on), the kernel (\<open>os_env\<close>), files and environment variables (\<open>mnt_env\<close>, \<open>lib_env\<close>), sizes of
  types of system headers.

  \<^bold>\<open>Conditions of the main theorems.\<close> A label table has 2^32 ids, so theorems ask for room for the sets
  that a step may add; addresses above 2^47 have no shadow bytes, and the code faults on reading them, so
  memory operands must lie below; a copy must not overlap itself upwards.

  \<^bold>\<open>Not modelled.\<close> The second EWAH implementation and the plain bit array, which nothing includes, and the
  operations of the bitmap that the label table does not call; the parser of command line options, which is
  not in the repository (the values of the options are parameters); the kernel's file positions (what a seek
  answers is a parameter of each event; the one seek of the library that moves a position, in the mmap hook,
  is only recorded in \<open>os_log\<close>); messages to the standard error stream other than the report at exit;
  allocation failure; data races between threads, which the library excludes by supporting single-threaded
  targets only (events of several threads interleave here, but each is atomic).
\<close>

end
